(* ===== verification/Prelude.thy ===== *)
theory Prelude
  imports Main "HOL-Library.Word"
begin

text \<open>
  Shared vocabulary of the development: the fixed-width integer types of
  \<^verbatim>\<open>core/integers.h\<close>, the state-and-error computations in which every stateful
  operation of the simulator is written, the operation that overwrites a stretch of a byte
  list, and the generic lemmas on words, lists and computations that the component theories use.

  A computation of type \<open>('s, 'e, 'a) sm\<close> takes a state and returns a result or an error together
  with the state it leaves behind.  The state survives an error because a C++ exception does not
  undo the writes made before it was thrown.
\<close>

named_theorems sm_simps "unfolding rules for state-and-error computations"
named_theorems word_bytes "splitting and joining of words and bytes"

type_synonym u8 = "8 word"
type_synonym u16 = "16 word"
type_synonym u32 = "32 word"
type_synonym u64 = "64 word"

unbundle bit_operations_syntax

section \<open>State-and-error computations\<close>

type_synonym ('s, 'e, 'a) sm = "'s \<Rightarrow> ('e + 'a) \<times> 's"

definition ret :: "'a \<Rightarrow> ('s, 'e, 'a) sm" where
  "ret a = (\<lambda>s. (Inr a, s))"

definition throw :: "'e \<Rightarrow> ('s, 'e, 'a) sm" where
  "throw e = (\<lambda>s. (Inl e, s))"

definition andthen :: "('s, 'e, 'a) sm \<Rightarrow> ('a \<Rightarrow> ('s, 'e, 'b) sm) \<Rightarrow> ('s, 'e, 'b) sm" where
  "andthen m f = (\<lambda>s. case m s of (Inl e, s') \<Rightarrow> (Inl e, s') | (Inr a, s') \<Rightarrow> f a s')"

definition gets :: "('s \<Rightarrow> 'a) \<Rightarrow> ('s, 'e, 'a) sm" where
  "gets f = (\<lambda>s. (Inr (f s), s))"

definition modify :: "('s \<Rightarrow> 's) \<Rightarrow> ('s, 'e, unit) sm" where
  "modify f = (\<lambda>s. (Inr (), f s))"

text \<open>Running a computation on a part of a larger state (a member object of a class).\<close>

definition zoom :: "('s \<Rightarrow> 't) \<Rightarrow> ('t \<Rightarrow> 's \<Rightarrow> 's) \<Rightarrow> ('t, 'e, 'a) sm \<Rightarrow> ('s, 'e, 'a) sm" where
  "zoom get put m = (\<lambda>s. case m (get s) of (r, t) \<Rightarrow> (r, put t s))"

definition when_sm :: "bool \<Rightarrow> ('s, 'e, unit) sm \<Rightarrow> ('s, 'e, unit) sm" where
  "when_sm b m = (if b then m else ret ())"

text \<open>The state a computation leaves, and whether it returned.\<close>

definition final :: "('s, 'e, 'a) sm \<Rightarrow> 's \<Rightarrow> 's" where
  "final m s = snd (m s)"

definition returns :: "('s, 'e, 'a) sm \<Rightarrow> 's \<Rightarrow> bool" where
  "returns m s \<longleftrightarrow> (case fst (m s) of Inl _ \<Rightarrow> False | Inr _ \<Rightarrow> True)"

lemma ret_apply [simp, sm_simps]: "ret a s = (Inr a, s)"
  by (simp add: ret_def)

lemma throw_apply [simp, sm_simps]: "throw e s = (Inl e, s)"
  by (simp add: throw_def)

lemma gets_apply [simp, sm_simps]: "gets f s = (Inr (f s), s)"
  by (simp add: gets_def)

lemma modify_apply [simp, sm_simps]: "modify f s = (Inr (), f s)"
  by (simp add: modify_def)

lemma andthen_Inr: "m s = (Inr a, s') \<Longrightarrow> andthen m f s = f a s'"
  by (simp add: andthen_def)

lemma andthen_Inl: "m s = (Inl e, s') \<Longrightarrow> andthen m f s = (Inl e, s')"
  by (simp add: andthen_def)

lemma andthen_ret [simp, sm_simps]: "andthen (ret a) f = f a"
  by (simp add: andthen_def fun_eq_iff)

lemma andthen_throw [simp, sm_simps]: "andthen (throw e) f = throw e"
  by (simp add: andthen_def fun_eq_iff)

lemma andthen_gets [simp, sm_simps]: "andthen (gets g) f s = f (g s) s"
  by (simp add: andthen_def)

lemma andthen_modify [simp, sm_simps]: "andthen (modify g) f s = f () (g s)"
  by (simp add: andthen_def)

lemma andthen_assoc: "andthen (andthen m f) g = andthen m (\<lambda>a. andthen (f a) g)"
  by (auto simp: andthen_def fun_eq_iff split: prod.splits sum.splits)

lemma andthen_right_ret [simp]: "andthen m ret = m"
  by (auto simp: andthen_def fun_eq_iff split: prod.splits sum.splits)

lemma when_sm_True [simp, sm_simps]: "when_sm True m = m"
  by (simp add: when_sm_def)

lemma when_sm_False [simp, sm_simps]: "when_sm False m = ret ()"
  by (simp add: when_sm_def)

text \<open>
  Reasoning rule for invariants: a property of the state that every part of a computation keeps
  is kept by the whole, whether it returns or fails.
\<close>

definition keeps :: "('s \<Rightarrow> bool) \<Rightarrow> ('s, 'e, 'a) sm \<Rightarrow> bool" where
  "keeps P m \<longleftrightarrow> (\<forall>s. P s \<longrightarrow> P (final m s))"

named_theorems keeps_intros "introduction rules for invariants of computations"

lemma keepsI: "(\<And>s. P s \<Longrightarrow> P (final m s)) \<Longrightarrow> keeps P m"
  by (simp add: keeps_def)

lemma keepsD: "keeps P m \<Longrightarrow> P s \<Longrightarrow> P (final m s)"
  by (simp add: keeps_def)

lemma keeps_ret [keeps_intros]: "keeps P (ret a)"
  by (simp add: keeps_def final_def)

lemma keeps_throw [keeps_intros]: "keeps P (throw e)"
  by (simp add: keeps_def final_def)

lemma keeps_gets [keeps_intros]: "keeps P (gets f)"
  by (simp add: keeps_def final_def)

lemma keeps_modify: "(\<And>s. P s \<Longrightarrow> P (f s)) \<Longrightarrow> keeps P (modify f)"
  by (simp add: keeps_def final_def)

lemma keeps_andthen [keeps_intros]:
  "keeps P m \<Longrightarrow> (\<And>a. keeps P (f a)) \<Longrightarrow> keeps P (andthen m f)"
  unfolding keeps_def final_def andthen_def
  by (auto split: prod.splits sum.splits; metis snd_conv)

lemma keeps_when [keeps_intros]: "keeps P m \<Longrightarrow> keeps P (when_sm b m)"
  by (simp add: when_sm_def keeps_ret)

lemma keeps_if [keeps_intros]: "keeps P m \<Longrightarrow> keeps P n \<Longrightarrow> keeps P (if b then m else n)"
  by simp

lemma keeps_let [keeps_intros]: "(\<And>x. keeps P (f x)) \<Longrightarrow> keeps P (let x = e in f x)"
  by simp

lemma keeps_zoom:
  "(\<And>s. P s \<Longrightarrow> Q (get s)) \<Longrightarrow> (\<And>s t. P s \<Longrightarrow> Q t \<Longrightarrow> P (put t s)) \<Longrightarrow> keeps Q m
   \<Longrightarrow> keeps P (zoom get put m)"
  unfolding keeps_def final_def zoom_def by (force split: prod.splits)

section \<open>Overwriting a stretch of a list\<close>

definition patch :: "'a list \<Rightarrow> nat \<Rightarrow> 'a list \<Rightarrow> 'a list" where
  "patch xs i ys = take i xs @ ys @ drop (i + length ys) xs"

lemma length_patch [simp]: "i + length ys \<le> length xs \<Longrightarrow> length (patch xs i ys) = length xs"
  by (simp add: patch_def)

lemma nth_patch:
  "i + length ys \<le> length xs \<Longrightarrow> k < length xs \<Longrightarrow>
   patch xs i ys ! k = (if i \<le> k \<and> k < i + length ys then ys ! (k - i) else xs ! k)"
  by (auto simp: patch_def nth_append min_def)

lemma take_drop_patch:
  "i + length ys \<le> length xs \<Longrightarrow> take (length ys) (drop i (patch xs i ys)) = ys"
  by (simp add: patch_def)

lemma patch_Nil [simp]: "i \<le> length xs \<Longrightarrow> patch xs i [] = xs"
  by (simp add: patch_def)

lemma patch_patch_same:
  "i + length ys \<le> length xs \<Longrightarrow> length zs = length ys \<Longrightarrow> patch (patch xs i ys) i zs = patch xs i zs"
  by (simp add: patch_def)

lemma take_drop_nth: "i + n \<le> length xs \<Longrightarrow> take n (drop i xs) = map (\<lambda>k. xs ! (i + k)) [0..<n]"
  by (rule nth_equalityI) auto

section \<open>Bytes of words\<close>

text \<open>A statement about every byte is a statement about a finite list, which evaluates.\<close>

lemma all_u8: "(\<forall>b::u8. P b) \<longleftrightarrow> list_all (\<lambda>n. P (word_of_nat n)) [0..<256]"
proof
  assume "\<forall>b::u8. P b"
  then show "list_all (\<lambda>n. P (word_of_nat n)) [0..<256]"
    by (simp add: list_all_iff)
next
  assume L: "list_all (\<lambda>n. P (word_of_nat n)) [0..<256]"
  show "\<forall>b::u8. P b"
  proof
    fix b :: u8
    have "unat b < 256" using unsigned_less [of b] by simp
    with L have "P (word_of_nat (unat b))" unfolding list_all_iff by (metis atLeastLessThan_upt atLeast0LessThan lessThan_iff)
    then show "P b" by simp
  qed
qed

definition hi_byte :: "u16 \<Rightarrow> u8" where
  "hi_byte w = ucast (drop_bit 8 w)"

definition lo_byte :: "u16 \<Rightarrow> u8" where
  "lo_byte w = ucast w"

definition join_bytes :: "u8 \<Rightarrow> u8 \<Rightarrow> u16" where
  "join_bytes h l = push_bit 8 (ucast h) OR ucast l"

lemma join_hi_lo [simp, word_bytes]: "join_bytes (hi_byte w) (lo_byte w) = w"
  by (rule bit_word_eqI) (auto simp: join_bytes_def hi_byte_def lo_byte_def bit_simps)

lemma hi_join [simp, word_bytes]: "hi_byte (join_bytes h l) = h"
  by (rule bit_word_eqI) (auto simp: join_bytes_def hi_byte_def bit_simps dest: bit_imp_le_length)

lemma lo_join [simp, word_bytes]: "lo_byte (join_bytes h l) = l"
  by (rule bit_word_eqI) (auto simp: join_bytes_def lo_byte_def bit_simps)

lemma join_bytes_and: "join_bytes h l AND join_bytes h' l' = join_bytes (h AND h') (l AND l')"
  by (rule bit_word_eqI) (auto simp: join_bytes_def bit_simps dest: bit_imp_le_length)

end
