(* ===== verification/Ascii_Text.thy ===== *)
theory Ascii_Text
  imports Prelude
begin

text \<open>
  Case conversion, case-insensitive comparison and the FNV-1a hashes:
  \<^verbatim>\<open>core/ds/string_compare.{hpp,cpp}\<close>, \<^verbatim>\<open>core/ds/hash/fnv.{hpp,cpp}\<close> and the case functions of
  \<^verbatim>\<open>core/math/bitmanip/strings.hpp\<close>.  \<open>std::tolower\<close> and \<open>std::toupper\<close> are those of the
  \<open>"C"\<close> locale, which the program never leaves; a string is a list of 8-bit \<open>char\<close>s.
  The hash tables of the program keyed by strings without regard to case are modelled by
  \<open>ci_find\<close> on the list of their insertions.
\<close>

section \<open>Case conversion\<close>

definition tolower_c :: "char \<Rightarrow> char" where
  "tolower_c c = (let n = of_char c :: nat in if 65 \<le> n \<and> n \<le> 90 then char_of (n + 32) else c)"

definition toupper_c :: "char \<Rightarrow> char" where
  "toupper_c c = (let n = of_char c :: nat in if 97 \<le> n \<and> n \<le> 122 then char_of (n - 32) else c)"

definition to_upper :: "string \<Rightarrow> string" where
  "to_upper s = map toupper_c s"

definition to_lower :: "string \<Rightarrow> string" where
  "to_lower s = map tolower_c s"

lemma of_char_bound: "(of_char c :: nat) < 256"
  using of_char_mod_256 [of c, where 'a = nat] by (metis mod_less_divisor zero_less_numeral)

lemma of_char_char_of: "n < 256 \<Longrightarrow> (of_char (char_of n) :: nat) = n"
  by (simp add: of_char_of)

lemma tolower_idem [simp]: "tolower_c (tolower_c c) = tolower_c c"
  by (auto simp: tolower_c_def Let_def of_char_of)

lemma toupper_idem [simp]: "toupper_c (toupper_c c) = toupper_c c"
  by (auto simp: toupper_c_def Let_def of_char_of)

lemma tolower_toupper [simp]: "tolower_c (toupper_c c) = tolower_c c"
  by (auto simp: tolower_c_def toupper_c_def Let_def of_char_of)

lemma toupper_tolower [simp]: "toupper_c (tolower_c c) = toupper_c c"
  by (auto simp: tolower_c_def toupper_c_def Let_def of_char_of)

section \<open>Comparison without regard to case\<close>

text \<open>\<^verbatim>\<open>ci_eq::operator()\<close>: lengths first, then character by character in lower case.\<close>

definition ci_eq :: "string \<Rightarrow> string \<Rightarrow> bool" where
  "ci_eq a b \<longleftrightarrow> length a = length b \<and> list_all (\<lambda>(x, y). tolower_c x = tolower_c y) (zip a b)"

text \<open>\<^verbatim>\<open>ci_char_traits::compare\<close> on the first \<open>n\<close> characters: -1, 0 or 1.\<close>

definition ci_lt :: "char \<Rightarrow> char \<Rightarrow> bool" where
  "ci_lt c1 c2 \<longleftrightarrow> sint (of_char (toupper_c c1) :: u8) < sint (of_char (toupper_c c2) :: u8)"

fun ci_compare :: "string \<Rightarrow> string \<Rightarrow> nat \<Rightarrow> int" where
  "ci_compare (x # xs) (y # ys) (Suc n) =
     (if ci_lt x y then -1 else if ci_lt y x then 1 else ci_compare xs ys n)"
| "ci_compare _ _ _ = 0"

lemma ci_eq_map: "ci_eq a b \<longleftrightarrow> map tolower_c a = map tolower_c b"
proof -
  have "length a = length b \<Longrightarrow>
    list_all (\<lambda>(x, y). tolower_c x = tolower_c y) (zip a b) \<longleftrightarrow> map tolower_c a = map tolower_c b"
    by (induction a b rule: list_induct2) auto
  then show ?thesis
    unfolding ci_eq_def by (metis length_map)
qed

lemma ci_eq_refl [simp]: "ci_eq a a"
  by (simp add: ci_eq_map)

lemma ci_eq_to_upper [simp]: "ci_eq a (to_upper b) = ci_eq a b"
  by (simp add: ci_eq_map to_upper_def comp_def)

lemma ci_eq_to_lower [simp]: "ci_eq a (to_lower b) = ci_eq a b"
  by (simp add: ci_eq_map to_lower_def comp_def)

section \<open>Hashes\<close>

definition FNV_offset_basis :: u64 where "FNV_offset_basis = 0xcbf29ce484222325"
definition FNV_prime :: u64 where "FNV_prime = 0x100000001b3"

definition fnv_1a :: "string \<Rightarrow> u64 \<Rightarrow> u64" where
  "fnv_1a s seed = foldl (\<lambda>h c. (h XOR of_char c) * FNV_prime) seed s"

text \<open>
  \<^verbatim>\<open>case_insensitive_fnv_1a\<close> folds each character to lower case first.  The \<open>char\<close> that
  \<^verbatim>\<open>to_lower\<close> returns is signed on the supported hosts, so its conversion to \<open>size_t\<close> extends the sign.
\<close>

definition case_insensitive_fnv_1a :: "string \<Rightarrow> u64" where
  "case_insensitive_fnv_1a s =
     foldl (\<lambda>h c. (h XOR scast (of_char (tolower_c c) :: u8)) * FNV_prime) FNV_offset_basis s"

definition ci_hash :: "string \<Rightarrow> u64" where
  "ci_hash s = case_insensitive_fnv_1a s"

lemma ci_fnv_map:
  "foldl (\<lambda>h c. (h XOR scast (of_char (tolower_c c) :: u8)) * FNV_prime) seed s =
   foldl (\<lambda>h c. (h XOR scast (of_char c :: u8)) * FNV_prime) seed (map tolower_c s)"
  by (induction s arbitrary: seed) auto

lemma fnv_1a_append: "fnv_1a (s @ t) seed = fnv_1a t (fnv_1a s seed)"
  by (simp add: fnv_1a_def)

section \<open>Tables keyed without regard to case\<close>

text \<open>
  A \<open>std::unordered_map<std::string, V, ci_hash, ci_eq>\<close> filled by \<open>m[key] = value\<close>: the last
  insertion under an equal key is the one found.
\<close>

definition ci_find :: "(string \<times> 'v) list \<Rightarrow> string \<Rightarrow> 'v option" where
  "ci_find kvs s = foldl (\<lambda>r (k, v). if ci_eq k s then Some v else r) None kvs"

text \<open>A \<open>std::map<K, std::string>\<close> filled the same way.\<close>

definition map_find :: "('k \<times> 'v) list \<Rightarrow> 'k \<Rightarrow> 'v option" where
  "map_find kvs k = foldl (\<lambda>r (k', v). if k' = k then Some v else r) None kvs"

lemma map_find_SomeD: "map_find kvs k = Some v \<Longrightarrow> (k, v) \<in> set kvs"
  by (induction kvs rule: rev_induct) (auto simp: map_find_def split: if_splits)

lemma ci_find_snoc: "ci_find (kvs @ [(k, v)]) s = (if ci_eq k s then Some v else ci_find kvs s)"
  by (simp add: ci_find_def)

lemma ci_find_cong: "(\<And>k. ci_eq k s = ci_eq k t) \<Longrightarrow> ci_find kvs s = ci_find kvs t"
  by (simp add: ci_find_def)

lemma ci_find_ci_eq: "ci_eq s t \<Longrightarrow> ci_find kvs s = ci_find kvs t"
  by (rule ci_find_cong) (simp add: ci_eq_map)

lemma ci_find_unique:
  "distinct (map (map tolower_c \<circ> fst) kvs) \<Longrightarrow> (k, v) \<in> set kvs \<Longrightarrow> ci_find kvs k = Some v"
proof (induction kvs rule: rev_induct)
  case (snoc kv kvs)
  obtain k' v' where kv: "kv = (k', v')" by (cases kv)
  show ?case
  proof (cases "(k, v) = kv")
    case True
    then show ?thesis by (simp add: kv ci_find_snoc)
  next
    case False
    then have mem: "(k, v) \<in> set kvs" using snoc.prems(2) by auto
    then have "map tolower_c k \<noteq> map tolower_c k'" using snoc.prems(1) by (force simp: kv)
    then show ?thesis using snoc mem by (simp add: kv ci_find_snoc ci_eq_map)
  qed
qed simp

lemma ci_find_to_lower [simp]: "ci_find kvs (to_lower s) = ci_find kvs s"
  by (rule ci_find_cong) simp

lemma ci_find_to_upper [simp]: "ci_find kvs (to_upper s) = ci_find kvs s"
  by (rule ci_find_cong) simp

end
