(* ===== verification/Isa_Shared.thy ===== *)
theory Isa_Shared
  imports Ascii_Text
begin

text \<open>
  What the Pep/9 and Pep/10 instruction sets share: the simulator behaviours and addressing modes of
  \<^verbatim>\<open>pep_shared_ops.hpp\<close>, the opcode arithmetic of \<^verbatim>\<open>pep_shared_utils.hpp\<close>, the enumerations that
  \<^verbatim>\<open>pep9.hpp\<close> and \<^verbatim>\<open>pep10.hpp\<close> declare identically (addressing modes, registers, status bits), and
  the lambdas with which both \<^verbatim>\<open>initOpcodes\<close> functions fill their two 256-entry tables.
  Enumerators carry a prefix naming their enumeration, since several of them share a name.
\<close>

named_theorems isa_tables "definitions that evaluate when a decode table is computed"

section \<open>Behaviours and addressing modes of the simulator\<close>

datatype shared_op_behavior =
    B_INVALID | B_STOP | B_UNIMPL | B_RET | B_SRET | B_MOVFLGA | B_MOVAFLG | B_MOVSPA | B_MOVASP
  | B_HW_NOP | B_NEG | B_ASL | B_ASR | B_NOT | B_ROL | B_ROR | B_BR | B_BRLE | B_BRLT | B_BREQ
  | B_BRNE | B_BRGE | B_BRGT | B_BRV | B_BRC | B_CALL | B_SCALL | B_TRAP_CALL | B_ADDSP | B_SUBSP
  | B_ADD | B_SUB | B_AND | B_OR | B_XOR | B_CPW | B_CPB | B_LDW | B_LDB | B_STW | B_STB
  | B_MAX_VALUE

datatype shared_addr_mode =
    SA_Unary | SA_I | SA_D | SA_N | SA_S | SA_SF | SA_X | SA_SX | SA_SFX

text \<open>The field \<open>target\<close> holds the number of a register; -1 stands for none.\<close>

record shared_op =
  behavior :: shared_op_behavior
  addr :: shared_addr_mode
  target :: u8

text \<open>A value-initialised \<^verbatim>\<open>SharedOp{}\<close> and one built without naming a target.\<close>

definition shared_op_default :: shared_op where
  "shared_op_default = \<lparr>behavior = B_INVALID, addr = SA_Unary, target = 255\<rparr>"

definition sop :: "shared_op_behavior \<Rightarrow> shared_addr_mode \<Rightarrow> shared_op" where
  [isa_tables]: "sop b a = \<lparr>behavior = b, addr = a, target = 255\<rparr>"

definition sop_r :: "shared_op_behavior \<Rightarrow> shared_addr_mode \<Rightarrow> u8 \<Rightarrow> shared_op" where
  [isa_tables]: "sop_r b a r = \<lparr>behavior = b, addr = a, target = r\<rparr>"

section \<open>Enumerations declared identically by both instruction sets\<close>

datatype addressing_mode =
    AM_NONE | AM_I | AM_D | AM_N | AM_S | AM_SF | AM_X | AM_SX | AM_SFX | AM_ALL | AM_INVALID

datatype pep_register = R_A | R_X | R_SP | R_PC | R_IS | R_OS | R_INVALID

datatype csr = CSR_N | CSR_Z | CSR_V | CSR_C

fun register_u8 :: "pep_register \<Rightarrow> u8" where
  "register_u8 R_A = 0"
| "register_u8 R_X = 1"
| "register_u8 R_SP = 2"
| "register_u8 R_PC = 3"
| "register_u8 R_IS = 4"
| "register_u8 R_OS = 5"
| "register_u8 R_INVALID = 6"

text \<open>
  The cast \<open>static_cast<Register>(v)\<close>.  A value past the enumerators behaves as \<open>INVALID\<close> does in
  every switch of the program, which treat both in their \<open>default\<close> branch.
\<close>

definition register_of_u8 :: "u8 \<Rightarrow> pep_register" where
  "register_of_u8 v =
     (if v = 0 then R_A else if v = 1 then R_X else if v = 2 then R_SP else if v = 3 then R_PC
      else if v = 4 then R_IS else if v = 5 then R_OS else R_INVALID)"

lemma register_of_register_u8 [simp]: "register_of_u8 (register_u8 r) = r"
  by (cases r) (simp_all add: register_of_u8_def)

fun csr_index :: "csr \<Rightarrow> nat" where
  "csr_index CSR_N = 0"
| "csr_index CSR_Z = 1"
| "csr_index CSR_V = 2"
| "csr_index CSR_C = 3"

section \<open>Opcode arithmetic\<close>

text \<open>
  \<^verbatim>\<open>isa::detail::opcode(mnemonic, addr)\<close>: \<open>base\<close>, \<open>br\<close> and \<open>call\<close> are the byte values of the
  mnemonic, of \<open>BR\<close> and of \<open>CALL\<close>.  The modes that no instruction encodes throw
  \<open>std::logic_error\<close>, which is \<open>None\<close> here.
\<close>

definition opcode_with_mode :: "u8 \<Rightarrow> u8 \<Rightarrow> u8 \<Rightarrow> addressing_mode \<Rightarrow> u8 option" where
  "opcode_with_mode br call base a =
     (if base \<ge> br \<and> base \<le> call then Some (base OR (if a = AM_X then 1 else 0))
      else case a of
        AM_NONE \<Rightarrow> None
      | AM_I \<Rightarrow> Some (base OR 0x0)
      | AM_D \<Rightarrow> Some (base OR 0x1)
      | AM_N \<Rightarrow> Some (base OR 0x2)
      | AM_S \<Rightarrow> Some (base OR 0x3)
      | AM_SF \<Rightarrow> Some (base OR 0x4)
      | AM_X \<Rightarrow> Some (base OR 0x5)
      | AM_SX \<Rightarrow> Some (base OR 0x6)
      | AM_SFX \<Rightarrow> Some (base OR 0x7)
      | AM_ALL \<Rightarrow> None
      | AM_INVALID \<Rightarrow> None)"

section \<open>Decode tables\<close>

record ('m, 't) instruction =
  mnemon :: 'm
  itype :: 't
  unary :: bool

record ('m, 't) opcode_entry =
  instr :: "('m, 't) instruction"
  mode :: addressing_mode
  valid :: bool

definition mk_instr :: "'m \<Rightarrow> 't \<Rightarrow> bool \<Rightarrow> ('m, 't) instruction" where
  [isa_tables]: "mk_instr m t u = \<lparr>mnemon = m, itype = t, unary = u\<rparr>"

definition mk_entry :: "('m, 't) instruction \<Rightarrow> addressing_mode \<Rightarrow> bool \<Rightarrow> ('m, 't) opcode_entry" where
  [isa_tables]: "mk_entry i a v = \<lparr>instr = i, mode = a, valid = v\<rparr>"

text \<open>
  The two tables \<open>mn\<close> and \<open>bh\<close> under construction.  An index is the \<open>uint8_t\<close> value of a
  mnemonic, below 256 in every statement of both \<open>initOpcodes\<close> functions.
\<close>

type_synonym ('m, 't) tables = "('m, 't) opcode_entry list \<times> shared_op list"

definition set_mn :: "nat \<Rightarrow> ('m, 't) opcode_entry \<Rightarrow> ('m, 't) tables \<Rightarrow> ('m, 't) tables" where
  "set_mn i e = (\<lambda>(mn, bh). (mn[i := e], bh))"

definition set_bh :: "nat \<Rightarrow> shared_op \<Rightarrow> ('m, 't) tables \<Rightarrow> ('m, 't) tables" where
  "set_bh i o' = (\<lambda>(mn, bh). (mn, bh[i := o']))"

definition patch_valid :: "nat \<Rightarrow> bool \<Rightarrow> ('m, 't) tables \<Rightarrow> ('m, 't) tables" where
  "patch_valid i v = (\<lambda>(mn, bh). (mn[i := (mn ! i)\<lparr>valid := v\<rparr>], bh))"

definition run_steps :: "('s \<Rightarrow> 's) list \<Rightarrow> 's \<Rightarrow> 's" where
  "run_steps fs s = foldl (\<lambda>s f. f s) s fs"

definition put_all :: "nat \<Rightarrow> 'a list \<Rightarrow> 'a list \<Rightarrow> 'a list" where
  "put_all base es xs = foldl (\<lambda>ys (k, e). ys[base + k := e]) xs (zip [0..<length es] es)"

definition add_ix :: "('m \<Rightarrow> nat) \<Rightarrow> ('m, 't) instruction \<Rightarrow> ('m, 't) tables \<Rightarrow> ('m, 't) tables" where
  "add_ix code i = (\<lambda>(mn, bh).
     (let base = code (mnemon i) in
      (put_all base [mk_entry i AM_I True, mk_entry i AM_X True] mn, bh)))"

definition bh_ix :: "nat \<Rightarrow> shared_op_behavior \<Rightarrow> ('m, 't) tables \<Rightarrow> ('m, 't) tables" where
  "bh_ix base b = (\<lambda>(mn, bh). (mn, put_all base [sop b SA_I, sop b SA_X] bh))"

definition bh_unary_aaa ::
  "nat \<Rightarrow> shared_op_behavior \<Rightarrow> pep_register \<Rightarrow> ('m, 't) tables \<Rightarrow> ('m, 't) tables" where
  "bh_unary_aaa base b r = (\<lambda>(mn, bh).
     (let t = register_u8 r in
      (mn, put_all base
        [sop_r b SA_Unary t, sop_r b SA_Unary t, sop_r b SA_Unary t, sop_r b SA_Unary t,
         sop_r b SA_Unary t, sop_r b SA_Unary t, sop_r b SA_Unary t, sop_r b SA_Unary t] bh)))"

definition bh_all_aaa ::
  "nat \<Rightarrow> shared_op_behavior \<Rightarrow> pep_register \<Rightarrow> ('m, 't) tables \<Rightarrow> ('m, 't) tables" where
  "bh_all_aaa base b r = (\<lambda>(mn, bh).
     (let t = register_u8 r in
      (mn, put_all base
        [sop_r b SA_I t, sop_r b SA_D t, sop_r b SA_N t, sop_r b SA_S t,
         sop_r b SA_SF t, sop_r b SA_X t, sop_r b SA_SX t, sop_r b SA_SFX t] bh)))"

definition bh_noi_aaa ::
  "nat \<Rightarrow> shared_op_behavior \<Rightarrow> pep_register \<Rightarrow> ('m, 't) tables \<Rightarrow> ('m, 't) tables" where
  "bh_noi_aaa base b r = (\<lambda>(mn, bh).
     (let t = register_u8 r in
      (mn, put_all base
        [sop B_INVALID SA_Unary, sop_r b SA_D t, sop_r b SA_N t, sop_r b SA_S t,
         sop_r b SA_SF t, sop_r b SA_X t, sop_r b SA_SX t, sop_r b SA_SFX t] bh)))"

text \<open>\<open>add_all\<close>: the validity of the immediate entry is where the two instruction sets differ.\<close>

definition add_all ::
  "('m \<Rightarrow> nat) \<Rightarrow> bool \<Rightarrow> ('m, 't) instruction \<Rightarrow> ('m, 't) tables \<Rightarrow> ('m, 't) tables" where
  "add_all code imm_valid i = (\<lambda>(mn, bh).
     (let base = code (mnemon i) in
      (put_all base
        [mk_entry i AM_I imm_valid, mk_entry i AM_D True, mk_entry i AM_N True, mk_entry i AM_S True,
         mk_entry i AM_SF True, mk_entry i AM_X True, mk_entry i AM_SX True, mk_entry i AM_SFX True] mn,
       bh)))"

section \<open>Reference cards\<close>

text \<open>
  The instruction set as a programmer's card lists it: one row per mnemonic, in the order of the
  opcodes, with its type, the shape of the block of opcodes it occupies, its behaviour and the
  register it works on.  \<open>expand_row\<close> writes out the opcodes of a row.  The cards specify what the
  imperative table construction has to produce.
\<close>

datatype row_shape =
    Row_one bool bool   \<comment> \<open>one opcode: whether it is valid, whether it is unary\<close>
  | Row_ix              \<comment> \<open>two opcodes: immediate and indexed\<close>
  | Row_aaa bool "addressing_mode list" "addressing_mode list"
                        \<comment> \<open>eight opcodes: whether unary, the modes not valid, those without behaviour\<close>
  | Row_trap            \<comment> \<open>eight unary opcodes whose operand the simulator does not decode\<close>

type_synonym ('m, 't) card = "('m \<times> 't \<times> row_shape \<times> shared_op_behavior \<times> u8) list"

abbreviation aaa_modes :: "addressing_mode list" where
  "aaa_modes \<equiv> [AM_I, AM_D, AM_N, AM_S, AM_SF, AM_X, AM_SX, AM_SFX]"

abbreviation aaa_addrs :: "shared_addr_mode list" where
  "aaa_addrs \<equiv> [SA_I, SA_D, SA_N, SA_S, SA_SF, SA_X, SA_SX, SA_SFX]"

fun expand_row ::
  "'m \<times> 't \<times> row_shape \<times> shared_op_behavior \<times> u8 \<Rightarrow> (('m, 't) opcode_entry \<times> shared_op) list" where
  "expand_row (m, t, Row_one v u, b, r) = [(mk_entry (mk_instr m t u) AM_NONE v, sop_r b SA_Unary r)]"
| "expand_row (m, t, Row_ix, b, r) =
     map (\<lambda>(a, s). (mk_entry (mk_instr m t False) a True, sop_r b s r)) [(AM_I, SA_I), (AM_X, SA_X)]"
| "expand_row (m, t, Row_aaa u bad idle, b, r) =
     map (\<lambda>(a, s). (mk_entry (mk_instr m t u) a (a \<notin> set bad),
                    if a \<in> set idle then sop B_INVALID SA_Unary else sop_r b s r)) (zip aaa_modes aaa_addrs)"
| "expand_row (m, t, Row_trap, b, r) =
     map (\<lambda>(a, s). (mk_entry (mk_instr m t True) a True, sop_r b SA_Unary r)) (zip aaa_modes aaa_addrs)"

definition expand_card :: "('m, 't) card \<Rightarrow> (('m, 't) opcode_entry \<times> shared_op) list" where
  "expand_card rows = concat (map expand_row rows)"

text \<open>Checks of a whole table, as list functions that evaluate.\<close>

definition types_at :: "('m \<Rightarrow> nat) \<Rightarrow> ('m, 't) opcode_entry list \<Rightarrow> 'm list \<Rightarrow> 't list" where
  "types_at code L ms = map (\<lambda>m. itype (instr (L ! code m))) ms"

definition valid_pairs :: "('m, 't) opcode_entry list \<Rightarrow> ('m \<times> addressing_mode) list" where
  "valid_pairs L = map (\<lambda>e. (mnemon (instr e), mode e)) (filter (\<lambda>e. valid e \<and> mode e \<noteq> AM_NONE) L)"

lemma valid_pairs_iff:
  assumes "length L = 256"
  shows "(m, a) \<in> set (valid_pairs L) \<longleftrightarrow>
    (\<exists>b::u8. valid (L ! unat b) \<and> mnemon (instr (L ! unat b)) = m \<and> mode (L ! unat b) = a \<and> a \<noteq> AM_NONE)"
    (is "?l = ?r")
proof
  assume ?l
  then obtain e where e: "e \<in> set L" "valid e" "mode e = a" "a \<noteq> AM_NONE" "mnemon (instr e) = m"
    by (auto simp: valid_pairs_def)
  then obtain k where k: "k < 256" "L ! k = e" using assms by (metis in_set_conv_nth)
  then have "unat (word_of_nat k :: u8) = k" by (simp add: unat_of_nat)
  then show ?r using e k by (intro exI[of _ "word_of_nat k"]) simp
next
  assume ?r
  then obtain b :: u8 where b: "valid (L ! unat b)" "mnemon (instr (L ! unat b)) = m"
      "mode (L ! unat b) = a" "a \<noteq> AM_NONE" by blast
  have "unat b < length L" using assms unsigned_less[of b] by simp
  then have "L ! unat b \<in> set L" by simp
  with b show ?l by (force simp: valid_pairs_def)
qed

text \<open>The modes in which a row of a card has a valid opcode.\<close>

fun row_modes :: "row_shape \<Rightarrow> addressing_mode list" where
  "row_modes (Row_one v u) = []"
| "row_modes Row_ix = [AM_I, AM_X]"
| "row_modes (Row_aaa u bad idle) = filter (\<lambda>a. a \<notin> set bad) aaa_modes"
| "row_modes Row_trap = aaa_modes"

lemma valid_pairs_append [simp]: "valid_pairs (xs @ ys) = valid_pairs xs @ valid_pairs ys"
  by (simp add: valid_pairs_def)

lemma valid_pairs_row: "valid_pairs (map fst (expand_row (m, t, s, b, r))) = map (Pair m) (row_modes s)"
  by (cases s) (simp_all add: valid_pairs_def mk_entry_def mk_instr_def)

lemma valid_pairs_card:
  "set (valid_pairs (map fst (expand_card rows))) = {(m, a). \<exists>t s b r. (m, t, s, b, r) \<in> set rows \<and> a \<in> set (row_modes s)}"
proof (induction rows)
  case Nil
  then show ?case by (simp add: expand_card_def valid_pairs_def)
next
  case (Cons row rows)
  obtain m t s b r where "row = (m, t, s, b, r)" by (cases row)
  with Cons show ?case by (auto simp: expand_card_def valid_pairs_row simp del: expand_row.simps)
qed
section \<open>Binary specifiers\<close>

text \<open>\<^verbatim>\<open>std::bitset<8>(v).to_string()\<close>: the most significant bit comes first.\<close>

definition bitset8_string :: "u8 \<Rightarrow> string" where
  "bitset8_string v = map (\<lambda>k. if bit v k then CHR ''1'' else CHR ''0'') (rev [0..<8])"

end
