(* ===== verification/Pep10_Isa.thy ===== *)
theory Pep10_Isa
  imports Isa_Shared
begin

text \<open>
  The Pep/10 instruction set of \<^verbatim>\<open>arch/pep/isa/pep10.hpp\<close> and \<^verbatim>\<open>pep10.cpp\<close>: its
  enumerations, the two decode tables that \<^verbatim>\<open>initOpcodes\<close> fills statement by statement, the
  name tables with their case-insensitive parsers, and the classification functions that the
  assembler and the simulator ask.  The lemmas evaluate the tables and show what every byte
  decodes to.
\<close>

section \<open>Enumerations\<close>

datatype (plugins only: code size) mnemonic10 =
    M10_RET | M10_SRET | M10_MOVFLGA | M10_MOVAFLG | M10_MOVSPA | M10_MOVASP | M10_NOP |
    M10_UNIMPL | M10_NEGA | M10_NEGX | M10_ASLA | M10_ASLX | M10_ASRA | M10_ASRX | M10_NOTA |
    M10_NOTX | M10_ROLA | M10_ROLX | M10_RORA | M10_RORX | M10_BR | M10_BRLE | M10_BRLT |
    M10_BREQ | M10_BRNE | M10_BRGE | M10_BRGT | M10_BRV | M10_BRC | M10_CALL | M10_SCALL |
    M10_ADDSP | M10_SUBSP | M10_ADDA | M10_ADDX | M10_SUBA | M10_SUBX | M10_ANDA | M10_ANDX |
    M10_ORA | M10_ORX | M10_XORA | M10_XORX | M10_CPWA | M10_CPWX | M10_CPBA | M10_CPBX |
    M10_LDWA | M10_LDWX | M10_LDBA | M10_LDBX | M10_STWA | M10_STWX | M10_STBA | M10_STBX |
    M10_INVALID

datatype (plugins only: code size) insn_type10 =
    T10_Invalid | T10_U_none | T10_R_none | T10_A_ix | T10_AAA_all | T10_AAA_i | T10_RAAA_all |
    T10_RAAA_noi

text \<open>The enumerator's value; an enumerator without one follows its predecessor.\<close>

primrec mnemonic10_value :: "mnemonic10 \<Rightarrow> nat" where
  "mnemonic10_value M10_RET = 0x1"
| "mnemonic10_value M10_SRET = 0x2"
| "mnemonic10_value M10_MOVFLGA = 0x3"
| "mnemonic10_value M10_MOVAFLG = 0x4"
| "mnemonic10_value M10_MOVSPA = 0x5"
| "mnemonic10_value M10_MOVASP = 0x6"
| "mnemonic10_value M10_NOP = 0x7"
| "mnemonic10_value M10_UNIMPL = 0x8"
| "mnemonic10_value M10_NEGA = 0x18"
| "mnemonic10_value M10_NEGX = 0x19"
| "mnemonic10_value M10_ASLA = 0x1A"
| "mnemonic10_value M10_ASLX = 0x1B"
| "mnemonic10_value M10_ASRA = 0x1C"
| "mnemonic10_value M10_ASRX = 0x1D"
| "mnemonic10_value M10_NOTA = 0x1E"
| "mnemonic10_value M10_NOTX = 0x1F"
| "mnemonic10_value M10_ROLA = 0x20"
| "mnemonic10_value M10_ROLX = 0x21"
| "mnemonic10_value M10_RORA = 0x22"
| "mnemonic10_value M10_RORX = 0x23"
| "mnemonic10_value M10_BR = 0x24"
| "mnemonic10_value M10_BRLE = 0x26"
| "mnemonic10_value M10_BRLT = 0x28"
| "mnemonic10_value M10_BREQ = 0x2A"
| "mnemonic10_value M10_BRNE = 0x2C"
| "mnemonic10_value M10_BRGE = 0x2E"
| "mnemonic10_value M10_BRGT = 0x30"
| "mnemonic10_value M10_BRV = 0x32"
| "mnemonic10_value M10_BRC = 0x34"
| "mnemonic10_value M10_CALL = 0x36"
| "mnemonic10_value M10_SCALL = 0x38"
| "mnemonic10_value M10_ADDSP = 0x40"
| "mnemonic10_value M10_SUBSP = 0x48"
| "mnemonic10_value M10_ADDA = 0x50"
| "mnemonic10_value M10_ADDX = 0x58"
| "mnemonic10_value M10_SUBA = 0x60"
| "mnemonic10_value M10_SUBX = 0x68"
| "mnemonic10_value M10_ANDA = 0x70"
| "mnemonic10_value M10_ANDX = 0x78"
| "mnemonic10_value M10_ORA = 0x80"
| "mnemonic10_value M10_ORX = 0x88"
| "mnemonic10_value M10_XORA = 0x90"
| "mnemonic10_value M10_XORX = 0x98"
| "mnemonic10_value M10_CPWA = 0xA0"
| "mnemonic10_value M10_CPWX = 0xA8"
| "mnemonic10_value M10_CPBA = 0xB0"
| "mnemonic10_value M10_CPBX = 0xB8"
| "mnemonic10_value M10_LDWA = 0xC0"
| "mnemonic10_value M10_LDWX = 0xC8"
| "mnemonic10_value M10_LDBA = 0xD0"
| "mnemonic10_value M10_LDBX = 0xD8"
| "mnemonic10_value M10_STWA = 0xE0"
| "mnemonic10_value M10_STWX = 0xE8"
| "mnemonic10_value M10_STBA = 0xF0"
| "mnemonic10_value M10_STBX = 0xF8"
| "mnemonic10_value M10_INVALID = 0x100"

type_synonym entry10 = "(mnemonic10, insn_type10) opcode_entry"
type_synonym tables10 = "(mnemonic10, insn_type10) tables"

text \<open>The cast \<open>static_cast<uint8_t>(mnemonic)\<close>, as an index and as a byte.\<close>

definition code10 :: "mnemonic10 \<Rightarrow> nat" where
  "code10 m = mnemonic10_value m mod 256"

definition opcode10 :: "mnemonic10 \<Rightarrow> u8" where
  "opcode10 m = word_of_nat (code10 m)"

definition opcode_am10 :: "mnemonic10 \<Rightarrow> addressing_mode \<Rightarrow> u8 option" where
  "opcode_am10 m a = opcode_with_mode (opcode10 M10_BR) (opcode10 M10_CALL) (opcode10 m) a"

section \<open>The decode tables\<close>

abbreviation add_ix10 :: "(mnemonic10, insn_type10) instruction \<Rightarrow> tables10 \<Rightarrow> tables10" where
  "add_ix10 \<equiv> add_ix code10"

text \<open>In Pep/10 the immediate entry of a store is not valid.\<close>

definition add_all10 :: "(mnemonic10, insn_type10) instruction \<Rightarrow> tables10 \<Rightarrow> tables10" where
  "add_all10 i = add_all code10 (itype i \<noteq> T10_RAAA_noi) i"

text \<open>Filling the tables, in the order of the code: the instructions without an operand and the unimplemented gap.\<close>

definition init_unary10 :: "tables10 \<Rightarrow> tables10" where
  "init_unary10 = run_steps ([
     set_mn 0 (mk_entry (mk_instr M10_INVALID T10_U_none True) AM_NONE False),
     set_bh 0 (sop B_INVALID SA_Unary),
     set_mn (code10 M10_RET) (mk_entry (mk_instr M10_RET T10_U_none True) AM_NONE True),
     set_bh (code10 M10_RET) (sop B_RET SA_Unary),
     set_mn (code10 M10_SRET) (mk_entry (mk_instr M10_SRET T10_U_none True) AM_NONE True),
     set_bh (code10 M10_SRET) (sop B_SRET SA_Unary),
     set_mn (code10 M10_MOVFLGA) (mk_entry (mk_instr M10_MOVFLGA T10_U_none True) AM_NONE True),
     set_bh (code10 M10_MOVFLGA) (sop B_MOVFLGA SA_Unary),
     set_mn (code10 M10_MOVAFLG) (mk_entry (mk_instr M10_MOVAFLG T10_U_none True) AM_NONE True),
     set_bh (code10 M10_MOVAFLG) (sop B_MOVAFLG SA_Unary),
     set_mn (code10 M10_MOVSPA) (mk_entry (mk_instr M10_MOVSPA T10_U_none True) AM_NONE True),
     set_bh (code10 M10_MOVSPA) (sop B_MOVSPA SA_Unary),
     set_mn (code10 M10_MOVASP) (mk_entry (mk_instr M10_MOVASP T10_U_none True) AM_NONE True),
     set_bh (code10 M10_MOVASP) (sop B_MOVASP SA_Unary),
     set_mn (code10 M10_NOP) (mk_entry (mk_instr M10_NOP T10_U_none True) AM_NONE True),
     set_bh (code10 M10_NOP) (sop B_HW_NOP SA_Unary)] @ concat (map (\<lambda>it. [set_mn it (mk_entry (mk_instr M10_INVALID T10_U_none True) AM_NONE False), set_bh it (sop B_UNIMPL SA_Unary)]) [code10 M10_NOP + 1..<code10 M10_NOTA]) @ [
     set_mn (code10 M10_NEGA) (mk_entry (mk_instr M10_NEGA T10_R_none True) AM_NONE True),
     set_bh (code10 M10_NEGA) (sop_r B_NEG SA_Unary (register_u8 R_A)),
     set_mn (code10 M10_NEGX) (mk_entry (mk_instr M10_NEGX T10_R_none True) AM_NONE True),
     set_bh (code10 M10_NEGX) (sop_r B_NEG SA_Unary (register_u8 R_X)),
     set_mn (code10 M10_ASLA) (mk_entry (mk_instr M10_ASLA T10_R_none True) AM_NONE True),
     set_bh (code10 M10_ASLA) (sop_r B_ASL SA_Unary (register_u8 R_A)),
     set_mn (code10 M10_ASLX) (mk_entry (mk_instr M10_ASLX T10_R_none True) AM_NONE True),
     set_bh (code10 M10_ASLX) (sop_r B_ASL SA_Unary (register_u8 R_X)),
     set_mn (code10 M10_ASRA) (mk_entry (mk_instr M10_ASRA T10_R_none True) AM_NONE True),
     set_bh (code10 M10_ASRA) (sop_r B_ASR SA_Unary (register_u8 R_A)),
     set_mn (code10 M10_ASRX) (mk_entry (mk_instr M10_ASRX T10_R_none True) AM_NONE True),
     set_bh (code10 M10_ASRX) (sop_r B_ASR SA_Unary (register_u8 R_X)),
     set_mn (code10 M10_NOTA) (mk_entry (mk_instr M10_NOTA T10_R_none True) AM_NONE True),
     set_bh (code10 M10_NOTA) (sop_r B_NOT SA_Unary (register_u8 R_A)),
     set_mn (code10 M10_NOTX) (mk_entry (mk_instr M10_NOTX T10_R_none True) AM_NONE True),
     set_bh (code10 M10_NOTX) (sop_r B_NOT SA_Unary (register_u8 R_X)),
     set_mn (code10 M10_ROLA) (mk_entry (mk_instr M10_ROLA T10_R_none True) AM_NONE True),
     set_bh (code10 M10_ROLA) (sop_r B_ROL SA_Unary (register_u8 R_A)),
     set_mn (code10 M10_ROLX) (mk_entry (mk_instr M10_ROLX T10_R_none True) AM_NONE True),
     set_bh (code10 M10_ROLX) (sop_r B_ROL SA_Unary (register_u8 R_X)),
     set_mn (code10 M10_RORA) (mk_entry (mk_instr M10_RORA T10_R_none True) AM_NONE True),
     set_bh (code10 M10_RORA) (sop_r B_ROR SA_Unary (register_u8 R_A)),
     set_mn (code10 M10_RORX) (mk_entry (mk_instr M10_RORX T10_R_none True) AM_NONE True),
     set_bh (code10 M10_RORX) (sop_r B_ROR SA_Unary (register_u8 R_X))])"

text \<open>Filling the tables, in the order of the code: the branches, \<open>CALL\<close> and \<open>SCALL\<close>.\<close>

definition init_branch10 :: "tables10 \<Rightarrow> tables10" where
  "init_branch10 = run_steps ([
     add_ix10 (mk_instr M10_BR T10_A_ix False),
     bh_ix (code10 M10_BR) B_BR,
     add_ix10 (mk_instr M10_BRLE T10_A_ix False),
     bh_ix (code10 M10_BRLE) B_BRLE,
     add_ix10 (mk_instr M10_BRLT T10_A_ix False),
     bh_ix (code10 M10_BRLT) B_BRLT,
     add_ix10 (mk_instr M10_BREQ T10_A_ix False),
     bh_ix (code10 M10_BREQ) B_BREQ,
     add_ix10 (mk_instr M10_BRNE T10_A_ix False),
     bh_ix (code10 M10_BRNE) B_BRNE,
     add_ix10 (mk_instr M10_BRGE T10_A_ix False),
     bh_ix (code10 M10_BRGE) B_BRGE,
     add_ix10 (mk_instr M10_BRGT T10_A_ix False),
     bh_ix (code10 M10_BRGT) B_BRGT,
     add_ix10 (mk_instr M10_BRV T10_A_ix False),
     bh_ix (code10 M10_BRV) B_BRV,
     add_ix10 (mk_instr M10_BRC T10_A_ix False),
     bh_ix (code10 M10_BRC) B_BRC,
     add_ix10 (mk_instr M10_CALL T10_A_ix False),
     bh_ix (code10 M10_CALL) B_CALL,
     add_all10 (mk_instr M10_SCALL T10_AAA_all True),
     bh_unary_aaa (code10 M10_SCALL) B_SCALL R_INVALID])"

text \<open>Filling the tables, in the order of the code: the instructions with an operand.\<close>

definition init_operand10 :: "tables10 \<Rightarrow> tables10" where
  "init_operand10 = run_steps ([
     add_all10 (mk_instr M10_LDWA T10_RAAA_all False),
     bh_all_aaa (code10 M10_LDWA) B_LDW R_A,
     add_all10 (mk_instr M10_LDWX T10_RAAA_all False),
     bh_all_aaa (code10 M10_LDWX) B_LDW R_X,
     add_all10 (mk_instr M10_LDBA T10_RAAA_all False),
     bh_all_aaa (code10 M10_LDBA) B_LDB R_A,
     add_all10 (mk_instr M10_LDBX T10_RAAA_all False),
     bh_all_aaa (code10 M10_LDBX) B_LDB R_X,
     add_all10 (mk_instr M10_STWA T10_RAAA_noi False),
     bh_noi_aaa (code10 M10_STWA) B_STW R_A,
     add_all10 (mk_instr M10_STWX T10_RAAA_noi False),
     bh_noi_aaa (code10 M10_STWX) B_STW R_X,
     add_all10 (mk_instr M10_STBA T10_RAAA_noi False),
     bh_noi_aaa (code10 M10_STBA) B_STB R_A,
     add_all10 (mk_instr M10_STBX T10_RAAA_noi False),
     bh_noi_aaa (code10 M10_STBX) B_STB R_X,
     add_all10 (mk_instr M10_CPWA T10_RAAA_all False),
     bh_all_aaa (code10 M10_CPWA) B_CPW R_A,
     add_all10 (mk_instr M10_CPWX T10_RAAA_all False),
     bh_all_aaa (code10 M10_CPWX) B_CPW R_X,
     add_all10 (mk_instr M10_CPBA T10_RAAA_all False),
     bh_all_aaa (code10 M10_CPBA) B_CPB R_A,
     add_all10 (mk_instr M10_CPBX T10_RAAA_all False),
     bh_all_aaa (code10 M10_CPBX) B_CPB R_X,
     add_all10 (mk_instr M10_ADDA T10_RAAA_all False),
     bh_all_aaa (code10 M10_ADDA) B_ADD R_A,
     add_all10 (mk_instr M10_ADDX T10_RAAA_all False),
     bh_all_aaa (code10 M10_ADDX) B_ADD R_X,
     add_all10 (mk_instr M10_SUBA T10_RAAA_all False),
     bh_all_aaa (code10 M10_SUBA) B_SUB R_A,
     add_all10 (mk_instr M10_SUBX T10_RAAA_all False),
     bh_all_aaa (code10 M10_SUBX) B_SUB R_X,
     add_all10 (mk_instr M10_ANDA T10_RAAA_all False),
     bh_all_aaa (code10 M10_ANDA) B_AND R_A,
     add_all10 (mk_instr M10_ANDX T10_RAAA_all False),
     bh_all_aaa (code10 M10_ANDX) B_AND R_X,
     add_all10 (mk_instr M10_ORA T10_RAAA_all False),
     bh_all_aaa (code10 M10_ORA) B_OR R_A,
     add_all10 (mk_instr M10_ORX T10_RAAA_all False),
     bh_all_aaa (code10 M10_ORX) B_OR R_X,
     add_all10 (mk_instr M10_XORA T10_RAAA_all False),
     bh_all_aaa (code10 M10_XORA) B_XOR R_A,
     add_all10 (mk_instr M10_XORX T10_RAAA_all False),
     bh_all_aaa (code10 M10_XORX) B_XOR R_X,
     add_all10 (mk_instr M10_ADDSP T10_AAA_all False),
     bh_all_aaa (code10 M10_ADDSP) B_ADDSP R_INVALID,
     add_all10 (mk_instr M10_SUBSP T10_AAA_all False),
     bh_all_aaa (code10 M10_SUBSP) B_SUBSP R_INVALID])"

text \<open>
  \<^verbatim>\<open>std::array<Opcode, 256>()\<close> value-initialises the entries.  No enumerator has the value 0; every entry is overwritten, so the mnemonic of a default entry is never seen.
\<close>

definition default_entry10 :: entry10 where
  "default_entry10 = mk_entry (mk_instr M10_INVALID T10_Invalid False) AM_NONE False"

definition initOpcodes10 :: "tables10" where
  "initOpcodes10 =
     init_operand10 (init_branch10 (init_unary10 (replicate 256 default_entry10, replicate 256 shared_op_default)))"

definition opcodeLUT10 :: "entry10 list" where
  "opcodeLUT10 = fst initOpcodes10"

definition opcode_plane10 :: "shared_op list" where
  "opcode_plane10 = snd initOpcodes10"

definition lut10 :: "u8 \<Rightarrow> entry10" where
  "lut10 b = opcodeLUT10 ! unat b"

definition plane10 :: "u8 \<Rightarrow> shared_op" where
  "plane10 b = opcode_plane10 ! unat b"

section \<open>Names\<close>

text \<open>The insertions of \<open>register_maps\<close>, \<open>am_maps\<close> and \<open>mnemonic_maps\<close>, in order.\<close>

definition register_names10 :: "(pep_register \<times> string) list" where
  "register_names10 =
    [(R_A, ''A''), (R_X, ''X''), (R_SP, ''SP''), (R_PC, ''PC''), (R_IS, ''IS''), (R_OS, ''OS''),
     (R_INVALID, ''invalid'')]"

definition am_names10 :: "(addressing_mode \<times> string) list" where
  "am_names10 =
    [(AM_NONE, ''none''), (AM_I, ''I''), (AM_D, ''D''), (AM_N, ''N''), (AM_S, ''S''), (AM_SF, ''SF''),
     (AM_X, ''X''), (AM_SX, ''SX''), (AM_SFX, ''SFX''), (AM_INVALID, ''invalid'')]"

definition mnemonic_names10 :: "(mnemonic10 \<times> string) list" where
  "mnemonic_names10 = [
    (M10_RET, ''RET''), (M10_SRET, ''SRET''), (M10_MOVFLGA, ''MOVFLGA''),
    (M10_MOVAFLG, ''MOVAFLG''), (M10_MOVSPA, ''MOVSPA''), (M10_MOVASP, ''MOVASP''),
    (M10_NOP, ''NOP''), (M10_NEGA, ''NEGA''), (M10_NEGX, ''NEGX''), (M10_ASLA, ''ASLA''),
    (M10_ASLX, ''ASLX''), (M10_ASRA, ''ASRA''), (M10_ASRX, ''ASRX''), (M10_NOTA, ''NOTA''),
    (M10_NOTX, ''NOTX''), (M10_ROLA, ''ROLA''), (M10_ROLX, ''ROLX''), (M10_RORA, ''RORA''),
    (M10_RORX, ''RORX''), (M10_BR, ''BR''), (M10_BRLE, ''BRLE''), (M10_BRLT, ''BRLT''),
    (M10_BREQ, ''BREQ''), (M10_BRNE, ''BRNE''), (M10_BRGE, ''BRGE''), (M10_BRGT, ''BRGT''),
    (M10_BRV, ''BRV''), (M10_BRC, ''BRC''), (M10_CALL, ''CALL''), (M10_SCALL, ''SCALL''),
    (M10_ADDSP, ''ADDSP''), (M10_SUBSP, ''SUBSP''), (M10_ADDA, ''ADDA''), (M10_ADDX, ''ADDX''),
    (M10_SUBA, ''SUBA''), (M10_SUBX, ''SUBX''), (M10_ANDA, ''ANDA''), (M10_ANDX, ''ANDX''),
    (M10_ORA, ''ORA''), (M10_ORX, ''ORX''), (M10_XORA, ''XORA''), (M10_XORX, ''XORX''),
    (M10_CPWA, ''CPWA''), (M10_CPWX, ''CPWX''), (M10_CPBA, ''CPBA''), (M10_CPBX, ''CPBX''),
    (M10_LDWA, ''LDWA''), (M10_LDWX, ''LDWX''), (M10_LDBA, ''LDBA''), (M10_LDBX, ''LDBX''),
    (M10_STWA, ''STWA''), (M10_STWX, ''STWX''), (M10_STBA, ''STBA''), (M10_STBX, ''STBX'')]"

abbreviation swap_pairs10 :: "('a \<times> 'b) list \<Rightarrow> ('b \<times> 'a) list" where
  "swap_pairs10 \<equiv> map (\<lambda>(a, b). (b, a))"

definition parseMnemonic10 :: "string \<Rightarrow> mnemonic10" where
  "parseMnemonic10 s = (case ci_find (swap_pairs10 mnemonic_names10) s of Some m \<Rightarrow> m | None \<Rightarrow> M10_INVALID)"

definition parseAddressingMode10 :: "string \<Rightarrow> addressing_mode" where
  "parseAddressingMode10 s = (case ci_find (swap_pairs10 am_names10) s of Some a \<Rightarrow> a | None \<Rightarrow> AM_INVALID)"

definition parseRegister10 :: "string \<Rightarrow> pep_register" where
  "parseRegister10 s = (case ci_find (swap_pairs10 register_names10) s of Some r \<Rightarrow> r | None \<Rightarrow> R_INVALID)"

text \<open>\<^verbatim>\<open>std::map::at\<close> throws for a missing key: \<open>None\<close>.\<close>

definition string_mnemonic10 :: "mnemonic10 \<Rightarrow> string option" where
  "string_mnemonic10 m = map_find mnemonic_names10 m"

definition string_am10 :: "addressing_mode \<Rightarrow> string" where
  "string_am10 a = (case map_find am_names10 a of None \<Rightarrow> ''invalid'' | Some s \<Rightarrow> to_lower s)"

definition string_register10 :: "pep_register \<Rightarrow> string option" where
  "string_register10 r = map_find register_names10 r"

text \<open>All names, in the order of \<^verbatim>\<open>std::map\<close>, which is that of the enumerators' values.\<close>

definition mnemonics10 :: "string list" where
  "mnemonics10 = map snd (sort_key (\<lambda>(m, s). mnemonic10_value m) mnemonic_names10)"

section \<open>Classification\<close>

definition insn_type_of10 :: "mnemonic10 \<Rightarrow> insn_type10" where
  "insn_type_of10 m = itype (instr (lut10 (opcode10 m)))"

definition isMnemonicUnary_op10 :: "u8 \<Rightarrow> bool" where
  "isMnemonicUnary_op10 b = (let t = itype (instr (lut10 b)) in t = T10_R_none \<or> t = T10_U_none)"

definition isMnemonicUnary10 :: "mnemonic10 \<Rightarrow> bool" where
  "isMnemonicUnary10 m = isMnemonicUnary_op10 (opcode10 m)"

definition isOpcodeUnary_op10 :: "u8 \<Rightarrow> bool" where
  "isOpcodeUnary_op10 b = unary (instr (lut10 b))"

definition isOpcodeUnary10 :: "mnemonic10 \<Rightarrow> bool" where
  "isOpcodeUnary10 m = isOpcodeUnary_op10 (opcode10 m)"

definition isStore10 :: "mnemonic10 \<Rightarrow> bool" where
  "isStore10 m \<longleftrightarrow> (if m = M10_STBA \<or> m = M10_STWA \<or> m = M10_STBX \<or> m = M10_STWX then True else False)"

definition isStore_op10 :: "u8 \<Rightarrow> bool" where
  "isStore_op10 b = isStore10 (mnemon (instr (lut10 b)))"

definition operandBytes10 :: "mnemonic10 \<Rightarrow> u8" where
  "operandBytes10 m =
     (if isMnemonicUnary10 m then 0
      else if m \<in> {M10_LDBA, M10_LDBX, M10_CPBA, M10_CPBX} then 1 else 2)"

definition operandBytes_op10 :: "u8 \<Rightarrow> u8" where
  "operandBytes_op10 b = operandBytes10 (mnemon (instr (lut10 b)))"

definition isCall10 :: "mnemonic10 \<Rightarrow> bool" where
  "isCall10 m \<longleftrightarrow> m = M10_CALL \<or> m = M10_SCALL"

definition isTrap10 :: "mnemonic10 \<Rightarrow> bool" where
  "isTrap10 m \<longleftrightarrow> m = M10_SCALL"

definition isCall_op10 :: "u8 \<Rightarrow> bool" where
  "isCall_op10 b = isCall10 (mnemon (instr (lut10 b)))"

definition isTrap_op10 :: "u8 \<Rightarrow> bool" where
  "isTrap_op10 b = isTrap10 (mnemon (instr (lut10 b)))"

definition isUType10 :: "mnemonic10 \<Rightarrow> bool" where
  "isUType10 m \<longleftrightarrow> insn_type_of10 m = T10_U_none"

definition isRType10 :: "mnemonic10 \<Rightarrow> bool" where
  "isRType10 m \<longleftrightarrow> insn_type_of10 m = T10_R_none"

definition isAType10 :: "mnemonic10 \<Rightarrow> bool" where
  "isAType10 m \<longleftrightarrow> insn_type_of10 m = T10_A_ix"

definition isValidATypeAddressingMode10 :: "mnemonic10 \<Rightarrow> addressing_mode \<Rightarrow> bool" where
  "isValidATypeAddressingMode10 m a \<longleftrightarrow> a = AM_I \<or> a = AM_X"

definition isAAAType10 :: "mnemonic10 \<Rightarrow> bool" where
  "isAAAType10 m \<longleftrightarrow> (let t = insn_type_of10 m in t = T10_AAA_all \<or> t = T10_AAA_i)"

definition isValidAAATypeAddressingMode10 :: "mnemonic10 \<Rightarrow> addressing_mode \<Rightarrow> bool" where
  "isValidAAATypeAddressingMode10 m a \<longleftrightarrow> \<not> (a = AM_ALL \<or> a = AM_INVALID \<or> a = AM_NONE)"

definition isRAAAType10 :: "mnemonic10 \<Rightarrow> bool" where
  "isRAAAType10 m \<longleftrightarrow> (let t = insn_type_of10 m in t = T10_RAAA_all \<or> t = T10_RAAA_noi)"

definition isValidRAAATypeAddressingMode10 :: "mnemonic10 \<Rightarrow> addressing_mode \<Rightarrow> bool" where
  "isValidRAAATypeAddressingMode10 m a \<longleftrightarrow>
     \<not> (a = AM_ALL \<or> a = AM_INVALID \<or> a = AM_NONE \<or> (insn_type_of10 m = T10_RAAA_noi \<and> a = AM_I))"

definition isValidAddressingMode10 :: "mnemonic10 \<Rightarrow> addressing_mode \<Rightarrow> bool" where
  "isValidAddressingMode10 m a =
     (case insn_type_of10 m of
        T10_Invalid \<Rightarrow> False
      | T10_U_none \<Rightarrow> False
      | T10_R_none \<Rightarrow> False
      | T10_A_ix \<Rightarrow> a = AM_X \<or> a = AM_I
      | T10_AAA_i \<Rightarrow> a = AM_I
      | T10_AAA_all \<Rightarrow> \<not> (a = AM_ALL \<or> a = AM_INVALID \<or> a = AM_NONE)
      | T10_RAAA_all \<Rightarrow> \<not> (a = AM_ALL \<or> a = AM_INVALID \<or> a = AM_NONE)
      | T10_RAAA_noi \<Rightarrow> \<not> (a = AM_ALL \<or> a = AM_INVALID \<or> a = AM_NONE \<or> a = AM_I))"

definition decodeOperandAsSigned10 :: "u8 \<Rightarrow> bool" where
  "decodeOperandAsSigned10 b =
     (case mode (lut10 b) of
        AM_I \<Rightarrow> True | AM_S \<Rightarrow> True | AM_SF \<Rightarrow> True | AM_SX \<Rightarrow> True | AM_SFX \<Rightarrow> True | _ \<Rightarrow> False)"

definition requiresAddressingMode10 :: "mnemonic10 \<Rightarrow> bool" where
  "requiresAddressingMode10 m \<longleftrightarrow> isAAAType10 m \<or> isRAAAType10 m"

definition canElideAddressingMode10 :: "mnemonic10 \<Rightarrow> addressing_mode \<Rightarrow> bool" where
  "canElideAddressingMode10 m a \<longleftrightarrow> isAType10 m \<and> a = AM_I"

definition defaultMnemonic10 :: mnemonic10 where
  "defaultMnemonic10 = M10_INVALID"

definition defaultAddressingMode10 :: "mnemonic10 \<Rightarrow> addressing_mode" where
  "defaultAddressingMode10 m = (if isAType10 m then AM_I else AM_INVALID)"

section \<open>Descriptions\<close>

primrec describeMnemonicUsingPlaceholders10 :: "mnemonic10 \<Rightarrow> string" where
  "describeMnemonicUsingPlaceholders10 M10_RET = ''Return from CALL''"
| "describeMnemonicUsingPlaceholders10 M10_SRET = ''Return from system CALL''"
| "describeMnemonicUsingPlaceholders10 M10_MOVFLGA = ''Move NZVC flags to A[12:15]''"
| "describeMnemonicUsingPlaceholders10 M10_MOVAFLG = ''Move A[12:15] to NZVC flags''"
| "describeMnemonicUsingPlaceholders10 M10_MOVSPA = ''Move SP to A''"
| "describeMnemonicUsingPlaceholders10 M10_MOVASP = ''Move A to SP''"
| "describeMnemonicUsingPlaceholders10 M10_NOP = ''No operation''"
| "describeMnemonicUsingPlaceholders10 M10_NEGA = ''Negate r''"
| "describeMnemonicUsingPlaceholders10 M10_NEGX = ''Negate r''"
| "describeMnemonicUsingPlaceholders10 M10_ASLA = ''Arithmetic shift left r''"
| "describeMnemonicUsingPlaceholders10 M10_ASLX = ''Arithmetic shift left r''"
| "describeMnemonicUsingPlaceholders10 M10_ASRA = ''Arithmetic shift right r''"
| "describeMnemonicUsingPlaceholders10 M10_ASRX = ''Arithmetic shift right r''"
| "describeMnemonicUsingPlaceholders10 M10_NOTA = ''Bitwise Not r''"
| "describeMnemonicUsingPlaceholders10 M10_NOTX = ''Bitwise Not r''"
| "describeMnemonicUsingPlaceholders10 M10_ROLA = ''Rotate left r''"
| "describeMnemonicUsingPlaceholders10 M10_ROLX = ''Rotate left r''"
| "describeMnemonicUsingPlaceholders10 M10_RORA = ''Rotate right r''"
| "describeMnemonicUsingPlaceholders10 M10_RORX = ''Rotate right r''"
| "describeMnemonicUsingPlaceholders10 M10_BR = ''Branch unconditional''"
| "describeMnemonicUsingPlaceholders10 M10_BRLE = ''Branch if less than or equal to''"
| "describeMnemonicUsingPlaceholders10 M10_BRLT = ''Branch if less than''"
| "describeMnemonicUsingPlaceholders10 M10_BREQ = ''Branch if equal to''"
| "describeMnemonicUsingPlaceholders10 M10_BRNE = ''Branch if not equal to''"
| "describeMnemonicUsingPlaceholders10 M10_BRGE = ''Branch if greater than or equal to''"
| "describeMnemonicUsingPlaceholders10 M10_BRGT = ''Branch if greater than''"
| "describeMnemonicUsingPlaceholders10 M10_BRV = ''Branch if V''"
| "describeMnemonicUsingPlaceholders10 M10_BRC = ''Branch if C''"
| "describeMnemonicUsingPlaceholders10 M10_CALL = ''Call subroutine''"
| "describeMnemonicUsingPlaceholders10 M10_SCALL = ''System call''"
| "describeMnemonicUsingPlaceholders10 M10_ADDSP = ''Add to SP''"
| "describeMnemonicUsingPlaceholders10 M10_SUBSP = ''Subtract from SP''"
| "describeMnemonicUsingPlaceholders10 M10_ADDA = ''Add to r''"
| "describeMnemonicUsingPlaceholders10 M10_ADDX = ''Add to r''"
| "describeMnemonicUsingPlaceholders10 M10_SUBA = ''Subtract from r''"
| "describeMnemonicUsingPlaceholders10 M10_SUBX = ''Subtract from r''"
| "describeMnemonicUsingPlaceholders10 M10_ANDA = ''Bitwise And to r''"
| "describeMnemonicUsingPlaceholders10 M10_ANDX = ''Bitwise And to r''"
| "describeMnemonicUsingPlaceholders10 M10_ORA = ''Bitwise Or to r''"
| "describeMnemonicUsingPlaceholders10 M10_ORX = ''Bitwise Or to r''"
| "describeMnemonicUsingPlaceholders10 M10_XORA = ''Bitwise Exclusive Or to r''"
| "describeMnemonicUsingPlaceholders10 M10_XORX = ''Bitwise Exclusive Or to r''"
| "describeMnemonicUsingPlaceholders10 M10_CPWA = ''Compare word to r''"
| "describeMnemonicUsingPlaceholders10 M10_CPWX = ''Compare word to r''"
| "describeMnemonicUsingPlaceholders10 M10_CPBA = ''Compare byte to r[8:15]''"
| "describeMnemonicUsingPlaceholders10 M10_CPBX = ''Compare byte to r[8:15]''"
| "describeMnemonicUsingPlaceholders10 M10_LDWA = ''Load word r from memory''"
| "describeMnemonicUsingPlaceholders10 M10_LDWX = ''Load word r from memory''"
| "describeMnemonicUsingPlaceholders10 M10_LDBA = ''Load byte r[8:15] from memory''"
| "describeMnemonicUsingPlaceholders10 M10_LDBX = ''Load byte r[8:15] from memory''"
| "describeMnemonicUsingPlaceholders10 M10_STWA = ''Store word r to memory''"
| "describeMnemonicUsingPlaceholders10 M10_STWX = ''Store word r to memory''"
| "describeMnemonicUsingPlaceholders10 M10_STBA = ''Store byte r[8:15] to memory''"
| "describeMnemonicUsingPlaceholders10 M10_STBX = ''Store byte r[8:15] to memory''"
| "describeMnemonicUsingPlaceholders10 M10_UNIMPL = ''Illegal instruction''"
| "describeMnemonicUsingPlaceholders10 M10_INVALID = ''Illegal instruction''"

text \<open>The characters of \<open>as_bin\<close> are indexed from the most significant bit.\<close>

definition instructionSpecifierWithPlaceholders10 :: "mnemonic10 \<Rightarrow> string" where
  "instructionSpecifierWithPlaceholders10 m =
     (let as_bin = bitset8_string (opcode10 m);
          aaa = as_bin[5 := CHR ''a'', 6 := CHR ''a'', 7 := CHR ''a'']
      in case insn_type_of10 m of
           T10_R_none \<Rightarrow> as_bin[7 := CHR ''r'']
         | T10_A_ix \<Rightarrow> as_bin[7 := CHR ''a'']
         | T10_AAA_all \<Rightarrow> aaa
         | T10_AAA_i \<Rightarrow> aaa
         | T10_RAAA_all \<Rightarrow> aaa[4 := CHR ''r'']
         | T10_RAAA_noi \<Rightarrow> aaa[4 := CHR ''r'']
         | _ \<Rightarrow> as_bin)"

definition legalDirectives10 :: "string list" where
  "legalDirectives10 = [
    ''ALIGN'', ''ASCII'', ''BLOCK'', ''BYTE'', ''EQUATE'', ''EXPORT'', ''IMPORT'', ''INPUT'',
    ''OUTPUT'', ''ORG'', ''SCALL'', ''SECTION'', ''WORD'']"

definition isLegalDirective10 :: "string \<Rightarrow> bool" where
  "isLegalDirective10 d \<longleftrightarrow> to_upper d \<in> set legalDirectives10"

datatype memory_vector10 = MV10_TrapHandler | MV10_Dispatcher | MV10_SystemStackPtr | MV10_CharIn | MV10_CharOut | MV10_PwrOff

fun vector_address10 :: "memory_vector10 \<Rightarrow> u16" where
  "vector_address10 MV10_TrapHandler = 0xFFF7"
| "vector_address10 MV10_Dispatcher = 0xFFF9"
| "vector_address10 MV10_SystemStackPtr = 0xFFFB"
| "vector_address10 MV10_CharIn = 0xFFFD"
| "vector_address10 MV10_CharOut = 0xFFFE"
| "vector_address10 MV10_PwrOff = 0xFFFF"

definition RegisterCount10 :: nat where
  "RegisterCount10 = 7"

section \<open>What the tables decode to\<close>

text \<open>The reference card of the instruction set, in opcode order.\<close>

definition card10 :: "(mnemonic10, insn_type10) card" where
  "card10 = [
     (M10_INVALID, T10_U_none, Row_one False True, B_INVALID, 255),
     (M10_RET, T10_U_none, Row_one True True, B_RET, 255),
     (M10_SRET, T10_U_none, Row_one True True, B_SRET, 255),
     (M10_MOVFLGA, T10_U_none, Row_one True True, B_MOVFLGA, 255),
     (M10_MOVAFLG, T10_U_none, Row_one True True, B_MOVAFLG, 255),
     (M10_MOVSPA, T10_U_none, Row_one True True, B_MOVSPA, 255),
     (M10_MOVASP, T10_U_none, Row_one True True, B_MOVASP, 255),
     (M10_NOP, T10_U_none, Row_one True True, B_HW_NOP, 255)]
   @ replicate 16 (M10_INVALID, T10_U_none, Row_one False True, B_UNIMPL, 255) @ [
     (M10_NEGA, T10_R_none, Row_one True True, B_NEG, 0),
     (M10_NEGX, T10_R_none, Row_one True True, B_NEG, 1),
     (M10_ASLA, T10_R_none, Row_one True True, B_ASL, 0),
     (M10_ASLX, T10_R_none, Row_one True True, B_ASL, 1),
     (M10_ASRA, T10_R_none, Row_one True True, B_ASR, 0),
     (M10_ASRX, T10_R_none, Row_one True True, B_ASR, 1),
     (M10_NOTA, T10_R_none, Row_one True True, B_NOT, 0),
     (M10_NOTX, T10_R_none, Row_one True True, B_NOT, 1),
     (M10_ROLA, T10_R_none, Row_one True True, B_ROL, 0),
     (M10_ROLX, T10_R_none, Row_one True True, B_ROL, 1),
     (M10_RORA, T10_R_none, Row_one True True, B_ROR, 0),
     (M10_RORX, T10_R_none, Row_one True True, B_ROR, 1),
     (M10_BR, T10_A_ix, Row_ix, B_BR, 255),
     (M10_BRLE, T10_A_ix, Row_ix, B_BRLE, 255),
     (M10_BRLT, T10_A_ix, Row_ix, B_BRLT, 255),
     (M10_BREQ, T10_A_ix, Row_ix, B_BREQ, 255),
     (M10_BRNE, T10_A_ix, Row_ix, B_BRNE, 255),
     (M10_BRGE, T10_A_ix, Row_ix, B_BRGE, 255),
     (M10_BRGT, T10_A_ix, Row_ix, B_BRGT, 255),
     (M10_BRV, T10_A_ix, Row_ix, B_BRV, 255),
     (M10_BRC, T10_A_ix, Row_ix, B_BRC, 255),
     (M10_CALL, T10_A_ix, Row_ix, B_CALL, 255),
     (M10_SCALL, T10_AAA_all, Row_trap, B_SCALL, 6),
     (M10_ADDSP, T10_AAA_all, Row_aaa False [] [], B_ADDSP, 6),
     (M10_SUBSP, T10_AAA_all, Row_aaa False [] [], B_SUBSP, 6),
     (M10_ADDA, T10_RAAA_all, Row_aaa False [] [], B_ADD, 0),
     (M10_ADDX, T10_RAAA_all, Row_aaa False [] [], B_ADD, 1),
     (M10_SUBA, T10_RAAA_all, Row_aaa False [] [], B_SUB, 0),
     (M10_SUBX, T10_RAAA_all, Row_aaa False [] [], B_SUB, 1),
     (M10_ANDA, T10_RAAA_all, Row_aaa False [] [], B_AND, 0),
     (M10_ANDX, T10_RAAA_all, Row_aaa False [] [], B_AND, 1),
     (M10_ORA, T10_RAAA_all, Row_aaa False [] [], B_OR, 0),
     (M10_ORX, T10_RAAA_all, Row_aaa False [] [], B_OR, 1),
     (M10_XORA, T10_RAAA_all, Row_aaa False [] [], B_XOR, 0),
     (M10_XORX, T10_RAAA_all, Row_aaa False [] [], B_XOR, 1),
     (M10_CPWA, T10_RAAA_all, Row_aaa False [] [], B_CPW, 0),
     (M10_CPWX, T10_RAAA_all, Row_aaa False [] [], B_CPW, 1),
     (M10_CPBA, T10_RAAA_all, Row_aaa False [] [], B_CPB, 0),
     (M10_CPBX, T10_RAAA_all, Row_aaa False [] [], B_CPB, 1),
     (M10_LDWA, T10_RAAA_all, Row_aaa False [] [], B_LDW, 0),
     (M10_LDWX, T10_RAAA_all, Row_aaa False [] [], B_LDW, 1),
     (M10_LDBA, T10_RAAA_all, Row_aaa False [] [], B_LDB, 0),
     (M10_LDBX, T10_RAAA_all, Row_aaa False [] [], B_LDB, 1),
     (M10_STWA, T10_RAAA_noi, Row_aaa False [AM_I] [AM_I], B_STW, 0),
     (M10_STWX, T10_RAAA_noi, Row_aaa False [AM_I] [AM_I], B_STW, 1),
     (M10_STBA, T10_RAAA_noi, Row_aaa False [AM_I] [AM_I], B_STB, 0),
     (M10_STBX, T10_RAAA_noi, Row_aaa False [AM_I] [AM_I], B_STB, 1)]"

definition all_mnemonics10 :: "mnemonic10 list" where
  "all_mnemonics10 = [
    M10_RET, M10_SRET, M10_MOVFLGA, M10_MOVAFLG, M10_MOVSPA, M10_MOVASP, M10_NOP, M10_UNIMPL,
    M10_NEGA, M10_NEGX, M10_ASLA, M10_ASLX, M10_ASRA, M10_ASRX, M10_NOTA, M10_NOTX, M10_ROLA,
    M10_ROLX, M10_RORA, M10_RORX, M10_BR, M10_BRLE, M10_BRLT, M10_BREQ, M10_BRNE, M10_BRGE,
    M10_BRGT, M10_BRV, M10_BRC, M10_CALL, M10_SCALL, M10_ADDSP, M10_SUBSP, M10_ADDA, M10_ADDX,
    M10_SUBA, M10_SUBX, M10_ANDA, M10_ANDX, M10_ORA, M10_ORX, M10_XORA, M10_XORX, M10_CPWA,
    M10_CPWX, M10_CPBA, M10_CPBX, M10_LDWA, M10_LDWX, M10_LDBA, M10_LDBX, M10_STWA, M10_STWX,
    M10_STBA, M10_STBX, M10_INVALID]"

lemma all_mnemonics10_complete [simp]: "m \<in> set all_mnemonics10"
  by (cases m) (simp_all add: all_mnemonics10_def)

lemma length_opcodeLUT10 [simp]: "length opcodeLUT10 = 256"
  by code_simp

lemma types_at_LUT10:
  "types_at code10 opcodeLUT10 all_mnemonics10 = [
    T10_U_none, T10_U_none, T10_U_none, T10_U_none, T10_U_none, T10_U_none, T10_U_none, T10_U_none,
    T10_R_none, T10_R_none, T10_R_none, T10_R_none, T10_R_none, T10_R_none, T10_R_none, T10_R_none,
    T10_R_none, T10_R_none, T10_R_none, T10_R_none, T10_A_ix, T10_A_ix, T10_A_ix, T10_A_ix,
    T10_A_ix, T10_A_ix, T10_A_ix, T10_A_ix, T10_A_ix, T10_A_ix, T10_AAA_all, T10_AAA_all,
    T10_AAA_all, T10_RAAA_all, T10_RAAA_all, T10_RAAA_all, T10_RAAA_all, T10_RAAA_all,
    T10_RAAA_all, T10_RAAA_all, T10_RAAA_all, T10_RAAA_all, T10_RAAA_all, T10_RAAA_all,
    T10_RAAA_all, T10_RAAA_all, T10_RAAA_all, T10_RAAA_all, T10_RAAA_all, T10_RAAA_all,
    T10_RAAA_all, T10_RAAA_noi, T10_RAAA_noi, T10_RAAA_noi, T10_RAAA_noi, T10_U_none]"
  by code_simp

lemma code10_less [simp]: "code10 m < 256"
  by (simp add: code10_def)

lemma insn_type_of10_eq: "insn_type_of10 m = itype (instr (opcodeLUT10 ! code10 m))"
  by (simp add: insn_type_of10_def lut10_def opcode10_def unat_of_nat)

lemma insn_type_of10_simps [simp]:
  "insn_type_of10 M10_RET = T10_U_none"
  "insn_type_of10 M10_SRET = T10_U_none"
  "insn_type_of10 M10_MOVFLGA = T10_U_none"
  "insn_type_of10 M10_MOVAFLG = T10_U_none"
  "insn_type_of10 M10_MOVSPA = T10_U_none"
  "insn_type_of10 M10_MOVASP = T10_U_none"
  "insn_type_of10 M10_NOP = T10_U_none"
  "insn_type_of10 M10_UNIMPL = T10_U_none"
  "insn_type_of10 M10_NEGA = T10_R_none"
  "insn_type_of10 M10_NEGX = T10_R_none"
  "insn_type_of10 M10_ASLA = T10_R_none"
  "insn_type_of10 M10_ASLX = T10_R_none"
  "insn_type_of10 M10_ASRA = T10_R_none"
  "insn_type_of10 M10_ASRX = T10_R_none"
  "insn_type_of10 M10_NOTA = T10_R_none"
  "insn_type_of10 M10_NOTX = T10_R_none"
  "insn_type_of10 M10_ROLA = T10_R_none"
  "insn_type_of10 M10_ROLX = T10_R_none"
  "insn_type_of10 M10_RORA = T10_R_none"
  "insn_type_of10 M10_RORX = T10_R_none"
  "insn_type_of10 M10_BR = T10_A_ix"
  "insn_type_of10 M10_BRLE = T10_A_ix"
  "insn_type_of10 M10_BRLT = T10_A_ix"
  "insn_type_of10 M10_BREQ = T10_A_ix"
  "insn_type_of10 M10_BRNE = T10_A_ix"
  "insn_type_of10 M10_BRGE = T10_A_ix"
  "insn_type_of10 M10_BRGT = T10_A_ix"
  "insn_type_of10 M10_BRV = T10_A_ix"
  "insn_type_of10 M10_BRC = T10_A_ix"
  "insn_type_of10 M10_CALL = T10_A_ix"
  "insn_type_of10 M10_SCALL = T10_AAA_all"
  "insn_type_of10 M10_ADDSP = T10_AAA_all"
  "insn_type_of10 M10_SUBSP = T10_AAA_all"
  "insn_type_of10 M10_ADDA = T10_RAAA_all"
  "insn_type_of10 M10_ADDX = T10_RAAA_all"
  "insn_type_of10 M10_SUBA = T10_RAAA_all"
  "insn_type_of10 M10_SUBX = T10_RAAA_all"
  "insn_type_of10 M10_ANDA = T10_RAAA_all"
  "insn_type_of10 M10_ANDX = T10_RAAA_all"
  "insn_type_of10 M10_ORA = T10_RAAA_all"
  "insn_type_of10 M10_ORX = T10_RAAA_all"
  "insn_type_of10 M10_XORA = T10_RAAA_all"
  "insn_type_of10 M10_XORX = T10_RAAA_all"
  "insn_type_of10 M10_CPWA = T10_RAAA_all"
  "insn_type_of10 M10_CPWX = T10_RAAA_all"
  "insn_type_of10 M10_CPBA = T10_RAAA_all"
  "insn_type_of10 M10_CPBX = T10_RAAA_all"
  "insn_type_of10 M10_LDWA = T10_RAAA_all"
  "insn_type_of10 M10_LDWX = T10_RAAA_all"
  "insn_type_of10 M10_LDBA = T10_RAAA_all"
  "insn_type_of10 M10_LDBX = T10_RAAA_all"
  "insn_type_of10 M10_STWA = T10_RAAA_noi"
  "insn_type_of10 M10_STWX = T10_RAAA_noi"
  "insn_type_of10 M10_STBA = T10_RAAA_noi"
  "insn_type_of10 M10_STBX = T10_RAAA_noi"
  "insn_type_of10 M10_INVALID = T10_U_none"
  using types_at_LUT10[unfolded types_at_def all_mnemonics10_def]
  by (simp_all add: insn_type_of10_eq)

text \<open>The byte that an instruction in a given addressing mode assembles to.\<close>

definition encode10 :: "mnemonic10 \<Rightarrow> addressing_mode \<Rightarrow> u8 option" where
  "encode10 m a = (if a = AM_NONE then Some (opcode10 m) else opcode_am10 m a)"

lemma encode_table10:
  "list_all (\<lambda>(k, e). valid e \<longrightarrow> encode10 (mnemon (instr e)) (mode e) = Some (word_of_nat k))
     (zip [0..<256] opcodeLUT10)"
  by code_simp

lemma lut10_byte: "P k (opcodeLUT10 ! k)"
  if "list_all (\<lambda>(k, e). P k e) (zip [0..<256] opcodeLUT10)" and "k < 256" for P
  using that by (simp add: list_all_length)

lemma valid_pairs10_iff:
  "(m, a) \<in> set (valid_pairs opcodeLUT10) \<longleftrightarrow>
    (\<exists>b. valid (lut10 b) \<and> mnemon (instr (lut10 b)) = m \<and> mode (lut10 b) = a \<and> a \<noteq> AM_NONE)"
  unfolding lut10_def by (rule valid_pairs_iff) simp

lemma mnemonic_names10_distinct: "distinct (map (map tolower_c \<circ> fst) (swap_pairs10 mnemonic_names10))"
  by (simp add: mnemonic_names10_def tolower_c_def)

lemma parse_name10:
  assumes "string_mnemonic10 m = Some s" and "ci_eq s t"
  shows "parseMnemonic10 t = m"
proof -
  have "(s, m) \<in> set (swap_pairs10 mnemonic_names10)"
    using map_find_SomeD[OF assms(1)[unfolded string_mnemonic10_def]] by force
  with mnemonic_names10_distinct have "ci_find (swap_pairs10 mnemonic_names10) s = Some m"
    by (rule ci_find_unique)
  then show ?thesis by (simp add: parseMnemonic10_def flip: ci_find_ci_eq[OF assms(2)])
qed

lemma tables10_card: "zip opcodeLUT10 opcode_plane10 = expand_card card10"
  by code_simp

lemma length_opcode_plane10 [simp]: "length opcode_plane10 = 256"
  by code_simp

lemma opcodeLUT10_card: "opcodeLUT10 = map fst (expand_card card10)"
  by (simp flip: tables10_card)

lemma opcode_plane10_card: "opcode_plane10 = map snd (expand_card card10)"
  by (simp flip: tables10_card)

lemma decodes10_iff:
  "(\<exists>b. valid (lut10 b) \<and> mnemon (instr (lut10 b)) = m \<and> mode (lut10 b) = a \<and> a \<noteq> AM_NONE) \<longleftrightarrow>
   (\<exists>t s b r. (m, t, s, b, r) \<in> set card10 \<and> a \<in> set (row_modes s))"
  by (simp flip: valid_pairs10_iff add: opcodeLUT10_card valid_pairs_card)

lemma valid_mode10_decodes:
  "isValidAddressingMode10 m a \<longleftrightarrow>
     (\<exists>b. valid (lut10 b) \<and> mnemon (instr (lut10 b)) = m \<and> mode (lut10 b) = a \<and> a \<noteq> AM_NONE)"
proof (cases "m = M10_INVALID")
  case True
  then show ?thesis unfolding decodes10_iff
    by (auto simp: isValidAddressingMode10_def card10_def)
next
  case False
  then show ?thesis unfolding decodes10_iff
    by (cases m; cases a) (simp_all add: isValidAddressingMode10_def card10_def)
qed

section \<open>Properties\<close>

text \<open>
  Property C12.  The two tables that \<^verbatim>\<open>initOpcodes\<close> builds by overwriting slots are exactly the
  expansion of the reference card: all 256 slots are filled, no block of opcodes overlaps another,
  and the assembler's table and the simulator's table describe the same instruction in every slot.
\<close>

theorem decode_tables10: "zip opcodeLUT10 opcode_plane10 = expand_card card10"
  by (rule tables10_card)

text \<open>
  Property C11.  Decoding then encoding: for every byte that decodes to a valid instruction,
  assembling the decoded mnemonic in the decoded addressing mode gives that byte again, without
  reaching a branch of \<^verbatim>\<open>opcode\<close> that throws.
\<close>

theorem encode_decode10:
  assumes "valid (lut10 b)"
  shows "encode10 (mnemon (instr (lut10 b))) (mode (lut10 b)) = Some b"
proof -
  have "unat b < 256" using unsigned_less[of b] by simp
  from lut10_byte[OF encode_table10 this] show ?thesis using assms by (simp add: lut10_def)
qed

lemma encode_decode10_witness: "encode10 M10_LDWA AM_SX = Some 0xC6"
proof -
  have e: "lut10 0xC6 = mk_entry (mk_instr M10_LDWA T10_RAAA_all False) AM_SX True" by code_simp
  show ?thesis using encode_decode10[of "0xC6"] by (simp add: e mk_entry_def mk_instr_def)
qed

text \<open>
  Property C23.  Printing then parsing a mnemonic, in any mixture of upper and lower case, gives the
  mnemonic back.
\<close>

theorem parse_string10:
  assumes "string_mnemonic10 m = Some s" and "ci_eq s t"
  shows "parseMnemonic10 t = m"
  using assms by (rule parse_name10)

lemma parse_string10_witness: "parseMnemonic10 ''LdWa'' = M10_LDWA"
  by (rule parse_string10[of _ "''LDWA''"]) code_simp+

text \<open>
  Property C15.  The assembler and the decode table agree on addressing modes: a mode is accepted for
  a mnemonic exactly when some byte decodes to that mnemonic in that mode and is valid.
\<close>

theorem valid_mode10_iff_decodes:
  "isValidAddressingMode10 m a \<longleftrightarrow>
     (\<exists>b. valid (lut10 b) \<and> mnemon (instr (lut10 b)) = m \<and> mode (lut10 b) = a \<and> a \<noteq> AM_NONE)"
  by (rule valid_mode10_decodes)

end
