(* ===== verification/Pep9_Isa.thy ===== *)
theory Pep9_Isa
  imports Isa_Shared
begin

text \<open>
  The Pep/9 instruction set of \<^verbatim>\<open>arch/pep/isa/pep9.hpp\<close> and \<^verbatim>\<open>pep9.cpp\<close>: its
  enumerations, the two decode tables that \<^verbatim>\<open>initOpcodes\<close> fills statement by statement, the
  name tables with their case-insensitive parsers, and the classification functions that the
  assembler and the simulator ask.  The lemmas evaluate the tables and show what every byte
  decodes to.
\<close>

section \<open>Enumerations\<close>

datatype (plugins only: code size) mnemonic9 =
    M9_STOP | M9_RET | M9_RETTR | M9_MOVSPA | M9_MOVFLGA | M9_MOVAFLG | M9_NOTA | M9_NOTX |
    M9_NEGA | M9_NEGX | M9_ASLA | M9_ASLX | M9_ASRA | M9_ASRX | M9_ROLA | M9_ROLX | M9_RORA |
    M9_RORX | M9_BR | M9_BRLE | M9_BRLT | M9_BREQ | M9_BRNE | M9_BRGE | M9_BRGT | M9_BRV | M9_BRC |
    M9_CALL | M9_NOP0 | M9_NOP1 | M9_NOP | M9_DECI | M9_DECO | M9_HEXO | M9_STRO | M9_ADDSP |
    M9_SUBSP | M9_ADDA | M9_ADDX | M9_SUBA | M9_SUBX | M9_ANDA | M9_ANDX | M9_ORA | M9_ORX |
    M9_CPWA | M9_CPWX | M9_CPBA | M9_CPBX | M9_LDWA | M9_LDWX | M9_LDBA | M9_LDBX | M9_STWA |
    M9_STWX | M9_STBA | M9_STBX | M9_INVALID

datatype (plugins only: code size) insn_type9 =
    T9_Invalid | T9_U_none | T9_R_none | T9_N_none | T9_A_ix | T9_AAA_noi | T9_AAA_stro |
    T9_AAA_all | T9_AAA_i | T9_RAAA_all | T9_RAAA_noi

text \<open>The enumerator's value; an enumerator without one follows its predecessor.\<close>

primrec mnemonic9_value :: "mnemonic9 \<Rightarrow> nat" where
  "mnemonic9_value M9_STOP = 0x0"
| "mnemonic9_value M9_RET = 0x1"
| "mnemonic9_value M9_RETTR = 0x2"
| "mnemonic9_value M9_MOVSPA = 0x3"
| "mnemonic9_value M9_MOVFLGA = 0x4"
| "mnemonic9_value M9_MOVAFLG = 0x5"
| "mnemonic9_value M9_NOTA = 0x6"
| "mnemonic9_value M9_NOTX = 0x7"
| "mnemonic9_value M9_NEGA = 0x8"
| "mnemonic9_value M9_NEGX = 0x9"
| "mnemonic9_value M9_ASLA = 0xA"
| "mnemonic9_value M9_ASLX = 0xB"
| "mnemonic9_value M9_ASRA = 0xC"
| "mnemonic9_value M9_ASRX = 0xD"
| "mnemonic9_value M9_ROLA = 0xE"
| "mnemonic9_value M9_ROLX = 0xF"
| "mnemonic9_value M9_RORA = 0x10"
| "mnemonic9_value M9_RORX = 0x11"
| "mnemonic9_value M9_BR = 0x12"
| "mnemonic9_value M9_BRLE = 0x14"
| "mnemonic9_value M9_BRLT = 0x16"
| "mnemonic9_value M9_BREQ = 0x18"
| "mnemonic9_value M9_BRNE = 0x1A"
| "mnemonic9_value M9_BRGE = 0x1C"
| "mnemonic9_value M9_BRGT = 0x1E"
| "mnemonic9_value M9_BRV = 0x20"
| "mnemonic9_value M9_BRC = 0x22"
| "mnemonic9_value M9_CALL = 0x24"
| "mnemonic9_value M9_NOP0 = 0x26"
| "mnemonic9_value M9_NOP1 = 0x27"
| "mnemonic9_value M9_NOP = 0x28"
| "mnemonic9_value M9_DECI = 0x30"
| "mnemonic9_value M9_DECO = 0x38"
| "mnemonic9_value M9_HEXO = 0x40"
| "mnemonic9_value M9_STRO = 0x48"
| "mnemonic9_value M9_ADDSP = 0x50"
| "mnemonic9_value M9_SUBSP = 0x58"
| "mnemonic9_value M9_ADDA = 0x60"
| "mnemonic9_value M9_ADDX = 0x68"
| "mnemonic9_value M9_SUBA = 0x70"
| "mnemonic9_value M9_SUBX = 0x78"
| "mnemonic9_value M9_ANDA = 0x80"
| "mnemonic9_value M9_ANDX = 0x88"
| "mnemonic9_value M9_ORA = 0x90"
| "mnemonic9_value M9_ORX = 0x98"
| "mnemonic9_value M9_CPWA = 0xA0"
| "mnemonic9_value M9_CPWX = 0xA8"
| "mnemonic9_value M9_CPBA = 0xB0"
| "mnemonic9_value M9_CPBX = 0xB8"
| "mnemonic9_value M9_LDWA = 0xC0"
| "mnemonic9_value M9_LDWX = 0xC8"
| "mnemonic9_value M9_LDBA = 0xD0"
| "mnemonic9_value M9_LDBX = 0xD8"
| "mnemonic9_value M9_STWA = 0xE0"
| "mnemonic9_value M9_STWX = 0xE8"
| "mnemonic9_value M9_STBA = 0xF0"
| "mnemonic9_value M9_STBX = 0xF8"
| "mnemonic9_value M9_INVALID = 0xF9"

type_synonym entry9 = "(mnemonic9, insn_type9) opcode_entry"
type_synonym tables9 = "(mnemonic9, insn_type9) tables"

text \<open>The cast \<open>static_cast<uint8_t>(mnemonic)\<close>, as an index and as a byte.\<close>

definition code9 :: "mnemonic9 \<Rightarrow> nat" where
  "code9 m = mnemonic9_value m mod 256"

definition opcode9 :: "mnemonic9 \<Rightarrow> u8" where
  "opcode9 m = word_of_nat (code9 m)"

definition opcode_am9 :: "mnemonic9 \<Rightarrow> addressing_mode \<Rightarrow> u8 option" where
  "opcode_am9 m a = opcode_with_mode (opcode9 M9_BR) (opcode9 M9_CALL) (opcode9 m) a"

section \<open>The decode tables\<close>

abbreviation add_ix9 :: "(mnemonic9, insn_type9) instruction \<Rightarrow> tables9 \<Rightarrow> tables9" where
  "add_ix9 \<equiv> add_ix code9"

text \<open>In Pep/9 the immediate entry is valid for every instruction, stores included.\<close>

definition add_all9 :: "(mnemonic9, insn_type9) instruction \<Rightarrow> tables9 \<Rightarrow> tables9" where
  "add_all9 i = add_all code9 True i"

text \<open>Filling the tables, in the order of the code: the instructions without an operand.\<close>

definition init_unary9 :: "tables9 \<Rightarrow> tables9" where
  "init_unary9 = run_steps ([
     set_mn (code9 M9_STOP) (mk_entry (mk_instr M9_STOP T9_U_none True) AM_NONE True),
     set_bh (code9 M9_STOP) (sop B_STOP SA_Unary),
     set_mn (code9 M9_RET) (mk_entry (mk_instr M9_RET T9_U_none True) AM_NONE True),
     set_bh (code9 M9_RET) (sop B_RET SA_Unary),
     set_mn (code9 M9_RETTR) (mk_entry (mk_instr M9_RETTR T9_U_none True) AM_NONE True),
     set_bh (code9 M9_RETTR) (sop B_SRET SA_Unary),
     set_mn (code9 M9_MOVSPA) (mk_entry (mk_instr M9_MOVSPA T9_U_none True) AM_NONE True),
     set_bh (code9 M9_MOVSPA) (sop B_MOVSPA SA_Unary),
     set_mn (code9 M9_MOVFLGA) (mk_entry (mk_instr M9_MOVFLGA T9_U_none True) AM_NONE True),
     set_bh (code9 M9_MOVFLGA) (sop B_MOVFLGA SA_Unary),
     set_mn (code9 M9_MOVAFLG) (mk_entry (mk_instr M9_MOVAFLG T9_U_none True) AM_NONE True),
     set_bh (code9 M9_MOVAFLG) (sop B_MOVAFLG SA_Unary),
     set_mn (code9 M9_NOTA) (mk_entry (mk_instr M9_NOTA T9_R_none True) AM_NONE True),
     set_bh (code9 M9_NOTA) (sop_r B_NOT SA_Unary (register_u8 R_A)),
     set_mn (code9 M9_NOTX) (mk_entry (mk_instr M9_NOTX T9_R_none True) AM_NONE True),
     set_bh (code9 M9_NOTX) (sop_r B_NOT SA_Unary (register_u8 R_X)),
     set_mn (code9 M9_NEGA) (mk_entry (mk_instr M9_NEGA T9_R_none True) AM_NONE True),
     set_bh (code9 M9_NEGA) (sop_r B_NEG SA_Unary (register_u8 R_A)),
     set_mn (code9 M9_NEGX) (mk_entry (mk_instr M9_NEGX T9_R_none True) AM_NONE True),
     set_bh (code9 M9_NEGX) (sop_r B_NEG SA_Unary (register_u8 R_X)),
     set_mn (code9 M9_ASLA) (mk_entry (mk_instr M9_ASLA T9_R_none True) AM_NONE True),
     set_bh (code9 M9_ASLA) (sop_r B_ASL SA_Unary (register_u8 R_A)),
     set_mn (code9 M9_ASLX) (mk_entry (mk_instr M9_ASLX T9_R_none True) AM_NONE True),
     set_bh (code9 M9_ASLX) (sop_r B_ASL SA_Unary (register_u8 R_X)),
     set_mn (code9 M9_ASRA) (mk_entry (mk_instr M9_ASRA T9_R_none True) AM_NONE True),
     set_bh (code9 M9_ASRA) (sop_r B_ASR SA_Unary (register_u8 R_A)),
     set_mn (code9 M9_ASRX) (mk_entry (mk_instr M9_ASRX T9_R_none True) AM_NONE True),
     set_bh (code9 M9_ASRX) (sop_r B_ASR SA_Unary (register_u8 R_X)),
     set_mn (code9 M9_ROLA) (mk_entry (mk_instr M9_ROLA T9_R_none True) AM_NONE True),
     set_bh (code9 M9_ROLA) (sop_r B_ROL SA_Unary (register_u8 R_A)),
     set_mn (code9 M9_ROLX) (mk_entry (mk_instr M9_ROLX T9_R_none True) AM_NONE True),
     set_bh (code9 M9_ROLX) (sop_r B_ROL SA_Unary (register_u8 R_X)),
     set_mn (code9 M9_RORA) (mk_entry (mk_instr M9_RORA T9_R_none True) AM_NONE True),
     set_bh (code9 M9_RORA) (sop_r B_ROR SA_Unary (register_u8 R_A)),
     set_mn (code9 M9_RORX) (mk_entry (mk_instr M9_RORX T9_R_none True) AM_NONE True),
     set_bh (code9 M9_RORX) (sop_r B_ROR SA_Unary (register_u8 R_X))])"

text \<open>Filling the tables, in the order of the code: the branches and \<open>CALL\<close>.\<close>

definition init_branch9 :: "tables9 \<Rightarrow> tables9" where
  "init_branch9 = run_steps ([
     add_ix9 (mk_instr M9_BR T9_A_ix False),
     bh_ix (code9 M9_BR) B_BR,
     add_ix9 (mk_instr M9_BRLE T9_A_ix False),
     bh_ix (code9 M9_BRLE) B_BRLE,
     add_ix9 (mk_instr M9_BRLT T9_A_ix False),
     bh_ix (code9 M9_BRLT) B_BRLT,
     add_ix9 (mk_instr M9_BREQ T9_A_ix False),
     bh_ix (code9 M9_BREQ) B_BREQ,
     add_ix9 (mk_instr M9_BRNE T9_A_ix False),
     bh_ix (code9 M9_BRNE) B_BRNE,
     add_ix9 (mk_instr M9_BRGE T9_A_ix False),
     bh_ix (code9 M9_BRGE) B_BRGE,
     add_ix9 (mk_instr M9_BRGT T9_A_ix False),
     bh_ix (code9 M9_BRGT) B_BRGT,
     add_ix9 (mk_instr M9_BRV T9_A_ix False),
     bh_ix (code9 M9_BRV) B_BRV,
     add_ix9 (mk_instr M9_BRC T9_A_ix False),
     bh_ix (code9 M9_BRC) B_BRC,
     add_ix9 (mk_instr M9_CALL T9_A_ix False),
     bh_ix (code9 M9_CALL) B_CALL])"

text \<open>Filling the tables, in the order of the code: the trap instructions.\<close>

definition init_trap9 :: "tables9 \<Rightarrow> tables9" where
  "init_trap9 = run_steps ([
     set_mn (code9 M9_NOP0) (mk_entry (mk_instr M9_NOP0 T9_N_none True) AM_NONE True),
     set_bh (code9 M9_NOP0) (sop B_TRAP_CALL SA_Unary),
     set_mn (code9 M9_NOP1) (mk_entry (mk_instr M9_NOP1 T9_N_none True) AM_NONE True),
     set_bh (code9 M9_NOP1) (sop B_TRAP_CALL SA_Unary),
     add_all9 (mk_instr M9_NOP T9_AAA_i True),
     bh_all_aaa (code9 M9_NOP) B_TRAP_CALL R_INVALID,
     add_all9 (mk_instr M9_DECI T9_AAA_noi True),
     bh_noi_aaa (code9 M9_DECI) B_TRAP_CALL R_INVALID,
     patch_valid (code9 M9_DECI) False,
     set_bh (code9 M9_DECI) (sop B_INVALID SA_Unary),
     patch_valid (code9 M9_DECI + 0) False,
     set_bh (code9 M9_DECI + 0) (sop B_INVALID SA_Unary),
     patch_valid (code9 M9_DECI + 6) False,
     set_bh (code9 M9_DECI + 6) (sop B_INVALID SA_Unary),
     patch_valid (code9 M9_DECI + 7) False,
     set_bh (code9 M9_DECI + 7) (sop B_INVALID SA_Unary),
     add_all9 (mk_instr M9_DECO T9_AAA_all True),
     bh_all_aaa (code9 M9_DECO) B_TRAP_CALL R_INVALID,
     add_all9 (mk_instr M9_HEXO T9_AAA_all True),
     bh_all_aaa (code9 M9_HEXO) B_TRAP_CALL R_INVALID,
     add_all9 (mk_instr M9_STRO T9_AAA_stro True),
     bh_all_aaa (code9 M9_STRO) B_TRAP_CALL R_INVALID])"

text \<open>Filling the tables, in the order of the code: the instructions with an operand.\<close>

definition init_operand9 :: "tables9 \<Rightarrow> tables9" where
  "init_operand9 = run_steps ([
     add_all9 (mk_instr M9_ADDSP T9_AAA_all False),
     bh_all_aaa (code9 M9_ADDSP) B_ADDSP R_SP,
     add_all9 (mk_instr M9_SUBSP T9_AAA_all False),
     bh_all_aaa (code9 M9_SUBSP) B_SUBSP R_SP,
     add_all9 (mk_instr M9_ADDA T9_RAAA_all False),
     bh_all_aaa (code9 M9_ADDA) B_ADD R_A,
     add_all9 (mk_instr M9_ADDX T9_RAAA_all False),
     bh_all_aaa (code9 M9_ADDX) B_ADD R_X,
     add_all9 (mk_instr M9_SUBA T9_RAAA_all False),
     bh_all_aaa (code9 M9_SUBA) B_SUB R_A,
     add_all9 (mk_instr M9_SUBX T9_RAAA_all False),
     bh_all_aaa (code9 M9_SUBX) B_SUB R_X,
     add_all9 (mk_instr M9_ANDA T9_RAAA_all False),
     bh_all_aaa (code9 M9_ANDA) B_AND R_A,
     add_all9 (mk_instr M9_ANDX T9_RAAA_all False),
     bh_all_aaa (code9 M9_ANDX) B_AND R_X,
     add_all9 (mk_instr M9_ORA T9_RAAA_all False),
     bh_all_aaa (code9 M9_ORA) B_OR R_A,
     add_all9 (mk_instr M9_ORX T9_RAAA_all False),
     bh_all_aaa (code9 M9_ORX) B_OR R_X,
     add_all9 (mk_instr M9_CPWA T9_RAAA_all False),
     bh_all_aaa (code9 M9_CPWA) B_CPW R_A,
     add_all9 (mk_instr M9_CPWX T9_RAAA_all False),
     bh_all_aaa (code9 M9_CPWX) B_CPW R_X,
     add_all9 (mk_instr M9_CPBA T9_RAAA_all False),
     bh_all_aaa (code9 M9_CPBA) B_CPB R_A,
     add_all9 (mk_instr M9_CPBX T9_RAAA_all False),
     bh_all_aaa (code9 M9_CPBX) B_CPB R_X,
     add_all9 (mk_instr M9_LDWA T9_RAAA_all False),
     bh_all_aaa (code9 M9_LDWA) B_LDW R_A,
     add_all9 (mk_instr M9_LDWX T9_RAAA_all False),
     bh_all_aaa (code9 M9_LDWX) B_LDW R_X,
     add_all9 (mk_instr M9_LDBA T9_RAAA_all False),
     bh_all_aaa (code9 M9_LDBA) B_LDB R_A,
     add_all9 (mk_instr M9_LDBX T9_RAAA_all False),
     bh_all_aaa (code9 M9_LDBX) B_LDB R_X,
     add_all9 (mk_instr M9_STWA T9_RAAA_noi False),
     bh_noi_aaa (code9 M9_STWA) B_STW R_A,
     add_all9 (mk_instr M9_STWX T9_RAAA_noi False),
     bh_noi_aaa (code9 M9_STWX) B_STW R_X,
     add_all9 (mk_instr M9_STBA T9_RAAA_noi False),
     bh_noi_aaa (code9 M9_STBA) B_STB R_A,
     add_all9 (mk_instr M9_STBX T9_RAAA_noi False),
     bh_noi_aaa (code9 M9_STBX) B_STB R_X])"

text \<open>
  \<^verbatim>\<open>std::array<Opcode, 256>()\<close> value-initialises the entries: mnemonic 0 is \<open>STOP\<close>, type \<open>Invalid\<close>.
\<close>

definition default_entry9 :: entry9 where
  "default_entry9 = mk_entry (mk_instr M9_STOP T9_Invalid False) AM_NONE False"

definition initOpcodes9 :: "tables9" where
  "initOpcodes9 =
     init_operand9 (init_trap9 (init_branch9 (init_unary9 (replicate 256 default_entry9, replicate 256 shared_op_default))))"

definition opcodeLUT9 :: "entry9 list" where
  "opcodeLUT9 = fst initOpcodes9"

definition opcode_plane9 :: "shared_op list" where
  "opcode_plane9 = snd initOpcodes9"

definition lut9 :: "u8 \<Rightarrow> entry9" where
  "lut9 b = opcodeLUT9 ! unat b"

definition plane9 :: "u8 \<Rightarrow> shared_op" where
  "plane9 b = opcode_plane9 ! unat b"

section \<open>Names\<close>

text \<open>The insertions of \<open>register_maps\<close>, \<open>am_maps\<close> and \<open>mnemonic_maps\<close>, in order.\<close>

definition register_names9 :: "(pep_register \<times> string) list" where
  "register_names9 =
    [(R_A, ''A''), (R_X, ''X''), (R_SP, ''SP''), (R_PC, ''PC''), (R_IS, ''IS''), (R_OS, ''OS''),
     (R_INVALID, ''invalid'')]"

definition am_names9 :: "(addressing_mode \<times> string) list" where
  "am_names9 =
    [(AM_NONE, ''none''), (AM_I, ''I''), (AM_D, ''D''), (AM_N, ''N''), (AM_S, ''S''), (AM_SF, ''SF''),
     (AM_X, ''X''), (AM_SX, ''SX''), (AM_SFX, ''SFX''), (AM_INVALID, ''invalid'')]"

definition mnemonic_names9 :: "(mnemonic9 \<times> string) list" where
  "mnemonic_names9 = [
    (M9_STOP, ''STOP''), (M9_RET, ''RET''), (M9_RETTR, ''RETTR''), (M9_MOVSPA, ''MOVSPA''),
    (M9_MOVFLGA, ''MOVFLGA''), (M9_MOVAFLG, ''MOVAFLG''), (M9_NOTA, ''NOTA''), (M9_NOTX, ''NOTX''),
    (M9_NEGA, ''NEGA''), (M9_NEGX, ''NEGX''), (M9_ASLA, ''ASLA''), (M9_ASLX, ''ASLX''),
    (M9_ASRA, ''ASRA''), (M9_ASRX, ''ASRX''), (M9_ROLA, ''ROLA''), (M9_ROLX, ''ROLX''),
    (M9_RORA, ''RORA''), (M9_RORX, ''RORX''), (M9_BR, ''BR''), (M9_BRLE, ''BRLE''),
    (M9_BRLT, ''BRLT''), (M9_BREQ, ''BREQ''), (M9_BRNE, ''BRNE''), (M9_BRGE, ''BRGE''),
    (M9_BRGT, ''BRGT''), (M9_BRV, ''BRV''), (M9_BRC, ''BRC''), (M9_CALL, ''CALL''),
    (M9_NOP0, ''NOP0''), (M9_NOP1, ''NOP1''), (M9_NOP, ''NOP''), (M9_DECI, ''DECI''),
    (M9_DECO, ''DECO''), (M9_HEXO, ''HEXO''), (M9_STRO, ''STRO''), (M9_ADDSP, ''ADDSP''),
    (M9_SUBSP, ''SUBSP''), (M9_ADDA, ''ADDA''), (M9_ADDX, ''ADDX''), (M9_SUBA, ''SUBA''),
    (M9_SUBX, ''SUBX''), (M9_ANDA, ''ANDA''), (M9_ANDX, ''ANDX''), (M9_ORA, ''ORA''),
    (M9_ORX, ''ORX''), (M9_CPWA, ''CPWA''), (M9_CPWX, ''CPWX''), (M9_CPBA, ''CPBA''),
    (M9_CPBX, ''CPBX''), (M9_LDWA, ''LDWA''), (M9_LDWX, ''LDWX''), (M9_LDBA, ''LDBA''),
    (M9_LDBX, ''LDBX''), (M9_STWA, ''STWA''), (M9_STWX, ''STWX''), (M9_STBA, ''STBA''),
    (M9_STBX, ''STBX'')]"

abbreviation swap_pairs9 :: "('a \<times> 'b) list \<Rightarrow> ('b \<times> 'a) list" where
  "swap_pairs9 \<equiv> map (\<lambda>(a, b). (b, a))"

definition parseMnemonic9 :: "string \<Rightarrow> mnemonic9" where
  "parseMnemonic9 s = (case ci_find (swap_pairs9 mnemonic_names9) s of Some m \<Rightarrow> m | None \<Rightarrow> M9_INVALID)"

definition parseAddressingMode9 :: "string \<Rightarrow> addressing_mode" where
  "parseAddressingMode9 s = (case ci_find (swap_pairs9 am_names9) s of Some a \<Rightarrow> a | None \<Rightarrow> AM_INVALID)"

definition parseRegister9 :: "string \<Rightarrow> pep_register" where
  "parseRegister9 s = (case ci_find (swap_pairs9 register_names9) s of Some r \<Rightarrow> r | None \<Rightarrow> R_INVALID)"

text \<open>\<^verbatim>\<open>std::map::at\<close> throws for a missing key: \<open>None\<close>.\<close>

definition string_mnemonic9 :: "mnemonic9 \<Rightarrow> string option" where
  "string_mnemonic9 m = map_find mnemonic_names9 m"

definition string_am9 :: "addressing_mode \<Rightarrow> string" where
  "string_am9 a = (case map_find am_names9 a of None \<Rightarrow> ''invalid'' | Some s \<Rightarrow> to_lower s)"

definition string_register9 :: "pep_register \<Rightarrow> string option" where
  "string_register9 r = map_find register_names9 r"

text \<open>All names, in the order of \<^verbatim>\<open>std::map\<close>, which is that of the enumerators' values.\<close>

definition mnemonics9 :: "string list" where
  "mnemonics9 = map snd (sort_key (\<lambda>(m, s). mnemonic9_value m) mnemonic_names9)"

section \<open>Classification\<close>

definition insn_type_of9 :: "mnemonic9 \<Rightarrow> insn_type9" where
  "insn_type_of9 m = itype (instr (lut9 (opcode9 m)))"

definition isMnemonicUnary_op9 :: "u8 \<Rightarrow> bool" where
  "isMnemonicUnary_op9 b = (let t = itype (instr (lut9 b)) in t = T9_R_none \<or> t = T9_U_none)"

definition isMnemonicUnary9 :: "mnemonic9 \<Rightarrow> bool" where
  "isMnemonicUnary9 m = isMnemonicUnary_op9 (opcode9 m)"

definition isOpcodeUnary_op9 :: "u8 \<Rightarrow> bool" where
  "isOpcodeUnary_op9 b = unary (instr (lut9 b))"

definition isOpcodeUnary9 :: "mnemonic9 \<Rightarrow> bool" where
  "isOpcodeUnary9 m = isOpcodeUnary_op9 (opcode9 m)"

definition isStore9 :: "mnemonic9 \<Rightarrow> bool" where
  "isStore9 m \<longleftrightarrow> (if m = M9_STBA \<or> m = M9_STWA \<or> m = M9_STBX \<or> m = M9_STWX then True else False)"

definition isStore_op9 :: "u8 \<Rightarrow> bool" where
  "isStore_op9 b = isStore9 (mnemon (instr (lut9 b)))"

definition operandBytes9 :: "mnemonic9 \<Rightarrow> u8" where
  "operandBytes9 m =
     (if isMnemonicUnary9 m then 0
      else if m \<in> {M9_LDBA, M9_LDBX, M9_CPBA, M9_CPBX} then 1 else 2)"

definition operandBytes_op9 :: "u8 \<Rightarrow> u8" where
  "operandBytes_op9 b = operandBytes9 (mnemon (instr (lut9 b)))"

definition isCall9 :: "mnemonic9 \<Rightarrow> bool" where
  "isCall9 m \<longleftrightarrow> m \<in> {M9_NOP0, M9_NOP1, M9_CALL, M9_NOP, M9_DECI, M9_DECO, M9_HEXO, M9_STRO}"

definition isTrap9 :: "mnemonic9 \<Rightarrow> bool" where
  "isTrap9 m \<longleftrightarrow> m \<in> {M9_NOP0, M9_NOP1, M9_NOP, M9_DECI, M9_DECO, M9_HEXO, M9_STRO}"

definition isCall_op9 :: "u8 \<Rightarrow> bool" where
  "isCall_op9 b = isCall9 (mnemon (instr (lut9 b)))"

definition isTrap_op9 :: "u8 \<Rightarrow> bool" where
  "isTrap_op9 b = isTrap9 (mnemon (instr (lut9 b)))"

definition isUType9 :: "mnemonic9 \<Rightarrow> bool" where
  "isUType9 m \<longleftrightarrow> insn_type_of9 m = T9_U_none"

definition isRType9 :: "mnemonic9 \<Rightarrow> bool" where
  "isRType9 m \<longleftrightarrow> insn_type_of9 m = T9_R_none"

definition isAType9 :: "mnemonic9 \<Rightarrow> bool" where
  "isAType9 m \<longleftrightarrow> insn_type_of9 m = T9_A_ix"

definition isValidATypeAddressingMode9 :: "mnemonic9 \<Rightarrow> addressing_mode \<Rightarrow> bool" where
  "isValidATypeAddressingMode9 m a \<longleftrightarrow> a = AM_I \<or> a = AM_X"

definition isAAAType9 :: "mnemonic9 \<Rightarrow> bool" where
  "isAAAType9 m \<longleftrightarrow> (let t = insn_type_of9 m in t = T9_AAA_all \<or> t = T9_AAA_i \<or> t = T9_AAA_stro \<or> t = T9_AAA_noi)"

definition isValidAAATypeAddressingMode9 :: "mnemonic9 \<Rightarrow> addressing_mode \<Rightarrow> bool" where
  "isValidAAATypeAddressingMode9 m a \<longleftrightarrow> \<not> (a = AM_ALL \<or> a = AM_INVALID \<or> a = AM_NONE)"

definition isRAAAType9 :: "mnemonic9 \<Rightarrow> bool" where
  "isRAAAType9 m \<longleftrightarrow> (let t = insn_type_of9 m in t = T9_RAAA_all \<or> t = T9_RAAA_noi)"

definition isValidRAAATypeAddressingMode9 :: "mnemonic9 \<Rightarrow> addressing_mode \<Rightarrow> bool" where
  "isValidRAAATypeAddressingMode9 m a \<longleftrightarrow>
     \<not> (a = AM_ALL \<or> a = AM_INVALID \<or> a = AM_NONE \<or> (insn_type_of9 m = T9_RAAA_noi \<and> a = AM_I))"

definition isValidAddressingMode9 :: "mnemonic9 \<Rightarrow> addressing_mode \<Rightarrow> bool" where
  "isValidAddressingMode9 m a =
     (case insn_type_of9 m of
        T9_Invalid \<Rightarrow> False
      | T9_U_none \<Rightarrow> False
      | T9_N_none \<Rightarrow> False
      | T9_R_none \<Rightarrow> False
      | T9_A_ix \<Rightarrow> a = AM_X \<or> a = AM_I
      | T9_AAA_i \<Rightarrow> a = AM_I
      | T9_AAA_stro \<Rightarrow>
          \<not> (a = AM_ALL \<or> a = AM_INVALID \<or> a = AM_NONE \<or> a = AM_I \<or> a = AM_SX \<or> a = AM_SFX)
      | T9_AAA_all \<Rightarrow> \<not> (a = AM_ALL \<or> a = AM_INVALID \<or> a = AM_NONE)
      | T9_RAAA_all \<Rightarrow> \<not> (a = AM_ALL \<or> a = AM_INVALID \<or> a = AM_NONE)
      | T9_AAA_noi \<Rightarrow> \<not> (a = AM_ALL \<or> a = AM_INVALID \<or> a = AM_NONE \<or> a = AM_I)
      | T9_RAAA_noi \<Rightarrow> \<not> (a = AM_ALL \<or> a = AM_INVALID \<or> a = AM_NONE \<or> a = AM_I))"

definition decodeOperandAsSigned9 :: "u8 \<Rightarrow> bool" where
  "decodeOperandAsSigned9 b =
     (case mode (lut9 b) of
        AM_I \<Rightarrow> True | AM_S \<Rightarrow> True | AM_SF \<Rightarrow> True | AM_SX \<Rightarrow> True | AM_SFX \<Rightarrow> True | _ \<Rightarrow> False)"

definition requiresAddressingMode9 :: "mnemonic9 \<Rightarrow> bool" where
  "requiresAddressingMode9 m \<longleftrightarrow> isAAAType9 m \<or> isRAAAType9 m"

definition canElideAddressingMode9 :: "mnemonic9 \<Rightarrow> addressing_mode \<Rightarrow> bool" where
  "canElideAddressingMode9 m a \<longleftrightarrow> isAType9 m \<and> a = AM_I"

definition defaultMnemonic9 :: mnemonic9 where
  "defaultMnemonic9 = M9_INVALID"

definition defaultAddressingMode9 :: "mnemonic9 \<Rightarrow> addressing_mode" where
  "defaultAddressingMode9 m = (if isAType9 m then AM_I else AM_INVALID)"

section \<open>Descriptions\<close>

primrec describeMnemonicUsingPlaceholders9 :: "mnemonic9 \<Rightarrow> string" where
  "describeMnemonicUsingPlaceholders9 M9_STOP = ''Stop execution''"
| "describeMnemonicUsingPlaceholders9 M9_RET = ''Return from CALL''"
| "describeMnemonicUsingPlaceholders9 M9_RETTR = ''Return from trap''"
| "describeMnemonicUsingPlaceholders9 M9_MOVSPA = ''Move SP to A''"
| "describeMnemonicUsingPlaceholders9 M9_MOVFLGA = ''Move NZVC flags to A<12..15>''"
| "describeMnemonicUsingPlaceholders9 M9_MOVAFLG = ''Move A<12..15> to NZVC flags''"
| "describeMnemonicUsingPlaceholders9 M9_NOTA = ''Bitwise invert r''"
| "describeMnemonicUsingPlaceholders9 M9_NOTX = ''Bitwise invert r''"
| "describeMnemonicUsingPlaceholders9 M9_NEGA = ''Negate r''"
| "describeMnemonicUsingPlaceholders9 M9_NEGX = ''Negate r''"
| "describeMnemonicUsingPlaceholders9 M9_ASLA = ''Arithmetic shift left r''"
| "describeMnemonicUsingPlaceholders9 M9_ASLX = ''Arithmetic shift left r''"
| "describeMnemonicUsingPlaceholders9 M9_ASRA = ''Arithmetic shift right r''"
| "describeMnemonicUsingPlaceholders9 M9_ASRX = ''Arithmetic shift right r''"
| "describeMnemonicUsingPlaceholders9 M9_ROLA = ''Rotate left r''"
| "describeMnemonicUsingPlaceholders9 M9_ROLX = ''Rotate left r''"
| "describeMnemonicUsingPlaceholders9 M9_RORA = ''Rotate right r''"
| "describeMnemonicUsingPlaceholders9 M9_RORX = ''Rotate right r''"
| "describeMnemonicUsingPlaceholders9 M9_BR = ''Branch unconditional''"
| "describeMnemonicUsingPlaceholders9 M9_BRLE = ''Branch if less than or equal to''"
| "describeMnemonicUsingPlaceholders9 M9_BRLT = ''Branch if less than''"
| "describeMnemonicUsingPlaceholders9 M9_BREQ = ''Branch if equal to''"
| "describeMnemonicUsingPlaceholders9 M9_BRNE = ''Branch if not equal to''"
| "describeMnemonicUsingPlaceholders9 M9_BRGE = ''Branch if greater than or equal to''"
| "describeMnemonicUsingPlaceholders9 M9_BRGT = ''Branch if greater than''"
| "describeMnemonicUsingPlaceholders9 M9_BRV = ''Branch if V''"
| "describeMnemonicUsingPlaceholders9 M9_BRC = ''Branch if C''"
| "describeMnemonicUsingPlaceholders9 M9_CALL = ''Call subroutine''"
| "describeMnemonicUsingPlaceholders9 M9_NOP0 = ''Unary no operation trap''"
| "describeMnemonicUsingPlaceholders9 M9_NOP1 = ''Unary no operation trap''"
| "describeMnemonicUsingPlaceholders9 M9_NOP = ''Nonunary no operation trap''"
| "describeMnemonicUsingPlaceholders9 M9_DECI = ''Decimal input trap''"
| "describeMnemonicUsingPlaceholders9 M9_DECO = ''Decimal output trap''"
| "describeMnemonicUsingPlaceholders9 M9_HEXO = ''Hexadecimal output trap''"
| "describeMnemonicUsingPlaceholders9 M9_STRO = ''String output trap''"
| "describeMnemonicUsingPlaceholders9 M9_ADDSP = ''Add to stack pointer (SP)''"
| "describeMnemonicUsingPlaceholders9 M9_SUBSP = ''Subtract from stack pointer (SP)''"
| "describeMnemonicUsingPlaceholders9 M9_ADDA = ''Add to r''"
| "describeMnemonicUsingPlaceholders9 M9_ADDX = ''Add to r''"
| "describeMnemonicUsingPlaceholders9 M9_SUBA = ''Subtract from r''"
| "describeMnemonicUsingPlaceholders9 M9_SUBX = ''Subtract from r''"
| "describeMnemonicUsingPlaceholders9 M9_ANDA = ''Bitwise AND to r''"
| "describeMnemonicUsingPlaceholders9 M9_ANDX = ''Bitwise AND to r''"
| "describeMnemonicUsingPlaceholders9 M9_ORA = ''Bitwise OR to r''"
| "describeMnemonicUsingPlaceholders9 M9_ORX = ''Bitwise OR to r''"
| "describeMnemonicUsingPlaceholders9 M9_CPWA = ''Compare word to r''"
| "describeMnemonicUsingPlaceholders9 M9_CPWX = ''Compare word to r''"
| "describeMnemonicUsingPlaceholders9 M9_CPBA = ''Compare byte to r<8..15>''"
| "describeMnemonicUsingPlaceholders9 M9_CPBX = ''Compare byte to r<8..15>''"
| "describeMnemonicUsingPlaceholders9 M9_LDWA = ''Load word r from memory''"
| "describeMnemonicUsingPlaceholders9 M9_LDWX = ''Load word r from memory''"
| "describeMnemonicUsingPlaceholders9 M9_LDBA = ''Load byte r<8..15> from memory''"
| "describeMnemonicUsingPlaceholders9 M9_LDBX = ''Load byte r<8..15> from memory''"
| "describeMnemonicUsingPlaceholders9 M9_STWA = ''Store word r to memory''"
| "describeMnemonicUsingPlaceholders9 M9_STWX = ''Store word r to memory''"
| "describeMnemonicUsingPlaceholders9 M9_STBA = ''Store byte r<8..15> to memory''"
| "describeMnemonicUsingPlaceholders9 M9_STBX = ''Store byte r<8..15> to memory''"
| "describeMnemonicUsingPlaceholders9 M9_INVALID = ''Illegal instruction''"

text \<open>The characters of \<open>as_bin\<close> are indexed from the most significant bit.\<close>

definition instructionSpecifierWithPlaceholders9 :: "mnemonic9 \<Rightarrow> string" where
  "instructionSpecifierWithPlaceholders9 m =
     (let as_bin = bitset8_string (opcode9 m);
          aaa = as_bin[5 := CHR ''a'', 6 := CHR ''a'', 7 := CHR ''a'']
      in case insn_type_of9 m of
           T9_R_none \<Rightarrow> as_bin[7 := CHR ''r'']
         | T9_A_ix \<Rightarrow> as_bin[7 := CHR ''a'']
         | T9_AAA_all \<Rightarrow> aaa
         | T9_AAA_i \<Rightarrow> aaa
         | T9_RAAA_all \<Rightarrow> aaa[4 := CHR ''r'']
         | T9_RAAA_noi \<Rightarrow> aaa[4 := CHR ''r'']
         | _ \<Rightarrow> as_bin)"

definition legalDirectives9 :: "string list" where
  "legalDirectives9 = [
    ''ADDRSS'', ''ALIGN'', ''ASCII'', ''BLOCK'', ''BURN'', ''BYTE'', ''END'', ''EQUATE'', ''WORD'']"

definition isLegalDirective9 :: "string \<Rightarrow> bool" where
  "isLegalDirective9 d \<longleftrightarrow> to_upper d \<in> set legalDirectives9"

datatype memory_vector9 = MV9_UserStackPtr | MV9_SystemStackPtr | MV9_CharIn | MV9_CharOut | MV9_Loader | MV9_TrapHandler

fun vector_address9 :: "memory_vector9 \<Rightarrow> u16" where
  "vector_address9 MV9_UserStackPtr = 0xFFFF - 0xB"
| "vector_address9 MV9_SystemStackPtr = 0xFFFF - 0x9"
| "vector_address9 MV9_CharIn = 0xFFFF - 0x7"
| "vector_address9 MV9_CharOut = 0xFFFF - 0x5"
| "vector_address9 MV9_Loader = 0xFFFF - 0x3"
| "vector_address9 MV9_TrapHandler = 0xFFFF - 0x1"

section \<open>What the tables decode to\<close>

text \<open>The reference card of the instruction set, in opcode order.\<close>

definition card9 :: "(mnemonic9, insn_type9) card" where
  "card9 = [
     (M9_STOP, T9_U_none, Row_one True True, B_STOP, 255),
     (M9_RET, T9_U_none, Row_one True True, B_RET, 255),
     (M9_RETTR, T9_U_none, Row_one True True, B_SRET, 255),
     (M9_MOVSPA, T9_U_none, Row_one True True, B_MOVSPA, 255),
     (M9_MOVFLGA, T9_U_none, Row_one True True, B_MOVFLGA, 255),
     (M9_MOVAFLG, T9_U_none, Row_one True True, B_MOVAFLG, 255),
     (M9_NOTA, T9_R_none, Row_one True True, B_NOT, 0),
     (M9_NOTX, T9_R_none, Row_one True True, B_NOT, 1),
     (M9_NEGA, T9_R_none, Row_one True True, B_NEG, 0),
     (M9_NEGX, T9_R_none, Row_one True True, B_NEG, 1),
     (M9_ASLA, T9_R_none, Row_one True True, B_ASL, 0),
     (M9_ASLX, T9_R_none, Row_one True True, B_ASL, 1),
     (M9_ASRA, T9_R_none, Row_one True True, B_ASR, 0),
     (M9_ASRX, T9_R_none, Row_one True True, B_ASR, 1),
     (M9_ROLA, T9_R_none, Row_one True True, B_ROL, 0),
     (M9_ROLX, T9_R_none, Row_one True True, B_ROL, 1),
     (M9_RORA, T9_R_none, Row_one True True, B_ROR, 0),
     (M9_RORX, T9_R_none, Row_one True True, B_ROR, 1),
     (M9_BR, T9_A_ix, Row_ix, B_BR, 255),
     (M9_BRLE, T9_A_ix, Row_ix, B_BRLE, 255),
     (M9_BRLT, T9_A_ix, Row_ix, B_BRLT, 255),
     (M9_BREQ, T9_A_ix, Row_ix, B_BREQ, 255),
     (M9_BRNE, T9_A_ix, Row_ix, B_BRNE, 255),
     (M9_BRGE, T9_A_ix, Row_ix, B_BRGE, 255),
     (M9_BRGT, T9_A_ix, Row_ix, B_BRGT, 255),
     (M9_BRV, T9_A_ix, Row_ix, B_BRV, 255),
     (M9_BRC, T9_A_ix, Row_ix, B_BRC, 255),
     (M9_CALL, T9_A_ix, Row_ix, B_CALL, 255),
     (M9_NOP0, T9_N_none, Row_one True True, B_TRAP_CALL, 255),
     (M9_NOP1, T9_N_none, Row_one True True, B_TRAP_CALL, 255),
     (M9_NOP, T9_AAA_i, Row_aaa True [] [], B_TRAP_CALL, 6),
     (M9_DECI, T9_AAA_noi, Row_aaa True [AM_I, AM_SX, AM_SFX] [AM_I, AM_SX, AM_SFX], B_TRAP_CALL, 6),
     (M9_DECO, T9_AAA_all, Row_aaa True [] [], B_TRAP_CALL, 6),
     (M9_HEXO, T9_AAA_all, Row_aaa True [] [], B_TRAP_CALL, 6),
     (M9_STRO, T9_AAA_stro, Row_aaa True [] [], B_TRAP_CALL, 6),
     (M9_ADDSP, T9_AAA_all, Row_aaa False [] [], B_ADDSP, 2),
     (M9_SUBSP, T9_AAA_all, Row_aaa False [] [], B_SUBSP, 2),
     (M9_ADDA, T9_RAAA_all, Row_aaa False [] [], B_ADD, 0),
     (M9_ADDX, T9_RAAA_all, Row_aaa False [] [], B_ADD, 1),
     (M9_SUBA, T9_RAAA_all, Row_aaa False [] [], B_SUB, 0),
     (M9_SUBX, T9_RAAA_all, Row_aaa False [] [], B_SUB, 1),
     (M9_ANDA, T9_RAAA_all, Row_aaa False [] [], B_AND, 0),
     (M9_ANDX, T9_RAAA_all, Row_aaa False [] [], B_AND, 1),
     (M9_ORA, T9_RAAA_all, Row_aaa False [] [], B_OR, 0),
     (M9_ORX, T9_RAAA_all, Row_aaa False [] [], B_OR, 1),
     (M9_CPWA, T9_RAAA_all, Row_aaa False [] [], B_CPW, 0),
     (M9_CPWX, T9_RAAA_all, Row_aaa False [] [], B_CPW, 1),
     (M9_CPBA, T9_RAAA_all, Row_aaa False [] [], B_CPB, 0),
     (M9_CPBX, T9_RAAA_all, Row_aaa False [] [], B_CPB, 1),
     (M9_LDWA, T9_RAAA_all, Row_aaa False [] [], B_LDW, 0),
     (M9_LDWX, T9_RAAA_all, Row_aaa False [] [], B_LDW, 1),
     (M9_LDBA, T9_RAAA_all, Row_aaa False [] [], B_LDB, 0),
     (M9_LDBX, T9_RAAA_all, Row_aaa False [] [], B_LDB, 1),
     (M9_STWA, T9_RAAA_noi, Row_aaa False [] [AM_I], B_STW, 0),
     (M9_STWX, T9_RAAA_noi, Row_aaa False [] [AM_I], B_STW, 1),
     (M9_STBA, T9_RAAA_noi, Row_aaa False [] [AM_I], B_STB, 0),
     (M9_STBX, T9_RAAA_noi, Row_aaa False [] [AM_I], B_STB, 1)]"

definition all_mnemonics9 :: "mnemonic9 list" where
  "all_mnemonics9 = [
    M9_STOP, M9_RET, M9_RETTR, M9_MOVSPA, M9_MOVFLGA, M9_MOVAFLG, M9_NOTA, M9_NOTX, M9_NEGA,
    M9_NEGX, M9_ASLA, M9_ASLX, M9_ASRA, M9_ASRX, M9_ROLA, M9_ROLX, M9_RORA, M9_RORX, M9_BR,
    M9_BRLE, M9_BRLT, M9_BREQ, M9_BRNE, M9_BRGE, M9_BRGT, M9_BRV, M9_BRC, M9_CALL, M9_NOP0,
    M9_NOP1, M9_NOP, M9_DECI, M9_DECO, M9_HEXO, M9_STRO, M9_ADDSP, M9_SUBSP, M9_ADDA, M9_ADDX,
    M9_SUBA, M9_SUBX, M9_ANDA, M9_ANDX, M9_ORA, M9_ORX, M9_CPWA, M9_CPWX, M9_CPBA, M9_CPBX,
    M9_LDWA, M9_LDWX, M9_LDBA, M9_LDBX, M9_STWA, M9_STWX, M9_STBA, M9_STBX, M9_INVALID]"

lemma all_mnemonics9_complete [simp]: "m \<in> set all_mnemonics9"
  by (cases m) (simp_all add: all_mnemonics9_def)

lemma length_opcodeLUT9 [simp]: "length opcodeLUT9 = 256"
  by code_simp

lemma types_at_LUT9:
  "types_at code9 opcodeLUT9 all_mnemonics9 = [
    T9_U_none, T9_U_none, T9_U_none, T9_U_none, T9_U_none, T9_U_none, T9_R_none, T9_R_none,
    T9_R_none, T9_R_none, T9_R_none, T9_R_none, T9_R_none, T9_R_none, T9_R_none, T9_R_none,
    T9_R_none, T9_R_none, T9_A_ix, T9_A_ix, T9_A_ix, T9_A_ix, T9_A_ix, T9_A_ix, T9_A_ix, T9_A_ix,
    T9_A_ix, T9_A_ix, T9_N_none, T9_N_none, T9_AAA_i, T9_AAA_noi, T9_AAA_all, T9_AAA_all,
    T9_AAA_stro, T9_AAA_all, T9_AAA_all, T9_RAAA_all, T9_RAAA_all, T9_RAAA_all, T9_RAAA_all,
    T9_RAAA_all, T9_RAAA_all, T9_RAAA_all, T9_RAAA_all, T9_RAAA_all, T9_RAAA_all, T9_RAAA_all,
    T9_RAAA_all, T9_RAAA_all, T9_RAAA_all, T9_RAAA_all, T9_RAAA_all, T9_RAAA_noi, T9_RAAA_noi,
    T9_RAAA_noi, T9_RAAA_noi, T9_RAAA_noi]"
  by code_simp

lemma code9_less [simp]: "code9 m < 256"
  by (simp add: code9_def)

lemma insn_type_of9_eq: "insn_type_of9 m = itype (instr (opcodeLUT9 ! code9 m))"
  by (simp add: insn_type_of9_def lut9_def opcode9_def unat_of_nat)

lemma insn_type_of9_simps [simp]:
  "insn_type_of9 M9_STOP = T9_U_none"
  "insn_type_of9 M9_RET = T9_U_none"
  "insn_type_of9 M9_RETTR = T9_U_none"
  "insn_type_of9 M9_MOVSPA = T9_U_none"
  "insn_type_of9 M9_MOVFLGA = T9_U_none"
  "insn_type_of9 M9_MOVAFLG = T9_U_none"
  "insn_type_of9 M9_NOTA = T9_R_none"
  "insn_type_of9 M9_NOTX = T9_R_none"
  "insn_type_of9 M9_NEGA = T9_R_none"
  "insn_type_of9 M9_NEGX = T9_R_none"
  "insn_type_of9 M9_ASLA = T9_R_none"
  "insn_type_of9 M9_ASLX = T9_R_none"
  "insn_type_of9 M9_ASRA = T9_R_none"
  "insn_type_of9 M9_ASRX = T9_R_none"
  "insn_type_of9 M9_ROLA = T9_R_none"
  "insn_type_of9 M9_ROLX = T9_R_none"
  "insn_type_of9 M9_RORA = T9_R_none"
  "insn_type_of9 M9_RORX = T9_R_none"
  "insn_type_of9 M9_BR = T9_A_ix"
  "insn_type_of9 M9_BRLE = T9_A_ix"
  "insn_type_of9 M9_BRLT = T9_A_ix"
  "insn_type_of9 M9_BREQ = T9_A_ix"
  "insn_type_of9 M9_BRNE = T9_A_ix"
  "insn_type_of9 M9_BRGE = T9_A_ix"
  "insn_type_of9 M9_BRGT = T9_A_ix"
  "insn_type_of9 M9_BRV = T9_A_ix"
  "insn_type_of9 M9_BRC = T9_A_ix"
  "insn_type_of9 M9_CALL = T9_A_ix"
  "insn_type_of9 M9_NOP0 = T9_N_none"
  "insn_type_of9 M9_NOP1 = T9_N_none"
  "insn_type_of9 M9_NOP = T9_AAA_i"
  "insn_type_of9 M9_DECI = T9_AAA_noi"
  "insn_type_of9 M9_DECO = T9_AAA_all"
  "insn_type_of9 M9_HEXO = T9_AAA_all"
  "insn_type_of9 M9_STRO = T9_AAA_stro"
  "insn_type_of9 M9_ADDSP = T9_AAA_all"
  "insn_type_of9 M9_SUBSP = T9_AAA_all"
  "insn_type_of9 M9_ADDA = T9_RAAA_all"
  "insn_type_of9 M9_ADDX = T9_RAAA_all"
  "insn_type_of9 M9_SUBA = T9_RAAA_all"
  "insn_type_of9 M9_SUBX = T9_RAAA_all"
  "insn_type_of9 M9_ANDA = T9_RAAA_all"
  "insn_type_of9 M9_ANDX = T9_RAAA_all"
  "insn_type_of9 M9_ORA = T9_RAAA_all"
  "insn_type_of9 M9_ORX = T9_RAAA_all"
  "insn_type_of9 M9_CPWA = T9_RAAA_all"
  "insn_type_of9 M9_CPWX = T9_RAAA_all"
  "insn_type_of9 M9_CPBA = T9_RAAA_all"
  "insn_type_of9 M9_CPBX = T9_RAAA_all"
  "insn_type_of9 M9_LDWA = T9_RAAA_all"
  "insn_type_of9 M9_LDWX = T9_RAAA_all"
  "insn_type_of9 M9_LDBA = T9_RAAA_all"
  "insn_type_of9 M9_LDBX = T9_RAAA_all"
  "insn_type_of9 M9_STWA = T9_RAAA_noi"
  "insn_type_of9 M9_STWX = T9_RAAA_noi"
  "insn_type_of9 M9_STBA = T9_RAAA_noi"
  "insn_type_of9 M9_STBX = T9_RAAA_noi"
  "insn_type_of9 M9_INVALID = T9_RAAA_noi"
  using types_at_LUT9[unfolded types_at_def all_mnemonics9_def]
  by (simp_all add: insn_type_of9_eq)

text \<open>The byte that an instruction in a given addressing mode assembles to.\<close>

definition encode9 :: "mnemonic9 \<Rightarrow> addressing_mode \<Rightarrow> u8 option" where
  "encode9 m a = (if a = AM_NONE then Some (opcode9 m) else opcode_am9 m a)"

lemma encode_table9:
  "list_all (\<lambda>(k, e). valid e \<longrightarrow> encode9 (mnemon (instr e)) (mode e) = Some (word_of_nat k))
     (zip [0..<256] opcodeLUT9)"
  by code_simp

lemma lut9_byte: "P k (opcodeLUT9 ! k)"
  if "list_all (\<lambda>(k, e). P k e) (zip [0..<256] opcodeLUT9)" and "k < 256" for P
  using that by (simp add: list_all_length)

lemma valid_pairs9_iff:
  "(m, a) \<in> set (valid_pairs opcodeLUT9) \<longleftrightarrow>
    (\<exists>b. valid (lut9 b) \<and> mnemon (instr (lut9 b)) = m \<and> mode (lut9 b) = a \<and> a \<noteq> AM_NONE)"
  unfolding lut9_def by (rule valid_pairs_iff) simp

lemma mnemonic_names9_distinct: "distinct (map (map tolower_c \<circ> fst) (swap_pairs9 mnemonic_names9))"
  by (simp add: mnemonic_names9_def tolower_c_def)

lemma parse_name9:
  assumes "string_mnemonic9 m = Some s" and "ci_eq s t"
  shows "parseMnemonic9 t = m"
proof -
  have "(s, m) \<in> set (swap_pairs9 mnemonic_names9)"
    using map_find_SomeD[OF assms(1)[unfolded string_mnemonic9_def]] by force
  with mnemonic_names9_distinct have "ci_find (swap_pairs9 mnemonic_names9) s = Some m"
    by (rule ci_find_unique)
  then show ?thesis by (simp add: parseMnemonic9_def flip: ci_find_ci_eq[OF assms(2)])
qed

lemma tables9_card: "zip opcodeLUT9 opcode_plane9 = expand_card card9"
  by code_simp

lemma length_opcode_plane9 [simp]: "length opcode_plane9 = 256"
  by code_simp

lemma opcodeLUT9_card: "opcodeLUT9 = map fst (expand_card card9)"
  by (simp flip: tables9_card)

lemma opcode_plane9_card: "opcode_plane9 = map snd (expand_card card9)"
  by (simp flip: tables9_card)

lemma decodes9_iff:
  "(\<exists>b. valid (lut9 b) \<and> mnemon (instr (lut9 b)) = m \<and> mode (lut9 b) = a \<and> a \<noteq> AM_NONE) \<longleftrightarrow>
   (\<exists>t s b r. (m, t, s, b, r) \<in> set card9 \<and> a \<in> set (row_modes s))"
  by (simp flip: valid_pairs9_iff add: opcodeLUT9_card valid_pairs_card)

section \<open>Properties\<close>


text \<open>
  Property C13.  Decoding then encoding: for every byte that decodes to a valid instruction,
  assembling the decoded mnemonic in the decoded addressing mode gives that byte again, without
  reaching a branch of \<^verbatim>\<open>opcode\<close> that throws.
\<close>

theorem encode_decode9:
  assumes "valid (lut9 b)"
  shows "encode9 (mnemon (instr (lut9 b))) (mode (lut9 b)) = Some b"
proof -
  have "unat b < 256" using unsigned_less[of b] by simp
  from lut9_byte[OF encode_table9 this] show ?thesis using assms by (simp add: lut9_def)
qed

lemma encode_decode9_witness: "encode9 M9_LDWA AM_SX = Some 0xC6"
proof -
  have e: "lut9 0xC6 = mk_entry (mk_instr M9_LDWA T9_RAAA_all False) AM_SX True" by code_simp
  show ?thesis using encode_decode9[of "0xC6"] by (simp add: e mk_entry_def mk_instr_def)
qed

text \<open>
  Printing then parsing a mnemonic, in any mixture of upper and lower case, gives the
  mnemonic back.
\<close>

theorem parse_string9:
  assumes "string_mnemonic9 m = Some s" and "ci_eq s t"
  shows "parseMnemonic9 t = m"
  using assms by (rule parse_name9)

lemma parse_string9_witness: "parseMnemonic9 ''LdWa'' = M9_LDWA"
  by (rule parse_string9[of _ "''LDWA''"]) code_simp+

text \<open>
  In Pep/9 the two disagree, and exactly here: the immediate mode of the four stores and of \<open>STRO\<close>
  decodes although the assembler refuses it, as do seven modes of \<open>NOP\<close> and two of \<open>STRO\<close>; the
  modes sx and sfx of \<open>DECI\<close> are accepted but were switched off in the table (by statements
  that follow \<open>DECI\<close> and name it, although their offsets are those \<open>STRO\<close> would need); and
  \<open>INVALID\<close>, whose value is the opcode of \<open>STBX\<close> in direct mode, is accepted with the modes of a store.
\<close>

definition mode_mismatches9 :: "(mnemonic9 \<times> addressing_mode) list" where
  "mode_mismatches9 =
     [(M9_STWA, AM_I), (M9_STWX, AM_I), (M9_STBA, AM_I), (M9_STBX, AM_I),
      (M9_STRO, AM_I), (M9_STRO, AM_SX), (M9_STRO, AM_SFX), (M9_DECI, AM_SX), (M9_DECI, AM_SFX)]
     @ map (Pair M9_NOP) [AM_D, AM_N, AM_S, AM_SF, AM_X, AM_SX, AM_SFX]
     @ map (Pair M9_INVALID) [AM_D, AM_N, AM_S, AM_SF, AM_X, AM_SX, AM_SFX]"

text \<open>
  Property C16.  The assembler and the decode table of Pep/9 agree on an addressing mode of a
  mnemonic exactly outside the listed pairs.
\<close>

theorem valid_mode9_mismatches:
  "(isValidAddressingMode9 m a \<noteq>
     (\<exists>b. valid (lut9 b) \<and> mnemon (instr (lut9 b)) = m \<and> mode (lut9 b) = a \<and> a \<noteq> AM_NONE))
   \<longleftrightarrow> (m, a) \<in> set mode_mismatches9"
  unfolding decodes9_iff
  by (cases m; cases a) (simp_all add: isValidAddressingMode9_def card9_def mode_mismatches9_def)

end
