(* ===== verification/Bits.thy ===== *)
theory Bits
  imports Prelude
begin

text \<open>
  Bit and byte manipulation, from \<^verbatim>\<open>math/bitmanip\<close>: byte orders and byte swaps
  (\<^verbatim>\<open>order.hpp\<close>, \<^verbatim>\<open>swap.hpp\<close>), copies between byte orders and xor of byte runs
  (\<^verbatim>\<open>copy.hpp\<close>, \<^verbatim>\<open>copy.cpp\<close>), bit reversal, masks, powers of two
  (\<^verbatim>\<open>mask.cpp\<close>, \<^verbatim>\<open>log2.hpp\<close>, \<^verbatim>\<open>log2.cpp\<close>) and the high half of a product
  (\<^verbatim>\<open>umulh.hpp\<close>).  The host is little-endian, as every host the program ships for is.
\<close>

section \<open>Arithmetic without overflow\<close>

lemma unat_mult_small: "unat a * unat b < 2 ^ LENGTH('a) \<Longrightarrow> unat (a * b :: 'a::len word) = unat a * unat b"
  by (simp add: unat_word_ariths)

lemma unat_add_small: "unat a + unat b < 2 ^ LENGTH('a) \<Longrightarrow> unat (a + b :: 'a::len word) = unat a + unat b"
  by (simp add: unat_word_ariths)
section \<open>Words in memory\<close>

datatype byte_order = BigEndian | LittleEndian | NotApplicable

definition hostOrder :: byte_order where
  "hostOrder = LittleEndian"

text \<open>The object representation of an integer on the host, and the integer read back from one.\<close>

definition to_le :: "'a::len word \<Rightarrow> u8 list" where
  "to_le w = map (\<lambda>i. ucast (drop_bit (8 * i) w)) [0..<LENGTH('a) div 8]"

fun of_le :: "u8 list \<Rightarrow> 'a::len word" where
  "of_le [] = 0"
| "of_le (b # bs) = ucast b OR push_bit 8 (of_le bs)"

lemma length_to_le [simp]: "length (to_le (w :: 'a::len word)) = LENGTH('a) div 8"
  by (simp add: to_le_def)

lemma bit_of_le:
  "bit (of_le bs :: 'a::len word) i \<longleftrightarrow>
     i < LENGTH('a) \<and> i div 8 < length bs \<and> bit (bs ! (i div 8)) (i mod 8)"
proof (induction bs arbitrary: i)
  case (Cons b bs)
  show ?case
  proof (cases "i < 8")
    case True
    then show ?thesis by (auto simp: bit_simps)
  next
    case False
    then have "i = 8 + (i - 8)" by simp
    then obtain j where j: "i = 8 + j" by blast
    have "i div 8 = Suc (j div 8)" "i mod 8 = j mod 8" using j by simp_all
    moreover have "\<not> bit b i" using False by (auto dest: bit_imp_le_length)
    ultimately show ?thesis by (auto simp: bit_simps j Cons.IH)
  qed
qed simp

lemma of_to_le [simp]:
  assumes "8 dvd LENGTH('a)"
  shows "of_le (to_le w) = (w :: 'a::len word)"
proof (rule bit_word_eqI)
  fix n assume n: "n < LENGTH('a)"
  then have "n div 8 < LENGTH('a) div 8" using assms by (auto elim!: dvdE)
  with n show "bit (of_le (to_le w) :: 'a word) n = bit w n"
    by (auto simp: bit_of_le to_le_def bit_simps)
qed

lemma to_of_le:
  assumes "8 dvd LENGTH('a)" and "length bs = LENGTH('a) div 8"
  shows "to_le (of_le bs :: 'a::len word) = bs"
proof (rule nth_equalityI)
  show "length (to_le (of_le bs :: 'a word)) = length bs" using assms by simp
next
  fix i assume "i < length (to_le (of_le bs :: 'a word))"
  then have i: "i < LENGTH('a) div 8" by simp
  then have n: "8 * i + 8 \<le> LENGTH('a)" using assms(1) by auto
  show "to_le (of_le bs :: 'a word) ! i = bs ! i"
    using i n assms(2)
    by (intro bit_word_eqI) (auto simp: to_le_def bit_simps bit_of_le dest: bit_imp_le_length)
qed

lemma of_le_take: "LENGTH('a) \<le> 8 * n \<Longrightarrow> (of_le (take n bs) :: 'a::len word) = of_le bs"
  by (rule bit_word_eqI) (auto simp: bit_of_le)

lemma of_le_pad: "(of_le (bs @ replicate n 0) :: 'a::len word) = of_le bs"
  by (rule bit_word_eqI) (auto simp: bit_of_le nth_append)

lemma to_le_u16 [simp]: "to_le (w :: u16) = [lo_byte w, hi_byte w]"
  by (simp add: to_le_def lo_byte_def hi_byte_def upt_rec)

lemma to_le_u8 [simp]: "to_le (w :: u8) = [w]"
  by (simp add: to_le_def upt_rec)

lemma of_le_u16: "(of_le [l, h] :: u16) = join_bytes h l"
  by (simp add: join_bytes_def or.commute)

lemma of_le_u8: "(of_le [b] :: u8) = b"
  by simp

section \<open>Byte swap\<close>

definition byteswap :: "'a::len word \<Rightarrow> 'a word" where
  "byteswap w = of_le (rev (to_le w))"

lemma byteswap_byteswap: "8 dvd LENGTH('a) \<Longrightarrow> byteswap (byteswap w) = (w :: 'a::len word)"
  by (simp add: byteswap_def to_of_le)

lemma byteswap_u16 [simp]: "byteswap (w :: u16) = join_bytes (lo_byte w) (hi_byte w)"
  by (simp add: byteswap_def join_bytes_def or.commute)

section \<open>Copies between byte orders\<close>

text \<open>\<^verbatim>\<open>memcpy_endian(dest, destOrder, src, srcOrder)\<close>: the bytes of \<open>dest\<close> afterwards.\<close>

definition memcpy_endian :: "u8 list \<Rightarrow> byte_order \<Rightarrow> u8 list \<Rightarrow> byte_order \<Rightarrow> u8 list" where
  "memcpy_endian dest destOrder src srcOrder =
     (let src_longer = length src > length dest \<and> srcOrder = BigEndian;
          srcOffset = (if src_longer then length src - length dest else 0);
          destOffset = (if \<not> src_longer \<and> length dest > length src \<and> destOrder = BigEndian
                        then length dest - length src else 0);
          adjustedSrc = take (min (length src - srcOffset) (length dest)) (drop srcOffset src)
      in patch dest destOffset (if srcOrder = destOrder then adjustedSrc else rev adjustedSrc))"

text \<open>The overloads that read an integer from bytes and write one to bytes.\<close>

definition memcpy_endian_to :: "u8 list \<Rightarrow> byte_order \<Rightarrow> 'a::len word" where
  "memcpy_endian_to src srcOrder =
     of_le (memcpy_endian (replicate (LENGTH('a) div 8) 0) hostOrder src srcOrder)"

definition memcpy_endian_from :: "u8 list \<Rightarrow> byte_order \<Rightarrow> 'a::len word \<Rightarrow> u8 list" where
  "memcpy_endian_from dest destOrder w = memcpy_endian dest destOrder (to_le w) hostOrder"

lemma length_memcpy_endian [simp]: "length (memcpy_endian dest d src s) = length dest"
  by (auto simp: memcpy_endian_def Let_def min_def)

lemma memcpy_endian_to_big:
  assumes "8 dvd LENGTH('a)"
  shows "(memcpy_endian_to bs BigEndian :: 'a::len word) = of_le (rev bs)"
proof -
  let ?n = "LENGTH('a) div 8"
  have n: "LENGTH('a) \<le> 8 * ?n" using assms by simp
  show ?thesis
  proof (cases "length bs > ?n")
    case True
    have "memcpy_endian (replicate ?n 0) LittleEndian bs BigEndian = take ?n (rev bs)"
      using True by (simp add: memcpy_endian_def Let_def patch_def rev_drop)
    then show ?thesis using of_le_take[OF n, of "rev bs"] by (simp add: memcpy_endian_to_def hostOrder_def)
  next
    case False
    have "memcpy_endian (replicate ?n 0) LittleEndian bs BigEndian = rev bs @ replicate (?n - length bs) 0"
      using False by (simp add: memcpy_endian_def Let_def patch_def min_def)
    then show ?thesis by (simp add: memcpy_endian_to_def hostOrder_def of_le_pad)
  qed
qed

lemma memcpy_endian_to_little:
  assumes "8 dvd LENGTH('a)"
  shows "(memcpy_endian_to bs LittleEndian :: 'a::len word) = of_le bs"
proof -
  let ?n = "LENGTH('a) div 8"
  have n: "LENGTH('a) \<le> 8 * ?n" using assms by simp
  have "memcpy_endian (replicate ?n 0) LittleEndian bs LittleEndian
          = take ?n bs @ replicate (?n - length bs) 0"
    by (simp add: memcpy_endian_def Let_def patch_def min_def)
  then show ?thesis
    using of_le_take[OF n, of bs] by (simp add: memcpy_endian_to_def hostOrder_def of_le_pad)
qed

section \<open>Xor of byte runs\<close>

definition inplace_xor :: "u8 list \<Rightarrow> u8 list \<Rightarrow> u8 list" where
  "inplace_xor dest other =
     (let len = min (length dest) (length other)
      in map2 (XOR) (take len dest) (take len other) @ drop len dest)"

definition memcpy_xor :: "u8 list \<Rightarrow> u8 list \<Rightarrow> u8 list \<Rightarrow> u8 list" where
  "memcpy_xor dest src1 src2 =
     (let len = min (length dest) (min (length src1) (length src2))
      in map2 (XOR) (take len src1) (take len src2) @ drop len dest)"

lemma length_inplace_xor [simp]: "length (inplace_xor d s) = length d"
  by (simp add: inplace_xor_def Let_def)

lemma nth_inplace_xor:
  "k < length d \<Longrightarrow> inplace_xor d s ! k = (if k < length s then d ! k XOR s ! k else d ! k)"
  by (auto simp: inplace_xor_def Let_def nth_append)

lemma inplace_xor_twice [simp]: "inplace_xor (inplace_xor d s) s = d"
  by (rule nth_equalityI) (auto simp: nth_inplace_xor xor.assoc)

lemma inplace_xor_swap: "length d = length s \<Longrightarrow> inplace_xor (inplace_xor d s) d = s"
  by (rule nth_equalityI) (auto simp: nth_inplace_xor ac_simps)

section \<open>Bit reversal\<close>

definition bitreverse8 :: "u8 \<Rightarrow> u8" where
  "bitreverse8 b0 =
     (let b1 = drop_bit 4 b0 OR push_bit 4 b0;
          b2 = drop_bit 2 (b1 AND 0xCC) OR push_bit 2 (b1 AND 0x33)
      in drop_bit 1 (b2 AND 0xAA) OR push_bit 1 (b2 AND 0x55))"

definition bitreverse16 :: "u16 \<Rightarrow> u16" where
  "bitreverse16 b0 =
     (let b1 = (drop_bit 1 b0 AND 0x5555) OR push_bit 1 (b0 AND 0x5555);
          b2 = (drop_bit 2 b1 AND 0x3333) OR push_bit 2 (b1 AND 0x3333);
          b3 = (drop_bit 4 b2 AND 0x0F0F) OR push_bit 4 (b2 AND 0x0F0F)
      in drop_bit 8 b3 OR push_bit 8 b3)"

definition bitreverse32 :: "u32 \<Rightarrow> u32" where
  "bitreverse32 b0 =
     (let b1 = (drop_bit 1 b0 AND 0x55555555) OR push_bit 1 (b0 AND 0x55555555);
          b2 = (drop_bit 2 b1 AND 0x33333333) OR push_bit 2 (b1 AND 0x33333333);
          b3 = (drop_bit 4 b2 AND 0x0F0F0F0F) OR push_bit 4 (b2 AND 0x0F0F0F0F);
          b4 = (drop_bit 8 b3 AND 0x00FF00FF) OR push_bit 8 (b3 AND 0x00FF00FF)
      in drop_bit 16 b4 OR push_bit 16 b4)"

definition bitreverse64 :: "u64 \<Rightarrow> u64" where
  "bitreverse64 b0 =
     (let b1 = (drop_bit 1 b0 AND 0x5555555555555555) OR push_bit 1 (b0 AND 0x5555555555555555);
          b2 = (drop_bit 2 b1 AND 0x3333333333333333) OR push_bit 2 (b1 AND 0x3333333333333333);
          b3 = (drop_bit 4 b2 AND 0x0F0F0F0F0F0F0F0F) OR push_bit 4 (b2 AND 0x0F0F0F0F0F0F0F0F);
          b4 = (drop_bit 8 b3 AND 0x00FF00FF00FF00FF) OR push_bit 8 (b3 AND 0x00FF00FF00FF00FF);
          b5 = (drop_bit 16 b4 AND 0x0000FFFF0000FFFF) OR push_bit 16 (b4 AND 0x0000FFFF0000FFFF)
      in drop_bit 32 b5 OR push_bit 32 b5)"

text \<open>One step of a bit reversal: neighbouring blocks of \<open>k\<close> bits change places.\<close>

definition swap_blocks :: "nat \<Rightarrow> 'a::len word \<Rightarrow> 'a word \<Rightarrow> 'a word" where
  "swap_blocks k m x = (drop_bit k x AND m) OR push_bit k (x AND m)"

lemma bit_swap_blocks:
  assumes m: "\<And>j. j < LENGTH('a) \<Longrightarrow> bit m j \<longleftrightarrow> even (j div k)"
    and i: "i < LENGTH('a)" and k: "0 < k" "2 * k dvd LENGTH('a)"
  shows "bit (swap_blocks k m x :: 'a::len word) i = bit x (if even (i div k) then i + k else i - k)"
proof (cases "even (i div k)")
  case True
  have "\<not> (k \<le> i \<and> bit m (i - k))"
  proof
    assume A: "k \<le> i \<and> bit m (i - k)"
    then have "even ((i - k) div k)" using m[of "i - k"] i by auto
    moreover have "i div k = Suc ((i - k) div k)" using A k by (simp add: le_div_geq)
    ultimately show False using True by simp
  qed
  then show ?thesis using True m[OF i] i by (auto simp: swap_blocks_def bit_simps add.commute)
next
  case False
  then have ki: "k \<le> i" by (metis div_less even_zero not_le)
  then have "i div k = Suc ((i - k) div k)" using k by (simp add: le_div_geq)
  then have "bit m (i - k)" using False m[of "i - k"] i by simp
  then show ?thesis using False m[OF i] i ki by (auto simp: swap_blocks_def bit_simps)
qed

text \<open>The last step exchanges the two halves.\<close>

lemma bit_swap_halves:
  "i < LENGTH('a) \<Longrightarrow> LENGTH('a) = 2 * k \<Longrightarrow>
   bit (drop_bit k x OR push_bit k x :: 'a::len word) i = bit x (if i < k then i + k else i - k)"
  by (auto simp: bit_simps add.commute dest: bit_imp_le_length)

lemma swap_steps16:
  "i < 16 \<Longrightarrow> bit (swap_blocks 1 0x5555 (x :: u16)) i = bit x (if even (i div 1) then i + 1 else i - 1)"
  "i < 16 \<Longrightarrow> bit (swap_blocks 2 0x3333 (x :: u16)) i = bit x (if even (i div 2) then i + 2 else i - 2)"
  "i < 16 \<Longrightarrow> bit (swap_blocks 4 0x0F0F (x :: u16)) i = bit x (if even (i div 4) then i + 4 else i - 4)"
proof -
  have m1: "list_all (\<lambda>j. bit (0x5555 :: u16) j = even (j div 1)) [0..<16]"
    by code_simp
  have m2: "list_all (\<lambda>j. bit (0x3333 :: u16) j = even (j div 2)) [0..<16]"
    by code_simp
  have m4: "list_all (\<lambda>j. bit (0x0F0F :: u16) j = even (j div 4)) [0..<16]"
    by code_simp
  show "i < 16 \<Longrightarrow> bit (swap_blocks 1 0x5555 x) i = bit x (if even (i div 1) then i + 1 else i - 1)"
    using m1 by (intro bit_swap_blocks) (simp_all add: list_all_iff)
  show "i < 16 \<Longrightarrow> bit (swap_blocks 2 0x3333 x) i = bit x (if even (i div 2) then i + 2 else i - 2)"
    using m2 by (intro bit_swap_blocks) (simp_all add: list_all_iff)
  show "i < 16 \<Longrightarrow> bit (swap_blocks 4 0x0F0F x) i = bit x (if even (i div 4) then i + 4 else i - 4)"
    using m4 by (intro bit_swap_blocks) (simp_all add: list_all_iff)
qed

lemma bitreverse16_steps:
  "bitreverse16 w = (let y = swap_blocks 4 0x0F0F (swap_blocks 2 0x3333 (swap_blocks 1 0x5555 w)) in drop_bit 8 y OR push_bit 8 y)"
  unfolding bitreverse16_def swap_blocks_def Let_def by (rule refl)

lemma bit_bitreverse16: "i < 16 \<Longrightarrow> bit (bitreverse16 w) i = bit w (15 - i)"
proof -
  have "list_all (\<lambda>i. bit (bitreverse16 w) i = bit w (15 - i)) [0..<16]"
    by (simp add: bitreverse16_steps Let_def bit_swap_halves swap_steps16 upt_rec del: One_nat_def)
  then show "i < 16 \<Longrightarrow> bit (bitreverse16 w) i = bit w (15 - i)" by (simp add: list_all_iff)
qed

lemma swap_steps32:
  "i < 32 \<Longrightarrow> bit (swap_blocks 1 0x55555555 (x :: u32)) i = bit x (if even (i div 1) then i + 1 else i - 1)"
  "i < 32 \<Longrightarrow> bit (swap_blocks 2 0x33333333 (x :: u32)) i = bit x (if even (i div 2) then i + 2 else i - 2)"
  "i < 32 \<Longrightarrow> bit (swap_blocks 4 0x0F0F0F0F (x :: u32)) i = bit x (if even (i div 4) then i + 4 else i - 4)"
  "i < 32 \<Longrightarrow> bit (swap_blocks 8 0x00FF00FF (x :: u32)) i = bit x (if even (i div 8) then i + 8 else i - 8)"
proof -
  have m1: "list_all (\<lambda>j. bit (0x55555555 :: u32) j = even (j div 1)) [0..<32]"
    by code_simp
  have m2: "list_all (\<lambda>j. bit (0x33333333 :: u32) j = even (j div 2)) [0..<32]"
    by code_simp
  have m4: "list_all (\<lambda>j. bit (0x0F0F0F0F :: u32) j = even (j div 4)) [0..<32]"
    by code_simp
  have m8: "list_all (\<lambda>j. bit (0x00FF00FF :: u32) j = even (j div 8)) [0..<32]"
    by code_simp
  show "i < 32 \<Longrightarrow> bit (swap_blocks 1 0x55555555 x) i = bit x (if even (i div 1) then i + 1 else i - 1)"
    using m1 by (intro bit_swap_blocks) (simp_all add: list_all_iff)
  show "i < 32 \<Longrightarrow> bit (swap_blocks 2 0x33333333 x) i = bit x (if even (i div 2) then i + 2 else i - 2)"
    using m2 by (intro bit_swap_blocks) (simp_all add: list_all_iff)
  show "i < 32 \<Longrightarrow> bit (swap_blocks 4 0x0F0F0F0F x) i = bit x (if even (i div 4) then i + 4 else i - 4)"
    using m4 by (intro bit_swap_blocks) (simp_all add: list_all_iff)
  show "i < 32 \<Longrightarrow> bit (swap_blocks 8 0x00FF00FF x) i = bit x (if even (i div 8) then i + 8 else i - 8)"
    using m8 by (intro bit_swap_blocks) (simp_all add: list_all_iff)
qed

lemma bitreverse32_steps:
  "bitreverse32 w = (let y = swap_blocks 8 0x00FF00FF (swap_blocks 4 0x0F0F0F0F (swap_blocks 2 0x33333333 (swap_blocks 1 0x55555555 w))) in drop_bit 16 y OR push_bit 16 y)"
  unfolding bitreverse32_def swap_blocks_def Let_def by (rule refl)

lemma bit_bitreverse32: "i < 32 \<Longrightarrow> bit (bitreverse32 w) i = bit w (31 - i)"
proof -
  have "list_all (\<lambda>i. bit (bitreverse32 w) i = bit w (31 - i)) [0..<32]"
    by (simp add: bitreverse32_steps Let_def bit_swap_halves swap_steps32 upt_rec del: One_nat_def)
  then show "i < 32 \<Longrightarrow> bit (bitreverse32 w) i = bit w (31 - i)" by (simp add: list_all_iff)
qed

lemma swap_steps64:
  "i < 64 \<Longrightarrow> bit (swap_blocks 1 0x5555555555555555 (x :: u64)) i = bit x (if even (i div 1) then i + 1 else i - 1)"
  "i < 64 \<Longrightarrow> bit (swap_blocks 2 0x3333333333333333 (x :: u64)) i = bit x (if even (i div 2) then i + 2 else i - 2)"
  "i < 64 \<Longrightarrow> bit (swap_blocks 4 0x0F0F0F0F0F0F0F0F (x :: u64)) i = bit x (if even (i div 4) then i + 4 else i - 4)"
  "i < 64 \<Longrightarrow> bit (swap_blocks 8 0x00FF00FF00FF00FF (x :: u64)) i = bit x (if even (i div 8) then i + 8 else i - 8)"
  "i < 64 \<Longrightarrow> bit (swap_blocks 16 0x0000FFFF0000FFFF (x :: u64)) i = bit x (if even (i div 16) then i + 16 else i - 16)"
proof -
  have m1: "list_all (\<lambda>j. bit (0x5555555555555555 :: u64) j = even (j div 1)) [0..<64]"
    by code_simp
  have m2: "list_all (\<lambda>j. bit (0x3333333333333333 :: u64) j = even (j div 2)) [0..<64]"
    by code_simp
  have m4: "list_all (\<lambda>j. bit (0x0F0F0F0F0F0F0F0F :: u64) j = even (j div 4)) [0..<64]"
    by code_simp
  have m8: "list_all (\<lambda>j. bit (0x00FF00FF00FF00FF :: u64) j = even (j div 8)) [0..<64]"
    by code_simp
  have m16: "list_all (\<lambda>j. bit (0x0000FFFF0000FFFF :: u64) j = even (j div 16)) [0..<64]"
    by code_simp
  show "i < 64 \<Longrightarrow> bit (swap_blocks 1 0x5555555555555555 x) i = bit x (if even (i div 1) then i + 1 else i - 1)"
    using m1 by (intro bit_swap_blocks) (simp_all add: list_all_iff)
  show "i < 64 \<Longrightarrow> bit (swap_blocks 2 0x3333333333333333 x) i = bit x (if even (i div 2) then i + 2 else i - 2)"
    using m2 by (intro bit_swap_blocks) (simp_all add: list_all_iff)
  show "i < 64 \<Longrightarrow> bit (swap_blocks 4 0x0F0F0F0F0F0F0F0F x) i = bit x (if even (i div 4) then i + 4 else i - 4)"
    using m4 by (intro bit_swap_blocks) (simp_all add: list_all_iff)
  show "i < 64 \<Longrightarrow> bit (swap_blocks 8 0x00FF00FF00FF00FF x) i = bit x (if even (i div 8) then i + 8 else i - 8)"
    using m8 by (intro bit_swap_blocks) (simp_all add: list_all_iff)
  show "i < 64 \<Longrightarrow> bit (swap_blocks 16 0x0000FFFF0000FFFF x) i = bit x (if even (i div 16) then i + 16 else i - 16)"
    using m16 by (intro bit_swap_blocks) (simp_all add: list_all_iff)
qed

lemma bitreverse64_steps:
  "bitreverse64 w = (let y = swap_blocks 16 0x0000FFFF0000FFFF (swap_blocks 8 0x00FF00FF00FF00FF (swap_blocks 4 0x0F0F0F0F0F0F0F0F (swap_blocks 2 0x3333333333333333 (swap_blocks 1 0x5555555555555555 w)))) in drop_bit 32 y OR push_bit 32 y)"
  unfolding bitreverse64_def swap_blocks_def Let_def by (rule refl)

lemma bit_bitreverse64: "i < 64 \<Longrightarrow> bit (bitreverse64 w) i = bit w (63 - i)"
proof -
  have "list_all (\<lambda>i. bit (bitreverse64 w) i = bit w (63 - i)) [0..<64]"
    by (simp add: bitreverse64_steps Let_def bit_swap_halves swap_steps64 upt_rec del: One_nat_def)
  then show "i < 64 \<Longrightarrow> bit (bitreverse64 w) i = bit w (63 - i)" by (simp add: list_all_iff)
qed

lemma bit_bitreverse8: "i < 8 \<Longrightarrow> bit (bitreverse8 w) i = bit w (7 - i)"
proof -
  have "\<forall>w. list_all (\<lambda>i. bit (bitreverse8 w) i = bit w (7 - i)) [0..<8]"
    unfolding all_u8 by code_simp
  then show "i < 8 \<Longrightarrow> bit (bitreverse8 w) i = bit w (7 - i)" by (simp add: list_all_iff)
qed

section \<open>Masks and powers of two\<close>

text \<open>\<open>byte_mask\<close> is \<^verbatim>\<open>bits::mask\<close>.\<close>

definition byte_mask :: "u8 \<Rightarrow> u64" where
  "byte_mask byteCount =
     (if byteCount \<ge> 8 then -1 else push_bit (unat byteCount * 8) 1 - 1)"

definition ceil_div :: "u64 \<Rightarrow> u64 \<Rightarrow> u64" where
  "ceil_div a b = (a + b - 1) div b"

definition align_down :: "u64 \<Rightarrow> u64 \<Rightarrow> u64" where
  "align_down x a = x AND NOT (a - 1)"

definition align_up :: "u64 \<Rightarrow> u64 \<Rightarrow> u64" where
  "align_up x a = (if a \<le> 1 then x else (x + (a - 1)) AND NOT (a - 1))"

text \<open>
  \<^verbatim>\<open>std::bit_ceil\<close>: the least power of two not below the value, where it is representable
  (the standard leaves the other values undefined: \<open>None\<close>).
\<close>

definition bit_ceil :: "u64 \<Rightarrow> u64 option" where
  "bit_ceil v = (case List.find (\<lambda>k. v \<le> push_bit k 1) [0..<64] of
     Some k \<Rightarrow> Some (push_bit k 1) | None \<Rightarrow> None)"

text \<open>\<open>ceil_log2\<close> throws for 0: \<open>Inl ()\<close>.\<close>

definition nearest_power_of_two :: "u64 \<Rightarrow> u64 option" where
  "nearest_power_of_two value = (if value = 0 then Some 1 else bit_ceil value)"

definition countl_zero :: "u64 \<Rightarrow> nat" where
  "countl_zero v = length (takeWhile (\<lambda>k. \<not> bit v k) (rev [0..<64]))"

definition ceil_log2 :: "u64 \<Rightarrow> unit + u8 option" where
  "ceil_log2 value =
     (if value = 0 then Inl ()
      else Inr (map_option (\<lambda>c. word_of_int (8 * 8 - int (countl_zero c) - 1)) (bit_ceil value)))"

section \<open>The high half of a product\<close>

definition umulh128h_cpp :: "u64 \<Rightarrow> u64 \<Rightarrow> u64" where
  "umulh128h_cpp lhs rhs =
     (let lo_lo = (lhs AND 0xFFFFFFFF) * (rhs AND 0xFFFFFFFF);
          hi_lo = drop_bit 32 lhs * (rhs AND 0xFFFFFFFF);
          lo_hi = (lhs AND 0xFFFFFFFF) * drop_bit 32 rhs;
          hi_hi = drop_bit 32 lhs * drop_bit 32 rhs;
          cross = drop_bit 32 lo_lo + (hi_lo AND 0xFFFFFFFF) + lo_hi
      in drop_bit 32 hi_lo + drop_bit 32 cross + hi_hi)"

text \<open>The intrinsic: 128-bit multiplication, then the upper 64 bits.\<close>

definition umul128h_intrin :: "u64 \<Rightarrow> u64 \<Rightarrow> u64" where
  "umul128h_intrin lhs rhs = ucast (drop_bit 64 (ucast lhs * ucast rhs :: 128 word))"

lemma lo32: "unat (x AND 0xFFFFFFFF :: u64) = unat x mod 2 ^ 32"
proof -
  have "x AND 0xFFFFFFFF = take_bit 32 x" by (simp add: take_bit_eq_mask mask_eq_exp_minus_1)
  then show ?thesis by (simp add: take_bit_eq_mod unat_mod)
qed
lemma hi32: "unat (drop_bit 32 x :: u64) = unat x div 2 ^ 32"
  by (simp add: drop_bit_eq_div unat_div)

lemma umulh_nat:
  fixes a b c d :: nat
  assumes "a < 2^32" "b < 2^32" "c < 2^32" "d < 2^32"
  shows "(2^32 * a + b) * (2^32 * c + d) div 2^64 =
    a * d div 2^32 + ((b * d div 2^32 + a * d mod 2^32 + b * c) div 2^32) + a * c"
proof -
  have e: "(2^32 * a + b) * (2^32 * c + d) = b * d + 2^32 * (a * d + b * c) + 2^64 * (a * c)"
    by (simp add: algebra_simps)
  have "(2^32 * a + b) * (2^32 * c + d) div 2^64 = (b * d + 2^32 * (a * d + b * c)) div 2^64 + a * c"
    unfolding e by (subst div_mult_self2) simp_all
  also have "(b * d + 2^32 * (a * d + b * c)) div 2^64 = ((b * d + 2^32 * (a * d + b * c)) div 2^32) div 2^32"
    by (simp flip: div_mult2_eq)
  also have "(b * d + 2^32 * (a * d + b * c)) div 2^32 = b * d div 2^32 + (a * d + b * c)"
    by (subst div_mult_self2) simp_all
  also have "(b * d div 2^32 + (a * d + b * c)) = (b * d div 2^32 + a * d mod 2^32 + b * c) + 2^32 * (a * d div 2^32)"
    using mod_mult_div_eq[of "a * d" "2^32"] by linarith
  also have "\<dots> div 2^32 = (b * d div 2^32 + a * d mod 2^32 + b * c) div 2^32 + a * d div 2^32"
    by (subst div_mult_self2) simp_all
  finally show ?thesis by simp
qed

lemma umulh_unat: "unat (umulh128h_cpp l r) = unat l * unat r div 2 ^ 64"
proof -
  define a b c d where "a = unat l div 2^32" and "b = unat l mod 2^32" and "c = unat r div 2^32" and "d = unat r mod 2^32"
  have lim: "unat l < 2^64" "unat r < 2^64" using unsigned_less[of l] unsigned_less[of r] by simp_all
  have bd: "a < 2^32" "b < 2^32" "c < 2^32" "d < 2^32"
    using lim by (simp_all add: a_def b_def c_def d_def less_mult_imp_div_less)
  have lr: "unat l = 2^32 * a + b" "unat r = 2^32 * c + d" by (simp_all add: a_def b_def c_def d_def)
  have P: "x < 2^32 \<Longrightarrow> y < 2^32 \<Longrightarrow> x * y \<le> (2^32 - 1) * (2^32 - 1)" for x y :: nat
    by (rule mult_le_mono) auto
  have lolo: "unat ((l AND 0xFFFFFFFF) * (r AND 0xFFFFFFFF)) = b * d"
    using P[OF bd(2,4)] by (simp add: unat_mult_small lo32 b_def d_def)
  have hilo: "unat (drop_bit 32 l * (r AND 0xFFFFFFFF)) = a * d"
    using P[OF bd(1,4)] by (simp add: unat_mult_small lo32 hi32 a_def d_def)
  have lohi: "unat ((l AND 0xFFFFFFFF) * drop_bit 32 r) = b * c"
    using P[OF bd(2,3)] by (simp add: unat_mult_small lo32 hi32 b_def c_def)
  have hihi: "unat (drop_bit 32 l * drop_bit 32 r) = a * c"
    using P[OF bd(1,3)] by (simp add: unat_mult_small hi32 a_def c_def)
  define cross where "cross = b * d div 2^32 + a * d mod 2^32 + b * c"
  have q: "b * d div 2^32 \<le> (2^32 - 1) * (2^32 - 1) div 2^32" using P[OF bd(2,4)] by (rule div_le_mono)
  have m: "a * d mod 2^32 < 2^32" by simp
  have cl: "cross < 2^64" using q m P[OF bd(2,3)] unfolding cross_def by simp
  have cr: "unat (drop_bit 32 ((l AND 0xFFFFFFFF) * (r AND 0xFFFFFFFF)) + (drop_bit 32 l * (r AND 0xFFFFFFFF) AND 0xFFFFFFFF)
     + (l AND 0xFFFFFFFF) * drop_bit 32 r) = cross"
    using cl by (simp add: unat_add_small lo32 hi32 lolo hilo lohi cross_def)
  have top: "a * d div 2^32 + cross div 2^32 + a * c = unat l * unat r div 2^64"
    unfolding cross_def lr using umulh_nat[OF bd] by simp
  have "unat l * unat r < 2^64 * 2^64" using lim by (intro mult_strict_mono) simp_all
  then have "unat l * unat r div 2^64 < 2^64" by (simp add: less_mult_imp_div_less)
  then show ?thesis
    unfolding umulh128h_cpp_def Let_def top[symmetric]
    by (simp add: unat_add_small hi32 hilo hihi cr)
qed
lemma umulh_intrin_unat: "unat (umul128h_intrin l r) = unat l * unat r div 2 ^ 64"
proof -
  have "unat l < 2^64" "unat r < 2^64" using unsigned_less[of l] unsigned_less[of r] by simp_all
  then have P: "unat l * unat r < 2^64 * 2^64" by (intro mult_strict_mono) simp_all
  have u: "unat (ucast x :: 128 word) = unat x" for x :: u64
  proof -
    have "unat x < 2^128" using unsigned_less[of x, where 'a = nat] by simp
    then show ?thesis by (simp add: unsigned_ucast_eq take_bit_nat_eq_self_iff)
  qed
  have e: "unat (ucast l * ucast r :: 128 word) = unat l * unat r"
    using P by (subst unat_mult_small) (simp_all only: u, simp)
  have "unat l * unat r div 2^64 < 2^64" using P by (simp add: less_mult_imp_div_less)
  then show ?thesis
    by (simp add: umul128h_intrin_def unsigned_ucast_eq take_bit_eq_mod drop_bit_eq_div unat_div e)
qed

section \<open>Values of byte runs\<close>

text \<open>The number that a run of bytes denotes, least significant byte first.\<close>

fun le_value :: "u8 list \<Rightarrow> nat" where
  "le_value [] = 0"
| "le_value (b # bs) = unat b + 256 * le_value bs"

lemma of_le_value: "of_le bs = word_of_nat (le_value bs)"
proof (induction bs)
  case (Cons b bs)
  have "ucast b OR push_bit 8 (of_le bs :: 'a word) = ucast b + push_bit 8 (of_le bs)"
    by (rule disjunctive_add[symmetric]) (auto simp: bit_simps dest: bit_imp_le_length)
  also have "(ucast b :: 'a word) = word_of_nat (unat b)" by simp
  finally show ?case by (simp add: Cons.IH push_bit_eq_mult mult.commute)
qed simp

lemma unat_of_le: "unat (of_le bs :: 'a::len word) = le_value bs mod 2 ^ LENGTH('a)"
  by (simp add: of_le_value unat_of_nat)

section \<open>Properties\<close>

text \<open>
  Bit reversal: at each of the four widths the shift-and-mask implementation returns
  the bits of its argument in the opposite order.
\<close>

theorem bitreverse_reverses:
  "map (bit (bitreverse8 a)) [0..<8] = rev (map (bit a) [0..<8])
   \<and> map (bit (bitreverse16 b)) [0..<16] = rev (map (bit b) [0..<16])
   \<and> map (bit (bitreverse32 c)) [0..<32] = rev (map (bit c) [0..<32])
   \<and> map (bit (bitreverse64 d)) [0..<64] = rev (map (bit d) [0..<64])"
  by (intro conjI; rule nth_equalityI)
    (simp_all add: rev_nth bit_bitreverse8 bit_bitreverse16 bit_bitreverse32 bit_bitreverse64)

text \<open>
  The portable 64 by 64 bit multiplication computes the upper half of the 128-bit
  product, without overflow in any intermediate sum, and agrees with the intrinsic it replaces.
\<close>

theorem umulh_is_high_half:
  "unat (umulh128h_cpp lhs rhs) = unat lhs * unat rhs div 2 ^ 64
   \<and> umulh128h_cpp lhs rhs = umul128h_intrin lhs rhs"
  by (simp add: umulh_unat umulh_intrin_unat word_unat_eq_iff)

text \<open>
  Reading an integer from any number of bytes in either byte order gives the number
  the bytes denote, reduced to the width of the integer: longer runs lose their high-order bytes,
  shorter ones are padded with zeros.
\<close>

theorem memcpy_endian_value:
  "unat (memcpy_endian_to bs LittleEndian :: u64) = le_value bs mod 2 ^ 64
   \<and> unat (memcpy_endian_to bs BigEndian :: u64) = le_value (rev bs) mod 2 ^ 64
   \<and> unat (memcpy_endian_to bs LittleEndian :: u16) = le_value bs mod 2 ^ 16
   \<and> unat (memcpy_endian_to bs BigEndian :: u16) = le_value (rev bs) mod 2 ^ 16"
  by (simp add: memcpy_endian_to_big memcpy_endian_to_little unat_of_le)

end
