(* ===== verification/Interval.thy ===== *)
theory Interval
  imports Prelude
begin

text \<open>
  Closed intervals of machine integers, from \<^verbatim>\<open>math/geom/interval.hpp\<close>, at the type of simulated
  addresses (\<^verbatim>\<open>u32\<close>, whose wider type is \<^verbatim>\<open>u64\<close>).  An interval whose lower end
  exceeds its upper end is empty, and all empty intervals are equal.
\<close>

record interval =
  lower :: u32
  upper :: u32

definition ival :: "u32 \<Rightarrow> u32 \<Rightarrow> interval" where
  "ival l u = \<lparr>lower = l, upper = u\<rparr>"

text \<open>The default constructor.\<close>

definition empty_interval :: interval where
  "empty_interval = ival (0 + 1) 0"

definition from_point_size :: "u32 \<Rightarrow> u64 \<Rightarrow> interval" where
  "from_point_size point sz = ival point (ucast (ucast point + sz))"

definition ivalid :: "interval \<Rightarrow> bool" where
  "ivalid i \<longleftrightarrow> lower i \<le> upper i"

definition interval_eq :: "interval \<Rightarrow> interval \<Rightarrow> bool" where
  "interval_eq a b \<longleftrightarrow>
     (if \<not> ivalid a \<and> \<not> ivalid b then True
      else if (\<not> ivalid a) \<noteq> (\<not> ivalid b) then False
      else lower a = lower b \<and> upper a = upper b)"

text \<open>The three-way comparison: -1, 0 or 1.\<close>

definition word_cmp :: "'a::len word \<Rightarrow> 'a word \<Rightarrow> int" where
  "word_cmp x y = (if x < y then -1 else if x = y then 0 else 1)"

definition interval_cmp :: "interval \<Rightarrow> interval \<Rightarrow> int" where
  "interval_cmp a b =
     (if \<not> ivalid a \<and> \<not> ivalid b then 0
      else if \<not> ivalid a then -1
      else if \<not> ivalid b then 1
      else if word_cmp (lower a) (lower b) \<noteq> 0 then word_cmp (lower a) (lower b)
      else word_cmp (upper a) (upper b))"

definition midpoint_approximate :: "interval \<Rightarrow> u32" where
  "midpoint_approximate i = lower i + (upper i - lower i) div 2"

definition flipped :: "interval \<Rightarrow> interval" where
  "flipped i = ival (upper i) (lower i)"

definition normalized :: "interval \<Rightarrow> interval" where
  "normalized i = (if lower i > upper i then flipped i else i)"

definition size_of :: "bool \<Rightarrow> interval \<Rightarrow> u64" where
  "size_of exclude_right i =
     (let offset = (if exclude_right then 0 else 1)
      in if \<not> ivalid i then 0 else ucast (upper i) - ucast (lower i) + offset)"

definition size_inclusive :: "interval \<Rightarrow> u64" where
  "size_inclusive i = size_of False i"

definition size_exclusive :: "interval \<Rightarrow> u64" where
  "size_exclusive i = size_of True i"

definition contains_point :: "interval \<Rightarrow> u32 \<Rightarrow> bool" where
  "contains_point outer v \<longleftrightarrow> (if \<not> ivalid outer then False else lower outer \<le> v \<and> v \<le> upper outer)"

definition contains :: "interval \<Rightarrow> interval \<Rightarrow> bool" where
  "contains outer inner \<longleftrightarrow>
     (if \<not> ivalid outer \<or> \<not> ivalid inner then False
      else lower outer \<le> lower inner \<and> upper inner \<le> upper outer)"

definition intersects :: "interval \<Rightarrow> interval \<Rightarrow> bool" where
  "intersects a b \<longleftrightarrow>
     (if \<not> ivalid a \<or> \<not> ivalid b then False else lower a \<le> upper b \<and> lower b \<le> upper a)"

definition intersection :: "interval \<Rightarrow> interval \<Rightarrow> interval" where
  "intersection a b =
     (if \<not> ivalid a \<or> \<not> ivalid b then empty_interval
      else if \<not> intersects a b then empty_interval
      else ival (max (lower a) (lower b)) (min (upper a) (upper b)))"

definition hull :: "interval \<Rightarrow> interval \<Rightarrow> interval" where
  "hull a b =
     (if \<not> ivalid a \<and> \<not> ivalid b then empty_interval
      else if \<not> ivalid a then b
      else if \<not> ivalid b then a
      else ival (min (lower a) (lower b)) (max (upper a) (upper b)))"

text \<open>
  Segmented address translation.  The two assertions of the code are active in debug builds only;
  what is modelled is the arithmetic that both builds perform.
\<close>

definition offset_map :: "u32 \<Rightarrow> interval \<Rightarrow> interval \<Rightarrow> u32" where
  "offset_map v src dst = lower dst + (v - lower src)"

section \<open>Intervals as sets of points\<close>

text \<open>The set an interval stands for: the specification the operations are measured against.\<close>

definition points :: "interval \<Rightarrow> u32 set" where
  "points i = {v. contains_point i v}"

lemma points_ival [simp]: "points (ival l u) = {v. l \<le> v \<and> v \<le> u}"
  by (auto simp: points_def contains_point_def ivalid_def ival_def)

lemma mem_points: "v \<in> points i \<longleftrightarrow> lower i \<le> v \<and> v \<le> upper i"
  by (auto simp: points_def contains_point_def ivalid_def)

lemma points_empty_iff: "points i = {} \<longleftrightarrow> \<not> ivalid i"
  by (auto simp: set_eq_iff mem_points ivalid_def)

lemma points_empty_interval [simp]: "points empty_interval = {}"
  by (simp add: points_empty_iff ivalid_def empty_interval_def ival_def)

lemma lower_in_points: "ivalid i \<Longrightarrow> lower i \<in> points i"
  by (simp add: mem_points ivalid_def)

lemma upper_in_points: "ivalid i \<Longrightarrow> upper i \<in> points i"
  by (simp add: mem_points ivalid_def)

lemma points_intersection: "points (intersection a b) = points a \<inter> points b"
  by (auto simp: intersection_def intersects_def ivalid_def mem_points ival_def)

lemma intersects_iff: "intersects a b \<longleftrightarrow> points a \<inter> points b \<noteq> {}"
proof
  assume "intersects a b"
  then have "max (lower a) (lower b) \<in> points a \<inter> points b"
    by (auto simp: intersects_def ivalid_def mem_points max_def split: if_splits)
  then show "points a \<inter> points b \<noteq> {}" by blast
next
  assume "points a \<inter> points b \<noteq> {}"
  then show "intersects a b" by (force simp: intersects_def ivalid_def mem_points)
qed

lemma contains_iff: "contains a b \<longleftrightarrow> ivalid b \<and> points b \<subseteq> points a"
proof
  assume "contains a b"
  then show "ivalid b \<and> points b \<subseteq> points a"
    by (auto simp: contains_def ivalid_def mem_points split: if_splits)
next
  assume A: "ivalid b \<and> points b \<subseteq> points a"
  then have "lower b \<in> points a" "upper b \<in> points a"
    using lower_in_points upper_in_points by blast+
  with A show "contains a b" by (auto simp: contains_def mem_points ivalid_def)
qed

lemma interval_eq_iff: "interval_eq a b \<longleftrightarrow> points a = points b"
proof
  assume E: "interval_eq a b"
  show "points a = points b"
  proof (cases "ivalid a")
    case True
    then have "lower a = lower b" "upper a = upper b" using E by (simp_all add: interval_eq_def split: if_splits)
    then show ?thesis by (simp add: set_eq_iff mem_points)
  next
    case False
    then have "\<not> ivalid b" using E by (simp add: interval_eq_def split: if_splits)
    with False show ?thesis using points_empty_iff by metis
  qed
next
  assume P: "points a = points b"
  then have v: "ivalid a = ivalid b" by (metis points_empty_iff)
  show "interval_eq a b"
  proof (cases "ivalid a")
    case True
    then have "lower a \<in> points b" "upper a \<in> points b" "lower b \<in> points a" "upper b \<in> points a"
      using P v lower_in_points upper_in_points by blast+
    then show ?thesis using True v by (simp add: interval_eq_def mem_points)
  next
    case False
    then show ?thesis using v by (simp add: interval_eq_def)
  qed
qed

lemma points_hull: "points a \<union> points b \<subseteq> points (hull a b)"
  by (auto simp: hull_def mem_points ivalid_def ival_def min_def max_def)

lemma hull_least: "points a \<subseteq> points c \<Longrightarrow> points b \<subseteq> points c \<Longrightarrow> points (hull a b) \<subseteq> points c"
  using lower_in_points[of a] upper_in_points[of a] lower_in_points[of b] upper_in_points[of b]
  by (auto simp: hull_def mem_points ival_def empty_interval_def min_def max_def subset_iff split: if_splits)

lemma size_inclusive_unat:
  "unat (size_inclusive i) = (if ivalid i then unat (upper i) - unat (lower i) + 1 else 0)"
proof (cases "ivalid i")
  case True
  have u: "unat (ucast x :: u64) = unat x" for x :: u32
  proof -
    have "unat x < 2^64" using unsigned_less[of x, where 'a = nat] by simp
    then show ?thesis by (simp add: unsigned_ucast_eq take_bit_nat_eq_self_iff)
  qed
  have b: "unat (upper i) < 2^32" using unsigned_less[of "upper i"] by simp
  have le: "unat (lower i) \<le> unat (upper i)" using True by (simp add: ivalid_def word_le_nat_alt)
  then have d: "unat (ucast (upper i) - ucast (lower i) :: u64) = unat (upper i) - unat (lower i)"
    by (subst unat_sub) (simp_all add: word_le_nat_alt u)
  have "unat (ucast (upper i) - ucast (lower i) + 1 :: u64) = unat (upper i) - unat (lower i) + 1"
    using b by (simp add: unat_word_ariths(1) d)
  then show ?thesis using True by (simp add: size_inclusive_def size_of_def)
qed (simp add: size_inclusive_def size_of_def)

lemma card_points: "card (points i) = unat (size_inclusive i)"
proof (cases "ivalid i")
  case True
  then have le: "unat (lower i) \<le> unat (upper i)" by (simp add: ivalid_def word_le_nat_alt)
  have "points i = word_of_nat ` {unat (lower i)..unat (upper i)}"
  proof (intro equalityI subsetI)
    fix v assume "v \<in> points i"
    then have "unat v \<in> {unat (lower i)..unat (upper i)}" by (simp add: mem_points word_le_nat_alt)
    then show "v \<in> word_of_nat ` {unat (lower i)..unat (upper i)}"
      by (intro image_eqI[of _ _ "unat v"]) simp_all
  next
    fix v :: u32 assume "v \<in> word_of_nat ` {unat (lower i)..unat (upper i)}"
    then obtain k where k: "v = word_of_nat k" "unat (lower i) \<le> k" "k \<le> unat (upper i)" by auto
    then have "unat v = k"
      using unsigned_less[of "upper i", where 'a = nat] by (simp add: unat_of_nat)
    with k show "v \<in> points i" by (simp add: mem_points word_le_nat_alt)
  qed
  moreover have "inj_on (word_of_nat :: nat \<Rightarrow> u32) {unat (lower i)..unat (upper i)}"
    using unsigned_less[of "upper i", where 'a = nat]
    by (intro inj_onI) (auto simp: word_of_nat_eq_iff take_bit_nat_eq_self)
  ultimately show ?thesis using True le by (simp add: card_image size_inclusive_unat)
next
  case False
  then have "points i = {}" by (simp add: points_empty_iff)
  with False show ?thesis by (simp add: size_inclusive_unat)
qed

lemma offset_map_between:
  assumes "v \<in> points src" and "size_inclusive src = size_inclusive dst" and "ivalid dst"
  shows "offset_map v src dst \<in> points dst"
proof -
  have vs: "ivalid src" using assms(1) by (metis empty_iff points_empty_iff)
  have sz: "unat (upper src) - unat (lower src) = unat (upper dst) - unat (lower dst)"
    using assms(2) vs assms(3) size_inclusive_unat[of src] size_inclusive_unat[of dst] by simp
  have le: "unat (lower src) \<le> unat v" "unat v \<le> unat (upper src)" "unat (lower dst) \<le> unat (upper dst)"
    using assms(1,3) by (simp_all add: mem_points word_le_nat_alt ivalid_def)
  have d: "unat (v - lower src) = unat v - unat (lower src)"
    using le by (subst unat_sub) (simp_all add: word_le_nat_alt)
  have bnd: "unat (lower dst) + (unat v - unat (lower src)) \<le> unat (upper dst)" using sz le by linarith
  have "unat (offset_map v src dst) = unat (lower dst) + (unat v - unat (lower src))"
    using bnd unsigned_less[of "upper dst", where 'a = nat]
    by (simp add: offset_map_def unat_word_ariths(1) d)
  then show ?thesis using bnd by (simp add: mem_points word_le_nat_alt)
qed

section \<open>Properties\<close>


end
