(* ===== verification/Sim_Api.thy ===== *)
theory Sim_Api
  imports Bits Interval
begin

text \<open>
  The interfaces of the simulator that every device shares, from \<^verbatim>\<open>sim/api/memory.hpp\<close>,
  \<^verbatim>\<open>sim/api/device.hpp\<close> and \<^verbatim>\<open>sim/memory/errors.hpp\<close>: the description of a memory
  operation and its 16-bit packing, the errors an access raises, the \<^verbatim>\<open>Target\<close> interface as a record
  of operations, and its convenience methods that read and write whole integers.

  Every \<^verbatim>\<open>Target\<close> of the program returns the value-initialised \<^verbatim>\<open>Result\<close> (no delay,
  no pause); a write is therefore modelled by its effect alone, and a read by its effect and the bytes
  it leaves in the destination.
\<close>

section \<open>Memory operations\<close>

datatype op_type = Standard | Application | Speculative | BufferInternal

datatype op_kind = Kind_instruction | Kind_data

record operation =
  op_type :: op_type
  op_kind :: op_kind
  initiator :: u8

fun op_type_value :: "op_type \<Rightarrow> u8" where
  "op_type_value Standard = 0"
| "op_type_value Application = 1"
| "op_type_value Speculative = 2"
| "op_type_value BufferInternal = 3"

fun op_kind_value :: "op_kind \<Rightarrow> u8" where
  "op_kind_value Kind_instruction = 0"
| "op_kind_value Kind_data = 1"

text \<open>The cast from two bits covers all four enumerators.\<close>

definition op_type_of :: "u16 \<Rightarrow> op_type" where
  "op_type_of v = (if v = 0 then Standard else if v = 1 then Application
                   else if v = 2 then Speculative else BufferInternal)"

definition mode_as_u8 :: "operation \<Rightarrow> u8" where
  "mode_as_u8 p = push_bit 4 (op_type_value (op_type p)) OR op_kind_value (op_kind p)"

definition as_u16 :: "operation \<Rightarrow> u16" where
  "as_u16 p = push_bit 8 (ucast (initiator p)) OR ucast (mode_as_u8 p)"

definition operation_of_u16 :: "u16 \<Rightarrow> operation" where
  "operation_of_u16 v =
     \<lparr>op_type = op_type_of (drop_bit 4 v AND 3),
      op_kind = (if v AND 1 = 0 then Kind_instruction else Kind_data),
      initiator = ucast (drop_bit 8 v AND 0xFF)\<rparr>"

definition mk_op :: "op_type \<Rightarrow> op_kind \<Rightarrow> u8 \<Rightarrow> operation" where
  "mk_op t k i = \<lparr>op_type = t, op_kind = k, initiator = i\<rparr>"

definition is_performance_countable :: "operation \<Rightarrow> bool" where
  "is_performance_countable p \<longleftrightarrow> op_type p = Standard \<or> op_type p = Speculative"

lemma as_u16_bytes: "as_u16 p = join_bytes (initiator p) (mode_as_u8 p)"
  by (simp add: as_u16_def join_bytes_def)

lemma and_1_eq_0_iff: "x AND 1 = 0 \<longleftrightarrow> \<not> bit (x :: 'a::len word) 0"
  by (simp add: and_one_eq bit_0 mod_2_eq_odd)

lemma operation_of_join:
  "operation_of_u16 (join_bytes i m) =
     \<lparr>op_type = op_type_of (ucast (drop_bit 4 m AND 3)),
      op_kind = (if m AND 1 = 0 then Kind_instruction else Kind_data), initiator = i\<rparr>"
proof -
  have "drop_bit 4 (join_bytes i m) AND 3 = ucast (drop_bit 4 m AND 3)"
  proof (rule bit_word_eqI)
    fix n
    have "bit (3::u16) n \<longleftrightarrow> n = 0 \<or> n = 1" "bit (3::u8) n \<longleftrightarrow> n = 0 \<or> n = 1"
      by (cases n rule: nat.exhaust; cases "n - 1"; simp add: bit_simps bit_numeral_rec)+
    then show "bit (drop_bit 4 (join_bytes i m) AND 3) n = bit (ucast (drop_bit 4 m AND 3) :: u16) n"
      by (auto simp: join_bytes_def bit_simps)
  qed
  moreover have "(join_bytes i m AND 1 = 0) = (m AND 1 = 0)"
    unfolding and_1_eq_0_iff by (simp add: join_bytes_def bit_simps del: bit_0)
  moreover have "x AND 0xFF = take_bit 8 x" for x :: u16
    by (simp add: take_bit_eq_mask mask_eq_exp_minus_1)
  then have "ucast (drop_bit 8 (join_bytes i m) AND 0xFF) = i"
    by (intro bit_word_eqI) (auto simp: join_bytes_def bit_simps dest: bit_imp_le_length)
  ultimately show ?thesis by (simp add: operation_of_u16_def)
qed

section \<open>Errors\<close>

datatype error_type = Unmapped | OOBAccess | NeedsMMI | WriteToRO

text \<open>
  What an operation of the simulator can end with instead of returning: a memory \<^verbatim>\<open>Error\<close>
  with its type and address, a \<^verbatim>\<open>std::logic_error\<close> or
  \<^verbatim>\<open>std::runtime_error\<close> with its message, the trace buffer's
  \<^verbatim>\<open>RingOverflow\<close>, or undefined behaviour of C++ (an index past the end of an array), which the
  model makes an error of its own so that it cannot go unnoticed.
\<close>

datatype sim_error =
    MemError error_type u32
  | LogicError string
  | RuntimeError string
  | RingOverflow nat
  | UndefinedBehaviour

datatype fail_policy = YieldDefaultValue | RaiseError

section \<open>Targets\<close>

text \<open>
  The bounds check that the devices share.  \<open>n\<close> is the length of the access; the sum is taken
  in 32 bits, and so is the difference, which makes a length of 0 stand for \<open>2 ^ 32\<close>.
\<close>

definition max_addr :: "u32 \<Rightarrow> nat \<Rightarrow> u32" where
  "max_addr address n = address + max 0 (word_of_int (int n - 1))"

definition out_of_bounds :: "interval \<Rightarrow> u32 \<Rightarrow> nat \<Rightarrow> bool" where
  "out_of_bounds span address n \<longleftrightarrow> address < lower span \<or> max_addr address n > upper span"

text \<open>The virtual methods of \<^verbatim>\<open>Target\<close>, over a state \<open>'d\<close> that includes the device.\<close>

record 'd target_ops =
  t_span :: "'d \<Rightarrow> interval"
  t_read :: "u32 \<Rightarrow> u8 list \<Rightarrow> operation \<Rightarrow> ('d, sim_error, u8 list) sm"
  t_write :: "u32 \<Rightarrow> u8 list \<Rightarrow> operation \<Rightarrow> ('d, sim_error, unit) sm"

text \<open>
  \<^verbatim>\<open>Target::read<I, byteswap>\<close> and \<^verbatim>\<open>Target::write<I, byteswap>\<close>.  The integer
  that a read fills in is uninitialised; its bytes are \<open>junk\<close> until the device overwrites them.
\<close>

definition read_int :: "'d target_ops \<Rightarrow> bool \<Rightarrow> 'a::len word \<Rightarrow> u32 \<Rightarrow> operation \<Rightarrow> ('d, sim_error, 'a word) sm" where
  "read_int t swap junk address p =
     andthen (t_read t address (to_le junk) p)
       (\<lambda>bs. ret (if swap then byteswap (of_le bs) else of_le bs))"

definition write_int :: "'d target_ops \<Rightarrow> bool \<Rightarrow> u32 \<Rightarrow> 'a::len word \<Rightarrow> operation \<Rightarrow> ('d, sim_error, unit) sm" where
  "write_int t swap address src p = t_write t address (to_le (if swap then byteswap src else src)) p"

lemma max_addr_Suc: "max_addr a (Suc k) = a + word_of_nat k"
  by (simp add: max_addr_def max_def)

lemma max_addr_1 [simp]: "max_addr a (Suc 0) = a"
  by (simp add: max_addr_Suc)

text \<open>What the bounds check lets through, for accesses that neither are empty nor run past \<open>2 ^ 32\<close>.\<close>

lemma in_bounds_iff:
  assumes "0 < n" and "unat a + n \<le> 2 ^ 32"
  shows "\<not> out_of_bounds i a n \<longleftrightarrow> unat (lower i) \<le> unat a \<and> unat a + n \<le> unat (upper i) + 1"
proof -
  obtain k where k: "n = Suc k" using assms(1) by (cases n) auto
  have "unat (word_of_nat k :: u32) = k" using assms k by (simp add: unat_of_nat)
  then have "unat (max_addr a n) = unat a + k"
    using assms by (simp add: k max_addr_Suc unat_word_ariths(1))
  then show ?thesis using k
    by (auto simp: out_of_bounds_def word_less_nat_alt not_less)
qed

section \<open>Byte memories\<close>

text \<open>
  The contract of a memory device towards its clients.  An access within bounds returns the bytes that
  an abstract byte store holds, and a write within bounds updates the store at exactly the addresses
  written.  An access is within bounds when it is not empty, does not run past the end of the address
  space and lies within the span of the device.
\<close>

definition within :: "interval \<Rightarrow> u32 \<Rightarrow> nat \<Rightarrow> bool" where
  "within i a n \<longleftrightarrow>
     0 < n \<and> n < 2 ^ 32 \<and> unat (lower i) \<le> unat a \<and> unat a + n \<le> unat (upper i) + 1"

definition put_bytes :: "(nat \<Rightarrow> u8) \<Rightarrow> nat \<Rightarrow> u8 list \<Rightarrow> (nat \<Rightarrow> u8)" where
  "put_bytes m a bs = (\<lambda>k. if a \<le> k \<and> k < a + length bs then bs ! (k - a) else m k)"

definition get_bytes :: "(nat \<Rightarrow> u8) \<Rightarrow> nat \<Rightarrow> nat \<Rightarrow> u8 list" where
  "get_bytes m a n = map (\<lambda>k. m (a + k)) [0..<n]"

lemma length_get_bytes [simp]: "length (get_bytes m a n) = n"
  by (simp add: get_bytes_def)

lemma get_put_same [simp]: "get_bytes (put_bytes m a bs) a (length bs) = bs"
  by (rule nth_equalityI) (simp_all add: get_bytes_def put_bytes_def)

lemma get_put_disjoint:
  "a + n \<le> b \<or> b + length bs \<le> a \<Longrightarrow> get_bytes (put_bytes m b bs) a n = get_bytes m a n"
  by (auto simp: get_bytes_def put_bytes_def)

lemma put_put_same: "length bs = length cs \<Longrightarrow> put_bytes (put_bytes m a bs) a cs = put_bytes m a cs"
  by (auto simp: put_bytes_def)

lemma get_bytes_append: "get_bytes m a j @ get_bytes m (a + j) k = get_bytes m a (j + k)"
  by (rule nth_equalityI) (auto simp: get_bytes_def nth_append)

lemma put_bytes_append: "put_bytes (put_bytes m a xs) (a + length xs) ys = put_bytes m a (xs @ ys)"
  by (rule ext) (auto simp: put_bytes_def nth_append)

lemma put_bytes_Nil [simp]: "put_bytes m a [] = m"
  by (rule ext) (auto simp: put_bytes_def)

lemma within_in_bounds: "within i a n \<Longrightarrow> \<not> out_of_bounds i a n"
  using unsigned_less[of "upper i", where 'a = nat] by (subst in_bounds_iff) (auto simp: within_def)

locale byte_memory =
  fixes ops :: "'d target_ops"
    and invar :: "'d \<Rightarrow> bool"
    and store :: "'d \<Rightarrow> nat \<Rightarrow> u8"
  assumes read_within: "invar d \<Longrightarrow> within (t_span ops d) a (length dest) \<Longrightarrow>
      \<exists>d'. t_read ops a dest p d = (Inr (get_bytes (store d) (unat a) (length dest)), d')
           \<and> invar d' \<and> store d' = store d \<and> t_span ops d' = t_span ops d"
    and write_within: "invar d \<Longrightarrow> within (t_span ops d) a (length src) \<Longrightarrow>
      \<exists>d'. t_write ops a src p d = (Inr (), d')
           \<and> invar d' \<and> store d' = put_bytes (store d) (unat a) src \<and> t_span ops d' = t_span ops d"
    and read_oob: "invar d \<Longrightarrow> out_of_bounds (t_span ops d) a (length dest) \<Longrightarrow>
      t_read ops a dest p d = (Inl (MemError OOBAccess a), d)"
    and write_oob: "invar d \<Longrightarrow> out_of_bounds (t_span ops d) a (length src) \<Longrightarrow>
      t_write ops a src p d = (Inl (MemError OOBAccess a), d)"

begin

text \<open>A read of what was just written, and a read elsewhere.\<close>

lemma read_after_write:
  assumes "invar d" and "within (t_span ops d) a (length src)" and "length dest = length src"
  shows "fst (t_read ops a dest p (final (t_write ops a src q) d)) = Inr src"
proof -
  obtain d' where w: "t_write ops a src q d = (Inr (), d')" "invar d'"
      "store d' = put_bytes (store d) (unat a) src" "t_span ops d' = t_span ops d"
    using write_within[OF assms(1,2)] by blast
  then have "within (t_span ops d') a (length dest)" using assms by simp
  from read_within[OF w(2) this, of p] show ?thesis using w assms(3) by (auto simp: final_def)
qed

lemma read_after_write_elsewhere:
  assumes "invar d" and "within (t_span ops d) b (length src)" and "within (t_span ops d) a (length dest)"
    and "unat a + length dest \<le> unat b \<or> unat b + length src \<le> unat a"
  shows "fst (t_read ops a dest p (final (t_write ops b src q) d)) = fst (t_read ops a dest p d)"
proof -
  obtain d' where w: "t_write ops b src q d = (Inr (), d')" "invar d'"
      "store d' = put_bytes (store d) (unat b) src" "t_span ops d' = t_span ops d"
    using write_within[OF assms(1,2)] by blast
  then have "within (t_span ops d') a (length dest)" using assms by simp
  from read_within[OF w(2) this, of p] read_within[OF assms(1,3), of p] show ?thesis
    using w get_put_disjoint[OF assms(4), of "store d"] by (auto simp: final_def)
qed

text \<open>Big-endian words, as the Pep processors access them.\<close>

lemma read_word:
  assumes "invar d" and "within (t_span ops d) a 2"
  shows "\<exists>d'. read_int ops True (junk :: u16) a p d =
      (Inr (join_bytes (store d (unat a)) (store d (unat a + 1))), d')
      \<and> invar d' \<and> store d' = store d \<and> t_span ops d' = t_span ops d"
proof -
  have "within (t_span ops d) a (length (to_le junk))" using assms(2) by (simp add: numeral_2_eq_2)
  from read_within[OF assms(1) this, of p] show ?thesis
    by (auto simp: read_int_def andthen_def get_bytes_def upt_rec of_le_u16[simplified])
qed

lemma write_word:
  assumes "invar d" and "within (t_span ops d) a 2"
  shows "\<exists>d'. write_int ops True a (v :: u16) p d = (Inr (), d')
      \<and> invar d' \<and> store d' = put_bytes (store d) (unat a) [hi_byte v, lo_byte v]
      \<and> t_span ops d' = t_span ops d"
proof -
  have "within (t_span ops d) a (length [hi_byte v, lo_byte v])" using assms(2) by (simp add: numeral_2_eq_2)
  from write_within[OF assms(1) this, of p] show ?thesis by (simp add: write_int_def)
qed

lemma read_byte:
  assumes "invar d" and "within (t_span ops d) a 1"
  shows "\<exists>d'. read_int ops False (junk :: u8) a p d = (Inr (store d (unat a)), d')
      \<and> invar d' \<and> store d' = store d \<and> t_span ops d' = t_span ops d"
proof -
  have "within (t_span ops d) a (length (to_le junk))" using assms(2) by simp
  from read_within[OF assms(1) this, of p] show ?thesis
    by (auto simp: read_int_def andthen_def get_bytes_def)
qed

lemma write_then_read_word:
  assumes "invar d" and "within (t_span ops d) a 2"
  shows "fst (read_int ops True (junk :: u16) a p (final (write_int ops True a v q) d)) = Inr v"
proof -
  obtain d' where w: "write_int ops True a v q d = (Inr (), d')" "invar d'"
      "store d' = put_bytes (store d) (unat a) [hi_byte v, lo_byte v]" "t_span ops d' = t_span ops d"
    using write_word[OF assms] by blast
  with assms(2) have "within (t_span ops d') a 2" by simp
  from read_word[OF w(2) this, of junk p] show ?thesis using w by (auto simp: final_def put_bytes_def)
qed

end

section \<open>Properties\<close>

text \<open>
  Property C24.  Packing a memory operation into 16 bits and unpacking it loses nothing; unpacking and
  packing again clears exactly the bits that have no meaning.
\<close>

theorem operation_packing:
  "operation_of_u16 (as_u16 p) = p \<and> as_u16 (operation_of_u16 v) = v AND 0xFF31"
proof
  show "operation_of_u16 (as_u16 p) = p"
    unfolding as_u16_bytes operation_of_join
    by (cases p; cases "op_type p"; cases "op_kind p") (simp_all add: mode_as_u8_def op_type_of_def)
next
  have "\<forall>m. mode_as_u8 (operation_of_u16 (join_bytes i m)) = m AND 0x31" for i
    unfolding operation_of_join all_u8 mode_as_u8_def by code_simp
  then have m: "mode_as_u8 (operation_of_u16 (join_bytes i m)) = m AND 0x31" for i m by blast
  have "as_u16 (operation_of_u16 (join_bytes i m)) = join_bytes i (m AND 0x31)" for i m
    unfolding as_u16_bytes m by (simp add: operation_of_join)
  moreover have "join_bytes i (m AND 0x31) = join_bytes i m AND 0xFF31" for i m
  proof -
    have "join_bytes i m AND join_bytes (-1) 0x31 = join_bytes (i AND -1) (m AND 0x31)"
      by (rule join_bytes_and)
    moreover have "join_bytes (-1) 0x31 = 0xFF31" by code_simp
    ultimately show ?thesis by simp
  qed
  ultimately have "as_u16 (operation_of_u16 (join_bytes (hi_byte v) (lo_byte v))) =
      join_bytes (hi_byte v) (lo_byte v) AND 0xFF31" by metis
  then show "as_u16 (operation_of_u16 v) = v AND 0xFF31" by simp
qed

end
