(* ===== verification/Trace_Log.thy ===== *)
theory Trace_Log
  imports Sim_Api
begin

text \<open>
  The write-ahead trace, from \<^verbatim>\<open>sim/debugger/trace_recorder.hpp\<close>,
  \<^verbatim>\<open>trace_recorder.cpp\<close> and the recording lifecycle of \<^verbatim>\<open>tvm_tracebuffer.cpp\<close>.
  Devices report each access through a \<^verbatim>\<open>Recorder\<close> before it takes effect; a recording per
  initiator collects the packets of one instruction and is committed to, or aborted from, the entry
  it reserved in a ring of slots.

  A packet is modelled as the operands of the trace instruction that is emitted, and a program as the
  list of its packets.  Left out are the byte encoding of packets, the layout of the data chain (and
  with it the packets of \<^verbatim>\<open>emit_dp_update\<close>, which only move the data pointer), the promotion of
  repeated bodies to stencils, and the watermark callbacks, of which none is registered here.
  The assertions of the code are those of a release build, that is, absent.
\<close>

section \<open>The trace buffer\<close>

datatype packet =
    P_Tick u16
  | P_SetMem bool u16 u8 u32 "u8 list"   \<comment> \<open>address in payload, access, device, address, xor of the bytes\<close>
  | P_StepMem u16 u8 u32 byte_order "u8 list"   \<comment> \<open>access, device, address, order, difference\<close>
  | P_StepReg u16 u16 u16 "u8 list"      \<comment> \<open>access, register, field, difference\<close>
  | P_SetReg u16 u16 u16 "u8 list"       \<comment> \<open>access, register, field, xor of the bytes\<close>
  | P_MMIO bool u16 u8 u32 u8            \<comment> \<open>write, access, device, address, byte\<close>

record recording =
  rc_body :: "packet list"
  rc_slot :: nat
  rc_entry :: nat

text \<open>
  A node of the ring: the absolute slot it holds, the programs of its location buffer (a tombstone is
  \<open>None\<close>; their number is the node's \<open>count\<close>) and the number of open recordings.
\<close>

record ring_node =
  n_slot :: "nat option"
  n_programs :: "packet list option list"
  n_open :: nat

record trace_buffer =
  tb_ring :: "ring_node list"
  tb_head :: nat
  tb_recs :: "u8 \<Rightarrow> recording option"
  tb_traced :: "u8 \<Rightarrow> bool"
  tb_address_in_payload :: "u8 \<Rightarrow> bool"

definition MAX_LOCATION_ENTRIES :: nat where
  "MAX_LOCATION_ENTRIES = 65536 div 8"

definition fresh_node :: ring_node where
  "fresh_node = \<lparr>n_slot = None, n_programs = [], n_open = 0\<rparr>"

definition fresh_trace_buffer :: "nat \<Rightarrow> trace_buffer" where
  "fresh_trace_buffer ring_size =
     \<lparr>tb_ring = replicate ring_size fresh_node, tb_head = 0, tb_recs = (\<lambda>_. None),
      tb_traced = (\<lambda>_. False), tb_address_in_payload = (\<lambda>_. False)\<rparr>"

definition ring_index :: "trace_buffer \<Rightarrow> nat \<Rightarrow> nat" where
  "ring_index tb slot = slot mod length (tb_ring tb)"

definition node_at :: "trace_buffer \<Rightarrow> nat \<Rightarrow> ring_node" where
  "node_at tb slot = tb_ring tb ! ring_index tb slot"

definition set_node :: "nat \<Rightarrow> ring_node \<Rightarrow> trace_buffer \<Rightarrow> trace_buffer" where
  "set_node slot n tb = tb\<lparr>tb_ring := (tb_ring tb)[ring_index tb slot := n]\<rparr>"

definition find_recording :: "trace_buffer \<Rightarrow> u8 \<Rightarrow> recording option" where
  "find_recording tb i = tb_recs tb i"

definition advance_slot :: "trace_buffer \<Rightarrow> trace_buffer" where
  "advance_slot tb = tb\<lparr>tb_head := tb_head tb + 1\<rparr>"

definition full_node :: "ring_node \<Rightarrow> bool" where
  "full_node n \<longleftrightarrow> length (n_programs n) \<ge> MAX_LOCATION_ENTRIES"

definition tb_begin :: "u8 \<Rightarrow> (trace_buffer, sim_error, unit) sm" where
  "tb_begin i = (\<lambda>tb.
     (let head = node_at tb (tb_head tb);
          tb1 = (if n_slot head = Some (tb_head tb) \<and> full_node head then advance_slot tb else tb);
          node = node_at tb1 (tb_head tb1)
      in if n_slot node \<noteq> None \<and> n_slot node \<noteq> Some (tb_head tb1)
         then (Inl (RingOverflow (tb_head tb1)), tb1)
         else (Inr (),
           (set_node (tb_head tb1)
              (node\<lparr>n_slot := Some (tb_head tb1), n_programs := n_programs node @ [None],
                    n_open := n_open node + 1\<rparr>) tb1)
             \<lparr>tb_recs := (tb_recs tb1)(i \<mapsto>
                \<lparr>rc_body = [], rc_slot = tb_head tb1, rc_entry = length (n_programs node)\<rparr>)\<rparr>)))"

definition tb_commit :: "u8 \<Rightarrow> trace_buffer \<Rightarrow> trace_buffer" where
  "tb_commit i tb =
     (case find_recording tb i of
        None \<Rightarrow> tb
      | Some r \<Rightarrow>
          (let node = node_at tb (rc_slot r);
               node' = node\<lparr>n_open := n_open node - 1,
                            n_programs := (n_programs node)[rc_entry r := Some (rc_body r)]\<rparr>;
               tb1 = (set_node (rc_slot r) node' tb)\<lparr>tb_recs := (tb_recs tb)(i := None)\<rparr>
           in if rc_slot r = tb_head tb \<and> full_node node' \<and> n_open node' = 0
              then advance_slot tb1 else tb1))"

definition tb_abort :: "u8 \<Rightarrow> trace_buffer \<Rightarrow> trace_buffer" where
  "tb_abort i tb =
     (case find_recording tb i of
        None \<Rightarrow> tb
      | Some r \<Rightarrow>
          (let node = node_at tb (rc_slot r)
           in (set_node (rc_slot r) (node\<lparr>n_open := n_open node - 1\<rparr>) tb)
                \<lparr>tb_recs := (tb_recs tb)(i := None)\<rparr>))"

definition emit_body :: "u8 \<Rightarrow> packet \<Rightarrow> trace_buffer \<Rightarrow> trace_buffer" where
  "emit_body i pkt tb =
     (case find_recording tb i of
        None \<Rightarrow> tb
      | Some r \<Rightarrow> tb\<lparr>tb_recs := (tb_recs tb)(i \<mapsto> r\<lparr>rc_body := rc_body r @ [pkt]\<rparr>)\<rparr>)"

section \<open>Recorders\<close>

text \<open>A \<^verbatim>\<open>Recorder\<close>: whether it is bound to a buffer, and the device it speaks for.\<close>

record recorder =
  bound :: bool
  emitter :: u8

definition traced :: "recorder \<Rightarrow> trace_buffer \<Rightarrow> bool" where
  "traced r tb \<longleftrightarrow> bound r \<and> tb_traced tb (emitter r)"

text \<open>\<^verbatim>\<open>TraceBuffer::trace\<close>; the notification of the device is the device's \<^verbatim>\<open>on_traced_changed\<close>.\<close>

definition set_traced :: "recorder \<Rightarrow> bool \<Rightarrow> trace_buffer \<Rightarrow> trace_buffer" where
  "set_traced r enabled tb =
     (if bound r then tb\<lparr>tb_traced := (tb_traced tb)(emitter r := enabled)\<rparr> else tb)"

definition recordable :: "recorder \<Rightarrow> operation \<Rightarrow> trace_buffer \<Rightarrow> bool" where
  "recordable r p tb \<longleftrightarrow> traced r tb \<and> op_type p \<noteq> BufferInternal \<and> find_recording tb (initiator p) \<noteq> None"

text \<open>
  \<^verbatim>\<open>emit_write\<close> with a filler: the filler is the bytes it would write into the slot,
  as many as \<open>now\<close> has.
\<close>

definition emit_write_filler :: "recorder \<Rightarrow> operation \<Rightarrow> u32 \<Rightarrow> u8 list \<Rightarrow> u8 list \<Rightarrow> trace_buffer \<Rightarrow> trace_buffer" where
  "emit_write_filler r p address now prior tb =
     (if length now = 0 then tb
      else if \<not> traced r tb then tb
      else if op_type p = BufferInternal then tb
      else if find_recording tb (initiator p) = None then tb
      else emit_body (initiator p)
             (P_SetMem (tb_address_in_payload tb (emitter r)) (as_u16 p) (emitter r) address
                (inplace_xor prior now)) tb)"

definition emit_write :: "recorder \<Rightarrow> operation \<Rightarrow> u32 \<Rightarrow> u8 list \<Rightarrow> u8 list \<Rightarrow> trace_buffer \<Rightarrow> trace_buffer" where
  "emit_write r p address prior now tb =
     (if \<not> traced r tb then tb
      else let len = min (length prior) (length now)
           in emit_write_filler r p address (take len now) (take len prior) tb)"

definition emit_write_increment ::
  "recorder \<Rightarrow> operation \<Rightarrow> u32 \<Rightarrow> u8 list \<Rightarrow> u8 list \<Rightarrow> byte_order \<Rightarrow> trace_buffer \<Rightarrow> trace_buffer" where
  "emit_write_increment r p address prior now order tb =
     (let len = length now in
      if len = 0 then tb
      else if \<not> traced r tb then tb
      else if op_type p = BufferInternal then tb
      else if len \<noteq> 1 \<and> len \<noteq> 2 \<and> len \<noteq> 4 \<and> len \<noteq> 8 then emit_write r p address prior now tb
      else if find_recording tb (initiator p) = None then tb
      else let before = (memcpy_endian_to prior order :: u64);
               after = (memcpy_endian_to now order :: u64);
               delta = after - before
           in emit_body (initiator p)
                (P_StepMem (as_u16 p) (emitter r) address order
                   (memcpy_endian_from (replicate len 0) LittleEndian delta)) tb)"

definition emit_mm :: "recorder \<Rightarrow> operation \<Rightarrow> u32 \<Rightarrow> u8 \<Rightarrow> bool \<Rightarrow> trace_buffer \<Rightarrow> trace_buffer" where
  "emit_mm r p address pushed read_write tb =
     (if \<not> traced r tb then tb
      else if op_type p = BufferInternal then tb
      else if find_recording tb (initiator p) = None then tb
      else emit_body (initiator p) (P_MMIO read_write (as_u16 p) (emitter r) address pushed) tb)"

definition emit_mm_write :: "recorder \<Rightarrow> operation \<Rightarrow> u32 \<Rightarrow> u8 \<Rightarrow> trace_buffer \<Rightarrow> trace_buffer" where
  "emit_mm_write r p address pushed = emit_mm r p address pushed True"

definition emit_mm_read :: "recorder \<Rightarrow> operation \<Rightarrow> u32 \<Rightarrow> u8 \<Rightarrow> trace_buffer \<Rightarrow> trace_buffer" where
  "emit_mm_read r p address popped = emit_mm r p address popped False"

text \<open>A register reference is a pair of register and field numbers; register 0 is never handed out.\<close>

type_synonym register_ref = "u16 \<times> u16"

definition emit_incr_register :: "recorder \<Rightarrow> operation \<Rightarrow> register_ref \<Rightarrow> 16 word \<Rightarrow> trace_buffer \<Rightarrow> trace_buffer" where
  "emit_incr_register r p ref value tb =
     (if value = 0 then tb
      else if \<not> traced r tb then tb
      else if op_type p = BufferInternal then tb
      else if fst ref = 0 then tb
      else if find_recording tb (initiator p) = None then tb
      else emit_body (initiator p)
             (P_StepReg (as_u16 p) (fst ref) (snd ref)
                (if - 128 \<le> sint value \<and> sint value \<le> 127 then [ucast value]
                 else [ucast (value AND 0xFF), ucast (drop_bit 8 value AND 0xFF)])) tb)"

definition emit_register_xor :: "recorder \<Rightarrow> operation \<Rightarrow> register_ref \<Rightarrow> u64 \<Rightarrow> nat \<Rightarrow> trace_buffer \<Rightarrow> trace_buffer" where
  "emit_register_xor r p ref combined sz tb =
     (if combined = 0 then tb
      else if \<not> traced r tb then tb
      else if op_type p = BufferInternal then tb
      else if fst ref = 0 then tb
      else if find_recording tb (initiator p) = None then tb
      else emit_body (initiator p)
             (P_SetReg (as_u16 p) (fst ref) (snd ref)
                (memcpy_endian_from (replicate sz 0) LittleEndian combined)) tb)"

definition emit_write_register :: "recorder \<Rightarrow> operation \<Rightarrow> register_ref \<Rightarrow> 'a::len word \<Rightarrow> trace_buffer \<Rightarrow> trace_buffer" where
  "emit_write_register r p ref combined = emit_register_xor r p ref (ucast combined) (LENGTH('a) div 8)"

section \<open>The recording of one instruction\<close>

text \<open>
  \<^verbatim>\<open>Recorder::Instruction\<close>.  Its state is the initiator of the recording it opened, if any.
  The constructor opens, \<open>tick\<close> and \<open>commit\<close> do nothing unless a recording was opened,
  and the destructor aborts what was not committed.
\<close>

definition instruction_open :: "recorder \<Rightarrow> bool \<Rightarrow> (trace_buffer, sim_error, u8 option) sm" where
  "instruction_open r may_trace =
     (if may_trace \<and> bound r then andthen (tb_begin (emitter r)) (\<lambda>_. ret (Some (emitter r)))
      else ret None)"

definition instruction_tick :: "u8 option \<Rightarrow> u16 \<Rightarrow> trace_buffer \<Rightarrow> trace_buffer" where
  "instruction_tick opened delta tb = (case opened of None \<Rightarrow> tb | Some i \<Rightarrow> emit_body i (P_Tick delta) tb)"

definition instruction_commit :: "u8 option \<Rightarrow> trace_buffer \<Rightarrow> trace_buffer" where
  "instruction_commit opened tb = (case opened of None \<Rightarrow> tb | Some i \<Rightarrow> tb_commit i tb)"

definition instruction_abort :: "u8 option \<Rightarrow> trace_buffer \<Rightarrow> trace_buffer" where
  "instruction_abort opened tb = (case opened of None \<Rightarrow> tb | Some i \<Rightarrow> tb_abort i tb)"

section \<open>What emitting does to the buffer\<close>

text \<open>Between the opening and the closing of recordings a buffer only grows the bodies of open ones.\<close>

definition grows :: "recording option \<Rightarrow> recording option \<Rightarrow> bool" where
  "grows r r' \<longleftrightarrow> (case (r, r') of
     (None, None) \<Rightarrow> True
   | (Some a, Some b) \<Rightarrow> rc_slot b = rc_slot a \<and> rc_entry b = rc_entry a \<and> (\<exists>ps. rc_body b = rc_body a @ ps)
   | _ \<Rightarrow> False)"

definition extends :: "trace_buffer \<Rightarrow> trace_buffer \<Rightarrow> bool" where
  "extends tb tb' \<longleftrightarrow>
     tb_ring tb' = tb_ring tb \<and> tb_head tb' = tb_head tb \<and> tb_traced tb' = tb_traced tb
     \<and> tb_address_in_payload tb' = tb_address_in_payload tb
     \<and> (\<forall>i. grows (tb_recs tb i) (tb_recs tb' i))"

named_theorems extends_intros "operations that only extend open recordings"

lemma grows_refl [simp]: "grows r r"
  by (cases r) (auto simp: grows_def)

lemma grows_trans: "grows a b \<Longrightarrow> grows b c \<Longrightarrow> grows a c"
  by (auto simp: grows_def split: option.splits)

lemma extends_refl [simp, extends_intros]: "extends tb tb"
  by (simp add: extends_def)

lemma extends_trans: "extends a b \<Longrightarrow> extends b c \<Longrightarrow> extends a c"
  unfolding extends_def by (metis grows_trans)

lemma extends_emit_body [extends_intros]: "extends tb (emit_body i pkt tb)"
  by (auto simp: extends_def emit_body_def find_recording_def grows_def split: option.splits)

lemma extends_emit_write_filler [extends_intros]: "extends tb (emit_write_filler r p a now prior tb)"
  by (simp add: emit_write_filler_def extends_emit_body)

lemma extends_emit_write [extends_intros]: "extends tb (emit_write r p a prior now tb)"
  by (simp add: emit_write_def extends_emit_write_filler Let_def)

lemma extends_emit_write_increment [extends_intros]:
  "extends tb (emit_write_increment r p a prior now ord tb)"
  by (simp add: emit_write_increment_def extends_emit_body extends_emit_write Let_def)

lemma extends_emit_mm [extends_intros]: "extends tb (emit_mm r p a b w tb)"
  by (simp add: emit_mm_def extends_emit_body)

lemma extends_emit_incr_register [extends_intros]: "extends tb (emit_incr_register r p ref v tb)"
  by (simp add: emit_incr_register_def extends_emit_body)

lemma extends_emit_write_register [extends_intros]: "extends tb (emit_write_register r p ref v tb)"
  by (simp add: emit_write_register_def emit_register_xor_def extends_emit_body)

lemma extends_instruction_tick [extends_intros]: "extends tb (instruction_tick i d tb)"
  by (simp add: instruction_tick_def extends_emit_body split: option.splits)

lemma emit_untraced [simp]:
  "\<not> traced r tb \<Longrightarrow> emit_write r p a prior now tb = tb"
  "\<not> traced r tb \<Longrightarrow> emit_write_filler r p a now prior tb = tb"
  "\<not> traced r tb \<Longrightarrow> emit_write_increment r p a prior now ord tb = tb"
  "\<not> traced r tb \<Longrightarrow> emit_mm r p a b w tb = tb"
  "\<not> traced r tb \<Longrightarrow> emit_incr_register r p ref v tb = tb"
  "\<not> traced r tb \<Longrightarrow> emit_write_register r p ref c tb = tb"
  by (simp_all add: emit_write_def emit_write_filler_def emit_write_increment_def emit_mm_def
      emit_incr_register_def emit_write_register_def emit_register_xor_def Let_def)

section \<open>Reservations\<close>

text \<open>
  The reservation invariant: every open recording owns an entry of a resident slot that still holds
  its tombstone, no two own the same entry, and every node counts the recordings open in it.
\<close>

definition open_in :: "trace_buffer \<Rightarrow> nat \<Rightarrow> u8 set" where
  "open_in tb k = {i. \<exists>r. tb_recs tb i = Some r \<and> ring_index tb (rc_slot r) = k}"

definition tb_ok :: "trace_buffer \<Rightarrow> bool" where
  "tb_ok tb \<longleftrightarrow>
     tb_ring tb \<noteq> []
     \<and> (\<forall>i r. tb_recs tb i = Some r \<longrightarrow>
           n_slot (node_at tb (rc_slot r)) = Some (rc_slot r)
           \<and> rc_entry r < length (n_programs (node_at tb (rc_slot r)))
           \<and> n_programs (node_at tb (rc_slot r)) ! rc_entry r = None)
     \<and> (\<forall>i j r q. tb_recs tb i = Some r \<longrightarrow> tb_recs tb j = Some q \<longrightarrow> i \<noteq> j \<longrightarrow>
           (rc_slot r, rc_entry r) \<noteq> (rc_slot q, rc_entry q))
     \<and> (\<forall>k < length (tb_ring tb). n_open (tb_ring tb ! k) = card (open_in tb k))"

lemma fresh_tb_ok: "0 < n \<Longrightarrow> tb_ok (fresh_trace_buffer n)"
  by (simp add: tb_ok_def fresh_trace_buffer_def open_in_def fresh_node_def)

lemma ring_index_less: "tb_ok tb \<Longrightarrow> ring_index tb s < length (tb_ring tb)"
  by (simp add: ring_index_def tb_ok_def)

lemma ring_index_cong: "tb_ring tb' = tb_ring tb \<Longrightarrow> ring_index tb' s = ring_index tb s"
  by (simp add: ring_index_def)

lemma node_at_cong: "tb_ring tb' = tb_ring tb \<Longrightarrow> node_at tb' s = node_at tb s"
  by (simp add: node_at_def ring_index_def)

lemma ring_index_set_node [simp]: "ring_index (set_node s n tb) t = ring_index tb t"
  by (simp add: ring_index_def set_node_def)

lemma node_at_set_node:
  "tb_ok tb \<Longrightarrow> node_at (set_node s n tb) t = (if ring_index tb t = ring_index tb s then n else node_at tb t)"
  using ring_index_less[of tb s] ring_index_less[of tb t]
  by (simp add: node_at_def set_node_def ring_index_def nth_list_update)

lemma finite_open_in [simp]: "finite (open_in tb k)"
  by (rule finite_subset[OF subset_UNIV]) simp

lemma grows_Some: "grows r (Some b) \<Longrightarrow> \<exists>a ps. r = Some a \<and> rc_slot b = rc_slot a \<and> rc_entry b = rc_entry a \<and> rc_body b = rc_body a @ ps"
  by (cases r) (auto simp: grows_def)

lemma grows_from_Some: "grows (Some a) r \<Longrightarrow> \<exists>b ps. r = Some b \<and> rc_slot b = rc_slot a \<and> rc_entry b = rc_entry a \<and> rc_body b = rc_body a @ ps"
  by (cases r) (auto simp: grows_def)

lemma extends_recs_old:
  assumes "extends tb tb'" and "tb_recs tb' i = Some r'"
  obtains r ps where "tb_recs tb i = Some r" "rc_slot r' = rc_slot r" "rc_entry r' = rc_entry r"
    "rc_body r' = rc_body r @ ps"
proof -
  have "grows (tb_recs tb i) (Some r')" using assms unfolding extends_def by metis
  then show ?thesis using that grows_Some by metis
qed

lemma extends_recs_new:
  assumes "extends tb tb'" and "tb_recs tb i = Some r"
  obtains r' ps where "tb_recs tb' i = Some r'" "rc_slot r' = rc_slot r" "rc_entry r' = rc_entry r"
    "rc_body r' = rc_body r @ ps"
proof -
  have "grows (Some r) (tb_recs tb' i)" using assms unfolding extends_def by metis
  then show ?thesis using that grows_from_Some by metis
qed

lemma extends_ring: "extends tb tb' \<Longrightarrow> tb_ring tb' = tb_ring tb"
  by (simp add: extends_def)

lemma extends_find_None: "extends tb tb' \<Longrightarrow> find_recording tb' i = None \<longleftrightarrow> find_recording tb i = None"
  unfolding find_recording_def using extends_recs_old extends_recs_new by (metis not_None_eq)

lemma extends_open_in:
  assumes "extends tb tb'"
  shows "open_in tb' k = open_in tb k"
proof (intro equalityI subsetI)
  fix i assume "i \<in> open_in tb' k"
  then obtain r' where r': "tb_recs tb' i = Some r'" "ring_index tb' (rc_slot r') = k"
    by (auto simp: open_in_def)
  from extends_recs_old[OF assms r'(1)] obtain r where
    "tb_recs tb i = Some r" "rc_slot r' = rc_slot r" by metis
  then show "i \<in> open_in tb k"
    using r'(2) ring_index_cong[OF extends_ring[OF assms]] by (simp add: open_in_def)
next
  fix i assume "i \<in> open_in tb k"
  then obtain r where r: "tb_recs tb i = Some r" "ring_index tb (rc_slot r) = k"
    by (auto simp: open_in_def)
  from extends_recs_new[OF assms r(1)] obtain r' where
    "tb_recs tb' i = Some r'" "rc_slot r' = rc_slot r" by metis
  then show "i \<in> open_in tb' k"
    using r(2) ring_index_cong[OF extends_ring[OF assms]] by (simp add: open_in_def)
qed

lemma tb_okI:
  assumes "tb_ring tb \<noteq> []"
    and "\<And>i r. tb_recs tb i = Some r \<Longrightarrow> n_slot (node_at tb (rc_slot r)) = Some (rc_slot r)
           \<and> rc_entry r < length (n_programs (node_at tb (rc_slot r)))
           \<and> n_programs (node_at tb (rc_slot r)) ! rc_entry r = None"
    and "\<And>i j r q. tb_recs tb i = Some r \<Longrightarrow> tb_recs tb j = Some q \<Longrightarrow> i \<noteq> j \<Longrightarrow>
           rc_slot r = rc_slot q \<Longrightarrow> rc_entry r \<noteq> rc_entry q"
    and "\<And>k. k < length (tb_ring tb) \<Longrightarrow> n_open (tb_ring tb ! k) = card (open_in tb k)"
  shows "tb_ok tb"
  unfolding tb_ok_def using assms by blast

lemma tb_ok_rec:
  assumes "tb_ok tb" and "tb_recs tb i = Some r"
  shows "n_slot (node_at tb (rc_slot r)) = Some (rc_slot r)"
    and "rc_entry r < length (n_programs (node_at tb (rc_slot r)))"
    and "n_programs (node_at tb (rc_slot r)) ! rc_entry r = None"
  using assms unfolding tb_ok_def by blast+

lemma tb_ok_distinct:
  "tb_ok tb \<Longrightarrow> tb_recs tb i = Some r \<Longrightarrow> tb_recs tb j = Some q \<Longrightarrow> i \<noteq> j \<Longrightarrow> rc_slot r = rc_slot q \<Longrightarrow>
   rc_entry r \<noteq> rc_entry q"
  unfolding tb_ok_def by blast

lemma tb_ok_count: "tb_ok tb \<Longrightarrow> k < length (tb_ring tb) \<Longrightarrow> n_open (tb_ring tb ! k) = card (open_in tb k)"
  unfolding tb_ok_def by blast

lemma extends_tb_ok:
  assumes ok: "tb_ok tb" and ext: "extends tb tb'"
  shows "tb_ok tb'"
proof (rule tb_okI)
  note ring = extends_ring[OF ext]
  show "tb_ring tb' \<noteq> []" using ok ring by (simp add: tb_ok_def)
  show "n_open (tb_ring tb' ! k) = card (open_in tb' k)" if "k < length (tb_ring tb')" for k
    using tb_ok_count[OF ok] that ring extends_open_in[OF ext] by simp
  fix i r' assume r': "tb_recs tb' i = Some r'"
  from extends_recs_old[OF ext r'] obtain r where r: "tb_recs tb i = Some r"
    "rc_slot r' = rc_slot r" "rc_entry r' = rc_entry r" by metis
  show "n_slot (node_at tb' (rc_slot r')) = Some (rc_slot r')
      \<and> rc_entry r' < length (n_programs (node_at tb' (rc_slot r')))
      \<and> n_programs (node_at tb' (rc_slot r')) ! rc_entry r' = None"
    using tb_ok_rec[OF ok r(1)] r node_at_cong[OF ring] by simp
  fix j q' assume q': "tb_recs tb' j = Some q'" and ij: "i \<noteq> j" and "rc_slot r' = rc_slot q'"
  from extends_recs_old[OF ext q'] obtain q where q: "tb_recs tb j = Some q"
    "rc_slot q' = rc_slot q" "rc_entry q' = rc_entry q" by metis
  show "rc_entry r' \<noteq> rc_entry q'"
    using tb_ok_distinct[OF ok r(1) q(1) ij] r q \<open>rc_slot r' = rc_slot q'\<close> by simp
qed

lemma tb_ok_advance [simp]: "tb_ok (advance_slot tb) = tb_ok tb"
  by (simp add: tb_ok_def advance_slot_def node_at_def ring_index_def open_in_def)

lemma tb_ok_if_advance: "tb_ok (if b then advance_slot tb else tb) = tb_ok tb"
  by simp

lemma tb_recs_set_node [simp]: "tb_recs (set_node s n tb) = tb_recs tb"
  by (simp add: set_node_def)

lemma node_at_recs_update [simp]: "node_at (tb\<lparr>tb_recs := f\<rparr>) s = node_at tb s"
  by (simp add: node_at_def ring_index_def)

lemma ring_index_recs_update [simp]: "ring_index (tb\<lparr>tb_recs := f\<rparr>) s = ring_index tb s"
  by (simp add: ring_index_def)

text \<open>Closing a recording, by commit or by abort.\<close>

lemma close_tb_ok:
  assumes ok: "tb_ok tb" and r: "tb_recs tb i = Some r"
    and n: "n_slot n = Some (rc_slot r)" "length (n_programs n) = length (n_programs (node_at tb (rc_slot r)))"
      "\<And>e. e \<noteq> rc_entry r \<Longrightarrow> n_programs n ! e = n_programs (node_at tb (rc_slot r)) ! e"
      "n_open n = n_open (node_at tb (rc_slot r)) - 1"
  shows "tb_ok ((set_node (rc_slot r) n tb)\<lparr>tb_recs := (tb_recs tb)(i := None)\<rparr>)" (is "tb_ok ?tb")
proof (rule tb_okI)
  show "tb_ring ?tb \<noteq> []" using ok by (simp add: tb_ok_def set_node_def)
next
  fix j q assume "tb_recs ?tb j = Some q"
  then have j: "j \<noteq> i" "tb_recs tb j = Some q" by (auto split: if_splits)
  show "n_slot (node_at ?tb (rc_slot q)) = Some (rc_slot q)
      \<and> rc_entry q < length (n_programs (node_at ?tb (rc_slot q)))
      \<and> n_programs (node_at ?tb (rc_slot q)) ! rc_entry q = None"
  proof (cases "ring_index tb (rc_slot q) = ring_index tb (rc_slot r)")
    case True
    then have same: "node_at tb (rc_slot q) = node_at tb (rc_slot r)" by (simp add: node_at_def)
    then have slot: "rc_slot q = rc_slot r"
      using tb_ok_rec(1)[OF ok r] tb_ok_rec(1)[OF ok j(2)] by simp
    then have "rc_entry q \<noteq> rc_entry r" using tb_ok_distinct[OF ok j(2) r j(1)] by simp
    then show ?thesis
      using tb_ok_rec[OF ok j(2)] n slot True same by (simp add: node_at_set_node[OF ok])
  next
    case False
    then show ?thesis using tb_ok_rec[OF ok j(2)] by (simp add: node_at_set_node[OF ok])
  qed
  fix l p assume "tb_recs ?tb l = Some p" and "j \<noteq> l" and "rc_slot q = rc_slot p"
  then show "rc_entry q \<noteq> rc_entry p"
    using tb_ok_distinct[OF ok j(2), of l p] by (auto split: if_splits)
next
  fix k assume "k < length (tb_ring ?tb)"
  then have k: "k < length (tb_ring tb)" by (simp add: set_node_def)
  have o: "open_in ?tb k = open_in tb k - {i}" by (auto simp: open_in_def split: if_splits)
  show "n_open (tb_ring ?tb ! k) = card (open_in ?tb k)"
  proof (cases "k = ring_index tb (rc_slot r)")
    case True
    then have "i \<in> open_in tb k" using r by (simp add: open_in_def)
    then show ?thesis
      using True tb_ok_count[OF ok k] n(4) k unfolding o
      by (simp add: set_node_def card_Diff_singleton node_at_def)
  next
    case False
    then have "i \<notin> open_in tb k" using r by (simp add: open_in_def)
    then show ?thesis using False tb_ok_count[OF ok k] unfolding o by (simp add: set_node_def)
  qed
qed

lemma tb_commit_ok: "tb_ok tb \<Longrightarrow> tb_ok (tb_commit i tb)"
proof (cases "find_recording tb i")
  case (Some r)
  assume ok: "tb_ok tb"
  from Some have r: "tb_recs tb i = Some r" by (simp add: find_recording_def)
  note c = close_tb_ok[OF ok r, of "(node_at tb (rc_slot r))\<lparr>n_open := n_open (node_at tb (rc_slot r)) - 1,
      n_programs := (n_programs (node_at tb (rc_slot r)))[rc_entry r := Some (rc_body r)]\<rparr>"]
  show ?thesis unfolding tb_commit_def Some option.case Let_def tb_ok_if_advance
    by (rule c) (simp_all add: tb_ok_rec[OF ok r])
qed (simp add: tb_commit_def)

lemma tb_abort_ok: "tb_ok tb \<Longrightarrow> tb_ok (tb_abort i tb)"
proof (cases "find_recording tb i")
  case (Some r)
  assume ok: "tb_ok tb"
  from Some have r: "tb_recs tb i = Some r" by (simp add: find_recording_def)
  note c = close_tb_ok[OF ok r, of "(node_at tb (rc_slot r))\<lparr>n_open := n_open (node_at tb (rc_slot r)) - 1\<rparr>"]
  show ?thesis using c tb_ok_rec[OF ok r] by (simp add: tb_abort_def Some Let_def)
qed (simp add: tb_abort_def)

text \<open>Opening a recording.\<close>

lemma open_tb_ok:
  assumes ok: "tb_ok tb" and i: "tb_recs tb i = None"
    and res: "n_slot (node_at tb h) = None \<or> n_slot (node_at tb h) = Some h"
    and n: "n_slot n = Some h" "n_programs n = n_programs (node_at tb h) @ [None]"
      "n_open n = n_open (node_at tb h) + 1"
    and r: "rc_slot r = h" "rc_entry r = length (n_programs (node_at tb h))"
  shows "tb_ok ((set_node h n tb)\<lparr>tb_recs := (tb_recs tb)(i \<mapsto> r)\<rparr>)" (is "tb_ok ?tb")
proof (rule tb_okI)
  show "tb_ring ?tb \<noteq> []" using ok by (simp add: tb_ok_def set_node_def)
next
  have old: "q \<in> UNIV \<and> j \<noteq> i \<Longrightarrow> tb_recs tb j = Some q \<Longrightarrow> ring_index tb (rc_slot q) = ring_index tb h \<Longrightarrow> rc_slot q = h" for j q
    using tb_ok_rec(1)[OF ok, of j q] res by (auto simp: node_at_def)
  fix j q assume jq: "tb_recs ?tb j = Some q"
  show "n_slot (node_at ?tb (rc_slot q)) = Some (rc_slot q)
      \<and> rc_entry q < length (n_programs (node_at ?tb (rc_slot q)))
      \<and> n_programs (node_at ?tb (rc_slot q)) ! rc_entry q = None"
  proof (cases "j = i")
    case True
    then show ?thesis using jq n r by (simp add: node_at_set_node[OF ok])
  next
    case False
    then have j: "tb_recs tb j = Some q" using jq by simp
    then show ?thesis using tb_ok_rec[OF ok j] old[of q j] False n
      by (auto simp: node_at_set_node[OF ok] nth_append)
  qed
  fix l p assume lp: "tb_recs ?tb l = Some p" and jl: "j \<noteq> l" and slots: "rc_slot q = rc_slot p"
  have new: "rc_entry x < rc_entry r" if "tb_recs tb y = Some x" "rc_slot x = h" for x y
    using tb_ok_rec(2)[OF ok that(1)] that(2) r by simp
  show "rc_entry q \<noteq> rc_entry p"
  proof (cases "j = i \<or> l = i")
    case True
    then show ?thesis using jq lp jl slots r new[of l p] new[of j q] by auto
  next
    case False
    then show ?thesis using jq lp jl slots tb_ok_distinct[OF ok, of j q l p] by simp
  qed
next
  fix k assume "k < length (tb_ring ?tb)"
  then have k: "k < length (tb_ring tb)" by (simp add: set_node_def)
  have ni: "i \<notin> open_in tb k" using i by (simp add: open_in_def)
  show "n_open (tb_ring ?tb ! k) = card (open_in ?tb k)"
  proof (cases "k = ring_index tb h")
    case True
    then have "open_in ?tb k = insert i (open_in tb k)" using r i by (auto simp: open_in_def split: if_splits)
    then show ?thesis using True tb_ok_count[OF ok k] n(3) k ni
      by (simp add: set_node_def node_at_def)
  next
    case False
    then have "open_in ?tb k = open_in tb k" using r i by (auto simp: open_in_def split: if_splits)
    then show ?thesis using False tb_ok_count[OF ok k] by (simp add: set_node_def)
  qed
qed

lemma tb_begin_cases:
  assumes "tb_begin i tb = (res, tb')"
  obtains (overflow) h tb1 where "tb1 = tb \<or> tb1 = advance_slot tb" "res = Inl (RingOverflow h)" "tb' = tb1"
  | (opened) tb1 n r where "tb1 = tb \<or> tb1 = advance_slot tb" "res = Inr ()"
      "n_slot (node_at tb1 (tb_head tb1)) = None \<or> n_slot (node_at tb1 (tb_head tb1)) = Some (tb_head tb1)"
      "tb' = (set_node (tb_head tb1) n tb1)\<lparr>tb_recs := (tb_recs tb1)(i \<mapsto> r)\<rparr>"
      "n_slot n = Some (tb_head tb1)" "n_programs n = n_programs (node_at tb1 (tb_head tb1)) @ [None]"
      "n_open n = n_open (node_at tb1 (tb_head tb1)) + 1"
      "r = \<lparr>rc_body = [], rc_slot = tb_head tb1, rc_entry = length (n_programs (node_at tb1 (tb_head tb1)))\<rparr>"
proof -
  define tb1 where "tb1 = (if n_slot (node_at tb (tb_head tb)) = Some (tb_head tb) \<and> full_node (node_at tb (tb_head tb))
    then advance_slot tb else tb)"
  have tb1: "tb1 = tb \<or> tb1 = advance_slot tb" by (simp add: tb1_def)
  show ?thesis
  proof (cases "n_slot (node_at tb1 (tb_head tb1)) \<noteq> None \<and> n_slot (node_at tb1 (tb_head tb1)) \<noteq> Some (tb_head tb1)")
    case True
    then show ?thesis using assms overflow[OF tb1]
      unfolding tb_begin_def Let_def tb1_def[symmetric] by auto
  next
    case False
    then show ?thesis using assms opened[OF tb1]
      unfolding tb_begin_def Let_def tb1_def[symmetric] by auto
  qed
qed

lemma tb_recs_advance [simp]: "tb_recs (advance_slot tb) = tb_recs tb"
  by (simp add: advance_slot_def)

lemma tb_begin_ok:
  assumes "tb_ok tb" and "find_recording tb i = None" and "tb_begin i tb = (res, tb')"
  shows "tb_ok tb'"
  using assms(3)
proof (cases rule: tb_begin_cases)
  case (overflow h tb1)
  then show ?thesis using assms(1) by auto
next
  case (opened tb1 n r)
  then have "tb_ok tb1" "tb_recs tb1 i = None" using assms(1,2) by (auto simp: find_recording_def)
  from open_tb_ok[OF this opened(3,5,6,7)] show ?thesis using opened(4,8) by simp
qed

section \<open>Memories that record\<close>

text \<open>
  A byte memory over a device and the trace buffer it reports to: its contents do not depend on the
  buffer, and of the buffer it only ever extends open recordings.
\<close>

locale traced_memory = byte_memory ops invar store
  for ops :: "('m \<times> trace_buffer) target_ops" and invar and store +
  assumes span_tb: "t_span ops (m, tb) = t_span ops (m, tb')"
    and invar_tb: "invar (m, tb) \<Longrightarrow> invar (m, tb')"
    and store_tb: "store (m, tb) = store (m, tb')"
    and read_extends: "extends (snd d) (snd (snd (t_read ops a dest p d)))"
    and write_extends: "extends (snd d) (snd (snd (t_write ops a src p d)))"

section \<open>Properties\<close>

definition program_at :: "trace_buffer \<Rightarrow> nat \<Rightarrow> nat \<Rightarrow> packet list option" where
  "program_at tb slot entry = n_programs (node_at tb slot) ! entry"

lemma node_at_advance [simp]: "node_at (advance_slot tb) s = node_at tb s"
  by (simp add: node_at_def advance_slot_def ring_index_def)

lemma program_at_if_advance: "program_at (if b then advance_slot tb else tb) s e = program_at tb s e"
  by (simp add: program_at_def)

lemma program_at_commit:
  assumes "tb_ok tb" and "find_recording tb i = Some r"
  shows "program_at (tb_commit i tb) (rc_slot r) (rc_entry r) = Some (rc_body r)"
    and "n_slot (node_at tb s) = Some s \<Longrightarrow> (s, e) \<noteq> (rc_slot r, rc_entry r) \<Longrightarrow>
         program_at (tb_commit i tb) s e = program_at tb s e"
proof -
  have r: "tb_recs tb i = Some r" using assms(2) by (simp add: find_recording_def)
  note rec = tb_ok_rec[OF assms(1) r]
  show "program_at (tb_commit i tb) (rc_slot r) (rc_entry r) = Some (rc_body r)"
    unfolding tb_commit_def assms(2) option.case Let_def program_at_if_advance
    using rec by (simp add: program_at_def node_at_set_node[OF assms(1)])
  assume s: "n_slot (node_at tb s) = Some s" "(s, e) \<noteq> (rc_slot r, rc_entry r)"
  have "s = rc_slot r" if "ring_index tb s = ring_index tb (rc_slot r)"
    using s(1) rec(1) that by (simp add: node_at_def)
  then show "program_at (tb_commit i tb) s e = program_at tb s e"
    unfolding tb_commit_def assms(2) option.case Let_def program_at_if_advance
    using rec s by (auto simp: program_at_def node_at_set_node[OF assms(1)])
qed

lemma program_at_abort:
  assumes "tb_ok tb" and "find_recording tb i = Some r"
  shows "program_at (tb_abort i tb) (rc_slot r) (rc_entry r) = None"
proof -
  have r: "tb_recs tb i = Some r" using assms(2) by (simp add: find_recording_def)
  show ?thesis using tb_ok_rec[OF assms(1) r] assms(2)
    by (simp add: tb_abort_def Let_def program_at_def node_at_set_node[OF assms(1)])
qed

lemma commit_closes: "find_recording (tb_commit i tb) i = None"
  by (simp add: tb_commit_def find_recording_def Let_def split: option.splits)

lemma abort_closes: "find_recording (tb_abort i tb) i = None"
  by (simp add: tb_abort_def find_recording_def Let_def split: option.splits)



end
