(* ===== verification/Dense_Ram.thy ===== *)
theory Dense_Ram
  imports Trace_Log
begin

text \<open>
  The RAM backed by one array, from \<^verbatim>\<open>sim/memory/ram/dense.hpp\<close> and \<^verbatim>\<open>dense.cpp\<close>.
  Its operations run on the device together with the trace buffer it reports to.  An access to the
  array outside its bounds is the error \<open>UndefinedBehaviour\<close>.
\<close>

record dense =
  dn_span :: interval
  dn_fill :: u8
  dn_data :: "u8 list"
  dn_rd_bytes :: u64
  dn_wr_bytes :: u64
  dn_trace :: recorder
  dn_may_trace :: bool

type_synonym dense_state = "dense \<times> trace_buffer"

text \<open>The constructor; the recorder of a new device is inert.\<close>

definition make_dense :: "interval \<Rightarrow> u8 \<Rightarrow> dense" where
  "make_dense span fill =
     \<lparr>dn_span = span, dn_fill = fill, dn_data = replicate (unat (size_inclusive span)) fill,
      dn_rd_bytes = 0, dn_wr_bytes = 0, dn_trace = \<lparr>bound = False, emitter = 0\<rparr>, dn_may_trace = True\<rparr>"

definition dense_clear :: "u8 \<Rightarrow> dense \<Rightarrow> dense" where
  "dense_clear fill d = d\<lparr>dn_data := map (\<lambda>_. fill) (dn_data d)\<rparr>"

definition dense_reset :: "dense \<Rightarrow> dense" where
  "dense_reset d =
     (dense_clear (dn_fill d) d)\<lparr>dn_rd_bytes := 0, dn_wr_bytes := 0, dn_may_trace := True\<rparr>"

definition dense_set_recorder :: "recorder \<Rightarrow> dense \<Rightarrow> dense" where
  "dense_set_recorder r d = d\<lparr>dn_trace := r\<rparr>"

definition dense_on_traced_changed :: "bool \<Rightarrow> dense \<Rightarrow> dense" where
  "dense_on_traced_changed enabled d = d\<lparr>dn_may_trace := enabled\<rparr>"

definition dense_dump :: "u8 list \<Rightarrow> dense \<Rightarrow> sim_error + u8 list" where
  "dense_dump dest d =
     (if length dest = 0 then Inl (LogicError ''dump requires non-0 size'')
      else let len = min (length dest) (length (dn_data d))
           in Inr (patch dest 0 (take len (dn_data d))))"

definition dense_span :: "dense_state \<Rightarrow> interval" where
  "dense_span = (\<lambda>(d, tb). dn_span d)"

definition dense_read :: "u32 \<Rightarrow> u8 list \<Rightarrow> operation \<Rightarrow> (dense_state, sim_error, u8 list) sm" where
  "dense_read address dest p = (\<lambda>(d, tb).
     (let n = length dest in
      if out_of_bounds (dn_span d) address n then (Inl (MemError OOBAccess address), (d, tb))
      else let offset = unat (address - lower (dn_span d)) in
        if offset + n > length (dn_data d) then (Inl UndefinedBehaviour, (d, tb))
        else (Inr (take n (drop offset (dn_data d))),
              (if is_performance_countable p then d\<lparr>dn_rd_bytes := dn_rd_bytes d + word_of_nat n\<rparr> else d, tb))))"

definition dense_count_write :: "operation \<Rightarrow> nat \<Rightarrow> dense \<Rightarrow> dense" where
  "dense_count_write p n d =
     (if is_performance_countable p then d\<lparr>dn_wr_bytes := dn_wr_bytes d + word_of_nat n\<rparr> else d)"

definition dense_write :: "u32 \<Rightarrow> u8 list \<Rightarrow> operation \<Rightarrow> (dense_state, sim_error, unit) sm" where
  "dense_write address src p = (\<lambda>(d, tb).
     (let n = length src in
      if out_of_bounds (dn_span d) address n then (Inl (MemError OOBAccess address), (d, tb))
      else let offset = unat (address - lower (dn_span d)) in
        if offset + n > length (dn_data d) then (Inl UndefinedBehaviour, (d, tb))
        else let prior = take n (drop offset (dn_data d));
                 tb' = (if dn_may_trace d then emit_write (dn_trace d) p address prior src tb else tb)
             in (Inr (), (dense_count_write p n (d\<lparr>dn_data := patch (dn_data d) offset src\<rparr>), tb'))))"

definition dense_write_increment ::
  "u32 \<Rightarrow> u8 list \<Rightarrow> operation \<Rightarrow> byte_order \<Rightarrow> (dense_state, sim_error, unit) sm" where
  "dense_write_increment address src p order = (\<lambda>(d, tb).
     (let n = length src in
      if out_of_bounds (dn_span d) address n then (Inl (MemError OOBAccess address), (d, tb))
      else let offset = unat (address - lower (dn_span d)) in
        if offset + n > length (dn_data d) then (Inl UndefinedBehaviour, (d, tb))
        else let prior = take n (drop offset (dn_data d));
                 tb' = (if dn_may_trace d
                        then emit_write_increment (dn_trace d) p address prior src order tb else tb)
             in (Inr (), (dense_count_write p n (d\<lparr>dn_data := patch (dn_data d) offset src\<rparr>), tb'))))"

definition dense_ops :: "dense_state target_ops" where
  "dense_ops = \<lparr>t_span = dense_span, t_read = dense_read, t_write = dense_write\<rparr>"

section \<open>The device as a byte memory\<close>

text \<open>The array is as long as the span; the byte at an address is the array's element at its offset.\<close>

definition dense_ok :: "dense_state \<Rightarrow> bool" where
  "dense_ok = (\<lambda>(d, tb). length (dn_data d) = unat (size_inclusive (dn_span d)))"

definition dense_store :: "dense_state \<Rightarrow> nat \<Rightarrow> u8" where
  "dense_store = (\<lambda>(d, tb) k.
     let l = unat (lower (dn_span d)) in
     if l \<le> k \<and> k - l < length (dn_data d) then dn_data d ! (k - l) else 0)"

lemma make_dense_ok: "dense_ok (make_dense span fill, tb)"
  by (simp add: dense_ok_def make_dense_def)

lemma dense_reset_ok: "dense_ok (d, tb) \<Longrightarrow> dense_ok (dense_reset d, tb)"
  by (simp add: dense_ok_def dense_reset_def dense_clear_def)

lemma within_offset:
  assumes "within i a n" and "length xs = unat (size_inclusive i)"
  shows "unat (a - lower i) = unat a - unat (lower i)" and "unat (lower i) \<le> unat a"
    and "unat a - unat (lower i) + n \<le> length xs"
proof -
  have w: "0 < n" "unat (lower i) \<le> unat a" "unat a + n \<le> unat (upper i) + 1"
    using assms(1) by (simp_all add: within_def)
  then show "unat (lower i) \<le> unat a" by simp
  show "unat (a - lower i) = unat a - unat (lower i)"
    using w by (subst unat_sub) (simp_all add: word_le_nat_alt)
  have "ivalid i" using w by (simp add: ivalid_def word_le_nat_alt)
  then show "unat a - unat (lower i) + n \<le> length xs"
    using w assms(2) by (simp add: size_inclusive_unat)
qed

lemma dense_get_bytes:
  assumes "dense_ok (d, tb)" and "within (dn_span d) a n"
  shows "take n (drop (unat (a - lower (dn_span d))) (dn_data d)) = get_bytes (dense_store (d, tb)) (unat a) n"
proof -
  note w = within_offset[OF assms(2), of "dn_data d"]
  have "length (dn_data d) = unat (size_inclusive (dn_span d))" using assms(1) by (simp add: dense_ok_def)
  note w = w[OF this]
  show ?thesis using w by (intro nth_equalityI) (auto simp: get_bytes_def dense_store_def Let_def)
qed

lemma dense_put_bytes:
  assumes "dense_ok (d, tb)" and "within (dn_span d) a (length src)"
  shows "dense_store (d\<lparr>dn_data := patch (dn_data d) (unat (a - lower (dn_span d))) src\<rparr>, tb') =
         put_bytes (dense_store (d, tb)) (unat a) src"
proof
  fix k
  note w = within_offset[OF assms(2), of "dn_data d"]
  have "length (dn_data d) = unat (size_inclusive (dn_span d))" using assms(1) by (simp add: dense_ok_def)
  note w = w[OF this]
  show "dense_store (d\<lparr>dn_data := patch (dn_data d) (unat (a - lower (dn_span d))) src\<rparr>, tb') k =
        put_bytes (dense_store (d, tb)) (unat a) src k"
    using w by (auto simp: dense_store_def put_bytes_def Let_def nth_patch)
qed

lemma dense_store_cong [simp]:
  "dense_store (d\<lparr>dn_rd_bytes := v\<rparr>, tb) = dense_store (d, tb)"
  "dense_store (d\<lparr>dn_wr_bytes := v\<rparr>, tb) = dense_store (d, tb)"
  by (simp_all add: dense_store_def fun_eq_iff Let_def)

lemma dense_store_tb: "dense_store (d, tb) = dense_store (d, tb')"
  by (simp add: dense_store_def)

lemma dense_read_within:
  assumes "dense_ok s" and "within (dense_span s) a (length dest)"
  shows "\<exists>s'. dense_read a dest p s = (Inr (get_bytes (dense_store s) (unat a) (length dest)), s')
     \<and> dense_ok s' \<and> dense_store s' = dense_store s \<and> dense_span s' = dense_span s \<and> snd s' = snd s"
proof -
  obtain d tb where s: "s = (d, tb)" by (cases s)
  have w: "within (dn_span d) a (length dest)" using assms(2) by (simp add: s dense_span_def)
  have len: "length (dn_data d) = unat (size_inclusive (dn_span d))"
    using assms(1) by (simp add: s dense_ok_def)
  note o = within_offset[OF w len]
  have nu: "\<not> unat (a - lower (dn_span d)) + length dest > length (dn_data d)" using o by simp
  show ?thesis
    using within_in_bounds[OF w] nu dense_get_bytes[OF assms(1)[unfolded s] w] len
    by (simp add: s dense_read_def Let_def dense_ok_def dense_span_def)
qed

lemma dense_write_within:
  assumes "dense_ok s" and "within (dense_span s) a (length src)"
  shows "\<exists>s'. dense_write a src p s = (Inr (), s')
     \<and> dense_ok s' \<and> dense_store s' = put_bytes (dense_store s) (unat a) src \<and> dense_span s' = dense_span s
     \<and> extends (snd s) (snd s')"
proof -
  obtain d tb where s: "s = (d, tb)" by (cases s)
  have w: "within (dn_span d) a (length src)" using assms(2) by (simp add: s dense_span_def)
  have len: "length (dn_data d) = unat (size_inclusive (dn_span d))"
    using assms(1) by (simp add: s dense_ok_def)
  note o = within_offset[OF w len]
  have nu: "\<not> unat (a - lower (dn_span d)) + length src > length (dn_data d)" using o by simp
  define tb' where "tb' = (if dn_may_trace d then emit_write (dn_trace d) p a
      (take (length src) (drop (unat (a - lower (dn_span d))) (dn_data d))) src tb else tb)"
  define d' where "d' = dense_count_write p (length src) (d\<lparr>dn_data := patch (dn_data d) (unat (a - lower (dn_span d))) src\<rparr>)"
  have "dense_write a src p s = (Inr (), (d', tb'))"
    using within_in_bounds[OF w] nu by (simp add: s dense_write_def Let_def tb'_def d'_def)
  moreover have "dense_ok (d', tb')"
    using len nu by (simp add: d'_def dense_ok_def dense_count_write_def)
  moreover have "dense_store (d', tb') = put_bytes (dense_store s) (unat a) src"
    using dense_put_bytes[OF assms(1)[unfolded s] w, of tb'] by (simp add: d'_def dense_count_write_def s)
  moreover have "dense_span (d', tb') = dense_span s"
    by (simp add: d'_def dense_span_def s dense_count_write_def)
  moreover have "extends tb tb'" by (simp add: tb'_def extends_emit_write)
  ultimately show ?thesis by (auto simp: s)
qed

interpretation dn: byte_memory dense_ops dense_ok dense_store
proof
  show "\<exists>s'. t_read dense_ops a dest p s = (Inr (get_bytes (dense_store s) (unat a) (length dest)), s')
     \<and> dense_ok s' \<and> dense_store s' = dense_store s \<and> t_span dense_ops s' = t_span dense_ops s"
    if "dense_ok s" "within (t_span dense_ops s) a (length dest)" for s a dest p
    using dense_read_within[of s a dest p] that by (auto simp: dense_ops_def)
  show "\<exists>s'. t_write dense_ops a src p s = (Inr (), s') \<and> dense_ok s'
     \<and> dense_store s' = put_bytes (dense_store s) (unat a) src \<and> t_span dense_ops s' = t_span dense_ops s"
    if "dense_ok s" "within (t_span dense_ops s) a (length src)" for s a src p
    using dense_write_within[of s a src p] that by (auto simp: dense_ops_def)
qed (auto simp: dense_ops_def dense_read_def dense_write_def dense_span_def)

interpretation dn_traced: traced_memory dense_ops dense_ok dense_store
proof
  show "dense_store (m, tb) = dense_store (m, tb')" for m tb tb'
    by (simp add: dense_store_def)
  show "extends (snd d) (snd (snd (t_read dense_ops a dest p d)))" for d a dest p
    by (auto simp: dense_ops_def dense_read_def Let_def split: prod.split option.split)
  show "extends (snd d) (snd (snd (t_write dense_ops a src p d)))" for d a src p
    by (auto simp: dense_ops_def dense_write_def Let_def extends_emit_write extends_emit_write_filler split: prod.split option.split)
qed (simp_all add: dense_ops_def dense_span_def dense_ok_def)

end
