(* ===== verification/Paged_Pool.thy ===== *)
theory Paged_Pool
  imports Sim_Api
begin

text \<open>
  The lazily allocated pages behind sparse memory and the I/O queues: \<^verbatim>\<open>Page\<close> and
  \<^verbatim>\<open>PagedPool\<close> of \<^verbatim>\<open>ds/alloc/paged.hpp\<close>, at the element type \<^verbatim>\<open>u8\<close>.
  A page of the pool is the list of its bytes.  The pool is shown to implement a flat array of
  \<open>2 ^ 32\<close> bytes.
\<close>

definition SPARSE_PAGE_SIZE :: nat where
  "SPARSE_PAGE_SIZE = 4096"

text \<open>The mask is a \<^verbatim>\<open>u32\<close>, so its complement clears the upper half of a \<^verbatim>\<open>size_t\<close>.\<close>

definition SPARSE_PAGE_MASK :: u32 where
  "SPARSE_PAGE_MASK = 4096 - 1"

definition page_addr :: "u64 \<Rightarrow> u64" where
  "page_addr offset = offset AND ucast (NOT SPARSE_PAGE_MASK)"

definition page_offset :: "u64 \<Rightarrow> nat" where
  "page_offset offset = unat (offset AND ucast SPARSE_PAGE_MASK)"

text \<open>
  Retired pages wait in a stack for reuse.  \<^verbatim>\<open>make_page(true)\<close> overwrites all of a page it takes
  from there, and all pages have the same capacity, so only their number is kept.
\<close>

record paged_pool =
  pp_fill :: u8
  pp_free :: nat
  pp_pages :: "u64 \<Rightarrow> u8 list option"

definition make_pool :: "u8 \<Rightarrow> paged_pool" where
  "make_pool fill = \<lparr>pp_fill = fill, pp_free = 0, pp_pages = (\<lambda>_. None)\<rparr>"

definition page_fill :: "nat \<Rightarrow> nat \<Rightarrow> u8 \<Rightarrow> u8 list \<Rightarrow> u8 list" where
  "page_fill from to fill pg =
     (let a = min from (length pg); b = min to (length pg)
      in patch pg (min a b) (replicate (max a b - min a b) fill))"

text \<open>\<^verbatim>\<open>make_page(true)\<close>: the new page and the pool without the page it may have reused.\<close>

definition make_page :: "paged_pool \<Rightarrow> u8 list \<times> paged_pool" where
  "make_page p = (replicate SPARSE_PAGE_SIZE (pp_fill p), p\<lparr>pp_free := pp_free p - 1\<rparr>)"

text \<open>
  The length of one step: the bytes that remain are counted in 32 bits.  A remainder that is a
  multiple of \<open>2 ^ 32\<close> gives a step of no bytes, and the loop never ends: \<open>None\<close>.
\<close>

definition step_length :: "nat \<Rightarrow> u64 \<Rightarrow> nat" where
  "step_length remaining offset = min (remaining mod 2 ^ 32) (SPARSE_PAGE_SIZE - page_offset offset)"

definition page_bytes :: "paged_pool \<Rightarrow> u64 \<Rightarrow> nat \<Rightarrow> u8 list" where
  "page_bytes p offset len =
     (case pp_pages p (page_addr offset) of
        Some pg \<Rightarrow> take len (drop (page_offset offset) pg)
      | None \<Rightarrow> replicate len (pp_fill p))"

function pool_read :: "paged_pool \<Rightarrow> u64 \<Rightarrow> nat \<Rightarrow> u8 list option" where
  "pool_read p offset n =
     (if n = 0 then Some []
      else let len = step_length n offset in
        if len = 0 then None
        else map_option (\<lambda>rest. page_bytes p offset len @ rest)
               (pool_read p (offset + word_of_nat len) (n - len)))"
  by pat_completeness auto
termination
  by (relation "measure (\<lambda>(p, offset, n). n)") (auto simp: step_length_def min_def)

definition pool_write_page :: "paged_pool \<Rightarrow> u64 \<Rightarrow> u8 list \<Rightarrow> paged_pool" where
  "pool_write_page p offset src =
     (let (pg, p') = (case pp_pages p (page_addr offset) of Some pg \<Rightarrow> (pg, p) | None \<Rightarrow> make_page p)
      in p'\<lparr>pp_pages := (pp_pages p')(page_addr offset \<mapsto> patch pg (page_offset offset) src)\<rparr>)"

function pool_write :: "paged_pool \<Rightarrow> u64 \<Rightarrow> u8 list \<Rightarrow> paged_pool option" where
  "pool_write p offset src =
     (if src = [] then Some p
      else let len = step_length (length src) offset in
        if len = 0 then None
        else pool_write (pool_write_page p offset (take len src)) (offset + word_of_nat len) (drop len src))"
  by pat_completeness auto
termination
  by (relation "measure (\<lambda>(p, offset, src). length src)") (auto simp: step_length_def min_def split: if_splits)

definition pool_clear :: "u8 \<Rightarrow> paged_pool \<Rightarrow> paged_pool" where
  "pool_clear fill p =
     \<lparr>pp_fill = fill, pp_free = pp_free p + card (dom (pp_pages p)), pp_pages = (\<lambda>_. None)\<rparr>"

declare pool_read.simps [simp del] pool_write.simps [simp del]

section \<open>Addresses and pages\<close>

lemma page_offset_mod: "page_offset x = unat x mod 4096"
proof -
  have "x AND ucast SPARSE_PAGE_MASK = take_bit 12 x"
    by (simp add: SPARSE_PAGE_MASK_def take_bit_eq_mask mask_eq_exp_minus_1)
  then show ?thesis by (simp add: page_offset_def take_bit_eq_mod unat_mod)
qed

lemma page_addr_unat: "unat (page_addr x) = 4096 * ((unat x mod 2 ^ 32) div 4096)"
proof -
  have "page_addr x = push_bit 12 (drop_bit 12 (take_bit 32 x))"
  proof (rule bit_word_eqI)
    fix n assume "n < LENGTH(64)"
    have m: "SPARSE_PAGE_MASK = mask 12" by (simp add: SPARSE_PAGE_MASK_def mask_eq_exp_minus_1)
    show "bit (page_addr x) n = bit (push_bit 12 (drop_bit 12 (take_bit 32 x))) n"
      using \<open>n < LENGTH(64)\<close> by (auto simp: page_addr_def m bit_simps)
  qed
  moreover have "unat (take_bit 32 x) = unat x mod 2 ^ 32" by (simp add: take_bit_eq_mod unat_mod)
  ultimately have "unat (page_addr x) = unat (push_bit 12 (drop_bit 12 (take_bit 32 x)))" by simp
  moreover have "unat (drop_bit 12 (take_bit 32 x)) = (unat x mod 2 ^ 32) div 4096"
    using \<open>unat (take_bit 32 x) = _\<close> by (simp add: drop_bit_eq_div unat_div)
  moreover have "unat (push_bit 12 y) = 4096 * unat y" if "unat y < 2 ^ 52" for y :: u64
    using that by (simp add: push_bit_eq_mult unat_word_ariths(2) mult.commute)
  moreover have "(unat x mod 2 ^ 32) div 4096 < 2 ^ 52"
    by (rule le_less_trans[OF div_le_dividend]) (rule less_trans[OF mod_less_divisor], simp_all)
  ultimately show ?thesis by simp
qed

lemma same_page:
  fixes x i :: nat
  assumes "x mod 4096 + i < 4096"
  shows "(x + i) div 4096 = x div 4096" and "(x + i) mod 4096 = x mod 4096 + i"
proof -
  have x: "x + i = (x mod 4096 + i) + 4096 * (x div 4096)" by simp
  show "(x + i) div 4096 = x div 4096" using assms by (subst x, subst div_mult_self2) simp_all
  show "(x + i) mod 4096 = x mod 4096 + i" using assms by (subst x, subst mod_mult_self2) simp_all
qed

lemma page_hit:
  fixes a k n :: nat
  assumes "a mod 4096 + n \<le> 4096"
  shows "(a \<le> k \<and> k < a + n) \<longleftrightarrow>
         (k div 4096 = a div 4096 \<and> a mod 4096 \<le> k mod 4096 \<and> k mod 4096 < a mod 4096 + n)"
    and "k div 4096 = a div 4096 \<Longrightarrow> k mod 4096 - a mod 4096 = k - a"
proof -
  define q r where "q = k div 4096" and "r = k mod 4096"
  define q' r' where "q' = a div 4096" and "r' = a mod 4096"
  have k: "k = 4096 * q + r" "r < 4096" by (simp_all add: q_def r_def)
  have a: "a = 4096 * q' + r'" "r' < 4096" by (simp_all add: q'_def r'_def)
  have n: "r' + n \<le> 4096" using assms by (simp add: r'_def)
  consider "q < q'" | "q = q'" | "q' < q" by linarith
  then have "(a \<le> k \<and> k < a + n) \<longleftrightarrow> (q = q' \<and> r' \<le> r \<and> r < r' + n)"
  proof cases
    case 1
    then have "4096 * q + 4096 \<le> 4096 * q'" by linarith
    then show ?thesis using 1 k a by linarith
  next
    case 3
    then have "4096 * q' + 4096 \<le> 4096 * q" by linarith
    then show ?thesis using 3 k a n by linarith
  qed (use k a in linarith)
  then show "(a \<le> k \<and> k < a + n) \<longleftrightarrow>
         (k div 4096 = a div 4096 \<and> a mod 4096 \<le> k mod 4096 \<and> k mod 4096 < a mod 4096 + n)"
    unfolding q_def q'_def r_def r'_def .
  assume "k div 4096 = a div 4096"
  then have "q = q'" by (simp add: q_def q'_def)
  then show "k mod 4096 - a mod 4096 = k - a"
    unfolding r_def[symmetric] r'_def[symmetric] using k a by linarith
qed

text \<open>The flat array: byte \<open>k\<close> of the pool.\<close>

definition key :: "nat \<Rightarrow> u64" where
  "key k = word_of_nat (4096 * (k div 4096))"

definition pool_byte :: "paged_pool \<Rightarrow> nat \<Rightarrow> u8" where
  "pool_byte p k =
     (if k < 2 ^ 32 then (case pp_pages p (key k) of None \<Rightarrow> pp_fill p | Some pg \<Rightarrow> pg ! (k mod 4096)) else 0)"

definition pool_ok :: "paged_pool \<Rightarrow> bool" where
  "pool_ok p \<longleftrightarrow> (\<forall>a pg. pp_pages p a = Some pg \<longrightarrow> length pg = SPARSE_PAGE_SIZE)"

lemma make_pool_ok [simp]: "pool_ok (make_pool fill)"
  by (simp add: pool_ok_def make_pool_def)

lemma pool_clear_ok [simp]: "pool_ok (pool_clear fill p)"
  by (simp add: pool_ok_def pool_clear_def)

lemma pool_byte_clear: "k < 2 ^ 32 \<Longrightarrow> pool_byte (pool_clear fill p) k = fill"
  by (simp add: pool_byte_def pool_clear_def)

lemma page_addr_key: "unat x < 2 ^ 32 \<Longrightarrow> page_addr x = key (unat x)"
proof -
  assume "unat x < 2 ^ 32"
  then have "unat (page_addr x) = 4096 * (unat x div 4096)" by (simp add: page_addr_unat)
  then have "word_of_nat (unat (page_addr x)) = key (unat x)" by (simp add: key_def)
  then show ?thesis by simp
qed

lemma key_eq_iff: "k < 2 ^ 32 \<Longrightarrow> l < 2 ^ 32 \<Longrightarrow> key k = key l \<longleftrightarrow> k div 4096 = l div 4096"
proof -
  assume kl: "k < 2 ^ 32" "l < 2 ^ 32"
  have u: "unat (key j) = 4096 * (j div 4096)" if "j < 2 ^ 32" for j
  proof -
    have "4096 * (j div 4096) \<le> j" by simp
    moreover have "j < 2 ^ 64" using that by (rule less_trans) simp
    ultimately have "4096 * (j div 4096) < 2 ^ 64" by (rule le_less_trans)
    then show ?thesis unfolding key_def by (subst unat_of_nat) simp
  qed
  show ?thesis by (simp add: word_unat_eq_iff u[OF kl(1)] u[OF kl(2)])
qed

lemma page_bytes_store:
  assumes "pool_ok p" and "unat off + len \<le> 2 ^ 32" and "page_offset off + len \<le> 4096"
  shows "page_bytes p off len = get_bytes (pool_byte p) (unat off) len"
proof (cases "len = 0")
  case False
  then have off: "unat off < 2 ^ 32" using assms(2) by simp
  have same: "key (unat off + i) = page_addr off \<and> (unat off + i) mod 4096 = page_offset off + i" if "i < len" for i
  proof -
    have "unat off mod 4096 + i < 4096" using assms(3) that by (simp add: page_offset_mod)
    note sp = same_page[OF this]
    have "unat off + i < 2 ^ 32" using that assms(2) by linarith
    then show ?thesis using sp off by (simp add: page_addr_key key_eq_iff page_offset_mod)
  qed
  show ?thesis
  proof (cases "pp_pages p (page_addr off)")
    case None
    then show ?thesis using assms(2) same
      by (intro nth_equalityI) (auto simp: page_bytes_def get_bytes_def pool_byte_def)
  next
    case (Some pg)
    then have "length pg = 4096" using assms(1) by (simp add: pool_ok_def SPARSE_PAGE_SIZE_def)
    then show ?thesis using Some assms(2,3) same
      by (intro nth_equalityI) (auto simp: page_bytes_def get_bytes_def pool_byte_def)
  qed
qed (simp add: page_bytes_def get_bytes_def split: option.splits)

lemma make_page_simps [simp]:
  "fst (make_page p) = replicate SPARSE_PAGE_SIZE (pp_fill p)"
  "pp_pages (snd (make_page p)) = pp_pages p" "pp_fill (snd (make_page p)) = pp_fill p"
  by (simp_all add: make_page_def)

lemma pool_write_page_store:
  assumes "pool_ok p" and "unat off + length src \<le> 2 ^ 32" and "page_offset off + length src \<le> 4096"
    and "src \<noteq> []"
  shows "pool_byte (pool_write_page p off src) = put_bytes (pool_byte p) (unat off) src"
    and "pool_ok (pool_write_page p off src)"
proof -
  define pg where "pg = (case pp_pages p (page_addr off) of Some pg \<Rightarrow> pg | None \<Rightarrow> replicate 4096 (pp_fill p))"
  have len: "length pg = 4096"
    using assms(1) by (auto simp: pg_def pool_ok_def SPARSE_PAGE_SIZE_def split: option.splits)
  have res: "pp_pages (pool_write_page p off src) = (pp_pages p)(page_addr off \<mapsto> patch pg (page_offset off) src)"
    "pp_fill (pool_write_page p off src) = pp_fill p"
    by (auto simp: pool_write_page_def pg_def make_page_def SPARSE_PAGE_SIZE_def split: option.splits)
  show "pool_ok (pool_write_page p off src)"
    using assms(1,3) len by (auto simp: pool_ok_def res SPARSE_PAGE_SIZE_def)
  have off: "unat off < 2 ^ 32" using assms(2,4) by (cases src) auto
  show "pool_byte (pool_write_page p off src) = put_bytes (pool_byte p) (unat off) src"
  proof
    fix k
    show "pool_byte (pool_write_page p off src) k = put_bytes (pool_byte p) (unat off) src k"
    proof (cases "k < 2 ^ 32")
      case False
      then show ?thesis using assms(2) by (simp add: pool_byte_def put_bytes_def)
    next
      case k: True
      have page: "key k = page_addr off \<longleftrightarrow> k div 4096 = unat off div 4096"
        using k off by (simp add: page_addr_key key_eq_iff)
      have pgk: "key k = page_addr off \<Longrightarrow> pg ! (k mod 4096) = pool_byte p k"
        using k by (auto simp: pg_def pool_byte_def split: option.splits)
      have hit: "(unat off \<le> k \<and> k < unat off + length src) \<longleftrightarrow>
          (key k = page_addr off \<and> page_offset off \<le> k mod 4096 \<and> k mod 4096 < page_offset off + length src)"
        unfolding page page_offset_mod
        using page_hit(1)[OF assms(3)[unfolded page_offset_mod], of k] by simp
      have diff: "key k = page_addr off \<Longrightarrow> k mod 4096 - page_offset off = k - unat off"
        unfolding page page_offset_mod
        using page_hit(2)[OF assms(3)[unfolded page_offset_mod], of k] by simp
      show ?thesis
      proof (cases "key k = page_addr off")
        case True
        then show ?thesis using k hit diff pgk len assms(3)
          by (auto simp: pool_byte_def put_bytes_def res nth_patch)
      next
        case False
        then show ?thesis using k hit by (auto simp: pool_byte_def put_bytes_def res split: option.splits)
      qed
    qed
  qed
qed


section \<open>The loops\<close>

lemma step_length_bounds:
  assumes "0 < n" and "n < 2 ^ 32" and "unat off + n \<le> 2 ^ 32"
  shows "0 < step_length n off" and "step_length n off \<le> n"
    and "page_offset off + step_length n off \<le> 4096"
    and "unat (off + word_of_nat (step_length n off)) = unat off + step_length n off"
proof -
  have po: "page_offset off < 4096" by (simp add: page_offset_mod)
  show "0 < step_length n off" and le: "step_length n off \<le> n"
    and "page_offset off + step_length n off \<le> 4096"
    using assms po by (auto simp: step_length_def SPARSE_PAGE_SIZE_def)
  have "unat off + step_length n off < 2 ^ 64" using le assms(3) by simp
  then show "unat (off + word_of_nat (step_length n off)) = unat off + step_length n off"
    by (simp add: unat_word_ariths(1) unat_of_nat)
qed

lemma pool_read_store:
  "pool_ok p \<Longrightarrow> n < 2 ^ 32 \<Longrightarrow> unat off + n \<le> 2 ^ 32 \<Longrightarrow>
   pool_read p off n = Some (get_bytes (pool_byte p) (unat off) n)"
proof (induction p off n rule: pool_read.induct)
  case (1 p off n)
  show ?case
  proof (cases "n = 0")
    case True
    then show ?thesis by (subst pool_read.simps) (simp add: get_bytes_def)
  next
    case False
    let ?len = "step_length n off"
    note b = step_length_bounds[of n off] False 1(3,4)
    then have "0 < ?len" "?len \<le> n" "page_offset off + ?len \<le> 4096"
      "unat (off + word_of_nat ?len) = unat off + ?len" by simp_all
    note b = this
    have rest: "pool_read p (off + word_of_nat ?len) (n - ?len) =
        Some (get_bytes (pool_byte p) (unat off + ?len) (n - ?len))"
      using 1(1)[OF False refl] 1(2-4) b by simp
    have head: "page_bytes p off ?len = get_bytes (pool_byte p) (unat off) ?len"
      using 1(2,4) b by (intro page_bytes_store) simp_all
    show ?thesis using False b
      by (simp add: pool_read.simps[of p off n] Let_def rest head get_bytes_append)
  qed
qed

lemma pool_write_store:
  "pool_ok p \<Longrightarrow> length src < 2 ^ 32 \<Longrightarrow> unat off + length src \<le> 2 ^ 32 \<Longrightarrow>
   \<exists>p'. pool_write p off src = Some p' \<and> pool_ok p'
      \<and> pool_byte p' = put_bytes (pool_byte p) (unat off) src"
proof (induction p off src rule: pool_write.induct)
  case (1 p off src)
  show ?case
  proof (cases "src = []")
    case True
    then show ?thesis using 1(2) by (subst pool_write.simps) simp
  next
    case False
    let ?len = "step_length (length src) off"
    let ?p = "pool_write_page p off (take ?len src)"
    have "0 < ?len" "?len \<le> length src" "page_offset off + ?len \<le> 4096"
      "unat (off + word_of_nat ?len) = unat off + ?len"
      using step_length_bounds[of "length src" off] False 1(3,4) by simp_all
    note b = this
    have tk: "length (take ?len src) = ?len" using b by simp
    have ne: "take ?len src \<noteq> []" using b False by simp
    note page = pool_write_page_store[OF 1(2) _ _ ne, of off, unfolded tk]
    have ok: "pool_ok ?p" and st: "pool_byte ?p = put_bytes (pool_byte p) (unat off) (take ?len src)"
      using page b 1(4) by simp_all
    obtain p' where p': "pool_write ?p (off + word_of_nat ?len) (drop ?len src) = Some p'" "pool_ok p'"
      "pool_byte p' = put_bytes (pool_byte ?p) (unat off + ?len) (drop ?len src)"
      using 1(1)[OF False refl _ ok] le_less_trans[OF diff_le_self 1(3)] 1(4) b by auto
    have "pool_byte p' = put_bytes (pool_byte p) (unat off) src"
      using put_bytes_append[of "pool_byte p" "unat off" "take ?len src" "drop ?len src"]
      unfolding p'(3) st tk by simp
    then show ?thesis using False b p'(1,2) by (simp add: pool_write.simps[of p off src] Let_def)
  qed
qed

section \<open>Properties\<close>

text \<open>
  Property C17.  The page pool is a flat array.  Writing any run of bytes below \<open>2 ^ 32\<close>, across
  however many pages, and then reading any run gives what an array of \<open>2 ^ 32\<close> bytes gives; both
  loops end, and bytes never written read as the fill value given at construction or by the last clear.
\<close>

theorem paged_pool_is_array:
  assumes "pool_ok p" and "length src < 2 ^ 32" and "unat a + length src \<le> 2 ^ 32"
    and "n < 2 ^ 32" and "unat b + n \<le> 2 ^ 32"
  shows "\<exists>p'. pool_write p a src = Some p' \<and> pool_ok p'
     \<and> pool_read p' b n = Some (get_bytes (put_bytes (pool_byte p) (unat a) src) (unat b) n)
     \<and> pool_read (pool_clear f p') b n = Some (replicate n f)"
proof -
  obtain p' where p': "pool_write p a src = Some p'" "pool_ok p'"
    "pool_byte p' = put_bytes (pool_byte p) (unat a) src"
    using pool_write_store[OF assms(1-3)] by blast
  have "get_bytes (pool_byte (pool_clear f p')) (unat b) n = replicate n f"
    using assms(5) by (intro nth_equalityI) (auto simp: get_bytes_def pool_byte_clear)
  then show ?thesis
    using p' pool_read_store[OF p'(2) assms(4,5)] pool_read_store[OF pool_clear_ok assms(4,5)] by simp
qed

lemma paged_pool_is_array_witness:
  "\<exists>p'. pool_write (make_pool 7) 4095 [1, 2] = Some p' \<and> pool_read p' 4094 4 = Some [7, 1, 2, 7]"
proof -
  have u: "[0..<4] = [0, 1, 2, 3 :: nat]" by code_simp
  have "get_bytes (put_bytes (pool_byte (make_pool 7)) 4095 [1, 2]) 4094 4 = [7, 1, 2, 7]"
    by (simp add: get_bytes_def u put_bytes_def pool_byte_def make_pool_def)
  then show ?thesis
    using paged_pool_is_array[of "make_pool 7" "[1, 2]" 4095 4 4094 0] by auto
qed

end
