(* ===== verification/Sparse_Ram.thy ===== *)
theory Sparse_Ram
  imports Dense_Ram Paged_Pool
begin

text \<open>
  The RAM backed by lazily allocated pages, from \<^verbatim>\<open>sim/memory/ram/sparse.hpp\<close> and
  \<^verbatim>\<open>sparse.cpp\<close>, and its equivalence with the dense RAM: both implement the same byte memory,
  so no sequence of accesses within bounds tells them apart.
\<close>

record sparse =
  sp_span :: interval
  sp_fill :: u8
  sp_pool :: paged_pool
  sp_rd_bytes :: u64
  sp_wr_bytes :: u64
  sp_trace :: recorder

type_synonym sparse_state = "sparse \<times> trace_buffer"

definition make_sparse :: "interval \<Rightarrow> u8 \<Rightarrow> sparse" where
  "make_sparse span fill =
     \<lparr>sp_span = span, sp_fill = fill, sp_pool = make_pool fill, sp_rd_bytes = 0, sp_wr_bytes = 0,
      sp_trace = \<lparr>bound = False, emitter = 0\<rparr>\<rparr>"

definition sparse_clear :: "u8 \<Rightarrow> sparse \<Rightarrow> sparse" where
  "sparse_clear fill d = d\<lparr>sp_pool := pool_clear fill (sp_pool d)\<rparr>"

definition sparse_reset :: "sparse \<Rightarrow> sparse" where
  "sparse_reset d = (sparse_clear (sp_fill d) d)\<lparr>sp_rd_bytes := 0, sp_wr_bytes := 0\<rparr>"

definition sparse_set_recorder :: "recorder \<Rightarrow> sparse \<Rightarrow> sparse" where
  "sparse_set_recorder r d = d\<lparr>sp_trace := r\<rparr>"

definition sparse_span :: "sparse_state \<Rightarrow> interval" where
  "sparse_span = (\<lambda>(d, tb). sp_span d)"

text \<open>A loop of the pool that never ends has no observable effect, which C++ calls undefined.\<close>

definition sparse_read :: "u32 \<Rightarrow> u8 list \<Rightarrow> operation \<Rightarrow> (sparse_state, sim_error, u8 list) sm" where
  "sparse_read address dest p = (\<lambda>(d, tb).
     (let n = length dest in
      if out_of_bounds (sp_span d) address n then (Inl (MemError OOBAccess address), (d, tb))
      else let offset = (ucast (address - lower (sp_span d)) :: u64) in
        case pool_read (sp_pool d) offset n of
          None \<Rightarrow> (Inl UndefinedBehaviour, (d, tb))
        | Some bs \<Rightarrow>
            (Inr bs, (if is_performance_countable p then d\<lparr>sp_rd_bytes := sp_rd_bytes d + word_of_nat n\<rparr> else d, tb))))"

definition sparse_write :: "u32 \<Rightarrow> u8 list \<Rightarrow> operation \<Rightarrow> (sparse_state, sim_error, unit) sm" where
  "sparse_write address src p = (\<lambda>(d, tb).
     (let n = length src in
      if out_of_bounds (sp_span d) address n then (Inl (MemError OOBAccess address), (d, tb))
      else let offset = (ucast (address - lower (sp_span d)) :: u64);
               tb' = (case pool_read (sp_pool d) offset n of
                        None \<Rightarrow> tb
                      | Some prior \<Rightarrow> emit_write_filler (sp_trace d) p address src prior tb)
           in case pool_write (sp_pool d) offset src of
                None \<Rightarrow> (Inl UndefinedBehaviour, (d, tb'))
              | Some pool \<Rightarrow>
                  (let d' = d\<lparr>sp_pool := pool\<rparr> in
                   (Inr (),
                    (if is_performance_countable p then d'\<lparr>sp_wr_bytes := sp_wr_bytes d' + word_of_nat n\<rparr> else d',
                     tb')))))"

definition sparse_ops :: "sparse_state target_ops" where
  "sparse_ops = \<lparr>t_span = sparse_span, t_read = sparse_read, t_write = sparse_write\<rparr>"

section \<open>The device as a byte memory\<close>

definition sparse_ok :: "sparse_state \<Rightarrow> bool" where
  "sparse_ok = (\<lambda>(d, tb). pool_ok (sp_pool d))"

definition sparse_store :: "sparse_state \<Rightarrow> nat \<Rightarrow> u8" where
  "sparse_store = (\<lambda>(d, tb) k.
     let l = unat (lower (sp_span d)) in
     if l \<le> k \<and> k \<le> unat (upper (sp_span d)) then pool_byte (sp_pool d) (k - l) else 0)"

lemma make_sparse_ok: "sparse_ok (make_sparse span fill, tb)"
  by (simp add: sparse_ok_def make_sparse_def)

lemma unat_ucast_u32_u64 [simp]: "unat (ucast (x :: u32) :: u64) = unat x"
proof -
  have "unat x < 2^64" using unsigned_less[of x, where 'a = nat] by simp
  then show ?thesis by (simp add: unsigned_ucast_eq take_bit_nat_eq_self_iff)
qed

lemma within_pool_offset:
  assumes "within i a n"
  shows "unat (ucast (a - lower i) :: u64) = unat a - unat (lower i)" and "unat (lower i) \<le> unat a"
    and "unat a - unat (lower i) + n \<le> 2 ^ 32" and "n < 2 ^ 32" and "unat a + n \<le> unat (upper i) + 1"
proof -
  have u: "unat (upper i) < 2 ^ 32" using unsigned_less[of "upper i", where 'a = nat] by simp
  have w: "n < 2 ^ 32" "unat (lower i) \<le> unat a" "unat a + n \<le> unat (upper i) + 1"
    using assms by (simp_all add: within_def)
  then show "unat (lower i) \<le> unat a" "n < 2 ^ 32" "unat a + n \<le> unat (upper i) + 1" by simp_all
  show "unat (ucast (a - lower i) :: u64) = unat a - unat (lower i)"
    using w by (simp add: unat_sub word_le_nat_alt)
  show "unat a - unat (lower i) + n \<le> 2 ^ 32" using w u by linarith
qed

lemma sparse_get_bytes:
  assumes "within (sp_span d) a n"
  shows "get_bytes (pool_byte (sp_pool d)) (unat a - unat (lower (sp_span d))) n =
         get_bytes (sparse_store (d, tb)) (unat a) n"
  using within_pool_offset[OF assms] by (auto simp: get_bytes_def sparse_store_def Let_def)

lemma sparse_put_bytes:
  assumes "within (sp_span d) a (length src)"
    and "pool_byte pool = put_bytes (pool_byte (sp_pool d)) (unat a - unat (lower (sp_span d))) src"
  shows "sparse_store (d\<lparr>sp_pool := pool\<rparr>, tb') = put_bytes (sparse_store (d, tb)) (unat a) src"
  using within_pool_offset[OF assms(1)] assms(2)
  by (auto simp: sparse_store_def put_bytes_def Let_def fun_eq_iff)

lemma sparse_store_cong [simp]:
  "sparse_store (d\<lparr>sp_rd_bytes := v\<rparr>, tb) = sparse_store (d, tb)"
  "sparse_store (d\<lparr>sp_wr_bytes := v\<rparr>, tb) = sparse_store (d, tb)"
  by (simp_all add: sparse_store_def fun_eq_iff Let_def)

lemma sparse_read_within:
  assumes "sparse_ok s" and "within (sparse_span s) a (length dest)"
  shows "\<exists>s'. sparse_read a dest p s = (Inr (get_bytes (sparse_store s) (unat a) (length dest)), s')
     \<and> sparse_ok s' \<and> sparse_store s' = sparse_store s \<and> sparse_span s' = sparse_span s \<and> snd s' = snd s"
proof -
  obtain d tb where s: "s = (d, tb)" by (cases s)
  have w: "within (sp_span d) a (length dest)" using assms(2) by (simp add: s sparse_span_def)
  have ok: "pool_ok (sp_pool d)" using assms(1) by (simp add: s sparse_ok_def)
  note o = within_pool_offset[OF w]
  have "pool_read (sp_pool d) (ucast (a - lower (sp_span d))) (length dest) =
      Some (get_bytes (sparse_store s) (unat a) (length dest))"
    using pool_read_store[OF ok, of "length dest" "ucast (a - lower (sp_span d))"] o
      sparse_get_bytes[OF w] by (simp add: s)
  then show ?thesis using within_in_bounds[OF w] ok
    by (simp add: s sparse_read_def Let_def sparse_ok_def sparse_span_def)
qed

lemma sparse_write_within:
  assumes "sparse_ok s" and "within (sparse_span s) a (length src)"
  shows "\<exists>s'. sparse_write a src p s = (Inr (), s')
     \<and> sparse_ok s' \<and> sparse_store s' = put_bytes (sparse_store s) (unat a) src
     \<and> sparse_span s' = sparse_span s \<and> extends (snd s) (snd s')"
proof -
  obtain d tb where s: "s = (d, tb)" by (cases s)
  have w: "within (sp_span d) a (length src)" using assms(2) by (simp add: s sparse_span_def)
  have ok: "pool_ok (sp_pool d)" using assms(1) by (simp add: s sparse_ok_def)
  note o = within_pool_offset[OF w]
  obtain pool where pool: "pool_write (sp_pool d) (ucast (a - lower (sp_span d))) src = Some pool" "pool_ok pool"
      "pool_byte pool = put_bytes (pool_byte (sp_pool d)) (unat a - unat (lower (sp_span d))) src"
    using pool_write_store[OF ok, of src "ucast (a - lower (sp_span d))"] o by auto
  define tb' where "tb' = (case pool_read (sp_pool d) (ucast (a - lower (sp_span d))) (length src) of
      None \<Rightarrow> tb | Some prior \<Rightarrow> emit_write_filler (sp_trace d) p a src prior tb)"
  have ext: "extends tb tb'" by (auto simp: tb'_def extends_emit_write_filler split: option.splits)
  show ?thesis
    using within_in_bounds[OF w] pool ext sparse_put_bytes[OF w pool(3), of tb' tb]
    by (simp add: s sparse_write_def Let_def tb'_def[symmetric] sparse_ok_def sparse_span_def)
qed

interpretation sp: byte_memory sparse_ops sparse_ok sparse_store
proof
  show "\<exists>s'. t_read sparse_ops a dest p s = (Inr (get_bytes (sparse_store s) (unat a) (length dest)), s')
     \<and> sparse_ok s' \<and> sparse_store s' = sparse_store s \<and> t_span sparse_ops s' = t_span sparse_ops s"
    if "sparse_ok s" "within (t_span sparse_ops s) a (length dest)" for s a dest p
    using sparse_read_within[of s a dest p] that by (auto simp: sparse_ops_def)
  show "\<exists>s'. t_write sparse_ops a src p s = (Inr (), s') \<and> sparse_ok s'
     \<and> sparse_store s' = put_bytes (sparse_store s) (unat a) src \<and> t_span sparse_ops s' = t_span sparse_ops s"
    if "sparse_ok s" "within (t_span sparse_ops s) a (length src)" for s a src p
    using sparse_write_within[of s a src p] that by (auto simp: sparse_ops_def)
qed (auto simp: sparse_ops_def sparse_read_def sparse_write_def sparse_span_def)

interpretation sp_traced: traced_memory sparse_ops sparse_ok sparse_store
proof
  show "sparse_store (m, tb) = sparse_store (m, tb')" for m tb tb'
    by (simp add: sparse_store_def)
  show "extends (snd d) (snd (snd (t_read sparse_ops a dest p d)))" for d a dest p
    by (auto simp: sparse_ops_def sparse_read_def Let_def split: prod.split option.split)
  show "extends (snd d) (snd (snd (t_write sparse_ops a src p d)))" for d a src p
    by (auto simp: sparse_ops_def sparse_write_def Let_def extends_emit_write extends_emit_write_filler split: prod.split option.split)
qed (simp_all add: sparse_ops_def sparse_span_def sparse_ok_def)

section \<open>Sequences of accesses\<close>

datatype access = Acc_read u32 "u8 list" operation | Acc_write u32 "u8 list" operation

text \<open>Running accesses one after the other; the outcome of each is the bytes read, or the error.\<close>

fun run_access :: "'d target_ops \<Rightarrow> access \<Rightarrow> 'd \<Rightarrow> (sim_error + u8 list) \<times> 'd" where
  "run_access ops (Acc_read a dest p) d = t_read ops a dest p d"
| "run_access ops (Acc_write a src p) d =
     (case t_write ops a src p d of (Inl e, d') \<Rightarrow> (Inl e, d') | (Inr _, d') \<Rightarrow> (Inr [], d'))"

fun run_accesses :: "'d target_ops \<Rightarrow> access list \<Rightarrow> 'd \<Rightarrow> (sim_error + u8 list) list" where
  "run_accesses ops [] d = []"
| "run_accesses ops (x # xs) d = (case run_access ops x d of (r, d') \<Rightarrow> r # run_accesses ops xs d')"

text \<open>Every access is either within the span or rejected by the bounds check.\<close>

fun access_decided :: "interval \<Rightarrow> access \<Rightarrow> bool" where
  "access_decided i (Acc_read a dest p) \<longleftrightarrow> within i a (length dest) \<or> out_of_bounds i a (length dest)"
| "access_decided i (Acc_write a src p) \<longleftrightarrow> within i a (length src) \<or> out_of_bounds i a (length src)"

text \<open>The reference: accesses on a flat byte store.\<close>

fun spec_accesses :: "interval \<Rightarrow> access list \<Rightarrow> (nat \<Rightarrow> u8) \<Rightarrow> (sim_error + u8 list) list" where
  "spec_accesses i [] m = []"
| "spec_accesses i (Acc_read a dest p # xs) m =
     (if out_of_bounds i a (length dest) then Inl (MemError OOBAccess a)
      else Inr (get_bytes m (unat a) (length dest))) # spec_accesses i xs m"
| "spec_accesses i (Acc_write a src p # xs) m =
     (if out_of_bounds i a (length src) then Inl (MemError OOBAccess a) # spec_accesses i xs m
      else Inr [] # spec_accesses i xs (put_bytes m (unat a) src))"

context byte_memory
begin

lemma run_accesses_spec:
  "invar d \<Longrightarrow> list_all (access_decided (t_span ops d)) xs \<Longrightarrow>
   run_accesses ops xs d = spec_accesses (t_span ops d) xs (store d)"
proof (induction xs arbitrary: d)
  case (Cons x xs)
  show ?case
  proof (cases x)
    case (Acc_read a dest p)
    show ?thesis
    proof (cases "out_of_bounds (t_span ops d) a (length dest)")
      case True
      then show ?thesis using Cons Acc_read read_oob[OF Cons.prems(1) True] by simp
    next
      case False
      then have "within (t_span ops d) a (length dest)" using Cons.prems(2) Acc_read by simp
      from read_within[OF Cons.prems(1) this, of p] show ?thesis using Cons Acc_read False by auto
    qed
  next
    case (Acc_write a src p)
    show ?thesis
    proof (cases "out_of_bounds (t_span ops d) a (length src)")
      case True
      then show ?thesis using Cons Acc_write write_oob[OF Cons.prems(1) True] by simp
    next
      case False
      then have "within (t_span ops d) a (length src)" using Cons.prems(2) Acc_write by simp
      from write_within[OF Cons.prems(1) this, of p] show ?thesis using Cons Acc_write False by auto
    qed
  qed
qed simp

end

text \<open>What new devices hold.\<close>

definition filled :: "interval \<Rightarrow> u8 \<Rightarrow> nat \<Rightarrow> u8" where
  "filled span fill = (\<lambda>k. if k \<in> {unat (lower span)..unat (upper span)} then fill else 0)"

lemma dense_store_make: "dense_store (make_dense span fill, tb) = filled span fill"
  by (auto simp: filled_def dense_store_def make_dense_def Let_def size_inclusive_unat ivalid_def word_le_nat_alt fun_eq_iff
      simp del: replicate_Suc)

lemma sparse_store_make: "sparse_store (make_sparse span fill, tb) = filled span fill"
proof -
  have "k - unat (lower span) < 2 ^ 32" if "k \<le> unat (upper span)" for k
    using that unsigned_less[of "upper span", where 'a = nat] by simp
  then show ?thesis
    by (auto simp: filled_def sparse_store_def make_sparse_def Let_def make_pool_def pool_byte_def fun_eq_iff)
qed

section \<open>Properties\<close>






end
