(* ===== verification/Fifo_Register.thy ===== *)
theory Fifo_Register
  imports Paged_Pool Trace_Log
begin

text \<open>
  The memory-mapped input and output register, from \<^verbatim>\<open>sim/memory/io/fifo.hpp\<close> and
  \<^verbatim>\<open>fifo.cpp\<close>: an unbounded queue of bytes over a page pool, the read position in the input
  queue, and the register that consumes one and appends to the other.  The queue is shown to be a list.
\<close>

section \<open>The queue\<close>

record fifo =
  ff_max_index :: u32
  ff_data :: paged_pool

definition make_fifo :: fifo where
  "make_fifo = \<lparr>ff_max_index = 0, ff_data = make_pool 0\<rparr>"

text \<open>A pool access of a single byte always ends; the other cases are never taken.\<close>

definition fifo_at :: "u32 \<Rightarrow> fifo \<Rightarrow> u8" where
  "fifo_at index f = (case pool_read (ff_data f) (ucast index) 1 of Some (b # _) \<Rightarrow> b | _ \<Rightarrow> 0)"

definition fifo_push :: "u8 \<Rightarrow> fifo \<Rightarrow> fifo" where
  "fifo_push v f =
     (case pool_write (ff_data f) (ucast (ff_max_index f)) [v] of
        Some pool \<Rightarrow> f\<lparr>ff_data := pool, ff_max_index := ff_max_index f + 1\<rparr>
      | None \<Rightarrow> f)"

definition fifo_pop_back :: "fifo \<Rightarrow> u8 \<times> fifo" where
  "fifo_pop_back f =
     (if ff_max_index f = 0 then (0, f)
      else let f' = f\<lparr>ff_max_index := ff_max_index f - 1\<rparr> in (fifo_at (ff_max_index f') f', f'))"

definition fifo_clear :: "fifo \<Rightarrow> fifo" where
  "fifo_clear f = \<lparr>ff_max_index = 0, ff_data = pool_clear 0 (ff_data f)\<rparr>"

definition fifo_size :: "fifo \<Rightarrow> u64" where
  "fifo_size f = ucast (ff_max_index f)"

definition fifo_empty :: "fifo \<Rightarrow> bool" where
  "fifo_empty f \<longleftrightarrow> fifo_size f = 0"

definition fifo_latest_or :: "u8 \<Rightarrow> fifo \<Rightarrow> u8" where
  "fifo_latest_or def f = (if fifo_empty f then def else fifo_at (ff_max_index f - 1) f)"

text \<open>An iterator is the index it holds, into the queue that is passed along.\<close>

definition it_begin :: u64 where
  "it_begin = 0"

definition it_end :: "fifo \<Rightarrow> u64" where
  "it_end f = fifo_size f"

definition it_next :: "u64 \<Rightarrow> u64" where
  "it_next i = i + 1"

definition it_prev :: "u64 \<Rightarrow> u64" where
  "it_prev i = (if i \<noteq> 0 then i - 1 else i)"

definition it_at_end :: "fifo \<Rightarrow> u64 \<Rightarrow> bool" where
  "it_at_end f i \<longleftrightarrow> i \<ge> fifo_size f"

definition it_deref :: "fifo \<Rightarrow> u64 \<Rightarrow> u8" where
  "it_deref f i = fifo_at (ucast i) f"

definition it_value_or :: "fifo \<Rightarrow> u64 \<Rightarrow> u8 \<Rightarrow> u8" where
  "it_value_or f i def = (if it_at_end f i then def else fifo_at (ucast i) f)"

section \<open>The register\<close>

text \<open>The direction is a set of two flags.\<close>

record fifo_register =
  fr_span :: interval
  fr_fill :: u8
  fr_is_input :: bool
  fr_is_output :: bool
  fr_fail_policy :: fail_policy
  fr_input :: fifo
  fr_output :: fifo
  fr_input_it :: u64
  fr_trace :: recorder

type_synonym fifo_state = "fifo_register \<times> trace_buffer"

text \<open>The constructor refuses a span of more than one address.\<close>

definition make_fifo_register :: "interval \<Rightarrow> u8 \<Rightarrow> bool \<Rightarrow> bool \<Rightarrow> fail_policy \<Rightarrow> sim_error + fifo_register" where
  "make_fifo_register span fill inp outp policy =
     (if lower span \<noteq> upper span
      then Inl (LogicError ''Memory-Mapped Reg must only span single byte.'')
      else Inr \<lparr>fr_span = span, fr_fill = fill, fr_is_input = inp, fr_is_output = outp,
                fr_fail_policy = policy, fr_input = make_fifo, fr_output = make_fifo,
                fr_input_it = it_begin, fr_trace = \<lparr>bound = False, emitter = 0\<rparr>\<rparr>)"

definition rewind_input :: "fifo_register \<Rightarrow> u8 \<times> fifo_register" where
  "rewind_input r =
     (let r' = r\<lparr>fr_input_it := it_prev (fr_input_it r)\<rparr>
      in (it_value_or (fr_input r') (fr_input_it r') (fr_fill r'), r'))"

definition advance_input :: "u8 \<Rightarrow> fifo_register \<Rightarrow> fifo_register" where
  "advance_input byte r =
     (let r' = (if it_at_end (fr_input r) (fr_input_it r) then r\<lparr>fr_input := fifo_push byte (fr_input r)\<rparr> else r)
      in r'\<lparr>fr_input_it := it_next (fr_input_it r')\<rparr>)"

definition fifo_register_clear :: "fifo_register \<Rightarrow> fifo_register" where
  "fifo_register_clear r =
     r\<lparr>fr_input := fifo_clear (fr_input r), fr_output := fifo_clear (fr_output r), fr_input_it := it_begin\<rparr>"

definition fifo_register_reset :: "fifo_register \<Rightarrow> fifo_register" where
  "fifo_register_reset r = fifo_register_clear r"

definition fifo_register_dump :: "u8 list \<Rightarrow> fifo_register \<Rightarrow> sim_error + u8 list" where
  "fifo_register_dump dest r =
     (if length dest = 0 then Inl (LogicError ''dump requires non-0 size'')
      else let v = (if fr_is_output r then fifo_latest_or (fr_fill r) (fr_output r)
                    else if fr_is_input r then it_value_or (fr_input r) (fr_input_it r) (fr_fill r)
                    else fr_fill r)
           in Inr (patch dest 0 [v]))"

definition touches_queue :: "operation \<Rightarrow> bool" where
  "touches_queue p \<longleftrightarrow> \<not> (op_type p = Application \<or> op_type p = BufferInternal)"

definition fifo_span :: "fifo_state \<Rightarrow> interval" where
  "fifo_span = (\<lambda>(r, tb). fr_span r)"

text \<open>The destination receives at most one byte; copying into an empty one copies nothing.\<close>

definition put_first :: "u8 \<Rightarrow> u8 list \<Rightarrow> u8 list" where
  "put_first v dest = patch dest 0 (take (min (length dest) 1) [v])"

definition fifo_read :: "u32 \<Rightarrow> u8 list \<Rightarrow> operation \<Rightarrow> (fifo_state, sim_error, u8 list) sm" where
  "fifo_read address dest p = (\<lambda>(r, tb).
     (if out_of_bounds (fr_span r) address (length dest) then (Inl (MemError OOBAccess address), (r, tb))
      else let advances_input = touches_queue p;
               at_end = it_at_end (fr_input r) (fr_input_it r)
      in if fr_is_input r then
           (if advances_input \<and> at_end \<and> fr_fail_policy r = RaiseError
            then (Inl (MemError NeedsMMI address), (r, tb))
            else let src = (if advances_input \<and> at_end then fr_fill r
                            else it_value_or (fr_input r) (fr_input_it r) (fr_fill r))
                 in if advances_input
                    then (Inr (put_first src dest),
                          (if at_end then r else r\<lparr>fr_input_it := it_next (fr_input_it r)\<rparr>,
                           emit_mm_read (fr_trace r) p address src tb))
                    else (Inr (put_first src dest), (r, tb)))
         else let src = (if fr_is_output r then fifo_latest_or (fr_fill r) (fr_output r) else fr_fill r)
              in (Inr (put_first src dest), (r, tb))))"

definition fifo_write :: "u32 \<Rightarrow> u8 list \<Rightarrow> operation \<Rightarrow> (fifo_state, sim_error, unit) sm" where
  "fifo_write address src p = (\<lambda>(r, tb).
     (if out_of_bounds (fr_span r) address (length src) then (Inl (MemError OOBAccess address), (r, tb))
      else if touches_queue p \<and> fr_is_output r then
        (case src of
           [] \<Rightarrow> (Inl UndefinedBehaviour, (r, tb))
         | b # _ \<Rightarrow> (Inr (), (r\<lparr>fr_output := fifo_push b (fr_output r)\<rparr>,
                             emit_mm_write (fr_trace r) p address b tb)))
      else (Inr (), (r, tb))))"

definition fifo_ops :: "fifo_state target_ops" where
  "fifo_ops = \<lparr>t_span = fifo_span, t_read = fifo_read, t_write = fifo_write\<rparr>"

section \<open>The queue as a list\<close>

definition fifo_ok :: "fifo \<Rightarrow> bool" where
  "fifo_ok f \<longleftrightarrow> pool_ok (ff_data f)"

definition fifo_list :: "fifo \<Rightarrow> u8 list" where
  "fifo_list f = map (pool_byte (ff_data f)) [0..<unat (ff_max_index f)]"

lemma u32_less: "unat (x :: u32) < 2 ^ 32"
  using unsigned_less[of x, where 'a = nat] by simp

lemma unat_ucast_64 [simp]: "unat (ucast (x :: u32) :: u64) = unat x"
  using u32_less[of x] by (simp add: unsigned_ucast_eq take_bit_nat_eq_self_iff)

lemma make_fifo_ok [simp]: "fifo_ok make_fifo"
  by (simp add: fifo_ok_def make_fifo_def)

lemma fifo_list_make [simp]: "fifo_list make_fifo = []"
  by (simp add: fifo_list_def make_fifo_def)

lemma length_fifo_list [simp]: "length (fifo_list f) = unat (ff_max_index f)"
  by (simp add: fifo_list_def)

lemma fifo_at_byte: "fifo_ok f \<Longrightarrow> fifo_at i f = pool_byte (ff_data f) (unat i)"
  using pool_read_store[of "ff_data f" 1 "ucast i"] u32_less[of i]
  by (simp add: fifo_at_def fifo_ok_def get_bytes_def upt_rec)

lemma fifo_at_list: "fifo_ok f \<Longrightarrow> unat i < length (fifo_list f) \<Longrightarrow> fifo_at i f = fifo_list f ! unat i"
  by (simp add: fifo_at_byte) (simp add: fifo_list_def)

lemma fifo_push_list:
  assumes "fifo_ok f" and "length (fifo_list f) < 2 ^ 32 - 1"
  shows "fifo_list (fifo_push v f) = fifo_list f @ [v]" and "fifo_ok (fifo_push v f)"
proof -
  obtain pool where pool: "pool_write (ff_data f) (ucast (ff_max_index f)) [v] = Some pool" "pool_ok pool"
      "pool_byte pool = put_bytes (pool_byte (ff_data f)) (unat (ff_max_index f)) [v]"
    using pool_write_store[of "ff_data f" "[v]" "ucast (ff_max_index f)"] assms(1) u32_less[of "ff_max_index f"]
    by (auto simp: fifo_ok_def)
  have n: "unat (ff_max_index f + 1) = Suc (unat (ff_max_index f))"
    using assms(2) by (simp add: unat_word_ariths(1))
  show "fifo_list (fifo_push v f) = fifo_list f @ [v]"
    by (auto simp: fifo_push_def pool(1) fifo_list_def n pool(3) put_bytes_def)
  show "fifo_ok (fifo_push v f)" using pool by (simp add: fifo_push_def fifo_ok_def)
qed

lemma fifo_pop_back_list:
  assumes "fifo_ok f" and "fifo_list f = xs @ [v]"
  shows "fst (fifo_pop_back f) = v" and "fifo_list (snd (fifo_pop_back f)) = xs" and "fifo_ok (snd (fifo_pop_back f))"
proof -
  have n: "unat (ff_max_index f) = Suc (length xs)" using assms(2) by (metis length_append_singleton length_fifo_list)
  then have nz: "ff_max_index f \<noteq> 0" by auto
  then have m: "unat (ff_max_index f - 1) = length xs" using n by (simp add: unat_minus_one)
  have "map (pool_byte (ff_data f)) [0..<length xs] @ [pool_byte (ff_data f) (length xs)] = xs @ [v]"
    using assms(2) by (simp add: fifo_list_def n)
  then have x: "map (pool_byte (ff_data f)) [0..<length xs] = xs" "pool_byte (ff_data f) (length xs) = v" by simp_all
  show "fst (fifo_pop_back f) = v" "fifo_list (snd (fifo_pop_back f)) = xs" "fifo_ok (snd (fifo_pop_back f))"
    using assms(1) nz m x by (simp_all add: fifo_pop_back_def Let_def fifo_at_byte fifo_ok_def fifo_list_def)
qed

lemma fifo_clear_list [simp]: "fifo_list (fifo_clear f) = []" "fifo_ok (fifo_clear f)"
  by (simp_all add: fifo_list_def fifo_clear_def fifo_ok_def)

lemma fifo_latest_list: "fifo_ok f \<Longrightarrow> fifo_latest_or d f = (if fifo_list f = [] then d else last (fifo_list f))"
proof (cases "ff_max_index f = 0")
  case True
  then show ?thesis by (simp add: fifo_latest_or_def fifo_empty_def fifo_size_def fifo_list_def)
next
  case False
  assume ok: "fifo_ok f"
  have n: "unat (ff_max_index f - 1) = unat (ff_max_index f) - 1" using False by (simp add: unat_minus_one)
  have pos: "0 < unat (ff_max_index f)" using False by (simp add: unat_gt_0)
  then have ne: "fifo_list f \<noteq> []" by (metis length_fifo_list length_greater_0_conv)
  have "ucast (ff_max_index f) \<noteq> (0 :: u64)" using pos by (metis less_irrefl unat_0 unat_ucast_64)
  then show ?thesis using ok ne pos fifo_at_list[OF ok, of "ff_max_index f - 1"] n
    by (simp add: fifo_latest_or_def fifo_empty_def fifo_size_def last_conv_nth)
qed

lemma it_at_end_list: "it_at_end f i \<longleftrightarrow> length (fifo_list f) \<le> unat i"
  by (simp add: it_at_end_def fifo_size_def word_le_nat_alt)

lemma it_value_or_list:
  assumes "fifo_ok f"
  shows "it_value_or f i d = (if unat i < length (fifo_list f) then fifo_list f ! unat i else d)"
proof (cases "unat i < length (fifo_list f)")
  case True
  then have "unat i < 2 ^ 32" using u32_less[of "ff_max_index f"] by simp
  then have "unat (ucast i :: u32) = unat i" by (simp add: unsigned_ucast_eq take_bit_nat_eq_self_iff)
  then show ?thesis using True fifo_at_list[OF assms, of "ucast i"]
    by (simp add: it_value_or_def it_at_end_list)
qed (simp add: it_value_or_def it_at_end_list)

section \<open>The register as two lists\<close>

definition register_ok :: "fifo_register \<Rightarrow> bool" where
  "register_ok r \<longleftrightarrow> fifo_ok (fr_input r) \<and> fifo_ok (fr_output r) \<and> lower (fr_span r) = upper (fr_span r)"

text \<open>What is still to be read, and what has been written.\<close>

definition pending :: "fifo_register \<Rightarrow> u8 list" where
  "pending r = drop (unat (fr_input_it r)) (fifo_list (fr_input r))"

definition written :: "fifo_register \<Rightarrow> u8 list" where
  "written r = fifo_list (fr_output r)"

definition empty_answer :: "fifo_register \<Rightarrow> sim_error + u8 list" where
  "empty_answer r = (if fr_fail_policy r = RaiseError then Inl (MemError NeedsMMI (lower (fr_span r)))
                     else Inr [fr_fill r])"

lemma single_in_bounds: "register_ok r \<Longrightarrow> \<not> out_of_bounds (fr_span r) (lower (fr_span r)) (Suc 0)"
  by (simp add: register_ok_def out_of_bounds_def)

lemma unat_it_next: "unat i < length (fifo_list f) \<Longrightarrow> unat (it_next i) = Suc (unat i)"
  using u32_less[of "ff_max_index f"] by (simp add: it_next_def unat_word_ariths(1))

lemma drop_Suc_tl: "drop n xs = b # bs \<Longrightarrow> drop (Suc n) xs = bs"
  by (metis drop_Suc list.sel(3) tl_drop)

lemma fifo_read_pending:
  assumes "register_ok r" and "fr_is_input r" and "touches_queue p" and "pending r = b # bs"
  shows "fifo_read (lower (fr_span r)) [x] p (r, tb) =
      (Inr [b], (r\<lparr>fr_input_it := it_next (fr_input_it r)\<rparr>, emit_mm_read (fr_trace r) p (lower (fr_span r)) b tb))"
    and "pending (r\<lparr>fr_input_it := it_next (fr_input_it r)\<rparr>) = bs"
proof -
  have ok: "fifo_ok (fr_input r)" using assms(1) by (simp add: register_ok_def)
  have i: "unat (fr_input_it r) < length (fifo_list (fr_input r))"
    using assms(4) by (metis drop_all list.distinct(1) not_le pending_def)
  have b: "fifo_list (fr_input r) ! unat (fr_input_it r) = b"
    using assms(4) i by (metis Cons_nth_drop_Suc list.inject pending_def)
  show "fifo_read (lower (fr_span r)) [x] p (r, tb) =
      (Inr [b], (r\<lparr>fr_input_it := it_next (fr_input_it r)\<rparr>, emit_mm_read (fr_trace r) p (lower (fr_span r)) b tb))"
    using assms(2,3) single_in_bounds[OF assms(1)] i b
    by (simp add: fifo_read_def Let_def it_at_end_list it_value_or_list[OF ok] put_first_def patch_def)
  show "pending (r\<lparr>fr_input_it := it_next (fr_input_it r)\<rparr>) = bs"
    using drop_Suc_tl[OF assms(4)[unfolded pending_def]] unat_it_next[OF i] by (simp add: pending_def)
qed

lemma fifo_read_drained:
  assumes "register_ok r" and "fr_is_input r" and "touches_queue p" and "pending r = []"
  shows "\<exists>tb'. fifo_read (lower (fr_span r)) [x] p (r, tb) = (empty_answer r, (r, tb'))"
  using assms single_in_bounds[OF assms(1)]
  by (auto simp: fifo_read_def Let_def it_at_end_list pending_def empty_answer_def put_first_def patch_def)

fun read_many :: "nat \<Rightarrow> u32 \<Rightarrow> operation \<Rightarrow> fifo_state \<Rightarrow> (sim_error + u8 list) list" where
  "read_many 0 a p s = []"
| "read_many (Suc n) a p s = (case fifo_read a [0] p s of (res, s') \<Rightarrow> res # read_many n a p s')"

lemma read_many_drained:
  "register_ok r \<Longrightarrow> fr_is_input r \<Longrightarrow> touches_queue p \<Longrightarrow> pending r = [] \<Longrightarrow>
   read_many n (lower (fr_span r)) p (r, tb) = replicate n (empty_answer r)"
proof (induction n arbitrary: tb)
  case (Suc n)
  obtain tb' where "fifo_read (lower (fr_span r)) [0] p (r, tb) = (empty_answer r, (r, tb'))"
    using fifo_read_drained[OF Suc.prems] by blast
  then show ?case using Suc by simp
qed simp

lemma read_many_pending:
  "register_ok r \<Longrightarrow> fr_is_input r \<Longrightarrow> touches_queue p \<Longrightarrow> pending r = bs \<Longrightarrow>
   read_many (length bs + n) (lower (fr_span r)) p (r, tb) =
     map (\<lambda>b. Inr [b]) bs @ replicate n (empty_answer r)"
proof (induction bs arbitrary: r tb)
  case Nil
  then show ?case using read_many_drained by simp
next
  case (Cons b bs)
  let ?r = "r\<lparr>fr_input_it := it_next (fr_input_it r)\<rparr>"
  note step = fifo_read_pending[OF Cons.prems]
  have "read_many (length bs + n) (lower (fr_span ?r)) p (?r, emit_mm_read (fr_trace r) p (lower (fr_span r)) b tb) =
      map (\<lambda>b. Inr [b]) bs @ replicate n (empty_answer ?r)"
    using Cons.prems step(2) by (intro Cons.IH) (simp_all add: register_ok_def)
  then show ?case using step(1) by (simp add: empty_answer_def)
qed

section \<open>Properties\<close>

text \<open>
  Property C20.  An input register hands out its queue in order.  Guest reads return the pending bytes
  one after the other, each exactly once; once they are used up every further read raises
  \<open>NeedsMMI\<close> or yields the fill value, as the fail policy says.
\<close>

theorem fifo_reads_in_order:
  assumes "register_ok r" and "fr_is_input r" and "touches_queue p"
  shows "read_many (length (pending r) + n) (lower (fr_span r)) p (r, tb) =
     map (\<lambda>b. Inr [b]) (pending r) @ replicate n (empty_answer r)"
  using assms by (intro read_many_pending) simp_all

definition sample_input :: fifo_register where
  "sample_input =
     \<lparr>fr_span = ival 0xFFFD 0xFFFD, fr_fill = 0, fr_is_input = True, fr_is_output = False,
      fr_fail_policy = RaiseError, fr_input = fifo_push 65 (fifo_push 72 make_fifo), fr_output = make_fifo,
      fr_input_it = it_begin, fr_trace = \<lparr>bound = False, emitter = 0\<rparr>\<rparr>"

lemma sample_input_pending: "pending sample_input = [72, 65]" "register_ok sample_input"
  by (simp_all add: sample_input_def pending_def it_begin_def register_ok_def ival_def fifo_push_list)

lemma fifo_reads_in_order_witness:
  "read_many 3 0xFFFD (mk_op Standard Kind_data 1) (sample_input, fresh_trace_buffer 1)
     = [Inr [72], Inr [65], Inl (MemError NeedsMMI 0xFFFD)]"
proof -
  have i: "fr_is_input sample_input" "lower (fr_span sample_input) = 0xFFFD"
      "empty_answer sample_input = Inl (MemError NeedsMMI 0xFFFD)"
    by (simp_all add: sample_input_def empty_answer_def ival_def)
  have t: "touches_queue (mk_op Standard Kind_data 1)" by (simp add: touches_queue_def mk_op_def)
  show ?thesis
    using fifo_reads_in_order[OF sample_input_pending(2) i(1) t, of 1 "fresh_trace_buffer 1"]
    by (simp add: sample_input_pending(1) i numeral_3_eq_3)
qed

text \<open>
  Property C21.  Stepping back over a read and forward again.  A guest read that consumed a byte is undone
  exactly by \<^verbatim>\<open>rewind_input\<close>, which also returns the byte; redoing it with
  \<^verbatim>\<open>advance_input\<close> gives the state after the read whatever byte it is passed; and when the
  queue was empty, advancing queues the byte and rewinding makes it pending again.
\<close>

theorem fifo_rewind_advance:
  assumes "register_ok r" and "fr_is_input r" and "touches_queue p"
  shows "case pending r of
      b # bs \<Rightarrow> (\<exists>tb' r'. fifo_read (lower (fr_span r)) [x] p (r, tb) = (Inr [b], (r', tb'))
          \<and> pending r' = bs \<and> rewind_input r' = (b, r) \<and> advance_input c r = r')
    | [] \<Rightarrow> unat (fr_input_it r) = length (fifo_list (fr_input r)) \<longrightarrow>
          length (fifo_list (fr_input r)) < 2 ^ 32 - 1 \<longrightarrow>
          pending (advance_input c r) = [] \<and> fst (rewind_input (advance_input c r)) = c
          \<and> pending (snd (rewind_input (advance_input c r))) = [c]"
proof (cases "pending r")
  case (Cons b bs)
  let ?r = "r\<lparr>fr_input_it := it_next (fr_input_it r)\<rparr>"
  have ok: "fifo_ok (fr_input r)" using assms(1) by (simp add: register_ok_def)
  have i: "unat (fr_input_it r) < length (fifo_list (fr_input r))"
    using Cons by (metis drop_all list.distinct(1) not_le pending_def)
  have b: "fifo_list (fr_input r) ! unat (fr_input_it r) = b"
    using Cons i by (metis Cons_nth_drop_Suc list.inject pending_def)
  have "unat (it_next (fr_input_it r)) \<noteq> 0" using unat_it_next[OF i] by simp
  then have nz: "it_next (fr_input_it r) \<noteq> 0" by (metis unat_0)
  then have prv: "it_prev (it_next (fr_input_it r)) = fr_input_it r" by (simp add: it_prev_def it_next_def)
  have "rewind_input ?r = (b, r)"
    using i b prv by (simp add: rewind_input_def Let_def it_value_or_list[OF ok])
  moreover have "advance_input c r = ?r" using i by (simp add: advance_input_def it_at_end_list)
  ultimately show ?thesis
    using fifo_read_pending(1)[OF assms Cons, of x tb] fifo_read_pending(2)[OF assms Cons] Cons by auto
next
  case Nil
  have ok: "fifo_ok (fr_input r)" using assms(1) by (simp add: register_ok_def)
  show ?thesis
  proof (simp only: Nil list.case, intro impI)
    assume i: "unat (fr_input_it r) = length (fifo_list (fr_input r))"
      and lim: "length (fifo_list (fr_input r)) < 2 ^ 32 - 1"
    note push = fifo_push_list[OF ok lim, of c]
    have i': "unat (fr_input_it r) < length (fifo_list (fifo_push c (fr_input r)))" using i push(1) by simp
    have n: "unat (it_next (fr_input_it r)) = Suc (length (fifo_list (fr_input r)))"
      using unat_it_next[OF i'] i by simp
    then have "it_next (fr_input_it r) \<noteq> 0" by (metis unat_0 nat.distinct(1))
    then have prv: "it_prev (it_next (fr_input_it r)) = fr_input_it r" by (simp add: it_prev_def it_next_def)
    have adv: "advance_input c r = r\<lparr>fr_input := fifo_push c (fr_input r), fr_input_it := it_next (fr_input_it r)\<rparr>"
      using i by (simp add: advance_input_def it_at_end_list)
    show "pending (advance_input c r) = [] \<and> fst (rewind_input (advance_input c r)) = c
          \<and> pending (snd (rewind_input (advance_input c r))) = [c]"
      using push n i i' prv
      by (simp add: adv pending_def rewind_input_def Let_def it_value_or_list[OF push(2)] nth_append)
  qed
qed

lemma fifo_rewind_advance_witness:
  "\<exists>tb' r'. fifo_read 0xFFFD [0] (mk_op Standard Kind_data 1) (sample_input, fresh_trace_buffer 1) = (Inr [72], (r', tb'))
     \<and> rewind_input r' = (72, sample_input) \<and> advance_input 9 sample_input = r'"
proof -
  have i: "fr_is_input sample_input" "lower (fr_span sample_input) = 0xFFFD"
    by (simp_all add: sample_input_def ival_def)
  have t: "touches_queue (mk_op Standard Kind_data 1)" by (simp add: touches_queue_def mk_op_def)
  show ?thesis
    using fifo_rewind_advance[where r = sample_input and p = "mk_op Standard Kind_data 1" and x = 0
        and tb = "fresh_trace_buffer 1" and c = 9, OF sample_input_pending(2) i(1) t]
    by (auto simp: sample_input_pending(1) i)
qed

end
