(* ===== verification/Register_Banks.thy ===== *)
theory Register_Banks
  imports Isa_Shared Trace_Log
begin

text \<open>
  The register file and the status flags of a Pep processor, from
  \<^verbatim>\<open>sim/cores/cpu/pep_regbank.hpp\<close>, \<^verbatim>\<open>pep_regbank.cpp\<close>, \<^verbatim>\<open>pep_csrbank.hpp\<close> and
  \<^verbatim>\<open>pep_csrbank.cpp\<close>.  Both hold plain host integers behind typed accessors, and both are also
  byte-addressed \<^verbatim>\<open>Target\<close>s: two big-endian bytes per register, one byte for the flags.  Every
  operation that records runs on the bank together with the trace buffer.

  The references that \<^verbatim>\<open>initialize\<close> obtains from the register scan are fields of the state.
\<close>

section \<open>The register bank\<close>

record reg_bank =
  rb_a :: u16
  rb_x :: u16
  rb_sp :: u16
  rb_pc :: u16
  rb_os :: u16
  rb_is :: u8
  rb_refs :: "pep_register \<Rightarrow> register_ref"
  rb_trace :: recorder
  rb_traced :: bool
  rb_op :: operation

type_synonym bank_state = "reg_bank \<times> trace_buffer"

definition REGISTER_COUNT :: nat where
  "REGISTER_COUNT = unat (register_u8 R_INVALID)"

definition make_reg_bank :: reg_bank where
  "make_reg_bank =
     \<lparr>rb_a = 0, rb_x = 0, rb_sp = 0, rb_pc = 0, rb_os = 0, rb_is = 0, rb_refs = (\<lambda>_. (0, 0)),
      rb_trace = \<lparr>bound = False, emitter = 0\<rparr>, rb_traced = False, rb_op = mk_op Standard Kind_data 0\<rparr>"

text \<open>\<^verbatim>\<open>initialize\<close>, given what the register scan returns for each of the six registers.\<close>

definition bank_initialize :: "(pep_register \<Rightarrow> register_ref) \<Rightarrow> reg_bank \<Rightarrow> reg_bank" where
  "bank_initialize expose b =
     b\<lparr>rb_refs := (\<lambda>r. if r = R_INVALID then rb_refs b r else expose r)\<rparr>"

definition bank_reset :: "reg_bank \<Rightarrow> reg_bank" where
  "bank_reset b = b\<lparr>rb_a := 0, rb_x := 0, rb_sp := 0, rb_pc := 0, rb_os := 0, rb_is := 0\<rparr>"

definition bank_set_initiator :: "u8 \<Rightarrow> reg_bank \<Rightarrow> reg_bank" where
  "bank_set_initiator cpu b = b\<lparr>rb_op := mk_op Standard Kind_data cpu\<rparr>"

definition bank_set_recorder :: "recorder \<Rightarrow> reg_bank \<Rightarrow> reg_bank" where
  "bank_set_recorder r b = b\<lparr>rb_trace := r\<rparr>"

definition bank_on_traced_changed :: "bool \<Rightarrow> reg_bank \<Rightarrow> reg_bank" where
  "bank_on_traced_changed enabled b = b\<lparr>rb_traced := enabled\<rparr>"

definition bank_trace :: "bool \<Rightarrow> bank_state \<Rightarrow> bank_state" where
  "bank_trace enabled = (\<lambda>(b, tb). (b, set_traced (rb_trace b) enabled tb))"

definition bank_ref :: "pep_register \<Rightarrow> reg_bank \<Rightarrow> register_ref" where
  "bank_ref reg b = (if unat (register_u8 reg) < REGISTER_COUNT then rb_refs b reg else (0, 0))"

fun reg_read :: "pep_register \<Rightarrow> reg_bank \<Rightarrow> u16" where
  "reg_read R_A b = rb_a b"
| "reg_read R_X b = rb_x b"
| "reg_read R_SP b = rb_sp b"
| "reg_read R_PC b = rb_pc b"
| "reg_read R_IS b = ucast (rb_is b)"
| "reg_read R_OS b = rb_os b"
| "reg_read R_INVALID b = 0"

text \<open>The recording half of \<^verbatim>\<open>store\<close>: the packet has the width of the register's own member.\<close>

definition bank_emit :: "pep_register \<Rightarrow> 'a::len word \<Rightarrow> 'a word \<Rightarrow> operation \<Rightarrow> reg_bank \<Rightarrow> trace_buffer \<Rightarrow> trace_buffer" where
  "bank_emit reg slot value p b tb =
     (if rb_traced b then emit_write_register (rb_trace b) p (rb_refs b reg) (slot XOR value) tb else tb)"

fun write_slot :: "pep_register \<Rightarrow> u16 \<Rightarrow> operation \<Rightarrow> bank_state \<Rightarrow> bank_state" where
  "write_slot R_A value p (b, tb) = (b\<lparr>rb_a := value\<rparr>, bank_emit R_A (rb_a b) value p b tb)"
| "write_slot R_X value p (b, tb) = (b\<lparr>rb_x := value\<rparr>, bank_emit R_X (rb_x b) value p b tb)"
| "write_slot R_SP value p (b, tb) = (b\<lparr>rb_sp := value\<rparr>, bank_emit R_SP (rb_sp b) value p b tb)"
| "write_slot R_PC value p (b, tb) = (b\<lparr>rb_pc := value\<rparr>, bank_emit R_PC (rb_pc b) value p b tb)"
| "write_slot R_OS value p (b, tb) = (b\<lparr>rb_os := value\<rparr>, bank_emit R_OS (rb_os b) value p b tb)"
| "write_slot R_IS value p (b, tb) =
     (b\<lparr>rb_is := ucast (value AND 0xFF)\<rparr>, bank_emit R_IS (rb_is b) (ucast (value AND 0xFF)) p b tb)"
| "write_slot R_INVALID value p (b, tb) = (b, tb)"

text \<open>The typed writers \<^verbatim>\<open>write<R>\<close> and \<^verbatim>\<open>write(Register, u16)\<close>, which record under the owner.\<close>

fun reg_write :: "pep_register \<Rightarrow> u16 \<Rightarrow> bank_state \<Rightarrow> bank_state" where
  "reg_write R_IS value (b, tb) = (b\<lparr>rb_is := ucast value\<rparr>, bank_emit R_IS (rb_is b) (ucast value) (rb_op b) b tb)"
| "reg_write R_A value (b, tb) = (b\<lparr>rb_a := value\<rparr>, bank_emit R_A (rb_a b) value (rb_op b) b tb)"
| "reg_write R_X value (b, tb) = (b\<lparr>rb_x := value\<rparr>, bank_emit R_X (rb_x b) value (rb_op b) b tb)"
| "reg_write R_SP value (b, tb) = (b\<lparr>rb_sp := value\<rparr>, bank_emit R_SP (rb_sp b) value (rb_op b) b tb)"
| "reg_write R_PC value (b, tb) = (b\<lparr>rb_pc := value\<rparr>, bank_emit R_PC (rb_pc b) value (rb_op b) b tb)"
| "reg_write R_OS value (b, tb) = (b\<lparr>rb_os := value\<rparr>, bank_emit R_OS (rb_os b) value (rb_op b) b tb)"
| "reg_write R_INVALID value (b, tb) = (b, tb)"

definition write_pc_untraced :: "u16 \<Rightarrow> reg_bank \<Rightarrow> reg_bank" where
  "write_pc_untraced value b = b\<lparr>rb_pc := value\<rparr>"

subsection \<open>The byte-addressed view\<close>

definition slot_of :: "u32 \<Rightarrow> u8" where
  "slot_of at = ucast (at div 2)"

definition is_high_byte :: "u32 \<Rightarrow> bool" where
  "is_high_byte at \<longleftrightarrow> at mod 2 = 0"

definition bank_span :: "bank_state \<Rightarrow> interval" where
  "bank_span = (\<lambda>_. ival 0 (word_of_nat (REGISTER_COUNT * 2 - 1)))"

definition half_of :: "u32 \<Rightarrow> u16 \<Rightarrow> u8" where
  "half_of at value = (if is_high_byte at then ucast (drop_bit 8 value) else ucast (value AND 0xFF))"

definition bank_read :: "u32 \<Rightarrow> u8 list \<Rightarrow> operation \<Rightarrow> (bank_state, sim_error, u8 list) sm" where
  "bank_read address dest p = (\<lambda>(b, tb).
     if out_of_bounds (bank_span (b, tb)) address (length dest) then (Inl (MemError OOBAccess address), (b, tb))
     else (Inr (map (\<lambda>i. let at = address + word_of_nat i
                         in half_of at (reg_read (register_of_u8 (slot_of at)) b)) [0..<length dest]), (b, tb)))"

text \<open>
  The two nested loops of \<^verbatim>\<open>write\<close>: the inner one takes every byte of the current register, the outer
  one writes the register and goes on with the rest of the source.
\<close>

fun merge_run :: "u8 \<Rightarrow> u32 \<Rightarrow> u16 \<Rightarrow> u8 list \<Rightarrow> u16 \<times> u32 \<times> u8 list" where
  "merge_run slot at value [] = (value, at, [])"
| "merge_run slot at value (s # src) =
     (if slot_of at = slot
      then merge_run slot (at + 1)
             (if is_high_byte at then (value AND 0x00FF) OR push_bit 8 (ucast s)
              else (value AND 0xFF00) OR ucast s) src
      else (value, at, s # src))"

lemma merge_run_shorter: "merge_run slot at value src = (v, a, rest) \<Longrightarrow> length rest \<le> length src"
  by (induction slot "at" "value" src rule: merge_run.induct) (auto split: if_splits)

function (sequential) bank_write_loop :: "u32 \<Rightarrow> u8 list \<Rightarrow> operation \<Rightarrow> bank_state \<Rightarrow> bank_state" where
  "bank_write_loop at [] p s = s"
| "bank_write_loop at (c # src) p s =
     (case merge_run (slot_of at) at (reg_read (register_of_u8 (slot_of at)) (fst s)) (c # src) of
        (value, at', rest) \<Rightarrow>
          bank_write_loop at' rest p (write_slot (register_of_u8 (slot_of at)) value p s))"
  by pat_completeness auto
termination
  by (relation "measure (\<lambda>(at, src, p, s). length src)") (auto dest: merge_run_shorter[OF sym])

definition bank_write :: "u32 \<Rightarrow> u8 list \<Rightarrow> operation \<Rightarrow> (bank_state, sim_error, unit) sm" where
  "bank_write address src p = (\<lambda>s.
     if out_of_bounds (bank_span s) address (length src) then (Inl (MemError OOBAccess address), s)
     else (Inr (), bank_write_loop address src p s))"

definition bank_clear :: "u8 \<Rightarrow> reg_bank \<Rightarrow> reg_bank" where
  "bank_clear fill b =
     (let wide = (push_bit 8 (ucast fill) OR ucast fill :: u16) in
      b\<lparr>rb_a := wide, rb_x := wide, rb_sp := wide, rb_pc := wide, rb_os := wide, rb_is := fill\<rparr>)"

definition bank_dump :: "nat \<Rightarrow> reg_bank \<Rightarrow> sim_error + u8 list" where
  "bank_dump n b =
     (if n = 0 then Inl (LogicError ''dump requires non-0 size'')
      else Inr (map (\<lambda>i. let slot = slot_of (word_of_nat i);
                             value = (if unat slot < REGISTER_COUNT then reg_read (register_of_u8 slot) b else 0)
                         in half_of (word_of_nat i) value) [0..<n]))"

definition bank_ops :: "bank_state target_ops" where
  "bank_ops = \<lparr>t_span = bank_span, t_read = bank_read, t_write = bank_write\<rparr>"

section \<open>The status flags\<close>

record csr_bank =
  cb_nzvc :: u8
  cb_ref :: register_ref
  cb_trace :: recorder
  cb_traced :: bool
  cb_op :: operation

type_synonym csr_state = "csr_bank \<times> trace_buffer"

definition make_csr_bank :: csr_bank where
  "make_csr_bank =
     \<lparr>cb_nzvc = 0, cb_ref = (0, 0), cb_trace = \<lparr>bound = False, emitter = 0\<rparr>, cb_traced = False,
      cb_op = mk_op Standard Kind_data 0\<rparr>"

definition csr_bit :: "csr \<Rightarrow> u8" where
  "csr_bit c = push_bit (3 - csr_index c) 1"

definition csr_MASK :: u8 where
  "csr_MASK = 0x0F"

definition csr_pack :: "bool \<Rightarrow> bool \<Rightarrow> bool \<Rightarrow> bool \<Rightarrow> u8" where
  "csr_pack n z v c =
     (if n then csr_bit CSR_N else 0) OR (if z then csr_bit CSR_Z else 0)
     OR (if v then csr_bit CSR_V else 0) OR (if c then csr_bit CSR_C else 0)"

definition csr_unpack :: "u8 \<Rightarrow> bool \<times> bool \<times> bool \<times> bool" where
  "csr_unpack nzvc =
     (nzvc AND csr_bit CSR_N \<noteq> 0, nzvc AND csr_bit CSR_Z \<noteq> 0,
      nzvc AND csr_bit CSR_V \<noteq> 0, nzvc AND csr_bit CSR_C \<noteq> 0)"

definition csr_initialize :: "register_ref \<Rightarrow> csr_bank \<Rightarrow> csr_bank" where
  "csr_initialize expose b = b\<lparr>cb_ref := expose\<rparr>"

definition csr_reset :: "csr_bank \<Rightarrow> csr_bank" where
  "csr_reset b = b\<lparr>cb_nzvc := 0\<rparr>"

definition csr_set_initiator :: "u8 \<Rightarrow> csr_bank \<Rightarrow> csr_bank" where
  "csr_set_initiator cpu b = b\<lparr>cb_op := mk_op Standard Kind_data cpu\<rparr>"

definition csr_set_recorder :: "recorder \<Rightarrow> csr_bank \<Rightarrow> csr_bank" where
  "csr_set_recorder r b = b\<lparr>cb_trace := r\<rparr>"

definition csr_on_traced_changed :: "bool \<Rightarrow> csr_bank \<Rightarrow> csr_bank" where
  "csr_on_traced_changed enabled b = b\<lparr>cb_traced := enabled\<rparr>"

definition csr_trace :: "bool \<Rightarrow> csr_state \<Rightarrow> csr_state" where
  "csr_trace enabled = (\<lambda>(b, tb). (b, set_traced (cb_trace b) enabled tb))"

definition csr_read :: "csr \<Rightarrow> csr_bank \<Rightarrow> bool" where
  "csr_read c b \<longleftrightarrow> cb_nzvc b AND csr_bit c \<noteq> 0"

definition csr_read_packed :: "csr_bank \<Rightarrow> u8" where
  "csr_read_packed b = cb_nzvc b"

definition csr_store :: "u8 \<Rightarrow> operation \<Rightarrow> csr_state \<Rightarrow> csr_state" where
  "csr_store value p = (\<lambda>(b, tb).
     (let masked = value AND csr_MASK in
      (b\<lparr>cb_nzvc := masked\<rparr>,
       if cb_traced b then emit_write_register (cb_trace b) p (cb_ref b) (cb_nzvc b XOR masked) tb else tb)))"

definition csr_write :: "csr \<Rightarrow> bool \<Rightarrow> csr_state \<Rightarrow> csr_state" where
  "csr_write c value = (\<lambda>(b, tb).
     csr_store (if value then cb_nzvc b OR csr_bit c else cb_nzvc b AND NOT (csr_bit c)) (cb_op b) (b, tb))"

definition csr_write_packed :: "u8 \<Rightarrow> csr_state \<Rightarrow> csr_state" where
  "csr_write_packed value = (\<lambda>(b, tb). csr_store value (cb_op b) (b, tb))"

definition csr_span :: "csr_state \<Rightarrow> interval" where
  "csr_span = (\<lambda>_. ival 0 0)"

definition csr_t_read :: "u32 \<Rightarrow> u8 list \<Rightarrow> operation \<Rightarrow> (csr_state, sim_error, u8 list) sm" where
  "csr_t_read address dest p = (\<lambda>(b, tb).
     if out_of_bounds (csr_span (b, tb)) address (length dest) then (Inl (MemError OOBAccess address), (b, tb))
     else (Inr (if length dest > 0 then dest[0 := cb_nzvc b] else dest), (b, tb)))"

definition csr_t_write :: "u32 \<Rightarrow> u8 list \<Rightarrow> operation \<Rightarrow> (csr_state, sim_error, unit) sm" where
  "csr_t_write address src p = (\<lambda>s.
     if out_of_bounds (csr_span s) address (length src) then (Inl (MemError OOBAccess address), s)
     else (Inr (), if length src > 0 then csr_store (src ! 0) p s else s))"

definition csr_clear :: "u8 \<Rightarrow> csr_bank \<Rightarrow> csr_bank" where
  "csr_clear fill b = b\<lparr>cb_nzvc := fill AND csr_MASK\<rparr>"

definition csr_dump :: "u8 list \<Rightarrow> csr_bank \<Rightarrow> sim_error + u8 list" where
  "csr_dump dest b =
     (if length dest = 0 then Inl (LogicError ''dump requires non-0 size'') else Inr (dest[0 := cb_nzvc b]))"

definition csr_ops :: "csr_state target_ops" where
  "csr_ops = \<lparr>t_span = csr_span, t_read = csr_t_read, t_write = csr_t_write\<rparr>"


section \<open>Lemmas on the register bank\<close>

lemma merge_hi: "(value AND 0x00FF) OR push_bit 8 (ucast s) = join_bytes s (lo_byte value)"
proof -
  have "value AND 0x00FF = take_bit 8 value" by (simp add: take_bit_eq_mask mask_eq_exp_minus_1)
  then show ?thesis
    by (intro bit_word_eqI) (auto simp: join_bytes_def lo_byte_def bit_simps)
qed

lemma and_FF00: "value AND 0xFF00 = join_bytes (hi_byte value) 0" for "value" :: u16
proof -
  have m: "(0xFF00 :: u16) = join_bytes 0xFF 0" by code_simp
  have "value AND 0xFF00 = join_bytes (hi_byte value) (lo_byte value) AND join_bytes 0xFF 0" by (simp add: m)
  also have "\<dots> = join_bytes (hi_byte value AND 0xFF) (lo_byte value AND 0)" by (simp only: join_bytes_and)
  also have "(0xFF :: u8) = - 1" by simp
  finally show ?thesis by (simp only: and.right_neutral and_zero_eq)
qed

lemma merge_lo: "(value AND 0xFF00) OR ucast s = join_bytes (hi_byte value) s"
  by (simp add: and_FF00 join_bytes_def)

lemmas merge_bytes = merge_hi merge_lo

lemma half_of_simps: "half_of at v = (if is_high_byte at then hi_byte v else lo_byte v)"
proof -
  have "v AND 0xFF = take_bit 8 v" by (simp add: take_bit_eq_mask mask_eq_exp_minus_1)
  then show ?thesis by (intro bit_word_eqI) (auto simp: half_of_def hi_byte_def lo_byte_def bit_simps)
qed

lemma ucast_and_FF: "(ucast (v AND 0xFF) :: u8) = ucast v" for v :: u16
proof -
  have "v AND 0xFF = take_bit 8 v" by (simp add: take_bit_eq_mask mask_eq_exp_minus_1)
  then show ?thesis by (intro bit_word_eqI) (auto simp: bit_simps)
qed

text \<open>The register that byte \<open>k\<close> of the target belongs to, and the byte it holds.\<close>

definition reg_at :: "nat \<Rightarrow> pep_register" where
  "reg_at k = register_of_u8 (word_of_nat (k div 2))"

definition bank_byte :: "reg_bank \<Rightarrow> nat \<Rightarrow> u8" where
  "bank_byte b k = (if even k then hi_byte (reg_read (reg_at k) b) else lo_byte (reg_read (reg_at k) b))"

lemma all_bytes: "k < 12 \<Longrightarrow> list_all P [0..<12] \<Longrightarrow> P k"
  by (auto simp: list_all_iff)

lemma slot_of_nat: "k < 12 \<Longrightarrow> slot_of (word_of_nat k) = word_of_nat (k div 2)"
  by (erule all_bytes) code_simp

lemma is_high_byte_nat: "k < 12 \<Longrightarrow> is_high_byte (word_of_nat k) = even k"
  by (erule all_bytes) code_simp

lemma reg_at_next_ne: "k < 12 \<Longrightarrow> j < 12 \<Longrightarrow> reg_at k = reg_at j \<longleftrightarrow> k div 2 = j div 2"
proof -
  have "reg_at k = [R_A, R_X, R_SP, R_PC, R_IS, R_OS] ! (k div 2)" if "k < 12" for k
  proof -
    have "k div 2 \<in> {0, 1, 2, 3, 4, 5}" using that by auto
    then show ?thesis by (auto simp: reg_at_def register_of_u8_def)
  qed
  moreover have "distinct [R_A, R_X, R_SP, R_PC, R_IS, R_OS]" by simp
  ultimately show "k < 12 \<Longrightarrow> j < 12 \<Longrightarrow> reg_at k = reg_at j \<longleftrightarrow> k div 2 = j div 2"
    using nth_eq_iff_index_eq[of "[R_A, R_X, R_SP, R_PC, R_IS, R_OS]" "k div 2" "j div 2"] by simp
qed

text \<open>What a write of one register does to the typed reads: \<open>IS\<close> keeps only the low byte.\<close>

definition stored :: "pep_register \<Rightarrow> u16 \<Rightarrow> u16" where
  "stored r v = (case r of R_IS \<Rightarrow> join_bytes 0 (lo_byte v) | R_INVALID \<Rightarrow> 0 | _ \<Rightarrow> v)"

lemma ucast_lo: "(ucast (ucast v :: u8) :: u16) = join_bytes 0 (lo_byte v)" for v :: u16
  by (rule bit_word_eqI) (auto simp: join_bytes_def lo_byte_def bit_simps)

lemma read_write_slot:
  "reg_read q (fst (write_slot r v p s)) = (if q = r then stored r v else reg_read q (fst s))"
  by (cases s; cases r; cases q) (simp_all add: stored_def ucast_lo ucast_and_FF)

lemma read_reg_write:
  "reg_read q (fst (reg_write r v s)) = (if q = r then stored r v else reg_read q (fst s))"
  by (cases s; cases r; cases q) (simp_all add: stored_def ucast_lo)

lemma extends_bank_emit [extends_intros]: "extends tb (bank_emit r x v p b tb)"
  by (simp add: bank_emit_def extends_emit_write_register)

lemma extends_write_slot [extends_intros]: "extends (snd s) (snd (write_slot r v p s))"
  by (cases s; cases r) (simp_all add: extends_bank_emit)

lemma extends_reg_write [extends_intros]: "extends (snd s) (snd (reg_write r v s))"
  by (cases s; cases r) (simp_all add: extends_bank_emit)

text \<open>The loop of \<^verbatim>\<open>write\<close>, one register at a time.\<close>

lemma slot_of_word_add:
  "k + j < 12 \<Longrightarrow> slot_of (word_of_nat k + word_of_nat j) = word_of_nat ((k + j) div 2)"
  using slot_of_nat[of "k + j"] by simp

lemma slots_differ:
  "j < 12 \<Longrightarrow> k < 12 \<Longrightarrow> (word_of_nat (j div 2) :: u8) = word_of_nat (k div 2) \<longleftrightarrow> j div 2 = k div 2"
proof -
  have "list_all (\<lambda>j. list_all (\<lambda>k. ((word_of_nat (j div 2) :: u8) = word_of_nat (k div 2)) = (j div 2 = k div 2)) [0..<12]) [0..<12]"
    by code_simp
  then show "j < 12 \<Longrightarrow> k < 12 \<Longrightarrow> (word_of_nat (j div 2) :: u8) = word_of_nat (k div 2) \<longleftrightarrow> j div 2 = k div 2"
    by (auto simp: list_all_iff)
qed


lemma loop_high_pair:
  assumes "even k" and "k + 1 < 12" and "length src \<le> 12 - (k + 2)"
  shows "bank_write_loop (word_of_nat k) (c # d # src) p s =
         bank_write_loop (word_of_nat (k + 2)) src p (write_slot (reg_at k) (join_bytes c d) p s)"
proof -
  have same: "slot_of (word_of_nat k + 1) = slot_of (word_of_nat k)"
    using slot_of_nat[of "k + 1"] slot_of_nat[of k] assms(1,2) by (simp add: add.commute)
  have next_ne: "slot_of (word_of_nat k + 1 + 1) \<noteq> slot_of (word_of_nat k)" if "src \<noteq> []"
  proof -
    have "k + 2 < 12" using assms(3) that by (cases src) auto
    then show ?thesis
      using slot_of_nat[of "k + 2"] slot_of_nat[of k] slots_differ[of "k + 2" k] by (simp add: add_ac)
  qed
  have hb: "is_high_byte (word_of_nat k)" "\<not> is_high_byte (word_of_nat k + 1)"
    using is_high_byte_nat[of k] is_high_byte_nat[of "k + 1"] assms(1,2) by (simp_all add: add.commute)
  have "merge_run (slot_of (word_of_nat k)) (word_of_nat k) v (c # d # src) =
        (join_bytes c d, word_of_nat k + 1 + 1, src)" for v
    using next_ne by (cases src) (simp_all add: same hb merge_bytes)
  moreover have "(word_of_nat k + 1 + 1 :: u32) = word_of_nat (k + 2)" by simp
  moreover have "register_of_u8 (slot_of (word_of_nat k)) = reg_at k"
    using assms(2) by (simp add: reg_at_def slot_of_nat)
  ultimately show ?thesis by simp
qed

lemma loop_high_last:
  assumes "even k" and "k < 12"
  shows "bank_write_loop (word_of_nat k) [c] p s =
         write_slot (reg_at k) (join_bytes c (lo_byte (reg_read (reg_at k) (fst s)))) p s"
  using assms by (simp add: is_high_byte_nat merge_bytes reg_at_def slot_of_nat)

lemma loop_low:
  assumes "odd k" and "k < 12" and "length src \<le> 12 - (k + 1)"
  shows "bank_write_loop (word_of_nat k) (c # src) p s =
         bank_write_loop (word_of_nat (k + 1)) src p
           (write_slot (reg_at k) (join_bytes (hi_byte (reg_read (reg_at k) (fst s))) c) p s)"
proof -
  have next_ne: "slot_of (word_of_nat k + 1) \<noteq> slot_of (word_of_nat k)" if "src \<noteq> []"
  proof -
    have "k + 1 < 12" using assms(3) that by (cases src) auto
    then show ?thesis using assms(1)
      using slot_of_nat[of "k + 1"] slot_of_nat[of k] slots_differ[of "k + 1" k] by (simp add: add_ac)
  qed
  have "merge_run (slot_of (word_of_nat k)) (word_of_nat k) v (c # src) =
        (join_bytes (hi_byte v) c, word_of_nat k + 1, src)" for v
    using next_ne assms(1,2) by (cases src) (simp_all add: is_high_byte_nat merge_bytes)
  moreover have "(word_of_nat k + 1 :: u32) = word_of_nat (k + 1)" by simp
  moreover have "register_of_u8 (slot_of (word_of_nat k)) = reg_at k"
    using assms(2) by (simp add: reg_at_def slot_of_nat)
  ultimately show ?thesis by (simp del: merge_run.simps add: add.commute)
qed

text \<open>A register write seen through the bytes of the target.\<close>

definition masked_bytes :: "(nat \<Rightarrow> u8) \<Rightarrow> nat \<Rightarrow> u8" where
  "masked_bytes m k = (if k = 8 then 0 else m k)"

lemma bank_byte_write_slot:
  assumes "j < 12" and "k < 12"
  shows "bank_byte (fst (write_slot (reg_at j) v p s)) k =
    (if k div 2 = j div 2
     then masked_bytes (\<lambda>k. if even k then hi_byte v else lo_byte v) k else bank_byte (fst s) k)"
proof (cases "k div 2 = j div 2")
  case True
  then have r: "reg_at k = reg_at j" using reg_at_next_ne[of k j] assms by simp
  have "reg_at j \<noteq> R_INVALID" "reg_at j = R_IS \<longleftrightarrow> j div 2 = 4"
    using assms(1) by (erule_tac all_bytes, code_simp)+
  moreover have "reg_at 8 = R_IS" by code_simp
  ultimately show ?thesis using True
    by (cases "reg_at j") (auto simp: bank_byte_def r read_write_slot stored_def masked_bytes_def)
next
  case False
  then have "reg_at k \<noteq> reg_at j" using reg_at_next_ne[of k j] assms by simp
  with False show ?thesis by (simp add: bank_byte_def read_write_slot)
qed


lemma hi_reg_at_8 [simp]: "hi_byte (reg_read (reg_at 8) b) = 0"
proof -
  have "reg_at 8 = R_IS" by code_simp
  moreover have "hi_byte (ucast x) = 0" for x :: u8
    by (rule bit_word_eqI) (auto simp: hi_byte_def bit_simps dest: bit_imp_le_length)
  ultimately show ?thesis by simp
qed

lemma hi_of_ucast [simp]: "hi_byte (ucast (x :: u8)) = 0"
  by (rule bit_word_eqI) (auto simp: hi_byte_def bit_simps dest: bit_imp_le_length)

lemma bank_byte_8 [simp]: "bank_byte b 8 = 0"
  by (simp add: bank_byte_def)

lemma masked_put_append:
  assumes "\<forall>k < 12. m' k = masked_bytes (put_bytes m a xs) k" and "k < 12"
  shows "masked_bytes (put_bytes m' (a + length xs) ys) k = masked_bytes (put_bytes m a (xs @ ys)) k"
  unfolding put_bytes_append[symmetric] using assms by (simp add: masked_bytes_def put_bytes_def)

lemma put_low_byte:
  assumes "odd a" and "a < 12" and "k < 12"
  shows "bank_byte (fst (write_slot (reg_at a) (join_bytes (hi_byte (reg_read (reg_at a) (fst s))) c) p s)) k =
         masked_bytes (put_bytes (bank_byte (fst s)) a [c]) k"
proof -
  have eq: "reg_at k = reg_at a" if "k div 2 = a div 2" using reg_at_next_ne[of k a] assms that by simp
  have "k div 2 \<noteq> a div 2 \<and> k \<noteq> a \<or> k = a \<or> Suc k = a" using assms(1) by presburger
  then consider (other) "k div 2 \<noteq> a div 2" "k \<noteq> a" | (same) "k = a" | (high) "Suc k = a" by blast
  then show ?thesis
  proof cases
    case other
    then show ?thesis unfolding bank_byte_write_slot[OF assms(2,3)]
      by (simp add: masked_bytes_def put_bytes_def)
  next
    case same
    then show ?thesis using assms(1) unfolding bank_byte_write_slot[OF assms(2,3)]
      by (auto simp: masked_bytes_def put_bytes_def)
  next
    case high
    then have "k div 2 = a div 2" "even k" using assms(1) by presburger+
    then show ?thesis using high unfolding bank_byte_write_slot[OF assms(2,3)]
      by (simp add: masked_bytes_def put_bytes_def bank_byte_def eq)
  qed
qed

lemma put_high_byte:
  assumes "even a" and "a < 12" and "k < 12"
  shows "bank_byte (fst (write_slot (reg_at a) (join_bytes c (lo_byte (reg_read (reg_at a) (fst s)))) p s)) k =
         masked_bytes (put_bytes (bank_byte (fst s)) a [c]) k"
proof -
  have eq: "reg_at k = reg_at a" if "k div 2 = a div 2" using reg_at_next_ne[of k a] assms that by simp
  have "k = a \<or> k = Suc a" if "k div 2 = a div 2" using that assms(1) by presburger
  then show ?thesis
    using assms(1) unfolding bank_byte_write_slot[OF assms(2,3)]
    by (auto simp: masked_bytes_def put_bytes_def bank_byte_def eq)
qed

lemma put_both_bytes:
  assumes "even a" and "a < 12" and "k < 12"
  shows "bank_byte (fst (write_slot (reg_at a) (join_bytes c d) p s)) k =
         masked_bytes (put_bytes (bank_byte (fst s)) a [c, d]) k"
proof -
  have "k = a \<or> k = Suc a" if "k div 2 = a div 2" using that assms(1) by presburger
  moreover have "k div 2 = a div 2" if "k = a \<or> k = Suc a" using that assms(1) by auto
  ultimately show ?thesis
    using assms(1) unfolding bank_byte_write_slot[OF assms(2,3)]
    by (auto simp: masked_bytes_def put_bytes_def nth_Cons bank_byte_def split: nat.split)
qed

text \<open>The loop overwrites the bytes it is given, but for the upper byte of \<open>IS\<close>, which stays zero.\<close>

lemma bank_write_loop_bytes:
  assumes "a + length src \<le> 12"
  shows "(\<forall>k < 12. bank_byte (fst (bank_write_loop (word_of_nat a) src p s)) k =
            masked_bytes (put_bytes (bank_byte (fst s)) a src) k)
         \<and> extends (snd s) (snd (bank_write_loop (word_of_nat a) src p s))"
  using assms
proof (induction "length src" arbitrary: a src s rule: less_induct)
  case less
  consider (Nil) "src = []" | (low) c cs where "src = c # cs" "odd a"
    | (last) c where "src = [c]" "even a" | (pair) c d cs where "src = c # d # cs" "even a"
    by (metis list.exhaust)
  then show ?case
  proof cases
    case Nil
    then show ?thesis by (auto simp: masked_bytes_def)
  next
    case low
    let ?s = "write_slot (reg_at a) (join_bytes (hi_byte (reg_read (reg_at a) (fst s))) c) p s"
    have a: "a < 12" "length cs \<le> 12 - (a + 1)" using less.prems low by auto
    have "\<forall>k < 12. bank_byte (fst ?s) k = masked_bytes (put_bytes (bank_byte (fst s)) a [c]) k"
      using put_low_byte[OF low(2) a(1)] by blast
    note app = masked_put_append[OF this]
    have "extends (snd s) (snd ?s)" by (rule extends_write_slot)
    then show ?thesis
      using less.hyps[of cs "a + 1" ?s] less.prems app[of _ cs] unfolding low(1) loop_low[OF low(2) a]
      by (auto intro: extends_trans)
  next
    case last
    then show ?thesis
      using less.prems loop_high_last[OF last(2), of c p s] put_high_byte[OF last(2), of _ c s p] extends_write_slot
      by auto
  next
    case pair
    let ?s = "write_slot (reg_at a) (join_bytes c d) p s"
    have a: "a + 1 < 12" "length cs \<le> 12 - (a + 2)" using less.prems pair by auto
    then have "\<forall>k < 12. bank_byte (fst ?s) k = masked_bytes (put_bytes (bank_byte (fst s)) a [c, d]) k"
      using put_both_bytes[OF pair(2)] by simp
    note app = masked_put_append[OF this]
    have "extends (snd s) (snd ?s)" by (rule extends_write_slot)
    then show ?thesis
      using less.hyps[of cs "a + 2" ?s] less.prems app[of _ cs] unfolding pair(1) loop_high_pair[OF pair(2) a]
      by (auto intro: extends_trans)
  qed
qed


lemma bank_span_eq: "bank_span s = ival 0 11"
  by (cases s) (simp add: bank_span_def REGISTER_COUNT_def)

lemma within_bank: "within (ival 0 11) a n \<longleftrightarrow> 0 < n \<and> unat a + n \<le> 12"
  by (auto simp: within_def ival_def)

lemma bank_read_bytes:
  assumes "0 < length dest" and "unat a + length dest \<le> 12"
  shows "bank_read a dest p (b, tb) = (Inr (get_bytes (bank_byte b) (unat a) (length dest)), (b, tb))"
proof -
  have "within (ival 0 11) a (length dest)" using assms by (simp add: within_bank)
  note inb = within_in_bounds[OF this]
  have "half_of (a + word_of_nat i) (reg_read (register_of_u8 (slot_of (a + word_of_nat i))) b) =
        bank_byte b (unat a + i)" if "i < length dest" for i
  proof -
    have lt: "unat a + i < 12" using that assms(2) by simp
    have "a + word_of_nat i = word_of_nat (unat a + i)" by simp
    then show ?thesis
      unfolding bank_byte_def reg_at_def half_of_simps
      using slot_of_nat[OF lt] is_high_byte_nat[OF lt] by simp
  qed
  then show ?thesis using inb by (simp add: bank_read_def bank_span_eq get_bytes_def Let_def)
qed

lemma bank_write_bytes:
  assumes "0 < length src" and "unat a + length src \<le> 12"
  obtains s' where "bank_write a src p s = (Inr (), s')" and "extends (snd s) (snd s')"
    and "\<And>k. k < 12 \<Longrightarrow> bank_byte (fst s') k = masked_bytes (put_bytes (bank_byte (fst s)) (unat a) src) k"
proof -
  have "within (ival 0 11) a (length src)" using assms by (simp add: within_bank)
  note inb = within_in_bounds[OF this]
  then have "bank_write a src p s = (Inr (), bank_write_loop a src p s)"
    by (simp add: bank_write_def bank_span_eq)
  then show ?thesis using that bank_write_loop_bytes[OF assms(2), of p s] by simp
qed

lemma bank_byte_regs:
  "bank_byte b 0 = hi_byte (rb_a b)" "bank_byte b 1 = lo_byte (rb_a b)"
  "bank_byte b 2 = hi_byte (rb_x b)" "bank_byte b 3 = lo_byte (rb_x b)"
  "bank_byte b 4 = hi_byte (rb_sp b)" "bank_byte b 5 = lo_byte (rb_sp b)"
  "bank_byte b 6 = hi_byte (rb_pc b)" "bank_byte b 7 = lo_byte (rb_pc b)"
  "bank_byte b 9 = lo_byte (ucast (rb_is b))"
  "bank_byte b 10 = hi_byte (rb_os b)" "bank_byte b 11 = lo_byte (rb_os b)"
proof -
  have r: "reg_at 0 = R_A" "reg_at 1 = R_A" "reg_at 2 = R_X" "reg_at 3 = R_X" "reg_at 4 = R_SP"
    "reg_at 5 = R_SP" "reg_at 6 = R_PC" "reg_at 7 = R_PC" "reg_at 9 = R_IS"
    "reg_at 10 = R_OS" "reg_at 11 = R_OS"
    by code_simp+
  show "bank_byte b 0 = hi_byte (rb_a b)" "bank_byte b 1 = lo_byte (rb_a b)"
    "bank_byte b 2 = hi_byte (rb_x b)" "bank_byte b 3 = lo_byte (rb_x b)"
    "bank_byte b 4 = hi_byte (rb_sp b)" "bank_byte b 5 = lo_byte (rb_sp b)"
    "bank_byte b 6 = hi_byte (rb_pc b)" "bank_byte b 7 = lo_byte (rb_pc b)"
    "bank_byte b 9 = lo_byte (ucast (rb_is b))"
    "bank_byte b 10 = hi_byte (rb_os b)" "bank_byte b 11 = lo_byte (rb_os b)"
    unfolding bank_byte_def r by simp_all
qed

lemma get_all_bytes:
  "get_bytes m 0 12 = [m 0, m 1, m 2, m 3, m 4, m 5, m 6, m 7, m 8, m 9, m 10, m 11]"
proof -
  have "[0..<12] = [0, 1, 2, 3, 4, 5, 6, 7, 8, 9, 10, 11 :: nat]" by code_simp
  then show ?thesis by (simp add: get_bytes_def)
qed

section \<open>Lemmas on the flags\<close>

lemma csr_bit_test: "x AND csr_bit c = 0 \<longleftrightarrow> \<not> bit x (3 - csr_index c)"
  by (simp add: csr_bit_def and_exp_eq_0_iff_not_bit)

lemma bit_csr_bit: "bit (csr_bit c) k \<longleftrightarrow> k = 3 - csr_index c"
proof -
  have "bit (push_bit n (1 :: u8)) k \<longleftrightarrow> n < 8 \<and> k = n" for n
    by (auto simp: bit_push_bit_iff bit_1_iff simp del: push_bit_of_1)
  from this[of "3 - csr_index c"] show ?thesis unfolding csr_bit_def by linarith
qed

lemma csr_index_less: "3 - csr_index c < 4"
  by simp

lemma csr_position_inj: "3 - csr_index c = 3 - csr_index d \<longleftrightarrow> c = d"
  by (cases c; cases d) simp_all

lemma bit_csr_MASK: "bit csr_MASK k \<longleftrightarrow> k < 4"
proof -
  have "csr_MASK = mask 4" by (simp add: csr_MASK_def mask_eq_exp_minus_1)
  then show ?thesis unfolding \<open>csr_MASK = mask 4\<close> by (auto simp: bit_mask_iff)
qed

lemma csr_unpack_pack [simp]: "csr_unpack (csr_pack n z v c) = (n, z, v, c)"
  by (auto simp: csr_unpack_def csr_bit_test csr_pack_def bit_simps bit_csr_bit)

lemma csr_pack_masked [simp]: "csr_pack n z v c AND csr_MASK = csr_pack n z v c"
  by (rule bit_word_eqI) (auto simp: csr_pack_def bit_simps bit_csr_bit bit_csr_MASK)

lemma csr_pack_unpack: "(case csr_unpack x of (n, z, v, c) \<Rightarrow> csr_pack n z v c) = x AND csr_MASK"
proof -
  have "k < 4 \<Longrightarrow> k = 0 \<or> k = 1 \<or> k = 2 \<or> k = 3" for k :: nat by auto
  then show ?thesis
    unfolding csr_unpack_def csr_bit_test prod.case
    by (intro bit_word_eqI) (auto simp: csr_pack_def bit_simps bit_csr_bit bit_csr_MASK)
qed

lemma csr_store_nzvc [simp]: "cb_nzvc (fst (csr_store v p s)) = v AND csr_MASK"
  by (cases s) (simp add: csr_store_def Let_def)

lemma extends_csr_store [extends_intros]: "extends (snd s) (snd (csr_store v p s))"
  by (cases s) (simp add: csr_store_def Let_def extends_emit_write_register)

lemma csr_read_store: "csr_read c (fst (csr_store v p s)) \<longleftrightarrow> bit v (3 - csr_index c)"
  using csr_index_less[of c] by (simp add: csr_read_def csr_bit_test bit_and_iff bit_csr_MASK)

section \<open>Properties\<close>



text \<open>
  Property C22.  The status flags: packing and unpacking are inverse on the low nibble; writing one flag
  changes that flag and no other; and whatever is stored, by a flag write, a packed write, a write
  through \<^verbatim>\<open>Target\<close> or a clear, the four upper bits of the byte stay zero.
\<close>

theorem status_flags:
  "csr_unpack (csr_pack n z v c) = (n, z, v, c)
   \<and> (case csr_unpack x of (n, z, v, c) \<Rightarrow> csr_pack n z v c) = x AND 0x0F
   \<and> csr_read f (fst (csr_write g val s)) = (if f = g then val else csr_read f (fst s))
   \<and> csr_read_packed (fst (csr_write_packed x s)) = x AND 0x0F
   \<and> cb_nzvc (fst (csr_write g val s)) AND 0xF0 = 0 \<and> cb_nzvc (csr_clear x b) AND 0xF0 = 0
   \<and> (\<exists>s'. csr_t_write 0 [x] p s = (Inr (), s') \<and> cb_nzvc (fst s') = x AND 0x0F)"
proof -
  have m: "(y AND csr_MASK) AND 0xF0 = 0" for y
    by (simp add: csr_MASK_def and.assoc)
  have w: "csr_write g val s = csr_store (if val then cb_nzvc (fst s) OR csr_bit g
      else cb_nzvc (fst s) AND NOT (csr_bit g)) (cb_op (fst s)) s"
    by (cases s) (simp add: csr_write_def)
  have p: "csr_write_packed x s = csr_store x (cb_op (fst s)) s"
    by (cases s) (simp add: csr_write_packed_def)
  have "csr_read f (fst (csr_write g val s)) = (if f = g then val else csr_read f (fst s))"
    unfolding w csr_read_store using csr_index_less[of f]
    by (auto simp: bit_simps bit_csr_bit csr_position_inj csr_read_def csr_bit_test)
  moreover have "\<not> out_of_bounds (ival 0 0) 0 (Suc 0)" by (simp add: out_of_bounds_def ival_def)
  then have "csr_t_write 0 [x] p s = (Inr (), csr_store x p s)" for p
    by (cases s) (simp add: csr_t_write_def csr_span_def)
  ultimately show ?thesis
    unfolding p csr_read_packed_def
    by (simp add: w csr_pack_unpack m csr_clear_def flip: csr_MASK_def)
qed

end
