(* ===== verification/Pep_Cpu.thy ===== *)
theory Pep_Cpu
  imports Register_Banks Pep10_Isa Pep9_Isa
begin

text \<open>
  The Pep/9 and Pep/10 processor, from \<^verbatim>\<open>sim/cores/cpu/pep_isa.hpp\<close>, \<^verbatim>\<open>pep_isa.cpp\<close>,
  \<^verbatim>\<open>pep_isa_instructions.hpp\<close> and \<^verbatim>\<open>pep_isa_instructions.cpp\<close>: the state of the processor, the
  decoding of an operand's address, one handler per behaviour, the dispatch over behaviours, and the
  clock tick that runs one instruction inside one trace recording.

  The processor reaches memory only through its \<^verbatim>\<open>Target\<close>, which is a parameter of every
  definition: a record of operations over some memory \<open>'m\<close> and the trace buffer.  Reads of integers
  fill an uninitialised variable; the model starts it at zero, and every memory that overwrites its
  destination makes the choice irrelevant.
\<close>

named_theorems cpu_defs "definitions of the processor's operations"

section \<open>State\<close>

datatype cpu_isa = Isa_Pep8 | Isa_Pep9 | Isa_Pep10

record 'm cpu =
  c_regs :: reg_bank
  c_csrs :: csr_bank
  c_pc :: u16
  c_call_depth :: u16
  c_instructions :: u64
  c_trace :: recorder
  c_may_trace :: bool
  c_opcodes :: "shared_op list"
  c_op_data :: operation
  c_ref_call_depth :: register_ref
  c_mem :: 'm
  c_tb :: trace_buffer

type_synonym ('m, 'a) cpu_sm = "('m cpu, sim_error, 'a) sm"
type_synonym 'm cpu_target = "('m \<times> trace_buffer) target_ops"

text \<open>
  \<^verbatim>\<open>initialize\<close>, once the target was found: \<open>id\<close> is the identifier of the device and
  \<open>expose\<close> the reference under which the scan exposes the call depth.
\<close>

definition cpu_initialize :: "cpu_isa \<Rightarrow> u8 \<Rightarrow> register_ref \<Rightarrow> 'm cpu \<Rightarrow> sim_error + 'm cpu" where
  "cpu_initialize isa ident expose c =
     (let c1 = c\<lparr>c_op_data := mk_op Standard Kind_data ident\<rparr>;
          finish = (\<lambda>plane. Inr (c1\<lparr>c_opcodes := plane,
             c_regs := bank_set_initiator ident (c_regs c1),
             c_csrs := csr_set_initiator ident (c_csrs c1), c_ref_call_depth := expose\<rparr>))
      in case isa of
           Isa_Pep8 \<Rightarrow> Inl (LogicError ''PepISA3CPU: ISA pep8 not implemented'')
         | Isa_Pep9 \<Rightarrow> finish opcode_plane9
         | Isa_Pep10 \<Rightarrow> finish opcode_plane10)"

definition cpu_reset :: "'m cpu \<Rightarrow> 'm cpu" where
  "cpu_reset c = c\<lparr>c_pc := 0, c_call_depth := 0, c_instructions := 0\<rparr>"

definition cpu_set_recorder :: "recorder \<Rightarrow> 'm cpu \<Rightarrow> 'm cpu" where
  "cpu_set_recorder r c = c\<lparr>c_trace := r\<rparr>"

definition cpu_on_traced_changed :: "bool \<Rightarrow> 'm cpu \<Rightarrow> 'm cpu" where
  "cpu_on_traced_changed enabled c = c\<lparr>c_may_trace := enabled\<rparr>"

text \<open>Running an operation of a part of the processor.\<close>

definition on_mem :: "('m \<times> trace_buffer, sim_error, 'a) sm \<Rightarrow> ('m, 'a) cpu_sm" where
  "on_mem m = zoom (\<lambda>c. (c_mem c, c_tb c)) (\<lambda>(m, tb) c. c\<lparr>c_mem := m, c_tb := tb\<rparr>) m"

definition on_regs_t :: "(bank_state, sim_error, 'a) sm \<Rightarrow> ('m, 'a) cpu_sm" where
  "on_regs_t m = zoom (\<lambda>c. (c_regs c, c_tb c)) (\<lambda>(b, tb) c. c\<lparr>c_regs := b, c_tb := tb\<rparr>) m"

definition on_regs :: "(bank_state \<Rightarrow> bank_state) \<Rightarrow> 'm cpu \<Rightarrow> 'm cpu" where
  "on_regs f c = (case f (c_regs c, c_tb c) of (b, tb) \<Rightarrow> c\<lparr>c_regs := b, c_tb := tb\<rparr>)"

definition on_csrs :: "(csr_state \<Rightarrow> csr_state) \<Rightarrow> 'm cpu \<Rightarrow> 'm cpu" where
  "on_csrs f c = (case f (c_csrs c, c_tb c) of (b, tb) \<Rightarrow> c\<lparr>c_csrs := b, c_tb := tb\<rparr>)"

definition cpu_trace :: "bool \<Rightarrow> 'm cpu \<Rightarrow> 'm cpu" where
  "cpu_trace enabled c =
     on_csrs (csr_trace enabled) (on_regs (bank_trace enabled)
       (c\<lparr>c_tb := set_traced (c_trace c) enabled (c_tb c)\<rparr>))"

section \<open>Register, flag and memory access\<close>

definition read_pc :: "('m, u16) cpu_sm" where
  [cpu_defs]: "read_pc = gets c_pc"

definition write_pc :: "u16 \<Rightarrow> ('m, unit) cpu_sm" where
  [cpu_defs]: "write_pc v = modify (\<lambda>c. c\<lparr>c_pc := v\<rparr>)"

text \<open>
  \<^verbatim>\<open>read_register\<close> and \<^verbatim>\<open>write_register\<close>, in their run-time and their compile-time form,
  redirect \<open>PC\<close> to the working copy; the uncached forms do not.
\<close>

definition read_register_uncached :: "pep_register \<Rightarrow> ('m, u16) cpu_sm" where
  [cpu_defs]: "read_register_uncached r = gets (\<lambda>c. reg_read r (c_regs c))"

definition write_register_uncached :: "pep_register \<Rightarrow> u16 \<Rightarrow> ('m, unit) cpu_sm" where
  [cpu_defs]: "write_register_uncached r v = modify (on_regs (reg_write r v))"

definition read_register :: "pep_register \<Rightarrow> ('m, u16) cpu_sm" where
  [cpu_defs]: "read_register r = (if r = R_PC then read_pc else read_register_uncached r)"

definition write_register :: "pep_register \<Rightarrow> u16 \<Rightarrow> ('m, unit) cpu_sm" where
  [cpu_defs]: "write_register r v = (if r = R_PC then write_pc v else write_register_uncached r v)"

definition read_packed_csr :: "('m, u8) cpu_sm" where
  [cpu_defs]: "read_packed_csr = gets (\<lambda>c. csr_read_packed (c_csrs c))"

definition write_packed_csr :: "u8 \<Rightarrow> ('m, unit) cpu_sm" where
  [cpu_defs]: "write_packed_csr v = modify (on_csrs (csr_write_packed v))"

definition write_csr :: "csr \<Rightarrow> bool \<Rightarrow> ('m, unit) cpu_sm" where
  "write_csr f v =
     andthen read_packed_csr (\<lambda>packed.
       write_packed_csr (if v then packed OR csr_bit f else packed AND NOT (csr_bit f)))"

definition read_csr :: "csr \<Rightarrow> ('m, bool) cpu_sm" where
  "read_csr f = andthen read_packed_csr (\<lambda>packed. ret (packed AND csr_bit f \<noteq> 0))"

text \<open>
  \<^verbatim>\<open>target->read<u16, bits::host_is_le>\<close>, \<^verbatim>\<open>target->read<u8>\<close> and the writes, under the
  processor's own operation.  Addresses are those of the target, 32 bits wide.
\<close>

definition mem_read16 :: "'m cpu_target \<Rightarrow> u32 \<Rightarrow> ('m, u16) cpu_sm" where
  "mem_read16 t a = andthen (gets c_op_data) (\<lambda>p. on_mem (read_int t True 0 a p))"

definition mem_read8 :: "'m cpu_target \<Rightarrow> u32 \<Rightarrow> ('m, u8) cpu_sm" where
  "mem_read8 t a = andthen (gets c_op_data) (\<lambda>p. on_mem (read_int t False 0 a p))"

definition mem_write16 :: "'m cpu_target \<Rightarrow> u32 \<Rightarrow> u16 \<Rightarrow> ('m, unit) cpu_sm" where
  "mem_write16 t a v = andthen (gets c_op_data) (\<lambda>p. on_mem (write_int t True a v p))"

definition mem_write8 :: "'m cpu_target \<Rightarrow> u32 \<Rightarrow> u8 \<Rightarrow> ('m, unit) cpu_sm" where
  "mem_write8 t a v = andthen (gets c_op_data) (\<lambda>p. on_mem (write_int t False a v p))"

definition mem_read_bytes :: "'m cpu_target \<Rightarrow> u32 \<Rightarrow> u8 list \<Rightarrow> ('m, u8 list) cpu_sm" where
  "mem_read_bytes t a dest = andthen (gets c_op_data) (\<lambda>p. on_mem (t_read t a dest p))"

definition mem_write_bytes :: "'m cpu_target \<Rightarrow> u32 \<Rightarrow> u8 list \<Rightarrow> ('m, unit) cpu_sm" where
  "mem_write_bytes t a src = andthen (gets c_op_data) (\<lambda>p. on_mem (t_write t a src p))"

text \<open>The call depth is recorded as an increment.\<close>

definition change_call_depth :: "u16 \<Rightarrow> 'm cpu \<Rightarrow> 'm cpu" where
  "change_call_depth d c =
     (let c1 = c\<lparr>c_call_depth := c_call_depth c + d\<rparr>
      in if c_may_trace c1
         then c1\<lparr>c_tb := emit_incr_register (c_trace c1) (c_op_data c1) (c_ref_call_depth c1) d (c_tb c1)\<rparr>
         else c1)"

definition increment_call_depth :: "('m, unit) cpu_sm" where
  [cpu_defs]: "increment_call_depth = modify (change_call_depth 1)"

definition decrement_call_depth :: "('m, unit) cpu_sm" where
  [cpu_defs]: "decrement_call_depth = modify (change_call_depth (- 1))"

section \<open>Operand addresses\<close>

definition decode_op_addr :: "'m cpu_target \<Rightarrow> shared_addr_mode \<Rightarrow> ('m, u16) cpu_sm" where
  "decode_op_addr t a =
     andthen read_pc (\<lambda>pc.
     andthen (write_pc (pc + 2)) (\<lambda>_.
     andthen (mem_read16 t (ucast pc)) (\<lambda>opr.
     andthen (write_register R_OS opr) (\<lambda>_.
       case a of
         SA_I \<Rightarrow> ret pc
       | SA_N \<Rightarrow> mem_read16 t (ucast opr)
       | SA_D \<Rightarrow> ret opr
       | SA_SF \<Rightarrow> andthen (read_register R_SP) (\<lambda>sp. mem_read16 t (ucast (sp + opr)))
       | SA_S \<Rightarrow> andthen (read_register R_SP) (\<lambda>sp. ret (sp + opr))
       | SA_X \<Rightarrow> andthen (read_register R_X) (\<lambda>x. ret (x + opr))
       | SA_SX \<Rightarrow> andthen (read_register R_X) (\<lambda>x. andthen (read_register R_SP) (\<lambda>sp. ret (x + sp + opr)))
       | SA_SFX \<Rightarrow> andthen (read_register R_SP) (\<lambda>sp.
                   andthen (read_register R_X) (\<lambda>x.
                   andthen (mem_read16 t (ucast (sp + opr))) (\<lambda>w. ret (x + w))))
       | SA_Unary \<Rightarrow> throw (LogicError ''Invalid addressing mode for decode_op_addr'')))))"

section \<open>Handlers of the unary instructions\<close>

definition unimpl_handler :: "('m, unit) cpu_sm" where
  "unimpl_handler = throw (LogicError ''Unimplemented instruction encountered'')"

definition handle_ret :: "'m cpu_target \<Rightarrow> ('m, unit) cpu_sm" where
  "handle_ret t =
     andthen decrement_call_depth (\<lambda>_.
     andthen (read_register R_SP) (\<lambda>sp.
     andthen (mem_read16 t (ucast sp)) (\<lambda>ad.
     andthen (write_pc ad) (\<lambda>_.
       write_register R_SP (sp + 2)))))"

text \<open>
  The context block is 14 bytes of uninitialised storage of which the bank fills the first 12; an
  address past the stack pointer is a sum of \<open>int\<close>s, so it does not wrap at 16 bits.
\<close>

definition ctx_load :: "'m cpu_target \<Rightarrow> u32 \<Rightarrow> pep_register \<Rightarrow> u8 list \<Rightarrow> ('m, u8 list) cpu_sm" where
  "ctx_load t a r ctx =
     (let at_ctx = 2 * unat (register_u8 r) in
      andthen (mem_read_bytes t a (take 2 (drop at_ctx ctx))) (\<lambda>bs. ret (patch ctx at_ctx bs)))"

definition handle_sret :: "'m cpu_target \<Rightarrow> ('m, unit) cpu_sm" where
  "handle_sret t =
     (let ctx0 = replicate (max (2 * RegisterCount10) 12) 0 in
     andthen (read_register R_SP) (\<lambda>sp.
     andthen (gets (\<lambda>c. unat (size_inclusive (bank_span (c_regs c, c_tb c))))) (\<lambda>tmp.
     andthen (gets c_op_data) (\<lambda>p.
     andthen (on_regs_t (bank_read 0 (take tmp ctx0) p)) (\<lambda>bs.
     andthen (mem_read8 t (ucast sp)) (\<lambda>csrs.
     andthen (write_packed_csr csrs) (\<lambda>_.
     andthen (ctx_load t (ucast sp + 1) R_A (patch ctx0 0 bs)) (\<lambda>ctx1.
     andthen (ctx_load t (ucast sp + 3) R_X ctx1) (\<lambda>ctx2.
     andthen (ctx_load t (ucast sp + 5) R_PC ctx2) (\<lambda>ctx3.
     andthen (ctx_load t (ucast sp + 7) R_SP ctx3) (\<lambda>ctx4.
     andthen (on_regs_t (bank_write 0 (take tmp ctx4) p)) (\<lambda>_.
     andthen (read_register R_PC) (\<lambda>pc.
     andthen (write_pc pc) (\<lambda>_.
     andthen (mem_write_bytes t (ucast (vector_address10 MV10_SystemStackPtr)) (to_le (byteswap (sp + 12)))) (\<lambda>_.
       decrement_call_depth)))))))))))))))"

definition handle_movflga :: "('m, unit) cpu_sm" where
  "handle_movflga = andthen read_packed_csr (\<lambda>nzvc. write_register R_A (ucast nzvc))"

definition handle_movaflg :: "('m, unit) cpu_sm" where
  "handle_movaflg = andthen (read_register R_A) (\<lambda>a. write_packed_csr (ucast a))"

definition handle_movspa :: "('m, unit) cpu_sm" where
  "handle_movspa = andthen (read_register R_SP) (\<lambda>sp. write_register R_A sp)"

definition handle_movasp :: "('m, unit) cpu_sm" where
  "handle_movasp = andthen (read_register R_A) (\<lambda>a. write_register R_SP a)"

definition handle_nop :: "('m, unit) cpu_sm" where
  "handle_nop = ret ()"

definition handle_negr :: "pep_register \<Rightarrow> ('m, unit) cpu_sm" where
  "handle_negr r =
     andthen (read_register r) (\<lambda>src.
       let tmp = NOT src + 1;
           n = (tmp AND 0x8000 \<noteq> 0);
           z = (tmp = 0);
           v = (tmp = 0x8000);
           c = (src = 0)
       in andthen (write_register r tmp) (\<lambda>_. write_packed_csr (csr_pack n z v c)))"

definition handle_aslr :: "pep_register \<Rightarrow> ('m, unit) cpu_sm" where
  "handle_aslr r =
     andthen (read_register r) (\<lambda>src.
       let tmp = push_bit 1 src;
           n = (tmp AND 0x8000 \<noteq> 0);
           z = (tmp = 0);
           v = (drop_bit 15 (src XOR tmp) \<noteq> 0);
           c = (src AND 0x8000 \<noteq> 0)
       in andthen (write_register r tmp) (\<lambda>_. write_packed_csr (csr_pack n z v c)))"

definition handle_asrr :: "pep_register \<Rightarrow> ('m, unit) cpu_sm" where
  "handle_asrr r =
     andthen (read_register r) (\<lambda>src.
       let tmp = drop_bit 1 src OR (if src AND 0x8000 \<noteq> 0 then push_bit 15 1 else 0);
           n = (tmp AND 0x8000 \<noteq> 0);
           z = (tmp = 0);
           c = (src AND 0x1 \<noteq> 0);
           v = False
       in andthen (write_register r tmp) (\<lambda>_. write_packed_csr (csr_pack n z v c)))"

definition handle_notr :: "pep_register \<Rightarrow> ('m, unit) cpu_sm" where
  "handle_notr r =
     andthen (read_register r) (\<lambda>src.
     andthen read_packed_csr (\<lambda>nzvc.
       let (n, z, v, c) = csr_unpack nzvc;
           tmp = NOT src;
           n = (tmp AND 0x8000 \<noteq> 0);
           z = (tmp = 0)
       in andthen (write_register r tmp) (\<lambda>_. write_packed_csr (csr_pack n z v c))))"

definition handle_rolr :: "pep_register \<Rightarrow> ('m, unit) cpu_sm" where
  "handle_rolr r =
     andthen (read_register r) (\<lambda>src.
     andthen read_packed_csr (\<lambda>nzvc.
       let (n, z, v, c) = csr_unpack nzvc;
           tmp = push_bit 1 src OR (if c then 1 else 0);
           n = (tmp AND 0x8000 \<noteq> 0);
           z = (tmp = 0);
           c = (src AND 0x8000 \<noteq> 0)
       in andthen (write_register r tmp) (\<lambda>_. write_packed_csr (csr_pack n z v c))))"

definition handle_rorr :: "pep_register \<Rightarrow> ('m, unit) cpu_sm" where
  "handle_rorr r =
     andthen (read_register r) (\<lambda>src.
     andthen read_packed_csr (\<lambda>nzvc.
       let (n, z, v, c) = csr_unpack nzvc;
           tmp = drop_bit 1 src OR (if c then push_bit 15 1 else 0);
           n = (tmp AND 0x8000 \<noteq> 0);
           z = (tmp = 0);
           c = (src AND 0x1 \<noteq> 0)
       in andthen (write_register r tmp) (\<lambda>_. write_packed_csr (csr_pack n z v c))))"

section \<open>Handlers of the instructions with an operand\<close>

datatype branch_condition =
    BC_UNCONDITIONAL | BC_LE | BC_LT | BC_EQ | BC_NE | BC_GE | BC_GT | BC_V | BC_C

fun branch_taken :: "branch_condition \<Rightarrow> bool \<times> bool \<times> bool \<times> bool \<Rightarrow> bool" where
  "branch_taken BC_UNCONDITIONAL (n, z, v, c) = True"
| "branch_taken BC_LE (n, z, v, c) = (n \<or> z)"
| "branch_taken BC_LT (n, z, v, c) = n"
| "branch_taken BC_EQ (n, z, v, c) = z"
| "branch_taken BC_NE (n, z, v, c) = (\<not> z)"
| "branch_taken BC_GE (n, z, v, c) = (\<not> n)"
| "branch_taken BC_GT (n, z, v, c) = (\<not> n \<and> \<not> z)"
| "branch_taken BC_V (n, z, v, c) = v"
| "branch_taken BC_C (n, z, v, c) = c"

definition handle_branch :: "'m cpu_target \<Rightarrow> branch_condition \<Rightarrow> u16 \<Rightarrow> ('m, unit) cpu_sm" where
  "handle_branch t cond op_addr =
     andthen read_packed_csr (\<lambda>nzvc.
     andthen (mem_read16 t (ucast op_addr)) (\<lambda>op_spec.
       when_sm (branch_taken cond (csr_unpack nzvc)) (write_pc op_spec)))"

definition handle_unconditional_branch :: "'m cpu_target \<Rightarrow> u16 \<Rightarrow> ('m, unit) cpu_sm" where
  "handle_unconditional_branch t op_addr = andthen (mem_read16 t (ucast op_addr)) write_pc"

definition handle_call :: "'m cpu_target \<Rightarrow> u16 \<Rightarrow> ('m, unit) cpu_sm" where
  "handle_call t op_addr =
     andthen (mem_read16 t (ucast op_addr)) (\<lambda>op_spec.
     andthen read_pc (\<lambda>pc.
     andthen (read_register R_SP) (\<lambda>sp.
     andthen (mem_write16 t (ucast (sp - 2)) pc) (\<lambda>_.
     andthen (write_register R_SP (sp - 2)) (\<lambda>_.
     andthen (write_pc op_spec) (\<lambda>_.
       increment_call_depth))))))"

definition handle_addsp :: "'m cpu_target \<Rightarrow> u16 \<Rightarrow> ('m, unit) cpu_sm" where
  "handle_addsp t op_addr =
     andthen (mem_read16 t (ucast op_addr)) (\<lambda>op_spec.
     andthen (read_register R_SP) (\<lambda>sp. write_register R_SP (sp + op_spec)))"

definition handle_subsp :: "'m cpu_target \<Rightarrow> u16 \<Rightarrow> ('m, unit) cpu_sm" where
  "handle_subsp t op_addr =
     andthen (mem_read16 t (ucast op_addr)) (\<lambda>op_spec.
     andthen (read_register R_SP) (\<lambda>sp. write_register R_SP (sp - op_spec)))"

definition handle_addr :: "'m cpu_target \<Rightarrow> shared_op \<Rightarrow> u16 \<Rightarrow> ('m, unit) cpu_sm" where
  "handle_addr t op op_addr =
     (let reg = register_of_u8 (target op) in
     andthen (mem_read16 t (ucast op_addr)) (\<lambda>op_spec.
     andthen (read_register reg) (\<lambda>src.
       let tmp = src + op_spec;
           n = (tmp AND 0x8000 \<noteq> 0);
           z = (tmp = 0);
           v = (drop_bit 15 (NOT (src XOR op_spec) AND (src XOR tmp)) \<noteq> 0);
           c = (tmp < src \<or> tmp < op_spec)
       in andthen (write_register reg tmp) (\<lambda>_. write_packed_csr (csr_pack n z v c)))))"

text \<open>
  The overflow flag of the subtraction is computed on \<open>int\<close>s, but one of the two sides of the
  conjunction, \<open>src ^ tmp\<close>, has only 16 bits, so 16 bits decide it.
\<close>

definition handle_subr :: "'m cpu_target \<Rightarrow> shared_op \<Rightarrow> u16 \<Rightarrow> ('m, unit) cpu_sm" where
  "handle_subr t op op_addr =
     (let reg = register_of_u8 (target op) in
     andthen (mem_read16 t (ucast op_addr)) (\<lambda>operand.
     andthen (read_register reg) (\<lambda>src.
       let tmp = src + NOT operand + 1;
           n = (tmp AND 0x8000 \<noteq> 0);
           z = (tmp = 0);
           v = (drop_bit 15 (NOT (src XOR (NOT operand + 1)) AND (src XOR tmp)) \<noteq> 0);
           c = (tmp < src \<or> tmp < 1 + NOT operand)
       in andthen (write_register reg tmp) (\<lambda>_. write_packed_csr (csr_pack n z v c)))))"

datatype bitop = Bitop_AND | Bitop_OR | Bitop_XOR

fun bitop_result :: "bitop \<Rightarrow> u16 \<Rightarrow> u16 \<Rightarrow> u16" where
  "bitop_result Bitop_AND src op_spec = src AND op_spec"
| "bitop_result Bitop_OR src op_spec = src OR op_spec"
| "bitop_result Bitop_XOR src op_spec = src XOR op_spec"

definition handle_bitopr :: "'m cpu_target \<Rightarrow> shared_op \<Rightarrow> bitop \<Rightarrow> u16 \<Rightarrow> ('m, unit) cpu_sm" where
  "handle_bitopr t op bop op_addr =
     (let reg = register_of_u8 (target op) in
     andthen (mem_read16 t (ucast op_addr)) (\<lambda>op_spec.
     andthen (read_register reg) (\<lambda>src.
     andthen read_packed_csr (\<lambda>nzvc.
       let (n, z, v, c) = csr_unpack nzvc;
           tmp = bitop_result bop src op_spec;
           n = (tmp AND 0x8000 \<noteq> 0);
           z = (tmp = 0)
       in andthen (write_register reg tmp) (\<lambda>_. write_packed_csr (csr_pack n z v c))))))"

definition handle_cpwr :: "'m cpu_target \<Rightarrow> shared_op \<Rightarrow> u16 \<Rightarrow> ('m, unit) cpu_sm" where
  "handle_cpwr t op op_addr =
     (let reg = register_of_u8 (target op) in
     andthen (mem_read16 t (ucast op_addr)) (\<lambda>operand.
     andthen (read_register reg) (\<lambda>src.
       let neg = NOT operand + 1;
           tmp = src + neg;
           n = (tmp AND 0x8000 \<noteq> 0);
           z = (tmp = 0);
           v = (drop_bit 15 (NOT (src XOR neg) AND (src XOR tmp)) \<noteq> 0);
           c = (tmp < src \<or> tmp < neg);
           n = (n \<noteq> v)
       in write_packed_csr (csr_pack n z v c))))"

definition handle_cpbr :: "'m cpu_target \<Rightarrow> shared_op \<Rightarrow> u16 \<Rightarrow> ('m, unit) cpu_sm" where
  "handle_cpbr t op op_addr =
     (let reg = register_of_u8 (target op) in
     andthen (mem_read8 t (ucast op_addr + 1)) (\<lambda>op_spec.
     andthen (read_register reg) (\<lambda>src.
       let tmp = (src + NOT (ucast op_spec) + 1) AND 0xFF;
           n = (tmp AND 0x80 \<noteq> 0);
           z = (tmp = 0)
       in write_packed_csr (csr_pack n z False False))))"

definition handle_ldwr :: "'m cpu_target \<Rightarrow> shared_op \<Rightarrow> u16 \<Rightarrow> ('m, unit) cpu_sm" where
  "handle_ldwr t op op_addr =
     (let reg = register_of_u8 (target op) in
     andthen (mem_read16 t (ucast op_addr)) (\<lambda>op_spec.
     andthen read_packed_csr (\<lambda>nzvc.
       let (n, z, v, c) = csr_unpack nzvc;
           n = (op_spec AND 0x8000 \<noteq> 0);
           z = (op_spec = 0)
       in andthen (write_register reg op_spec) (\<lambda>_. write_packed_csr (csr_pack n z v c)))))"

definition handle_ldbr :: "'m cpu_target \<Rightarrow> shared_op \<Rightarrow> u16 \<Rightarrow> ('m, unit) cpu_sm" where
  "handle_ldbr t op op_addr =
     (let reg = register_of_u8 (target op) in
     andthen (mem_read8 t (ucast op_addr + 1)) (\<lambda>op_spec.
     andthen read_packed_csr (\<lambda>nzvc.
       let (n, z, v, c) = csr_unpack nzvc;
           n = False;
           z = (op_spec = 0)
       in andthen (write_register reg (ucast op_spec)) (\<lambda>_. write_packed_csr (csr_pack n z v c)))))"

definition handle_stwr :: "'m cpu_target \<Rightarrow> shared_op \<Rightarrow> u16 \<Rightarrow> ('m, unit) cpu_sm" where
  "handle_stwr t op op_addr =
     andthen (read_register (register_of_u8 (target op))) (\<lambda>src. mem_write16 t (ucast op_addr) src)"

definition handle_stbr :: "'m cpu_target \<Rightarrow> shared_op \<Rightarrow> u16 \<Rightarrow> ('m, unit) cpu_sm" where
  "handle_stbr t op op_addr =
     andthen (read_register (register_of_u8 (target op))) (\<lambda>src. mem_write8 t (ucast op_addr) (ucast src))"

section \<open>One instruction\<close>

definition handle :: "'m cpu_target \<Rightarrow> shared_op \<Rightarrow> ('m, unit) cpu_sm" where
  "handle t opcode =
     (let operand = decode_op_addr t (addr opcode);
          reg = register_of_u8 (target opcode)
      in case behavior opcode of
        B_UNIMPL \<Rightarrow> unimpl_handler
      | B_STOP \<Rightarrow> throw (LogicError ''Unimplemented instruction: STOP'')
      | B_RET \<Rightarrow> handle_ret t
      | B_SRET \<Rightarrow> handle_sret t
      | B_MOVFLGA \<Rightarrow> handle_movflga
      | B_MOVAFLG \<Rightarrow> handle_movaflg
      | B_MOVSPA \<Rightarrow> handle_movspa
      | B_MOVASP \<Rightarrow> handle_movasp
      | B_HW_NOP \<Rightarrow> handle_nop
      | B_NEG \<Rightarrow> handle_negr reg
      | B_ASL \<Rightarrow> handle_aslr reg
      | B_ASR \<Rightarrow> handle_asrr reg
      | B_NOT \<Rightarrow> handle_notr reg
      | B_ROL \<Rightarrow> handle_rolr reg
      | B_ROR \<Rightarrow> handle_rorr reg
      | B_SCALL \<Rightarrow> throw (LogicError ''Unimplemented instruction: SCALL'')
      | B_TRAP_CALL \<Rightarrow> throw (LogicError ''Unimplemented instruction: TRAP_CALL'')
      | B_BR \<Rightarrow> andthen operand (handle_unconditional_branch t)
      | B_BRLE \<Rightarrow> andthen operand (handle_branch t BC_LE)
      | B_BRLT \<Rightarrow> andthen operand (handle_branch t BC_LT)
      | B_BREQ \<Rightarrow> andthen operand (handle_branch t BC_EQ)
      | B_BRNE \<Rightarrow> andthen operand (handle_branch t BC_NE)
      | B_BRGE \<Rightarrow> andthen operand (handle_branch t BC_GE)
      | B_BRGT \<Rightarrow> andthen operand (handle_branch t BC_GT)
      | B_BRV \<Rightarrow> andthen operand (handle_branch t BC_V)
      | B_BRC \<Rightarrow> andthen operand (handle_branch t BC_C)
      | B_CALL \<Rightarrow> andthen operand (handle_call t)
      | B_ADDSP \<Rightarrow> andthen operand (handle_addsp t)
      | B_SUBSP \<Rightarrow> andthen operand (handle_subsp t)
      | B_ADD \<Rightarrow> andthen operand (handle_addr t opcode)
      | B_SUB \<Rightarrow> andthen operand (handle_subr t opcode)
      | B_AND \<Rightarrow> andthen operand (handle_bitopr t opcode Bitop_AND)
      | B_OR \<Rightarrow> andthen operand (handle_bitopr t opcode Bitop_OR)
      | B_XOR \<Rightarrow> andthen operand (handle_bitopr t opcode Bitop_XOR)
      | B_CPW \<Rightarrow> andthen operand (handle_cpwr t opcode)
      | B_CPB \<Rightarrow> andthen operand (handle_cpbr t opcode)
      | B_LDW \<Rightarrow> andthen operand (handle_ldwr t opcode)
      | B_LDB \<Rightarrow> andthen operand (handle_ldbr t opcode)
      | B_STW \<Rightarrow> andthen operand (handle_stwr t opcode)
      | B_STB \<Rightarrow> andthen operand (handle_stbr t opcode)
      | B_INVALID \<Rightarrow> throw (LogicError ''Unknown opcode behavior'')
      | B_MAX_VALUE \<Rightarrow> throw (LogicError ''Unknown opcode behavior''))"

text \<open>
  The end of an instruction: a program counter that moved by 0 to 3 is recorded as an increment, any
  other as the store of a register.
\<close>

definition write_back_pc :: "u16 \<Rightarrow> ('m, unit) cpu_sm" where
  "write_back_pc init_pc =
     andthen read_pc (\<lambda>pc.
       let pc_delta = (uint pc - uint init_pc :: int) in
       if pc_delta AND 3 = pc_delta
       then modify (\<lambda>c. c\<lparr>
              c_tb := (if c_may_trace c
                       then emit_incr_register (c_trace c) (c_op_data c) (bank_ref R_PC (c_regs c))
                              (word_of_int pc_delta) (c_tb c)
                       else c_tb c),
              c_regs := write_pc_untraced pc (c_regs c)\<rparr>)
       else write_register_uncached R_PC pc)"

definition execute_instruction :: "'m cpu_target \<Rightarrow> ('m, unit) cpu_sm" where
  "execute_instruction t =
     andthen (read_register_uncached R_PC) (\<lambda>init_pc.
     andthen (write_pc init_pc) (\<lambda>_.
     andthen (mem_read8 t (ucast init_pc)) (\<lambda>is.
     andthen (write_pc (init_pc + 1)) (\<lambda>_.
     andthen (write_register R_IS (ucast is)) (\<lambda>_.
     andthen (gets c_opcodes) (\<lambda>opcodes.
     andthen (handle t (opcodes ! unat is)) (\<lambda>_.
       write_back_pc init_pc)))))))"

definition clock_tick :: "'m cpu_target \<Rightarrow> ('m, unit) cpu_sm" where
  "clock_tick t = (\<lambda>c.
     case instruction_open (c_trace c) (c_may_trace c) (c_tb c) of
       (Inl e, tb) \<Rightarrow> (Inl e, c\<lparr>c_tb := tb\<rparr>)
     | (Inr opened, tb) \<Rightarrow>
         (case execute_instruction t (c\<lparr>c_tb := instruction_tick opened 1 tb\<rparr>) of
            (Inl e, c') \<Rightarrow> (Inl e, c'\<lparr>c_tb := instruction_abort opened (c_tb c')\<rparr>)
          | (Inr _, c') \<Rightarrow>
              (Inr (), c'\<lparr>c_tb := instruction_commit opened (c_tb c'),
                          c_instructions := c_instructions c' + 1\<rparr>)))"

end
