(* ===== verification/Pep_Machine.thy ===== *)
theory Pep_Machine
  imports Register_Banks
begin

text \<open>
  The abstract machine that the Pep processor promises to be: six registers, four flags, a program
  counter among the registers, a call depth, and 64 KiB of bytes.  There are no trace, no working
  copies, no packed flags and no devices, and the arithmetic is that of mathematical integers.  The
  processor is proved to implement it.  Failing, as an access past the last byte or an instruction
  that is not implemented does, is the only error.

  The return from a system call is left out: what the processor does on it is stated apart.
\<close>

type_synonym nzvc = "bool \<times> bool \<times> bool \<times> bool"

record machine =
  m_reg :: "pep_register \<Rightarrow> u16"
  m_flags :: nzvc
  m_mem :: "nat \<Rightarrow> u8"
  m_depth :: u16

type_synonym 'a mach = "(machine, unit, 'a) sm"

definition get_reg :: "pep_register \<Rightarrow> u16 mach" where
  "get_reg r = gets (\<lambda>m. m_reg m r)"

definition set_reg :: "pep_register \<Rightarrow> u16 \<Rightarrow> unit mach" where
  "set_reg r v = modify (\<lambda>m. m\<lparr>m_reg := (m_reg m)(r := stored r v)\<rparr>)"

definition get_flags :: "nzvc mach" where
  "get_flags = gets m_flags"

definition set_flags :: "nzvc \<Rightarrow> unit mach" where
  "set_flags f = modify (\<lambda>m. m\<lparr>m_flags := f\<rparr>)"

definition add_depth :: "u16 \<Rightarrow> unit mach" where
  "add_depth d = modify (\<lambda>m. m\<lparr>m_depth := m_depth m + d\<rparr>)"

definition mem_size :: nat where
  "mem_size = 65536"

definition load8 :: "nat \<Rightarrow> u8 mach" where
  "load8 a = (\<lambda>m. if a < mem_size then (Inr (m_mem m a), m) else (Inl (), m))"

definition load16 :: "nat \<Rightarrow> u16 mach" where
  "load16 a = (\<lambda>m. if a + 1 < mem_size then (Inr (join_bytes (m_mem m a) (m_mem m (a + 1))), m) else (Inl (), m))"

definition store8 :: "nat \<Rightarrow> u8 \<Rightarrow> unit mach" where
  "store8 a v = (\<lambda>m. if a < mem_size then (Inr (), m\<lparr>m_mem := put_bytes (m_mem m) a [v]\<rparr>) else (Inl (), m))"

definition store16 :: "nat \<Rightarrow> u16 \<Rightarrow> unit mach" where
  "store16 a v = (\<lambda>m.
     if a + 1 < mem_size then (Inr (), m\<lparr>m_mem := put_bytes (m_mem m) a [hi_byte v, lo_byte v]\<rparr>)
     else (Inl (), m))"

section \<open>Arithmetic\<close>

text \<open>A result with the flags it sets, from the flags before.\<close>

definition negative :: "u16 \<Rightarrow> bool" where
  "negative w \<longleftrightarrow> sint w < 0"

definition fits :: "int \<Rightarrow> bool" where
  "fits i \<longleftrightarrow> - (2 ^ 15) \<le> i \<and> i < 2 ^ 15"

definition alu_neg :: "u16 \<Rightarrow> nzvc \<Rightarrow> u16 \<times> nzvc" where
  "alu_neg a f = (let r = word_of_int (- sint a) in (r, (negative r, r = 0, \<not> fits (- sint a), a = 0)))"

definition alu_asl :: "u16 \<Rightarrow> nzvc \<Rightarrow> u16 \<times> nzvc" where
  "alu_asl a f = (let r = word_of_int (2 * sint a) in (r, (negative r, r = 0, \<not> fits (2 * sint a), negative a)))"

definition alu_asr :: "u16 \<Rightarrow> nzvc \<Rightarrow> u16 \<times> nzvc" where
  "alu_asr a f = (let r = word_of_int (sint a div 2) in (r, (negative r, r = 0, False, odd (unat a))))"

definition alu_not :: "u16 \<Rightarrow> nzvc \<Rightarrow> u16 \<times> nzvc" where
  "alu_not a f = (case f of (n, z, v, c) \<Rightarrow>
     let r = word_of_int (- sint a - 1) in (r, (negative r, r = 0, v, c)))"

definition alu_rol :: "u16 \<Rightarrow> nzvc \<Rightarrow> u16 \<times> nzvc" where
  "alu_rol a f = (case f of (n, z, v, c) \<Rightarrow>
     let r = word_of_nat (2 * unat a + of_bool c) in (r, (negative r, r = 0, v, 2 ^ 16 \<le> 2 * unat a)))"

definition alu_ror :: "u16 \<Rightarrow> nzvc \<Rightarrow> u16 \<times> nzvc" where
  "alu_ror a f = (case f of (n, z, v, c) \<Rightarrow>
     let r = word_of_nat (unat a div 2 + 2 ^ 15 * of_bool c) in (r, (negative r, r = 0, v, odd (unat a))))"

definition alu_add :: "u16 \<Rightarrow> u16 \<Rightarrow> nzvc \<Rightarrow> u16 \<times> nzvc" where
  "alu_add a b f =
     (let r = word_of_int (sint a + sint b)
      in (r, (negative r, r = 0, \<not> fits (sint a + sint b), 2 ^ 16 \<le> unat a + unat b)))"

text \<open>
  Subtraction adds the negated operand.  For the operand -32768, whose negation is itself, the
  overflow flag comes out inverted; and subtracting 0 does not set the carry.
\<close>

definition alu_sub :: "u16 \<Rightarrow> u16 \<Rightarrow> nzvc \<Rightarrow> u16 \<times> nzvc" where
  "alu_sub a b f =
     (let r = word_of_int (sint a - sint b)
      in (r, (negative r, r = 0, fits (sint a - sint b) = (sint b = - (2 ^ 15)), unat b \<noteq> 0 \<and> unat b \<le> unat a)))"

definition alu_bitop :: "(bool \<Rightarrow> bool \<Rightarrow> bool) \<Rightarrow> u16 \<Rightarrow> u16 \<Rightarrow> nzvc \<Rightarrow> u16 \<times> nzvc" where
  "alu_bitop g a b f = (case f of (n, z, v, c) \<Rightarrow>
     let r = horner_sum of_bool 2 (map (\<lambda>k. g (bit a k) (bit b k)) [0..<16])
     in (r, (negative r, r = 0, v, c)))"

definition alu_load :: "u16 \<Rightarrow> nzvc \<Rightarrow> nzvc" where
  "alu_load b f = (case f of (n, z, v, c) \<Rightarrow> (negative b, b = 0, v, c))"

definition alu_load_byte :: "u8 \<Rightarrow> nzvc \<Rightarrow> nzvc" where
  "alu_load_byte b f = (case f of (n, z, v, c) \<Rightarrow> (False, b = 0, v, c))"

text \<open>
  The comparison of words: \<open>N\<close> tells whether the register is less than the operand as a signed
  number, again but for the operand -32768, for which it is always set.
\<close>

definition alu_compare :: "u16 \<Rightarrow> u16 \<Rightarrow> nzvc" where
  "alu_compare a b =
     (sint a < sint b \<or> sint b = - (2 ^ 15), a = b,
      fits (sint a - sint b) = (sint b = - (2 ^ 15)), unat b \<noteq> 0 \<and> unat b \<le> unat a)"

definition alu_compare_byte :: "u16 \<Rightarrow> u8 \<Rightarrow> nzvc" where
  "alu_compare_byte a b = (sint (lo_byte a - b) < 0, lo_byte a = b, False, False)"

section \<open>Instructions\<close>

definition operand_address :: "shared_addr_mode \<Rightarrow> u16 mach" where
  "operand_address a =
     andthen (get_reg R_PC) (\<lambda>pc.
     andthen (set_reg R_PC (pc + 2)) (\<lambda>_.
     andthen (load16 (unat pc)) (\<lambda>os.
     andthen (set_reg R_OS os) (\<lambda>_.
     andthen (get_reg R_SP) (\<lambda>sp.
     andthen (get_reg R_X) (\<lambda>x.
       case a of
         SA_I \<Rightarrow> ret pc
       | SA_D \<Rightarrow> ret os
       | SA_N \<Rightarrow> load16 (unat os)
       | SA_S \<Rightarrow> ret (sp + os)
       | SA_SF \<Rightarrow> load16 (unat (sp + os))
       | SA_X \<Rightarrow> ret (x + os)
       | SA_SX \<Rightarrow> ret (x + sp + os)
       | SA_SFX \<Rightarrow> andthen (load16 (unat (sp + os))) (\<lambda>w. ret (x + w))
       | SA_Unary \<Rightarrow> throw ()))))))"

definition do_unary :: "pep_register \<Rightarrow> (u16 \<Rightarrow> nzvc \<Rightarrow> u16 \<times> nzvc) \<Rightarrow> unit mach" where
  "do_unary r alu =
     andthen (get_reg r) (\<lambda>a. andthen get_flags (\<lambda>f.
     andthen (set_reg r (fst (alu a f))) (\<lambda>_. set_flags (snd (alu a f)))))"

definition do_binary :: "pep_register \<Rightarrow> (u16 \<Rightarrow> u16 \<Rightarrow> nzvc \<Rightarrow> u16 \<times> nzvc) \<Rightarrow> u16 \<Rightarrow> unit mach" where
  "do_binary r alu ad = andthen (load16 (unat ad)) (\<lambda>b. do_unary r (\<lambda>a f. alu a b f))"

definition do_branch :: "(nzvc \<Rightarrow> bool) \<Rightarrow> u16 \<Rightarrow> unit mach" where
  "do_branch cond ad =
     andthen get_flags (\<lambda>f. andthen (load16 (unat ad)) (\<lambda>b. when_sm (cond f) (set_reg R_PC b)))"

definition perform :: "shared_op \<Rightarrow> unit mach" where
  "perform op =
     (let operand = operand_address (addr op); r = register_of_u8 (target op) in
      case behavior op of
        B_RET \<Rightarrow> andthen (add_depth (- 1)) (\<lambda>_. andthen (get_reg R_SP) (\<lambda>sp.
                 andthen (load16 (unat sp)) (\<lambda>ad. andthen (set_reg R_PC ad) (\<lambda>_. set_reg R_SP (sp + 2)))))
      | B_MOVFLGA \<Rightarrow> andthen get_flags (\<lambda>(n, z, v, c).
                 set_reg R_A (8 * of_bool n + 4 * of_bool z + 2 * of_bool v + of_bool c))
      | B_MOVAFLG \<Rightarrow> andthen (get_reg R_A) (\<lambda>a. set_flags (bit a 3, bit a 2, bit a 1, bit a 0))
      | B_MOVSPA \<Rightarrow> andthen (get_reg R_SP) (set_reg R_A)
      | B_MOVASP \<Rightarrow> andthen (get_reg R_A) (set_reg R_SP)
      | B_HW_NOP \<Rightarrow> ret ()
      | B_NEG \<Rightarrow> do_unary r alu_neg
      | B_ASL \<Rightarrow> do_unary r alu_asl
      | B_ASR \<Rightarrow> do_unary r alu_asr
      | B_NOT \<Rightarrow> do_unary r alu_not
      | B_ROL \<Rightarrow> do_unary r alu_rol
      | B_ROR \<Rightarrow> do_unary r alu_ror
      | B_BR \<Rightarrow> andthen operand (do_branch (\<lambda>_. True))
      | B_BRLE \<Rightarrow> andthen operand (do_branch (\<lambda>(n, z, v, c). n \<or> z))
      | B_BRLT \<Rightarrow> andthen operand (do_branch (\<lambda>(n, z, v, c). n))
      | B_BREQ \<Rightarrow> andthen operand (do_branch (\<lambda>(n, z, v, c). z))
      | B_BRNE \<Rightarrow> andthen operand (do_branch (\<lambda>(n, z, v, c). \<not> z))
      | B_BRGE \<Rightarrow> andthen operand (do_branch (\<lambda>(n, z, v, c). \<not> n))
      | B_BRGT \<Rightarrow> andthen operand (do_branch (\<lambda>(n, z, v, c). \<not> n \<and> \<not> z))
      | B_BRV \<Rightarrow> andthen operand (do_branch (\<lambda>(n, z, v, c). v))
      | B_BRC \<Rightarrow> andthen operand (do_branch (\<lambda>(n, z, v, c). c))
      | B_CALL \<Rightarrow> andthen operand (\<lambda>ad. andthen (load16 (unat ad)) (\<lambda>dest.
                 andthen (get_reg R_PC) (\<lambda>pc. andthen (get_reg R_SP) (\<lambda>sp.
                 andthen (store16 (unat (sp - 2)) pc) (\<lambda>_. andthen (set_reg R_SP (sp - 2)) (\<lambda>_.
                 andthen (set_reg R_PC dest) (\<lambda>_. add_depth 1)))))))
      | B_ADDSP \<Rightarrow> andthen operand (\<lambda>ad. andthen (load16 (unat ad)) (\<lambda>b.
                 andthen (get_reg R_SP) (\<lambda>sp. set_reg R_SP (sp + b))))
      | B_SUBSP \<Rightarrow> andthen operand (\<lambda>ad. andthen (load16 (unat ad)) (\<lambda>b.
                 andthen (get_reg R_SP) (\<lambda>sp. set_reg R_SP (sp - b))))
      | B_ADD \<Rightarrow> andthen operand (do_binary r alu_add)
      | B_SUB \<Rightarrow> andthen operand (do_binary r alu_sub)
      | B_AND \<Rightarrow> andthen operand (do_binary r (alu_bitop (\<and>)))
      | B_OR \<Rightarrow> andthen operand (do_binary r (alu_bitop (\<or>)))
      | B_XOR \<Rightarrow> andthen operand (do_binary r (alu_bitop (\<noteq>)))
      | B_CPW \<Rightarrow> andthen operand (\<lambda>ad. andthen (load16 (unat ad)) (\<lambda>b.
                 andthen (get_reg r) (\<lambda>a. set_flags (alu_compare a b))))
      | B_CPB \<Rightarrow> andthen operand (\<lambda>ad. andthen (load8 (unat ad + 1)) (\<lambda>b.
                 andthen (get_reg r) (\<lambda>a. set_flags (alu_compare_byte a b))))
      | B_LDW \<Rightarrow> andthen operand (\<lambda>ad. andthen (load16 (unat ad)) (\<lambda>b.
                 andthen get_flags (\<lambda>f. andthen (set_reg r b) (\<lambda>_. set_flags (alu_load b f)))))
      | B_LDB \<Rightarrow> andthen operand (\<lambda>ad. andthen (load8 (unat ad + 1)) (\<lambda>b.
                 andthen get_flags (\<lambda>f. andthen (set_reg r (ucast b)) (\<lambda>_. set_flags (alu_load_byte b f)))))
      | B_STW \<Rightarrow> andthen operand (\<lambda>ad. andthen (get_reg r) (\<lambda>a. store16 (unat ad) a))
      | B_STB \<Rightarrow> andthen operand (\<lambda>ad. andthen (get_reg r) (\<lambda>a. store8 (unat ad) (lo_byte a)))
      | _ \<Rightarrow> throw ())"

definition machine_step :: "shared_op list \<Rightarrow> unit mach" where
  "machine_step plane =
     andthen (get_reg R_PC) (\<lambda>pc.
     andthen (load8 (unat pc)) (\<lambda>is.
     andthen (set_reg R_PC (pc + 1)) (\<lambda>_.
     andthen (set_reg R_IS (ucast is)) (\<lambda>_. perform (plane ! unat is)))))"

end
