(* ===== verification/Pep_Alu.thy ===== *)
theory Pep_Alu
  imports Pep_Machine
begin

text \<open>
  The arithmetic of the processor's handlers on 16-bit words equals that of the abstract machine on
  integers: results, and each of the four flags.
\<close>

named_theorems alu_facts "word computations of the handlers in terms of integers"

lemma sint_range: "- 32768 \<le> sint w" "sint w < 32768" for w :: u16
  using sint_greater_eq[of w] sint_less[of w] by simp_all

lemma top_bit [alu_facts]: "w AND 0x8000 \<noteq> 0 \<longleftrightarrow> negative w" for w :: u16
proof -
  have "w AND 0x8000 = 0 \<longleftrightarrow> \<not> bit w 15"
    using and_exp_eq_0_iff_not_bit[of w 15] by simp
  then show ?thesis using bit_last_iff[of w] by (simp add: negative_def)
qed

lemma bit_15 [alu_facts]: "bit w 15 \<longleftrightarrow> negative w" for w :: u16
  using bit_last_iff[of w] by (simp add: negative_def)

lemma drop_15: "drop_bit 15 w \<noteq> 0 \<longleftrightarrow> bit w 15" for w :: u16
proof
  assume "bit w 15"
  then have "bit (drop_bit 15 w) 0" by (simp add: bit_drop_bit_eq)
  then show "drop_bit 15 w \<noteq> 0" by auto
next
  assume "drop_bit 15 w \<noteq> 0"
  then obtain n where "bit (drop_bit 15 w) n" by (auto simp: bit_eq_iff)
  then have "bit w (15 + n)" by (simp add: bit_drop_bit_eq)
  moreover then have "15 + n < 16" using bit_imp_le_length by fastforce
  ultimately show "bit w 15" by (cases n) auto
qed

lemma sint_wrap:
  assumes "- 98304 \<le> s" "s < 98304"
  shows "sint (word_of_int s :: u16) = (if fits s then s else if s < 0 then s + 65536 else s - 65536)"
proof -
  have "sint (word_of_int s :: u16) = (s + 32768) mod 65536 - 32768"
    by (simp add: int_word_sint)
  moreover have "(s + 32768) mod 65536 = (s + 32768 + 65536) mod 65536"
    "(s + 32768) mod 65536 = (s + 32768 - 65536) mod 65536"
    by (simp_all only: mod_add_self2 minus_mod_self2)
  moreover have "s < - 32768 \<Longrightarrow> (s + 32768 + 65536) mod 65536 = s + 32768 + 65536"
    "- 32768 \<le> s \<Longrightarrow> s < 32768 \<Longrightarrow> (s + 32768) mod 65536 = s + 32768"
    "32768 \<le> s \<Longrightarrow> (s + 32768 - 65536) mod 65536 = s + 32768 - 65536"
    using assms by (simp_all add: mod_pos_pos_trivial)
  ultimately show ?thesis unfolding fits_def by (auto split: if_splits)
qed

lemma sum_overflow [alu_facts]:
  "drop_bit 15 (NOT (a XOR b) AND (a XOR (a + b))) \<noteq> 0 \<longleftrightarrow> \<not> fits (sint a + sint b)" for a b :: u16
proof -
  have "(word_of_int (sint a + sint b) :: u16) = a + b" by (simp flip: wi_hom_add)
  then have "sint (a + b) = (if fits (sint a + sint b) then sint a + sint b
      else if sint a + sint b < 0 then sint a + sint b + 65536 else sint a + sint b - 65536)"
    using sint_wrap[of "sint a + sint b"] sint_range[of a] sint_range[of b] by simp
  moreover have "drop_bit 15 (NOT (a XOR b) AND (a XOR (a + b))) \<noteq> 0 \<longleftrightarrow>
      (negative a = negative b) \<and> (negative a \<noteq> negative (a + b))"
    unfolding drop_15 by (auto simp: bit_simps simp flip: bit_15)
  ultimately show ?thesis
    using sint_range[of a] sint_range[of b] by (auto simp: negative_def fits_def split: if_splits)
qed

lemma carry [alu_facts]: "a + b < a \<or> a + b < b \<longleftrightarrow> 2 ^ 16 \<le> unat a + unat b" for a b :: u16
  using unsigned_less[of a, where 'a = nat] unsigned_less[of b, where 'a = nat]
  by (auto simp: word_less_nat_alt unat_word_ariths(1) not_le mod_if)


text \<open>Subtraction is addition of the negation, which is exact but for -32768.\<close>

lemma sub_as_add: "a + NOT b + 1 = a - b" "NOT b + 1 = - b" "1 + NOT b = - b" "a + (NOT b + 1) = a - b" for a b :: u16
  by (simp_all add: not_eq_complement)

lemma sint_neg: "sint (- b) = (if sint b = - 32768 then - 32768 else - sint b)" for b :: u16
proof -
  have "(word_of_int (- sint b) :: u16) = - b" by (simp flip: wi_hom_neg)
  then show ?thesis using sint_wrap[of "- sint b"] sint_range[of b] by (auto simp: fits_def)
qed

lemma unat_neg: "unat (- b) = (if b = 0 then 0 else 65536 - unat b)" for b :: u16
  using unat_sub_if'[of 0 b] by (simp add: unat_eq_0)

lemma sub_overflow [alu_facts]:
  "drop_bit 15 (NOT (a XOR (- b)) AND (a XOR (a - b))) \<noteq> 0 \<longleftrightarrow>
   fits (sint a - sint b) = (sint b = - (2 ^ 15))" for a b :: u16
  using sum_overflow[of a "- b"] sint_neg[of b] sint_range[of a] sint_range[of b]
  by (auto simp: fits_def split: if_splits)

lemma sub_carry [alu_facts]:
  "a - b < a \<or> a - b < - b \<longleftrightarrow> unat b \<noteq> 0 \<and> unat b \<le> unat a" for a b :: u16
  using carry[of a "- b"] unsigned_less[of b, where 'a = nat]
  by (auto simp: unat_neg unat_eq_0)

lemma sub_result: "(word_of_int (sint a - sint b) :: u16) = a - b"
  by (simp flip: wi_hom_sub)

lemma add_result: "(word_of_int (sint a + sint b) :: u16) = a + b"
  by (simp flip: wi_hom_add)

lemma compare_negative:
  "(negative (a - b) \<noteq> (fits (sint a - sint b) = (sint b = - (2 ^ 15)))) \<longleftrightarrow>
   sint a < sint b \<or> sint b = - (2 ^ 15)" for a b :: u16
  using sint_wrap[of "sint a - sint b"] sint_range[of a] sint_range[of b]
  by (auto simp: sub_result negative_def fits_def split: if_splits)

lemma neg_result: "(word_of_int (- sint a) :: u16) = - a"
  by (simp flip: wi_hom_neg)

lemma neg_overflow: "- a = 0x8000 \<longleftrightarrow> \<not> fits (- sint a)" for a :: u16
proof -
  have "(- 0x8000 :: u16) = 0x8000" by simp
  then have "- a = 0x8000 \<longleftrightarrow> a = 0x8000" by (metis minus_minus)
  also have "\<dots> \<longleftrightarrow> sint a = sint (0x8000 :: u16)" by (auto intro: signed_word_eqI)
  also have "sint (0x8000 :: u16) = - 32768" by simp
  finally show ?thesis using sint_range[of a] by (auto simp: fits_def)
qed

lemma asl_result: "(word_of_int (2 * sint a) :: u16) = push_bit 1 a"
  by (simp add: push_bit_eq_mult flip: wi_hom_mult)

lemma asl_overflow: "drop_bit 15 (a XOR push_bit 1 a) \<noteq> 0 \<longleftrightarrow> \<not> fits (2 * sint a)" for a :: u16
proof -
  have "drop_bit 15 (a XOR push_bit 1 a) \<noteq> 0 \<longleftrightarrow> negative a \<noteq> negative (push_bit 1 a)"
    unfolding drop_15 by (simp add: bit_xor_iff flip: bit_15)
  then show ?thesis
    using sint_wrap[of "2 * sint a"] sint_range[of a] unfolding asl_result
    by (auto simp: negative_def fits_def split: if_splits)
qed

lemma asr_result: "(word_of_int (sint a div 2) :: u16) = drop_bit 1 a OR (if negative a then push_bit 15 1 else 0)"
proof (rule bit_word_eqI)
  fix n assume n: "n < LENGTH(16)"
  have h: "sint a div 2 = drop_bit 1 (sint a)" by (simp add: drop_bit_eq_div)
  have "bit (word_of_int (sint a div 2) :: u16) n \<longleftrightarrow> bit (sint a) (Suc n)"
    using n unfolding h by (simp add: bit_word_of_int_iff bit_drop_bit_eq)
  also have "\<dots> \<longleftrightarrow> bit a (min (Suc n) 15)"
    by (auto simp: bit_sint_iff min_def bit_imp_le_length not_less_eq_eq dest: bit_imp_le_length split: if_splits)
  also have "\<dots> \<longleftrightarrow> bit (drop_bit 1 a OR (if negative a then push_bit 15 1 else 0)) n"
  proof -
    have "bit (push_bit 15 (1 :: u16)) n \<longleftrightarrow> n = 15"
      using n by (auto simp: bit_push_bit_iff bit_1_iff simp del: push_bit_of_1)
    moreover have "min (Suc n) 15 = (if n = 15 then 15 else Suc n)" using n by (simp add: min_def)
    moreover have "\<not> bit a 16" using bit_imp_le_length[of a 16] by auto
    ultimately show ?thesis
      by (auto simp: bit_or_iff bit_drop_bit_eq simp flip: bit_15 simp del: push_bit_of_1)
  qed
  finally show "bit (word_of_int (sint a div 2) :: u16) n =
    bit (drop_bit 1 a OR (if negative a then push_bit 15 1 else 0)) n" .
qed

lemma low_bit [alu_facts]: "a AND 1 \<noteq> 0 \<longleftrightarrow> odd (unat a)" for a :: u16
  using bit_unsigned_iff[of a 0, where ?'a = nat] by (simp add: and_1_eq_0_iff bit_0)

lemma not_result: "(word_of_int (- sint a - 1) :: u16) = NOT a"
  by (simp add: not_eq_complement flip: wi_hom_sub wi_hom_neg)


lemma or_bit_add: "push_bit 1 a OR (if c then 1 else 0) = word_of_nat (2 * unat a + of_bool c)" for a :: u16
proof -
  have "push_bit 1 a + (if c then 1 else 0) = push_bit 1 a OR (if c then 1 else 0)"
  proof (rule disjunctive_add)
    show "\<not> bit (push_bit 1 a) n \<or> \<not> bit (if c then 1 else 0 :: u16) n" for n
      by (cases n) (auto simp: bit_0 bit_1_iff)
  qed
  then show ?thesis by (cases c) (simp_all add: push_bit_eq_mult mult.commute add.commute)
qed

lemma rol_result: "(word_of_nat (2 * unat a + of_bool c) :: u16) = push_bit 1 a OR (if c then 1 else 0)"
  by (simp only: or_bit_add)

lemma high_bit: "2 ^ 16 \<le> 2 * unat a \<longleftrightarrow> negative a" for a :: u16
proof -
  have "negative a \<longleftrightarrow> bit (unat a) 15" by (simp add: bit_unsigned_iff flip: bit_15)
  also have "\<dots> \<longleftrightarrow> odd (unat a div 2 ^ 15)" by (simp add: bit_iff_odd)
  also have "\<dots> \<longleftrightarrow> 2 ^ 15 \<le> unat a"
  proof
    assume "odd (unat a div 2 ^ 15)"
    then show "2 ^ 15 \<le> unat a" by (metis div_less even_zero not_le)
  next
    assume "2 ^ 15 \<le> unat a"
    moreover have "unat a < 2 ^ 16" using unsigned_less[of a, where 'a = nat] by simp
    ultimately have "unat a div 2 ^ 15 = 1" by (intro div_nat_eqI) auto
    then show "odd (unat a div 2 ^ 15)" by simp
  qed
  finally show ?thesis by simp
qed

lemma ror_result:
  "(word_of_nat (unat a div 2 + 2 ^ 15 * of_bool c) :: u16) = drop_bit 1 a OR (if c then push_bit 15 1 else 0)"
proof -
  have "unat a div 2 < 65536" using unsigned_less[of a, where 'a = nat] by simp
  then have d: "(word_of_nat (unat a div 2) :: u16) = drop_bit 1 a"
    by (simp add: word_unat_eq_iff unat_of_nat unat_div drop_bit_eq_div take_bit_eq_mod)
  have "drop_bit 1 a + (if c then push_bit 15 1 else 0) = drop_bit 1 a OR (if c then push_bit 15 1 else 0)"
    by (rule disjunctive_add) (auto simp: bit_simps simp del: push_bit_of_1 dest: bit_imp_le_length)
  then show ?thesis using d by (cases c) simp_all
qed

lemma bitop_word:
  "(\<And>k. k < 16 \<Longrightarrow> bit w k = g (bit a k) (bit b k)) \<Longrightarrow>
   horner_sum of_bool 2 (map (\<lambda>k. g (bit a k) (bit b k)) [0..<16]) = w" for w :: u16
  by (rule bit_word_eqI) (simp add: bit_horner_sum_bit_word_iff)

lemma lo_byte_ucast [simp]: "lo_byte (ucast b) = b"
  unfolding lo_byte_def by (rule bit_word_eqI) (simp add: bit_simps)

lemma lo_byte_sub: "lo_byte (x - y) = lo_byte x - lo_byte y"
proof -
  have key: "take_bit 8 (x - y) = take_bit 8 (take_bit 16 x - take_bit 16 y)" for x y :: int
    using take_bit_diff[of 8 "take_bit 16 x" "take_bit 16 y"] take_bit_diff[of 8 x y] by simp
  show ?thesis unfolding lo_byte_def by transfer (simp flip: key)
qed

lemma lo_byte_diff: "lo_byte (a + NOT (ucast b) + 1) = lo_byte a - b"
  by (simp add: sub_as_add lo_byte_sub)

lemma and_FF: "w AND 0xFF = ucast (lo_byte w)" for w :: u16
proof -
  have "w AND 0xFF = take_bit 8 w" by (simp add: take_bit_eq_mask mask_eq_exp_minus_1)
  then show ?thesis by (intro bit_word_eqI) (auto simp: lo_byte_def bit_simps)
qed

lemma byte_negative: "ucast b AND (0x80 :: u16) \<noteq> 0 \<longleftrightarrow> sint b < 0" for b :: u8
proof -
  have "ucast b AND (0x80 :: u16) = 0 \<longleftrightarrow> \<not> bit (ucast b :: u16) 7"
    using and_exp_eq_0_iff_not_bit[of "ucast b :: u16" 7] by simp
  then show ?thesis using bit_last_iff[of b] by (simp add: bit_simps)
qed

lemma ucast_byte_zero: "(ucast b :: u16) = 0 \<longleftrightarrow> b = 0" for b :: u8
proof
  assume "(ucast b :: u16) = 0"
  then have "lo_byte (ucast b) = lo_byte 0" by simp
  then show "b = 0" unfolding lo_byte_ucast by (simp add: lo_byte_def)
qed simp

end
