(* ===== verification/Pep_Refinement.thy ===== *)
theory Pep_Refinement
  imports Pep_Cpu Pep_Alu Sparse_Ram
begin

text \<open>
  The processor implements the abstract machine.  Its state is abstracted to registers (with the
  working copy of the program counter), flags, memory contents and call depth; every access, handler
  and the dispatch over behaviours is shown to simulate its abstract counterpart, over any memory
  that keeps the contract of a recording byte memory of 64 KiB.  One clock tick is then one step of the
  machine, carried out inside one trace recording.
\<close>

section \<open>Abstraction\<close>

definition cpu_abs :: "('m \<times> trace_buffer \<Rightarrow> nat \<Rightarrow> u8) \<Rightarrow> 'm cpu \<Rightarrow> machine" where
  "cpu_abs store c =
     \<lparr>m_reg = (\<lambda>r. if r = R_PC then c_pc c else reg_read r (c_regs c)),
      m_flags = csr_unpack (csr_read_packed (c_csrs c)),
      m_mem = store (c_mem c, c_tb c), m_depth = c_call_depth c\<rparr>"

text \<open>What every operation within an instruction leaves as it was; the buffer only grows.\<close>

definition cpu_frame :: "'m cpu \<Rightarrow> 'm cpu \<Rightarrow> bool" where
  "cpu_frame c0 c \<longleftrightarrow>
     extends (c_tb c0) (c_tb c) \<and> c_instructions c = c_instructions c0 \<and> c_trace c = c_trace c0
     \<and> c_may_trace c = c_may_trace c0 \<and> c_opcodes c = c_opcodes c0 \<and> c_op_data c = c_op_data c0
     \<and> c_ref_call_depth c = c_ref_call_depth c0 \<and> rb_pc (c_regs c) = rb_pc (c_regs c0)"

lemma cpu_frame_refl [simp]: "cpu_frame c c"
  by (simp add: cpu_frame_def)

lemma cpu_frame_trans: "cpu_frame a b \<Longrightarrow> cpu_frame b c \<Longrightarrow> cpu_frame a c"
  unfolding cpu_frame_def by (metis extends_trans)

text \<open>What the processor relies on: a memory of 64 KiB in good order, and flags in the low four bits.\<close>

definition cpu_ok :: "('m \<times> trace_buffer) target_ops \<Rightarrow> ('m \<times> trace_buffer \<Rightarrow> bool) \<Rightarrow> 'm cpu \<Rightarrow> bool" where
  "cpu_ok ops invar c \<longleftrightarrow> invar (c_mem c, c_tb c) \<and> t_span ops (c_mem c, c_tb c) = ival 0 0xFFFF
     \<and> cb_nzvc (c_csrs c) AND csr_MASK = cb_nzvc (c_csrs c)"

text \<open>
  One computation simulates another from a state: it returns the same result in a state with the
  abstraction of the other's, or fails when the other does; either way the frame is kept.
\<close>

definition simulates_at ::
  "('m \<times> trace_buffer) target_ops \<Rightarrow> ('m \<times> trace_buffer \<Rightarrow> bool) \<Rightarrow> ('m \<times> trace_buffer \<Rightarrow> nat \<Rightarrow> u8) \<Rightarrow>
   ('m, 'a) cpu_sm \<Rightarrow> 'a mach \<Rightarrow> 'm cpu \<Rightarrow> bool" where
  "simulates_at ops invar store f g c \<longleftrightarrow>
     (case g (cpu_abs store c) of
        (Inr x, m) \<Rightarrow> \<exists>c'. f c = (Inr x, c') \<and> cpu_abs store c' = m \<and> cpu_ok ops invar c' \<and> cpu_frame c c'
      | (Inl _, _) \<Rightarrow> \<exists>e c'. f c = (Inl e, c') \<and> cpu_ok ops invar c' \<and> cpu_frame c c')"

definition simulates ::
  "('m \<times> trace_buffer) target_ops \<Rightarrow> ('m \<times> trace_buffer \<Rightarrow> bool) \<Rightarrow> ('m \<times> trace_buffer \<Rightarrow> nat \<Rightarrow> u8) \<Rightarrow>
   ('m, 'a) cpu_sm \<Rightarrow> 'a mach \<Rightarrow> bool" where
  "simulates ops invar store f g \<longleftrightarrow> (\<forall>c. cpu_ok ops invar c \<longrightarrow> simulates_at ops invar store f g c)"

named_theorems sim_intros "computations of the processor that simulate the machine's"

text \<open>What comes second starts in a state that the first left, with the result the machine has there.\<close>

lemma simulates_at_andthen:
  assumes s: "simulates_at ops invar store f g c"
    and rest: "\<And>x c'. f c = (Inr x, c') \<Longrightarrow> g (cpu_abs store c) = (Inr x, cpu_abs store c') \<Longrightarrow>
      cpu_ok ops invar c' \<Longrightarrow> cpu_frame c c' \<Longrightarrow> simulates_at ops invar store (f' x) (g' x) c'"
  shows "simulates_at ops invar store (andthen f f') (andthen g g') c"
proof (cases "g (cpu_abs store c)")
  case (Pair res m)
  show ?thesis
  proof (cases res)
    case (Inl e)
    then show ?thesis using s Pair by (auto simp: simulates_at_def andthen_def)
  next
    case (Inr x)
    then obtain c' where c': "f c = (Inr x, c')" "cpu_abs store c' = m" "cpu_ok ops invar c'" "cpu_frame c c'"
      using s Pair by (auto simp: simulates_at_def)
    then have "simulates_at ops invar store (f' x) (g' x) c'" using rest Pair Inr by simp
    then show ?thesis using c' Pair Inr
      by (auto simp: simulates_at_def andthen_def split: prod.splits sum.splits dest: cpu_frame_trans)
  qed
qed

lemma simulates_andthen [sim_intros]:
  assumes "simulates ops invar store f g" and "\<And>x. simulates ops invar store (f' x) (g' x)"
  shows "simulates ops invar store (andthen f f') (andthen g g')"
  using assms unfolding simulates_def by (blast intro: simulates_at_andthen)

lemma simulates_ret [sim_intros]: "simulates ops invar store (ret x) (ret x)"
  by (simp add: simulates_def simulates_at_def)

lemma simulates_throw [sim_intros]: "simulates ops invar store (throw e) (throw e')"
  by (simp add: simulates_def simulates_at_def)

lemma simulates_when [sim_intros]:
  "(b \<Longrightarrow> simulates ops invar store f g) \<Longrightarrow> simulates ops invar store (when_sm b f) (when_sm b g)"
  by (cases b) (simp_all add: simulates_ret)

lemma simulates_gets:
  "(\<And>c. h (cpu_abs store c) = k c) \<Longrightarrow> simulates ops invar store (gets k) (gets h)"
  by (simp add: simulates_def simulates_at_def)

lemma simulates_modify:
  "(\<And>c. cpu_ok ops invar c \<Longrightarrow>
      cpu_abs store (k c) = h (cpu_abs store c) \<and> cpu_ok ops invar (k c) \<and> cpu_frame c (k c)) \<Longrightarrow>
   simulates ops invar store (modify k) (modify h)"
  by (simp add: simulates_def simulates_at_def)

text \<open>The abstract side may read state that the concrete side does not look at.\<close>

lemma simulates_abs_gets:
  assumes "\<And>x. simulates ops invar store f (g x)"
  shows "simulates ops invar store f (andthen (gets h) g)"
  using assms by (simp add: simulates_def simulates_at_def)

context traced_memory
begin

abbreviation sim where "sim \<equiv> simulates ops invar store"
abbreviation mem_ok where "mem_ok \<equiv> cpu_ok ops invar"

lemma mem_ok_tb: "mem_ok c \<Longrightarrow> c_mem c' = c_mem c \<Longrightarrow> cb_nzvc (c_csrs c') AND csr_MASK = cb_nzvc (c_csrs c') \<Longrightarrow> mem_ok c'"
  unfolding cpu_ok_def using invar_tb span_tb by metis

lemma mem_ok_keep: "mem_ok c \<Longrightarrow> c_mem c' = c_mem c \<Longrightarrow> c_csrs c' = c_csrs c \<Longrightarrow> mem_ok c'"
  by (rule mem_ok_tb) (simp_all add: cpu_ok_def)

subsection \<open>Registers and flags\<close>

lemma sim_read_register [sim_intros]: "sim (read_register r) (get_reg r)"
  unfolding read_register_def get_reg_def read_pc_def read_register_uncached_def
  by (auto intro!: simulates_gets simp: cpu_abs_def)

lemma sim_read_pc [sim_intros]: "sim read_pc (get_reg R_PC)"
  unfolding get_reg_def read_pc_def by (auto intro!: simulates_gets simp: cpu_abs_def)

lemma sim_write_pc [sim_intros]: "sim (write_pc v) (set_reg R_PC v)"
  unfolding set_reg_def write_pc_def
  by (rule simulates_modify) (auto simp: cpu_abs_def stored_def cpu_frame_def cpu_ok_def)

lemma sim_write_register [sim_intros]: "sim (write_register r v) (set_reg r v)"
proof (cases "r = R_PC")
  case True
  then show ?thesis using sim_write_pc by (simp add: write_register_def)
next
  case False
  have "cpu_abs store (on_regs (reg_write r v) c) =
        (cpu_abs store c)\<lparr>m_reg := (m_reg (cpu_abs store c))(r := stored r v)\<rparr>
     \<and> mem_ok (on_regs (reg_write r v) c) \<and> cpu_frame c (on_regs (reg_write r v) c)" if c: "mem_ok c" for c
  proof -
    obtain b tb where w: "reg_write r v (c_regs c, c_tb c) = (b, tb)" by force
    have rd: "reg_read q b = (if q = r then stored r v else reg_read q (c_regs c))" for q
      using read_reg_write[of q r v "(c_regs c, c_tb c)"] by (simp add: w)
    have "rb_pc b = rb_pc (c_regs c)" using rd[of R_PC] False by simp
    moreover have "extends (c_tb c) tb" using extends_reg_write[of "(c_regs c, c_tb c)" r v] by (simp add: w)
    moreover have "mem_ok (c\<lparr>c_regs := b, c_tb := tb\<rparr>)"
      by (rule mem_ok_keep[OF c]) simp_all
    ultimately show ?thesis
      using False rd store_tb[of "c_mem c" tb "c_tb c"]
      by (auto simp: on_regs_def w cpu_abs_def cpu_frame_def)
  qed
  then show ?thesis using False unfolding write_register_def write_register_uncached_def set_reg_def
    by (auto intro!: simulates_modify)
qed

lemma sim_write_packed [sim_intros]: "sim (write_packed_csr v) (set_flags (csr_unpack v))"
  unfolding write_packed_csr_def set_flags_def
proof (rule simulates_modify)
  fix c assume c: "mem_ok c"
  obtain b tb where w: "csr_write_packed v (c_csrs c, c_tb c) = (b, tb)" by force
  have "(b, tb) = csr_store v (cb_op (c_csrs c)) (c_csrs c, c_tb c)" using w by (simp add: csr_write_packed_def)
  then have b: "cb_nzvc b = v AND csr_MASK" and "extends (c_tb c) tb"
    using csr_store_nzvc extends_csr_store by (metis fst_conv, metis snd_conv)
  moreover have "csr_unpack (v AND csr_MASK) = csr_unpack v"
    unfolding csr_unpack_def csr_bit_test by (auto simp: bit_and_iff bit_csr_MASK)
  ultimately show "cpu_abs store (on_csrs (csr_write_packed v) c) = cpu_abs store c\<lparr>m_flags := csr_unpack v\<rparr>
      \<and> mem_ok (on_csrs (csr_write_packed v) c) \<and> cpu_frame c (on_csrs (csr_write_packed v) c)"
    using c store_tb[of "c_mem c" tb "c_tb c"]
    by (auto simp: on_csrs_def w cpu_abs_def cpu_frame_def csr_read_packed_def intro: mem_ok_tb)
qed

lemma sim_write_flags [sim_intros]: "sim (write_packed_csr (csr_pack n z v c)) (set_flags (n, z, v, c))"
  using sim_write_packed[of "csr_pack n z v c"] by simp

text \<open>Reading the packed flags hands on a byte whose flags are the machine's.\<close>

lemma sim_read_packed:
  assumes "\<And>x. sim (f x) (g (csr_unpack x))"
  shows "sim (andthen read_packed_csr f) (andthen get_flags g)"
  unfolding simulates_def
proof (intro allI impI)
  fix c assume c: "mem_ok c"
  have 1: "andthen read_packed_csr f c = f (csr_read_packed (c_csrs c)) c"
    by (simp add: read_packed_csr_def)
  have 2: "andthen get_flags g (cpu_abs store c) = g (csr_unpack (csr_read_packed (c_csrs c))) (cpu_abs store c)"
    by (simp add: get_flags_def cpu_abs_def)
  have "simulates_at ops invar store (f (csr_read_packed (c_csrs c))) (g (csr_unpack (csr_read_packed (c_csrs c)))) c"
    using assms c by (simp add: simulates_def)
  then show "simulates_at ops invar store (andthen read_packed_csr f) (andthen get_flags g) c"
    unfolding simulates_at_def 1 2 .
qed

lemma sim_depth: "sim (modify (change_call_depth d)) (add_depth d)"
  unfolding add_depth_def
proof (rule simulates_modify)
  fix c assume c: "mem_ok c"
  have "extends (c_tb c) (c_tb (change_call_depth d c))"
    by (simp add: change_call_depth_def Let_def extends_emit_incr_register)
  moreover have "mem_ok (change_call_depth d c)"
    by (rule mem_ok_keep[OF c]) (simp_all add: change_call_depth_def Let_def)
  moreover have "store (c_mem c, c_tb (change_call_depth d c)) = store (c_mem c, c_tb c)" by (rule store_tb)
  ultimately show "cpu_abs store (change_call_depth d c) =
      cpu_abs store c\<lparr>m_depth := m_depth (cpu_abs store c) + d\<rparr>
      \<and> mem_ok (change_call_depth d c) \<and> cpu_frame c (change_call_depth d c)"
    by (auto simp: change_call_depth_def Let_def cpu_abs_def cpu_frame_def)
qed

lemma sim_increment_depth [sim_intros]: "sim increment_call_depth (add_depth 1)"
  unfolding increment_call_depth_def by (rule sim_depth)

lemma sim_decrement_depth [sim_intros]: "sim decrement_call_depth (add_depth (- 1))"
  unfolding decrement_call_depth_def by (rule sim_depth)

subsection \<open>Memory\<close>

lemma within_64k: "within (ival 0 0xFFFF) a n \<longleftrightarrow> 0 < n \<and> unat a + n \<le> 65536"
  by (auto simp: within_def ival_def)

lemma oob_64k: "0 < n \<Longrightarrow> n < 65536 \<Longrightarrow> unat a < 131072 \<Longrightarrow> \<not> unat a + n \<le> 65536 \<Longrightarrow> out_of_bounds (ival 0 0xFFFF) a n"
  using in_bounds_iff[of n a "ival 0 0xFFFF"] by (auto simp: ival_def)

text \<open>An access of the target, lifted to the processor.\<close>

lemma on_mem_frame:
  assumes "extends (c_tb c) tb'" shows "cpu_frame c (c\<lparr>c_mem := mem', c_tb := tb'\<rparr>)"
  using assms by (simp add: cpu_frame_def)

lemma read_int_extends: "extends (snd d) (snd (snd (read_int ops b junk a p d)))"
  using read_extends[of d a "to_le junk" p]
  by (auto simp: read_int_def andthen_def split: prod.split sum.split)

lemma write_int_extends: "extends (snd d) (snd (snd (write_int ops b a v p d)))"
  using write_extends by (simp add: write_int_def)

lemma sim_access:
  assumes m: "\<And>p d. extends (snd d) (snd (snd (m p d)))"
    and ok: "\<And>c. mem_ok c \<Longrightarrow>
      (case g (cpu_abs store c) of
         (Inr x, h) \<Rightarrow> \<exists>d'. m (c_op_data c) (c_mem c, c_tb c) = (Inr x, d') \<and> invar d'
            \<and> t_span ops d' = t_span ops (c_mem c, c_tb c) \<and> h = (cpu_abs store c)\<lparr>m_mem := store d'\<rparr>
       | (Inl _, _) \<Rightarrow> \<exists>e. m (c_op_data c) (c_mem c, c_tb c) = (Inl e, (c_mem c, c_tb c)))"
  shows "sim (andthen (gets c_op_data) (\<lambda>p. on_mem (m p))) g"
  unfolding simulates_def
proof (intro allI impI)
  fix c assume c: "mem_ok c"
  obtain r h where g: "g (cpu_abs store c) = (r, h)" by force
  have run: "on_mem (m (c_op_data c)) c =
      (case m (c_op_data c) (c_mem c, c_tb c) of (r, (mem', tb')) \<Rightarrow> (r, c\<lparr>c_mem := mem', c_tb := tb'\<rparr>))"
    by (simp add: on_mem_def zoom_def split: prod.split)
  show "simulates_at ops invar store (andthen (gets c_op_data) (\<lambda>p. on_mem (m p))) g c"
  proof (cases r)
    case (Inl e)
    then show ?thesis using ok[OF c] c g by (auto simp: simulates_at_def run)
  next
    case (Inr x)
    with ok[OF c] g obtain mem' tb' where d':
        "m (c_op_data c) (c_mem c, c_tb c) = (Inr x, (mem', tb'))" "invar (mem', tb')"
        "t_span ops (mem', tb') = t_span ops (c_mem c, c_tb c)" "h = (cpu_abs store c)\<lparr>m_mem := store (mem', tb')\<rparr>"
      by auto
    have "extends (c_tb c) tb'" using m[of "(c_mem c, c_tb c)" "c_op_data c"] d'(1) by simp
    then show ?thesis using d' c g Inr
      by (auto simp: simulates_at_def run cpu_ok_def cpu_abs_def intro: on_mem_frame)
  qed
qed

lemma unat_ucast16 [simp]: "unat (ucast (x :: u16) :: u32) = unat x"
  using unsigned_less[of x, where 'a = nat] by (simp add: unsigned_ucast_eq take_bit_nat_eq_self_iff)

lemma sim_read16: "unat a < 131072 \<Longrightarrow> sim (mem_read16 ops a) (load16 (unat a))"
  unfolding mem_read16_def
proof (rule sim_access[OF read_int_extends])
  fix c assume a: "unat a < 131072" and c: "mem_ok c"
  note span = c[unfolded cpu_ok_def]
  show "case load16 (unat a) (cpu_abs store c) of
         (Inr x, h) \<Rightarrow> \<exists>d'. read_int ops True 0 a (c_op_data c) (c_mem c, c_tb c) = (Inr x, d') \<and> invar d'
            \<and> t_span ops d' = t_span ops (c_mem c, c_tb c) \<and> h = (cpu_abs store c)\<lparr>m_mem := store d'\<rparr>
       | (Inl _, _) \<Rightarrow> \<exists>e. read_int ops True (0 :: u16) a (c_op_data c) (c_mem c, c_tb c) = (Inl e, (c_mem c, c_tb c))"
  proof (cases "unat a + 1 < mem_size")
    case True
    then have w: "within (t_span ops (c_mem c, c_tb c)) a 2" using span by (simp add: within_64k mem_size_def)
    obtain d' where "read_int ops True (0 :: u16) a (c_op_data c) (c_mem c, c_tb c) =
        (Inr (join_bytes (store (c_mem c, c_tb c) (unat a)) (store (c_mem c, c_tb c) (unat a + 1))), d')"
      "invar d'" "store d' = store (c_mem c, c_tb c)" "t_span ops d' = t_span ops (c_mem c, c_tb c)"
      using read_word[OF _ w, of "0" "c_op_data c"] span by blast
    then show ?thesis using True by (simp add: load16_def cpu_abs_def)
  next
    case False
    then have "out_of_bounds (t_span ops (c_mem c, c_tb c)) a (length (to_le (0 :: u16)))"
      using a span by (auto simp: mem_size_def numeral_2_eq_2[symmetric] intro!: oob_64k)
    from read_oob[OF _ this, of "c_op_data c"] span show ?thesis
      using False by (simp add: load16_def read_int_def andthen_def)
  qed
qed

lemma sim_read8: "unat a < 131072 \<Longrightarrow> sim (mem_read8 ops a) (load8 (unat a))"
  unfolding mem_read8_def
proof (rule sim_access[OF read_int_extends])
  fix c assume a: "unat a < 131072" and c: "mem_ok c"
  note span = c[unfolded cpu_ok_def]
  show "case load8 (unat a) (cpu_abs store c) of
         (Inr x, h) \<Rightarrow> \<exists>d'. read_int ops False 0 a (c_op_data c) (c_mem c, c_tb c) = (Inr x, d') \<and> invar d'
            \<and> t_span ops d' = t_span ops (c_mem c, c_tb c) \<and> h = (cpu_abs store c)\<lparr>m_mem := store d'\<rparr>
       | (Inl _, _) \<Rightarrow> \<exists>e. read_int ops False (0 :: u8) a (c_op_data c) (c_mem c, c_tb c) = (Inl e, (c_mem c, c_tb c))"
  proof (cases "unat a < mem_size")
    case True
    then have w: "within (t_span ops (c_mem c, c_tb c)) a 1" using span by (simp add: within_64k mem_size_def)
    obtain d' where "read_int ops False (0 :: u8) a (c_op_data c) (c_mem c, c_tb c) =
        (Inr (store (c_mem c, c_tb c) (unat a)), d')"
      "invar d'" "store d' = store (c_mem c, c_tb c)" "t_span ops d' = t_span ops (c_mem c, c_tb c)"
      using read_byte[OF _ w, of "0" "c_op_data c"] span by blast
    then show ?thesis using True by (simp add: load8_def cpu_abs_def)
  next
    case False
    then have "out_of_bounds (t_span ops (c_mem c, c_tb c)) a (length (to_le (0 :: u8)))"
      using a span by (auto simp: mem_size_def intro!: oob_64k)
    from read_oob[OF _ this, of "c_op_data c"] span show ?thesis
      using False by (simp add: load8_def read_int_def andthen_def)
  qed
qed

lemma sim_write16: "unat a < 131072 \<Longrightarrow> sim (mem_write16 ops a v) (store16 (unat a) v)"
  unfolding mem_write16_def
proof (rule sim_access[OF write_int_extends])
  fix c assume a: "unat a < 131072" and c: "mem_ok c"
  note span = c[unfolded cpu_ok_def]
  show "case store16 (unat a) v (cpu_abs store c) of
         (Inr x, h) \<Rightarrow> \<exists>d'. write_int ops True a v (c_op_data c) (c_mem c, c_tb c) = (Inr x, d') \<and> invar d'
            \<and> t_span ops d' = t_span ops (c_mem c, c_tb c) \<and> h = (cpu_abs store c)\<lparr>m_mem := store d'\<rparr>
       | (Inl _, _) \<Rightarrow> \<exists>e. write_int ops True a v (c_op_data c) (c_mem c, c_tb c) = (Inl e, (c_mem c, c_tb c))"
  proof (cases "unat a + 1 < mem_size")
    case True
    then have w: "within (t_span ops (c_mem c, c_tb c)) a 2" using span by (simp add: within_64k mem_size_def)
    obtain d' where "write_int ops True a v (c_op_data c) (c_mem c, c_tb c) = (Inr (), d')" "invar d'"
      "store d' = put_bytes (store (c_mem c, c_tb c)) (unat a) [hi_byte v, lo_byte v]"
      "t_span ops d' = t_span ops (c_mem c, c_tb c)"
      using write_word[OF _ w, of v "c_op_data c"] span by blast
    then show ?thesis using True by (simp add: store16_def cpu_abs_def)
  next
    case False
    then have "out_of_bounds (t_span ops (c_mem c, c_tb c)) a (length (to_le (byteswap v)))"
      using a span by (auto simp: mem_size_def numeral_2_eq_2[symmetric] intro!: oob_64k)
    from write_oob[OF _ this, of "c_op_data c"] span show ?thesis
      using False by (simp add: store16_def write_int_def)
  qed
qed

lemma sim_write8: "unat a < 131072 \<Longrightarrow> sim (mem_write8 ops a v) (store8 (unat a) v)"
  unfolding mem_write8_def
proof (rule sim_access[OF write_int_extends])
  fix c assume a: "unat a < 131072" and c: "mem_ok c"
  note span = c[unfolded cpu_ok_def]
  have le: "to_le v = [v]" by simp
  show "case store8 (unat a) v (cpu_abs store c) of
         (Inr x, h) \<Rightarrow> \<exists>d'. write_int ops False a v (c_op_data c) (c_mem c, c_tb c) = (Inr x, d') \<and> invar d'
            \<and> t_span ops d' = t_span ops (c_mem c, c_tb c) \<and> h = (cpu_abs store c)\<lparr>m_mem := store d'\<rparr>
       | (Inl _, _) \<Rightarrow> \<exists>e. write_int ops False a v (c_op_data c) (c_mem c, c_tb c) = (Inl e, (c_mem c, c_tb c))"
  proof (cases "unat a < mem_size")
    case True
    then have w: "within (t_span ops (c_mem c, c_tb c)) a (length [v])" using span by (simp add: within_64k mem_size_def)
    obtain d' where "t_write ops a [v] (c_op_data c) (c_mem c, c_tb c) = (Inr (), d')" "invar d'"
      "store d' = put_bytes (store (c_mem c, c_tb c)) (unat a) [v]"
      "t_span ops d' = t_span ops (c_mem c, c_tb c)"
      using write_within[OF _ w, of "c_op_data c"] span by blast
    then show ?thesis using True by (simp add: store8_def cpu_abs_def write_int_def le)
  next
    case False
    then have "out_of_bounds (t_span ops (c_mem c, c_tb c)) a (length [v])"
      using a span by (auto simp: mem_size_def intro!: oob_64k)
    from write_oob[OF _ this, of "c_op_data c"] span show ?thesis
      using False by (simp add: store8_def write_int_def le)
  qed
qed

text \<open>The addresses that instructions use: 16 bits, or one past them.\<close>

lemma ucast16_less: "unat (ucast (x :: u16) :: u32) < 131072"
  using unsigned_less[of x, where 'a = nat] by simp

lemma unat_ucast16_Suc: "unat (ucast (x :: u16) + 1 :: u32) = unat x + 1"
  using unsigned_less[of x, where 'a = nat] by (subst unat_word_ariths(1)) simp

lemma sim_read16_u16 [sim_intros]: "sim (mem_read16 ops (ucast (x :: u16))) (load16 (unat x))"
  using sim_read16[OF ucast16_less[of x]] by simp

lemma sim_read8_u16 [sim_intros]: "sim (mem_read8 ops (ucast (x :: u16))) (load8 (unat x))"
  using sim_read8[OF ucast16_less[of x]] by simp

lemma sim_read8_next [sim_intros]: "sim (mem_read8 ops (ucast (x :: u16) + 1)) (load8 (unat x + 1))"
  using sim_read8[of "ucast x + 1"] unsigned_less[of x, where 'a = nat] by (simp add: unat_ucast16_Suc)

lemma sim_write16_u16 [sim_intros]: "sim (mem_write16 ops (ucast (x :: u16)) v) (store16 (unat x) v)"
  using sim_write16[OF ucast16_less[of x]] by simp

lemma sim_write8_u16 [sim_intros]: "sim (mem_write8 ops (ucast (x :: u16)) v) (store8 (unat x) v)"
  using sim_write8[OF ucast16_less[of x]] by simp

subsection \<open>Operand addresses\<close>

lemma sim_skip_get: "(\<And>x. sim f (g x)) \<Longrightarrow> sim f (andthen (get_reg r) g)"
  unfolding get_reg_def by (rule simulates_abs_gets)

lemma sim_skip_flags: "(\<And>x. sim f (g x)) \<Longrightarrow> sim f (andthen get_flags g)"
  unfolding get_flags_def by (rule simulates_abs_gets)

lemma get_reg_commute:
  "andthen (get_reg r) (\<lambda>a. andthen (get_reg q) (\<lambda>b. f a b)) = andthen (get_reg q) (\<lambda>b. andthen (get_reg r) (\<lambda>a. f a b))"
  by (simp add: get_reg_def fun_eq_iff)

lemma sim_decode [sim_intros]: "sim (decode_op_addr ops a) (operand_address a)"
  unfolding decode_op_addr_def operand_address_def
proof (intro simulates_andthen sim_read_pc sim_write_pc sim_read16_u16 sim_write_register)
  fix pc u os u'
  let ?abs = "\<lambda>a. andthen (get_reg R_SP) (\<lambda>sp. andthen (get_reg R_X) (\<lambda>x. case a of
         SA_I \<Rightarrow> ret pc
       | SA_D \<Rightarrow> ret os
       | SA_N \<Rightarrow> load16 (unat os)
       | SA_S \<Rightarrow> ret (sp + os)
       | SA_SF \<Rightarrow> load16 (unat (sp + os))
       | SA_X \<Rightarrow> ret (x + os)
       | SA_SX \<Rightarrow> ret (x + sp + os)
       | SA_SFX \<Rightarrow> andthen (load16 (unat (sp + os))) (\<lambda>w. ret (x + w))
       | SA_Unary \<Rightarrow> throw ()))"
  have "sim (andthen (read_register R_X) (\<lambda>x. andthen (read_register R_SP) (\<lambda>sp. ret (x + sp + os)))) (?abs SA_SX)"
    unfolding shared_addr_mode.case get_reg_commute[of R_SP] by (intro sim_intros)
  moreover have "sim (andthen (read_register R_SP) (\<lambda>sp. mem_read16 ops (ucast (sp + os)))) (?abs SA_SF)"
    unfolding shared_addr_mode.case by (intro simulates_andthen sim_read_register sim_skip_get sim_read16_u16)
  moreover have "sim (andthen (read_register R_SP) (\<lambda>sp. ret (sp + os))) (?abs SA_S)"
    unfolding shared_addr_mode.case by (intro simulates_andthen sim_read_register sim_skip_get simulates_ret)
  moreover have "sim (andthen (read_register R_X) (\<lambda>x. ret (x + os))) (?abs SA_X)"
    unfolding shared_addr_mode.case by (rule sim_skip_get) (intro sim_intros)
  moreover have "sim (andthen (read_register R_SP) (\<lambda>sp. andthen (read_register R_X) (\<lambda>x.
       andthen (mem_read16 ops (ucast (sp + os))) (\<lambda>w. ret (x + w))))) (?abs SA_SFX)"
    unfolding shared_addr_mode.case by (intro sim_intros)
  moreover have "sim (ret pc) (?abs SA_I)" "sim (ret os) (?abs SA_D)"
      "sim (mem_read16 ops (ucast os)) (?abs SA_N)"
      "sim (throw (LogicError ''Invalid addressing mode for decode_op_addr'')) (?abs SA_Unary)"
    unfolding shared_addr_mode.case
    by (intro sim_skip_get simulates_ret sim_read16_u16 simulates_throw)+
  ultimately show "sim (case a of
         SA_I \<Rightarrow> ret pc
       | SA_N \<Rightarrow> mem_read16 ops (ucast os)
       | SA_D \<Rightarrow> ret os
       | SA_SF \<Rightarrow> andthen (read_register R_SP) (\<lambda>sp. mem_read16 ops (ucast (sp + os)))
       | SA_S \<Rightarrow> andthen (read_register R_SP) (\<lambda>sp. ret (sp + os))
       | SA_X \<Rightarrow> andthen (read_register R_X) (\<lambda>x. ret (x + os))
       | SA_SX \<Rightarrow> andthen (read_register R_X) (\<lambda>x. andthen (read_register R_SP) (\<lambda>sp. ret (x + sp + os)))
       | SA_SFX \<Rightarrow> andthen (read_register R_SP) (\<lambda>sp.
                   andthen (read_register R_X) (\<lambda>x.
                   andthen (mem_read16 ops (ucast (sp + os))) (\<lambda>w. ret (x + w))))
       | SA_Unary \<Rightarrow> throw (LogicError ''Invalid addressing mode for decode_op_addr'')) (?abs a)"
    by (cases a) (simp_all only: shared_addr_mode.case)
qed

subsection \<open>Handlers\<close>

lemma sim_unary:
  assumes "\<And>a f. alu a f = (res a, csr_unpack (fl a))"
  shows "sim (andthen (read_register r) (\<lambda>a. andthen (write_register r (res a)) (\<lambda>_. write_packed_csr (fl a))))
             (do_unary r alu)"
  unfolding do_unary_def assms fst_conv snd_conv
  by (intro simulates_andthen sim_read_register sim_skip_flags sim_write_register sim_write_packed)

lemma sim_unary_flags:
  assumes "\<And>a x. fst (alu a (csr_unpack x)) = res a x" and "\<And>a x. snd (alu a (csr_unpack x)) = csr_unpack (fl a x)"
  shows "sim (andthen (read_register r) (\<lambda>a. andthen read_packed_csr (\<lambda>x.
              andthen (write_register r (res a x)) (\<lambda>_. write_packed_csr (fl a x)))))
             (do_unary r alu)"
  unfolding do_unary_def
proof (rule simulates_andthen[OF sim_read_register], rule sim_read_packed)
  fix a x
  show "sim (andthen (write_register r (res a x)) (\<lambda>_. write_packed_csr (fl a x)))
    (andthen (set_reg r (fst (alu a (csr_unpack x)))) (\<lambda>_. set_flags (snd (alu a (csr_unpack x)))))"
    unfolding assms by (intro simulates_andthen sim_write_register sim_write_packed)
qed

lemma sim_negr: "sim (handle_negr r) (do_unary r alu_neg)"
  unfolding handle_negr_def Let_def
  by (rule sim_unary) (auto simp: alu_neg_def Let_def neg_result sub_as_add alu_facts neg_overflow)

lemma sim_aslr: "sim (handle_aslr r) (do_unary r alu_asl)"
  unfolding handle_aslr_def Let_def
  by (rule sim_unary) (auto simp only: alu_asl_def Let_def asl_result asl_overflow top_bit csr_unpack_pack)

lemma sim_asrr: "sim (handle_asrr r) (do_unary r alu_asr)"
  unfolding handle_asrr_def Let_def
  by (rule sim_unary) (auto simp only: alu_asr_def Let_def asr_result top_bit low_bit csr_unpack_pack)

lemma sim_notr: "sim (handle_notr r) (do_unary r alu_not)"
  unfolding handle_notr_def Let_def case_prod_unfold
  by (rule sim_unary_flags)
     (simp_all only: alu_not_def Let_def case_prod_unfold fst_conv snd_conv not_result top_bit csr_unpack_pack)

lemma sim_rolr: "sim (handle_rolr r) (do_unary r alu_rol)"
  unfolding handle_rolr_def Let_def case_prod_unfold
  by (rule sim_unary_flags)
     (simp_all only: alu_rol_def Let_def case_prod_unfold fst_conv snd_conv rol_result top_bit high_bit csr_unpack_pack)

lemma sim_rorr: "sim (handle_rorr r) (do_unary r alu_ror)"
  unfolding handle_rorr_def Let_def case_prod_unfold
  by (rule sim_unary_flags)
     (simp_all only: alu_ror_def Let_def case_prod_unfold fst_conv snd_conv ror_result top_bit low_bit csr_unpack_pack)

lemma packed_value:
  "x AND csr_MASK = x \<Longrightarrow> (ucast x :: u16) =
     (case csr_unpack x of (n, z, v, c) \<Rightarrow> 8 * of_bool n + 4 * of_bool z + 2 * of_bool v + of_bool c)"
proof -
  assume x: "x AND csr_MASK = x"
  obtain n z v c where u: "csr_unpack x = (n, z, v, c)" by (metis prod_cases4)
  then have "x = csr_pack n z v c" using csr_pack_unpack[of x] x by simp
  then show ?thesis unfolding u
    by (cases n; cases z; cases v; cases c) (simp_all add: csr_pack_def csr_bit_def)
qed

lemma sim_movflga: "sim handle_movflga (andthen get_flags (\<lambda>(n, z, v, c).
    set_reg R_A (8 * of_bool n + 4 * of_bool z + 2 * of_bool v + of_bool c)))"
proof -
  define val :: "nzvc \<Rightarrow> u16" where "val = (\<lambda>(n, z, v, c). 8 * of_bool n + 4 * of_bool z + 2 * of_bool v + of_bool c)"
  have "sim handle_movflga (andthen get_flags (\<lambda>f. set_reg R_A (val f)))"
    unfolding simulates_def
  proof (intro allI impI)
    fix c assume c: "mem_ok c"
    let ?x = "csr_read_packed (c_csrs c)"
    have "(ucast ?x :: u16) = val (csr_unpack ?x)"
      unfolding val_def by (rule packed_value) (use c in \<open>simp add: csr_read_packed_def cpu_ok_def\<close>)
    then have "simulates_at ops invar store (write_register R_A (ucast ?x)) (set_reg R_A (val (csr_unpack ?x))) c"
      using sim_write_register[of R_A "ucast ?x"] c by (simp add: simulates_def)
    moreover have "handle_movflga c = write_register R_A (ucast ?x) c"
      by (simp add: handle_movflga_def read_packed_csr_def)
    moreover have "andthen get_flags (\<lambda>f. set_reg R_A (val f)) (cpu_abs store c) =
        set_reg R_A (val (csr_unpack ?x)) (cpu_abs store c)"
      by (simp add: get_flags_def cpu_abs_def)
    ultimately show "simulates_at ops invar store handle_movflga (andthen get_flags (\<lambda>f. set_reg R_A (val f))) c"
      unfolding simulates_at_def by presburger
  qed
  then show ?thesis by (simp add: case_prod_unfold val_def)
qed

lemma sim_movaflg: "sim handle_movaflg (andthen (get_reg R_A) (\<lambda>a. set_flags (bit a 3, bit a 2, bit a 1, bit a 0)))"
  unfolding handle_movaflg_def
proof (rule simulates_andthen[OF sim_read_register])
  fix a
  have "csr_unpack (ucast a) = (bit a 3, bit a 2, bit a 1, bit a 0)"
    unfolding csr_unpack_def csr_bit_test by (simp add: bit_simps)
  then show "sim (write_packed_csr (ucast a)) (set_flags (bit a 3, bit a 2, bit a 1, bit a 0))"
    using sim_write_packed[of "ucast a"] by simp
qed

lemma sim_moves:
  "sim handle_movspa (andthen (get_reg R_SP) (set_reg R_A))"
  "sim handle_movasp (andthen (get_reg R_A) (set_reg R_SP))" "sim handle_nop (ret ())"
  unfolding handle_movspa_def handle_movasp_def handle_nop_def by (intro sim_intros)+

lemma sim_ret: "sim (handle_ret ops) (andthen (add_depth (- 1)) (\<lambda>_. andthen (get_reg R_SP) (\<lambda>sp.
    andthen (load16 (unat sp)) (\<lambda>ad. andthen (set_reg R_PC ad) (\<lambda>_. set_reg R_SP (sp + 2))))))"
  unfolding handle_ret_def by (intro sim_intros)

lemma sim_unconditional: "sim (handle_unconditional_branch ops ad) (do_branch (\<lambda>_. True) ad)"
  unfolding handle_unconditional_branch_def do_branch_def when_sm_def if_True
  by (intro sim_skip_flags simulates_andthen sim_read16_u16 sim_write_pc)

lemma sim_branch: "(\<And>f. branch_taken cond f = g f) \<Longrightarrow> sim (handle_branch ops cond ad) (do_branch g ad)"
  unfolding handle_branch_def do_branch_def
  by (rule sim_read_packed) (simp, intro sim_intros)

lemma sim_branches:
  "sim (handle_branch ops BC_LE ad) (do_branch (\<lambda>(n, z, v, c). n \<or> z) ad)"
  "sim (handle_branch ops BC_LT ad) (do_branch (\<lambda>(n, z, v, c). n) ad)"
  "sim (handle_branch ops BC_EQ ad) (do_branch (\<lambda>(n, z, v, c). z) ad)"
  "sim (handle_branch ops BC_NE ad) (do_branch (\<lambda>(n, z, v, c). \<not> z) ad)"
  "sim (handle_branch ops BC_GE ad) (do_branch (\<lambda>(n, z, v, c). \<not> n) ad)"
  "sim (handle_branch ops BC_GT ad) (do_branch (\<lambda>(n, z, v, c). \<not> n \<and> \<not> z) ad)"
  "sim (handle_branch ops BC_V ad) (do_branch (\<lambda>(n, z, v, c). v) ad)"
  "sim (handle_branch ops BC_C ad) (do_branch (\<lambda>(n, z, v, c). c) ad)"
  by (rule sim_branch, auto)+

lemma sim_call: "sim (handle_call ops ad) (andthen (load16 (unat ad)) (\<lambda>dest.
    andthen (get_reg R_PC) (\<lambda>pc. andthen (get_reg R_SP) (\<lambda>sp.
    andthen (store16 (unat (sp - 2)) pc) (\<lambda>_. andthen (set_reg R_SP (sp - 2)) (\<lambda>_.
    andthen (set_reg R_PC dest) (\<lambda>_. add_depth 1)))))))"
  unfolding handle_call_def by (intro sim_intros)

lemma sim_stack:
  "sim (handle_addsp ops ad) (andthen (load16 (unat ad)) (\<lambda>b. andthen (get_reg R_SP) (\<lambda>sp. set_reg R_SP (sp + b))))"
  "sim (handle_subsp ops ad) (andthen (load16 (unat ad)) (\<lambda>b. andthen (get_reg R_SP) (\<lambda>sp. set_reg R_SP (sp - b))))"
  unfolding handle_addsp_def handle_subsp_def by (intro sim_intros)+

lemma sim_addr: "sim (handle_addr ops op ad) (do_binary (register_of_u8 (target op)) alu_add ad)"
  unfolding handle_addr_def do_binary_def Let_def
  by (intro simulates_andthen sim_read16_u16 sim_unary)
     (simp only: alu_add_def Let_def add_result top_bit sum_overflow carry csr_unpack_pack)

lemma sim_subr: "sim (handle_subr ops op ad) (do_binary (register_of_u8 (target op)) alu_sub ad)"
  unfolding handle_subr_def do_binary_def Let_def sub_as_add
  by (intro simulates_andthen sim_read16_u16 sim_unary)
     (simp only: alu_sub_def Let_def sub_result top_bit sub_overflow sub_carry csr_unpack_pack)

lemma bitop_bits:
  "alu_bitop (\<and>) a b = (\<lambda>(n, z, v, c). (a AND b, (negative (a AND b), a AND b = 0, v, c)))"
  "alu_bitop (\<or>) a b = (\<lambda>(n, z, v, c). (a OR b, (negative (a OR b), a OR b = 0, v, c)))"
  "alu_bitop (\<noteq>) a b = (\<lambda>(n, z, v, c). (a XOR b, (negative (a XOR b), a XOR b = 0, v, c)))"
proof -
  note w = bitop_word[of "a AND b" "(\<and>)" a b] bitop_word[of "a OR b" "(\<or>)" a b] bitop_word[of "a XOR b" "(\<noteq>)" a b]
  show "alu_bitop (\<and>) a b = (\<lambda>(n, z, v, c). (a AND b, (negative (a AND b), a AND b = 0, v, c)))"
    "alu_bitop (\<or>) a b = (\<lambda>(n, z, v, c). (a OR b, (negative (a OR b), a OR b = 0, v, c)))"
    "alu_bitop (\<noteq>) a b = (\<lambda>(n, z, v, c). (a XOR b, (negative (a XOR b), a XOR b = 0, v, c)))"
    unfolding alu_bitop_def Let_def fun_eq_iff split_paired_all prod.case
    by (simp_all only: w bit_and_iff bit_or_iff bit_xor_iff) auto
qed

lemma sim_bitopr:
  assumes "\<And>a b n z v c. alu_bitop g a b (n, z, v, c) =
      (bitop_result bop a b, (negative (bitop_result bop a b), bitop_result bop a b = 0, v, c))"
  shows "sim (handle_bitopr ops op bop ad) (do_binary (register_of_u8 (target op)) (alu_bitop g) ad)"
  unfolding handle_bitopr_def do_binary_def Let_def case_prod_unfold
proof (intro simulates_andthen sim_read16_u16, rule sim_unary_flags)
  fix b a x
  obtain n z v c where f: "csr_unpack x = (n, z, v, c)" by (metis prod_cases4)
  show "fst (alu_bitop g a b (csr_unpack x)) = bitop_result bop a b" by (simp add: f assms)
  show "snd (alu_bitop g a b (csr_unpack x)) = csr_unpack (csr_pack (bitop_result bop a b AND 0x8000 \<noteq> 0)
      (bitop_result bop a b = 0) (fst (snd (snd (csr_unpack x)))) (snd (snd (snd (csr_unpack x)))))"
    unfolding top_bit csr_unpack_pack f by (simp add: assms)
qed

lemma sim_bitops:
  "sim (handle_bitopr ops op Bitop_AND ad) (do_binary (register_of_u8 (target op)) (alu_bitop (\<and>)) ad)"
  "sim (handle_bitopr ops op Bitop_OR ad) (do_binary (register_of_u8 (target op)) (alu_bitop (\<or>)) ad)"
  "sim (handle_bitopr ops op Bitop_XOR ad) (do_binary (register_of_u8 (target op)) (alu_bitop (\<noteq>)) ad)"
  by (rule sim_bitopr, simp only: bitop_bits prod.case bitop_result.simps)+

lemma sim_cpwr: "sim (handle_cpwr ops op ad) (andthen (load16 (unat ad)) (\<lambda>b.
    andthen (get_reg (register_of_u8 (target op))) (\<lambda>a. set_flags (alu_compare a b))))"
  unfolding handle_cpwr_def Let_def sub_as_add
proof (intro simulates_andthen sim_read16_u16 sim_read_register)
  fix b a
  have 1: "alu_compare a b = (negative (a - b) \<noteq> (fits (sint a - sint b) = (sint b = - (2 ^ 15))), a - b = 0,
      fits (sint a - sint b) = (sint b = - (2 ^ 15)), unat b \<noteq> 0 \<and> unat b \<le> unat a)"
    unfolding alu_compare_def compare_negative by simp
  have 2: "a + - b = a - b" by simp
  show "sim (write_packed_csr (csr_pack
        ((a + - b AND 0x8000 \<noteq> 0) \<noteq> (drop_bit 15 (NOT (a XOR - b) AND (a XOR (a + - b))) \<noteq> 0)) (a + - b = 0)
        (drop_bit 15 (NOT (a XOR - b) AND (a XOR (a + - b))) \<noteq> 0) (a + - b < a \<or> a + - b < - b)))
      (set_flags (alu_compare a b))"
    unfolding 1 2 top_bit sub_overflow sub_carry by (rule sim_write_flags)
qed

lemma sim_cpbr: "sim (handle_cpbr ops op ad) (andthen (load8 (unat ad + 1)) (\<lambda>b.
    andthen (get_reg (register_of_u8 (target op))) (\<lambda>a. set_flags (alu_compare_byte a b))))"
  unfolding handle_cpbr_def Let_def and_FF lo_byte_diff byte_negative ucast_byte_zero
proof (intro simulates_andthen sim_read8_next sim_read_register)
  fix b a
  have "alu_compare_byte a b = (sint (lo_byte a - b) < 0, lo_byte a - b = 0, False, False)"
    by (simp add: alu_compare_byte_def)
  then show "sim (write_packed_csr (csr_pack (sint (lo_byte a - b) < 0) (lo_byte a - b = 0) False False))
      (set_flags (alu_compare_byte a b))"
    using sim_write_flags by metis
qed

lemma sim_ldwr: "sim (handle_ldwr ops op ad) (andthen (load16 (unat ad)) (\<lambda>b. andthen get_flags (\<lambda>f.
    andthen (set_reg (register_of_u8 (target op)) b) (\<lambda>_. set_flags (alu_load b f)))))"
  unfolding handle_ldwr_def Let_def case_prod_unfold alu_load_def top_bit
  by (intro simulates_andthen[OF sim_read16_u16] sim_read_packed simulates_andthen[OF sim_write_register] sim_write_flags)

lemma sim_ldbr: "sim (handle_ldbr ops op ad) (andthen (load8 (unat ad + 1)) (\<lambda>b. andthen get_flags (\<lambda>f.
    andthen (set_reg (register_of_u8 (target op)) (ucast b)) (\<lambda>_. set_flags (alu_load_byte b f)))))"
  unfolding handle_ldbr_def Let_def case_prod_unfold alu_load_byte_def
  by (intro simulates_andthen[OF sim_read8_next] sim_read_packed simulates_andthen[OF sim_write_register] sim_write_flags)

lemma sim_stores:
  "sim (handle_stwr ops op ad) (andthen (get_reg (register_of_u8 (target op))) (\<lambda>a. store16 (unat ad) a))"
  "sim (handle_stbr ops op ad) (andthen (get_reg (register_of_u8 (target op))) (\<lambda>a. store8 (unat ad) (lo_byte a)))"
  unfolding handle_stwr_def handle_stbr_def lo_byte_def by (intro sim_intros)+

lemmas sim_handlers = sim_movflga sim_movaflg sim_moves sim_ret sim_negr sim_aslr sim_asrr sim_notr sim_rolr sim_rorr
  sim_unconditional sim_branches sim_call sim_stack sim_addr sim_subr sim_bitops sim_cpwr sim_cpbr sim_ldwr sim_ldbr sim_stores

text \<open>The dispatch: every behaviour but the return from a system call.\<close>

lemma sim_handle: "behavior op \<noteq> B_SRET \<Longrightarrow> sim (handle ops op) (perform op)"
  unfolding handle_def perform_def Let_def unimpl_handler_def
  by (cases "behavior op"; simp only: shared_op_behavior.case;
      ((erule notE, rule refl) | intro simulates_throw simulates_andthen[OF sim_decode] sim_handlers))

end

end
