(* ===== verification/Pep_Execution.thy ===== *)
theory Pep_Execution
  imports Pep_Refinement
begin

text \<open>
  Clock ticks of the Pep processor as steps of the abstract machine, and whole programs as runs of
  it, over any recording byte memory; then the same statements on the two memories of the simulator.
\<close>

section \<open>Between instructions\<close>

text \<open>What a debugger sees of the processor: the registers of the bank, the flags, the memory, the call depth.\<close>

definition cpu_view :: "('m \<times> trace_buffer \<Rightarrow> nat \<Rightarrow> u8) \<Rightarrow> 'm cpu \<Rightarrow> machine" where
  "cpu_view store c =
     \<lparr>m_reg = (\<lambda>r. reg_read r (c_regs c)), m_flags = csr_unpack (csr_read_packed (c_csrs c)),
      m_mem = store (c_mem c, c_tb c), m_depth = c_call_depth c\<rparr>"

definition fetched :: "machine \<Rightarrow> u8" where
  "fetched m = m_mem m (unat (m_reg m R_PC))"

text \<open>What a tick leaves as it was, whether or not the instruction succeeded.\<close>

definition tick_frame :: "'m cpu \<Rightarrow> 'm cpu \<Rightarrow> bool" where
  "tick_frame c0 c \<longleftrightarrow>
     extends (c_tb c0) (c_tb c) \<and> c_instructions c = c_instructions c0 \<and> c_trace c = c_trace c0
     \<and> c_may_trace c = c_may_trace c0 \<and> c_opcodes c = c_opcodes c0 \<and> c_op_data c = c_op_data c0
     \<and> c_ref_call_depth c = c_ref_call_depth c0"

lemma cpu_frame_tick: "cpu_frame c0 c \<longleftrightarrow> tick_frame c0 c \<and> rb_pc (c_regs c) = rb_pc (c_regs c0)"
  by (auto simp: cpu_frame_def tick_frame_def)

lemma tick_frame_trans: "tick_frame a b \<Longrightarrow> tick_frame b c \<Longrightarrow> tick_frame a c"
  unfolding tick_frame_def by (metis extends_trans)

definition fetch_execute :: "'m cpu_target \<Rightarrow> u16 \<Rightarrow> ('m, unit) cpu_sm" where
  "fetch_execute t pc =
     andthen (mem_read8 t (ucast pc)) (\<lambda>is.
     andthen (write_pc (pc + 1)) (\<lambda>_.
     andthen (write_register R_IS (ucast is)) (\<lambda>_.
     andthen (gets c_opcodes) (\<lambda>opcodes. handle t (opcodes ! unat is)))))"

lemma execute_instruction_split:
  "execute_instruction t c =
     andthen (fetch_execute t (rb_pc (c_regs c))) (\<lambda>_. write_back_pc (rb_pc (c_regs c))) (c\<lparr>c_pc := rb_pc (c_regs c)\<rparr>)"
  unfolding fetch_execute_def andthen_assoc
  by (simp add: execute_instruction_def read_register_uncached_def write_pc_def)

section \<open>Programs\<close>

text \<open>A number of ticks, and of steps of the machine.\<close>

primrec ticks :: "'m cpu_target \<Rightarrow> nat \<Rightarrow> ('m, unit) cpu_sm" where
  "ticks t 0 = ret ()"
| "ticks t (Suc n) = andthen (clock_tick t) (\<lambda>_. ticks t n)"

primrec machine_run :: "shared_op list \<Rightarrow> nat \<Rightarrow> unit mach" where
  "machine_run plane 0 = ret ()"
| "machine_run plane (Suc n) = andthen (machine_step plane) (\<lambda>_. machine_run plane n)"

context traced_memory
begin

lemma view_abs: "cpu_abs store (c\<lparr>c_pc := rb_pc (c_regs c)\<rparr>) = cpu_view store c"
  by (auto simp: cpu_abs_def cpu_view_def)

text \<open>The program counter goes back to the bank, recorded as an increment or as a store.\<close>

lemma stored_back:
  assumes c: "mem_ok c" and k: "k c = c\<lparr>c_tb := tb, c_regs := b\<rparr>" "extends (c_tb c) tb"
    and b: "\<And>r. reg_read r b = (if r = R_PC then c_pc c else reg_read r (c_regs c))"
  shows "\<exists>c'. modify k c = (Inr (), c') \<and> cpu_view store c' = cpu_abs store c \<and> mem_ok c' \<and> tick_frame c c'"
proof -
  have "mem_ok (k c)" by (rule mem_ok_keep[OF c]) (simp_all add: k)
  then show ?thesis using k(2) b store_tb[of "c_mem c" tb "c_tb c"]
    by (auto simp: k(1) cpu_view_def cpu_abs_def tick_frame_def)
qed

lemma write_back:
  assumes c: "mem_ok c"
  shows "\<exists>c'. write_back_pc i c = (Inr (), c') \<and> cpu_view store c' = cpu_abs store c \<and> mem_ok c' \<and> tick_frame c c'"
proof -
  let ?d = "uint (c_pc c) - uint i"
  show ?thesis
  proof (cases "?d AND 3 = ?d")
    case True
    have regs: "reg_read r (write_pc_untraced (c_pc c) (c_regs c)) =
        (if r = R_PC then c_pc c else reg_read r (c_regs c))" for r
      by (cases r) (simp_all add: write_pc_untraced_def)
    let ?f = "\<lambda>c'. c'\<lparr>c_tb := (if c_may_trace c' then emit_incr_register (c_trace c') (c_op_data c')
        (bank_ref R_PC (c_regs c')) (word_of_int ?d) (c_tb c') else c_tb c'),
      c_regs := write_pc_untraced (c_pc c) (c_regs c')\<rparr>"
    have "write_back_pc i c = modify ?f c" using True by (simp add: write_back_pc_def read_pc_def Let_def)
    moreover have "extends (c_tb c) (c_tb (?f c))" by (simp add: extends_emit_incr_register)
    ultimately show ?thesis
      using stored_back[OF c, where k = ?f and tb = "c_tb (?f c)" and b = "write_pc_untraced (c_pc c) (c_regs c)"] regs by simp
  next
    case False
    obtain b tb where w: "reg_write R_PC (c_pc c) (c_regs c, c_tb c) = (b, tb)" by force
    have "reg_read r b = (if r = R_PC then c_pc c else reg_read r (c_regs c))" for r
      using read_reg_write[of r R_PC "c_pc c" "(c_regs c, c_tb c)"] unfolding w by (simp add: stored_def)
    moreover have "extends (c_tb c) tb" using extends_reg_write[of "(c_regs c, c_tb c)" R_PC "c_pc c"] unfolding w by simp
    moreover have "on_regs (reg_write R_PC (c_pc c)) c = c\<lparr>c_tb := tb, c_regs := b\<rparr>" unfolding on_regs_def w by simp
    ultimately show ?thesis
      using stored_back[OF c, where k = "on_regs (reg_write R_PC (c_pc c))" and tb = tb and b = b] False
      by (simp add: write_back_pc_def read_pc_def Let_def write_register_uncached_def)
  qed
qed

lemma fetch_execute_simulates:
  assumes c: "mem_ok c" and pc: "m_reg (cpu_abs store c) R_PC = pc"
    and sret: "behavior (c_opcodes c ! unat (m_mem (cpu_abs store c) (unat pc))) \<noteq> B_SRET"
  shows "simulates_at ops invar store (fetch_execute ops pc)
    (andthen (load8 (unat pc)) (\<lambda>is. andthen (set_reg R_PC (pc + 1)) (\<lambda>_.
     andthen (set_reg R_IS (ucast is)) (\<lambda>_. perform (c_opcodes c ! unat is))))) c"
  unfolding fetch_execute_def
proof (rule simulates_at_andthen)
  show "simulates_at ops invar store (mem_read8 ops (ucast pc)) (load8 (unat pc)) c"
    using sim_read8_u16 c by (simp add: simulates_def)
next
  fix x c1
  assume "load8 (unat pc) (cpu_abs store c) = (Inr x, cpu_abs store c1)" and c1: "mem_ok c1" "cpu_frame c c1"
  then have x: "x = m_mem (cpu_abs store c) (unat pc)" by (auto simp: load8_def split: if_splits)
  show "simulates_at ops invar store
      (andthen (write_pc (pc + 1)) (\<lambda>_. andthen (write_register R_IS (ucast x)) (\<lambda>_.
       andthen (gets c_opcodes) (\<lambda>opcodes. handle ops (opcodes ! unat x)))))
      (andthen (set_reg R_PC (pc + 1)) (\<lambda>_. andthen (set_reg R_IS (ucast x)) (\<lambda>_. perform (c_opcodes c ! unat x)))) c1"
  proof (rule simulates_at_andthen)
    show "simulates_at ops invar store (write_pc (pc + 1)) (set_reg R_PC (pc + 1)) c1"
      using sim_write_pc c1 by (simp add: simulates_def)
  next
    fix c2 assume c2: "mem_ok c2" "cpu_frame c1 c2"
    show "simulates_at ops invar store
      (andthen (write_register R_IS (ucast x)) (\<lambda>_. andthen (gets c_opcodes) (\<lambda>opcodes. handle ops (opcodes ! unat x))))
      (andthen (set_reg R_IS (ucast x)) (\<lambda>_. perform (c_opcodes c ! unat x))) c2"
    proof (rule simulates_at_andthen)
      show "simulates_at ops invar store (write_register R_IS (ucast x)) (set_reg R_IS (ucast x)) c2"
        using sim_write_register c2 by (simp add: simulates_def)
    next
      fix c3 assume c3: "mem_ok c3" "cpu_frame c2 c3"
      then have "c_opcodes c3 = c_opcodes c" using c1 c2 by (simp add: cpu_frame_def)
      then have "andthen (gets c_opcodes) (\<lambda>opcodes. handle ops (opcodes ! unat x)) c3 = handle ops (c_opcodes c ! unat x) c3"
        by simp
      moreover have "simulates_at ops invar store (handle ops (c_opcodes c ! unat x)) (perform (c_opcodes c ! unat x)) c3"
        using sim_handle sret c3 by (simp add: x simulates_def)
      ultimately show "simulates_at ops invar store
          (andthen (gets c_opcodes) (\<lambda>opcodes. handle ops (opcodes ! unat x))) (perform (c_opcodes c ! unat x)) c3"
        by (simp only: simulates_at_def)
    qed
  qed
qed

text \<open>One instruction, from bank to bank.\<close>

lemma execute_instruction_step:
  assumes c: "mem_ok c" and sret: "behavior (c_opcodes c ! unat (fetched (cpu_view store c))) \<noteq> B_SRET"
  shows "case machine_step (c_opcodes c) (cpu_view store c) of
      (Inr _, m) \<Rightarrow> \<exists>c'. execute_instruction ops c = (Inr (), c') \<and> cpu_view store c' = m \<and> mem_ok c' \<and> tick_frame c c'
    | (Inl _, _) \<Rightarrow> \<exists>e c'. execute_instruction ops c = (Inl e, c') \<and> mem_ok c' \<and> cpu_frame c c'"
proof -
  let ?pc = "rb_pc (c_regs c)" and ?c = "c\<lparr>c_pc := rb_pc (c_regs c)\<rparr>"
  have ok: "mem_ok ?c" by (rule mem_ok_keep[OF c]) simp_all
  have fr: "cpu_frame c ?c" by (simp add: cpu_frame_def)
  have pc: "m_reg (cpu_view store c) R_PC = ?pc" by (simp add: cpu_view_def)
  let ?m = "andthen (load8 (unat ?pc)) (\<lambda>is. andthen (set_reg R_PC (?pc + 1)) (\<lambda>_.
     andthen (set_reg R_IS (ucast is)) (\<lambda>_. perform (c_opcodes c ! unat is))))"
  have m: "machine_step (c_opcodes c) (cpu_view store c) = ?m (cpu_view store c)"
    by (simp add: machine_step_def get_reg_def pc)
  have "simulates_at ops invar store (fetch_execute ops ?pc) ?m ?c"
    using fetch_execute_simulates[OF ok, of ?pc] sret by (simp add: view_abs pc fetched_def)
  then have s: "case ?m (cpu_view store c) of
      (Inr x, m) \<Rightarrow> \<exists>c'. fetch_execute ops ?pc ?c = (Inr x, c') \<and> cpu_abs store c' = m \<and> mem_ok c' \<and> cpu_frame ?c c'
    | (Inl _, _) \<Rightarrow> \<exists>e c'. fetch_execute ops ?pc ?c = (Inl e, c') \<and> mem_ok c' \<and> cpu_frame ?c c'"
    by (simp add: simulates_at_def view_abs)
  show ?thesis
  proof (cases "?m (cpu_view store c)")
    case (Pair res h)
    show ?thesis
    proof (cases res)
      case (Inl u)
      then obtain e c' where c': "fetch_execute ops ?pc ?c = (Inl e, c')" "mem_ok c'" "cpu_frame ?c c'"
        using s Pair by auto
      then have "execute_instruction ops c = (Inl e, c')" by (simp add: execute_instruction_split andthen_def)
      then show ?thesis using c' Pair Inl m cpu_frame_trans[OF fr] by auto
    next
      case (Inr u)
      then obtain c' where c': "fetch_execute ops ?pc ?c = (Inr (), c')" "cpu_abs store c' = h" "mem_ok c'" "cpu_frame ?c c'"
        using s Pair by auto
      obtain c2 where c2: "write_back_pc ?pc c' = (Inr (), c2)" "cpu_view store c2 = cpu_abs store c'" "mem_ok c2" "tick_frame c' c2"
        using write_back[OF c'(3)] by blast
      have "execute_instruction ops c = (Inr (), c2)" using c' c2 by (simp add: execute_instruction_split andthen_def)
      moreover have "tick_frame c c2"
        using cpu_frame_trans[OF fr c'(4)] c2(4) by (auto simp: cpu_frame_tick intro: tick_frame_trans)
      ultimately show ?thesis using c' c2 Pair Inr m by auto
    qed
  qed
qed

text \<open>One tick: one step of the machine, inside one recording.\<close>

lemma clock_tick_step:
  assumes c: "mem_ok c" and opened: "instruction_open (c_trace c) (c_may_trace c) (c_tb c) = (Inr opened, tb1)"
    and sret: "behavior (c_opcodes c ! unat (fetched (cpu_view store c))) \<noteq> B_SRET"
  shows "case machine_step (c_opcodes c) (cpu_view store c) of
      (Inr _, m) \<Rightarrow> \<exists>c' tb2. clock_tick ops c = (Inr (), c') \<and> cpu_view store c' = m \<and> mem_ok c'
         \<and> c_instructions c' = c_instructions c + 1 \<and> c_opcodes c' = c_opcodes c
         \<and> c_trace c' = c_trace c \<and> c_may_trace c' = c_may_trace c
         \<and> extends (instruction_tick opened 1 tb1) tb2 \<and> c_tb c' = instruction_commit opened tb2
    | (Inl _, _) \<Rightarrow> \<exists>e c' tb2. clock_tick ops c = (Inl e, c') \<and> mem_ok c'
         \<and> c_instructions c' = c_instructions c \<and> rb_pc (c_regs c') = rb_pc (c_regs c)
         \<and> extends (instruction_tick opened 1 tb1) tb2 \<and> c_tb c' = instruction_abort opened tb2"
proof -
  let ?c = "c\<lparr>c_tb := instruction_tick opened 1 tb1\<rparr>"
  have view: "cpu_view store ?c = cpu_view store c"
    using store_tb[of "c_mem c" "instruction_tick opened 1 tb1" "c_tb c"] by (simp add: cpu_view_def)
  have ok: "mem_ok ?c" by (rule mem_ok_keep[OF c]) simp_all
  have s: "case machine_step (c_opcodes c) (cpu_view store c) of
      (Inr _, m) \<Rightarrow> \<exists>c'. execute_instruction ops ?c = (Inr (), c') \<and> cpu_view store c' = m \<and> mem_ok c' \<and> tick_frame ?c c'
    | (Inl _, _) \<Rightarrow> \<exists>e c'. execute_instruction ops ?c = (Inl e, c') \<and> mem_ok c' \<and> cpu_frame ?c c'"
    using execute_instruction_step[OF ok] sret by (simp add: view)
  have closed: "mem_ok c' \<Longrightarrow> mem_ok (c'\<lparr>c_tb := tb, c_instructions := n\<rparr>)"
      "mem_ok c' \<Longrightarrow> mem_ok (c'\<lparr>c_tb := tb\<rparr>)"
      "cpu_view store (c'\<lparr>c_tb := tb, c_instructions := n\<rparr>) = cpu_view store c'" for c' tb n
    using store_tb[of "c_mem c'" tb "c_tb c'"]
    by (auto simp: cpu_view_def elim: mem_ok_keep)
  show ?thesis
  proof (cases "machine_step (c_opcodes c) (cpu_view store c)")
    case (Pair res m)
    show ?thesis
    proof (cases res)
      case (Inl u)
      then obtain e c' where c': "execute_instruction ops ?c = (Inl e, c')" "mem_ok c'" "cpu_frame ?c c'"
        using s Pair by auto
      then have "clock_tick ops c = (Inl e, c'\<lparr>c_tb := instruction_abort opened (c_tb c')\<rparr>)"
        by (simp add: clock_tick_def opened)
      moreover have "mem_ok (c'\<lparr>c_tb := instruction_abort opened (c_tb c')\<rparr>)" using c'(2) by (rule closed(2))
      ultimately show ?thesis using c'(3) Pair Inl by (auto simp: cpu_frame_def)
    next
      case (Inr u)
      then obtain c' where c': "execute_instruction ops ?c = (Inr (), c')" "cpu_view store c' = m" "mem_ok c'" "tick_frame ?c c'"
        using s Pair by auto
      then have "clock_tick ops c =
          (Inr (), c'\<lparr>c_tb := instruction_commit opened (c_tb c'), c_instructions := c_instructions c' + 1\<rparr>)"
        by (simp add: clock_tick_def opened)
      moreover note closed(1)[OF c'(3), of "c_instructions c' + 1" "instruction_commit opened (c_tb c')"]
        closed(3)[of "c_instructions c' + 1" "instruction_commit opened (c_tb c')" c']
      ultimately show ?thesis using c' Pair Inr by (auto simp: tick_frame_def)
    qed
  qed
qed

text \<open>Programs, without a recorder.\<close>

lemma machine_step_no_sret:
  assumes "machine_step plane m = (Inr x, m')" shows "behavior (plane ! unat (fetched m)) \<noteq> B_SRET"
proof
  assume "behavior (plane ! unat (fetched m)) = B_SRET"
  then have "fst (machine_step plane m) = Inl ()"
    by (simp add: machine_step_def fetched_def get_reg_def set_reg_def load8_def perform_def Let_def andthen_def throw_def)
  then show False using assms by simp
qed

lemma untraced_open: "\<not> (c_may_trace c \<and> bound (c_trace c)) \<Longrightarrow>
    instruction_open (c_trace c) (c_may_trace c) (c_tb c) = (Inr None, c_tb c)"
  by (auto simp: instruction_open_def)

lemma ticks_run:
  "mem_ok c \<Longrightarrow> \<not> (c_may_trace c \<and> bound (c_trace c)) \<Longrightarrow>
   machine_run (c_opcodes c) n (cpu_view store c) = (Inr (), m) \<Longrightarrow>
   \<exists>c'. ticks ops n c = (Inr (), c') \<and> cpu_view store c' = m \<and> c_instructions c' = c_instructions c + word_of_nat n"
proof (induction n arbitrary: c)
  case (Suc n)
  obtain h where h: "machine_step (c_opcodes c) (cpu_view store c) = (Inr (), h)"
      "machine_run (c_opcodes c) n h = (Inr (), m)"
    using Suc.prems(3) by (auto simp: andthen_def split: prod.splits sum.splits)
  obtain c1 where c1: "clock_tick ops c = (Inr (), c1)" "cpu_view store c1 = h" "mem_ok c1"
      "c_instructions c1 = c_instructions c + 1" "c_opcodes c1 = c_opcodes c"
      "c_trace c1 = c_trace c" "c_may_trace c1 = c_may_trace c"
    using clock_tick_step[OF Suc.prems(1) untraced_open[OF Suc.prems(2)] machine_step_no_sret[OF h(1)]] h(1) by auto
  obtain c' where "ticks ops n c1 = (Inr (), c')" "cpu_view store c' = m"
      "c_instructions c' = c_instructions c1 + word_of_nat n"
    using Suc.IH[OF c1(3)] Suc.prems(2) c1 h(2) by auto
  then show ?case using c1 by (auto simp: andthen_def)
qed simp

text \<open>What the machine computes, the processor computes.\<close>

lemma sim_result:
  assumes "sim f g" and "mem_ok c" and "g (cpu_abs store c) = (Inr x, m)"
  shows "\<exists>c'. f c = (Inr x, c') \<and> cpu_abs store c' = m \<and> mem_ok c' \<and> cpu_frame c c'"
proof -
  have "simulates_at ops invar store f g c" using assms(1,2) by (simp add: simulates_def)
  then show ?thesis using assms(3) by (simp add: simulates_at_def)
qed

lemma cpu_abs_fields:
  "cpu_abs store c = m \<Longrightarrow> c_pc c = m_reg m R_PC \<and> (\<forall>r. r \<noteq> R_PC \<longrightarrow> reg_read r (c_regs c) = m_reg m r)
     \<and> c_call_depth c = m_depth m \<and> store (c_mem c, c_tb c) = m_mem m
     \<and> csr_unpack (csr_read_packed (c_csrs c)) = m_flags m"
  by (auto simp: cpu_abs_def)

lemma call_return:
  assumes c: "mem_ok c" and ad: "unat ad + 1 < 65536" and sp: "reg_read R_SP (c_regs c) \<noteq> 1"
  shows "\<exists>c1 c2. handle_call ops ad c = (Inr (), c1) \<and> handle_ret ops c1 = (Inr (), c2)
     \<and> c_pc c1 = join_bytes (store (c_mem c, c_tb c) (unat ad)) (store (c_mem c, c_tb c) (unat ad + 1))
     \<and> c_pc c2 = c_pc c \<and> c_call_depth c2 = c_call_depth c
     \<and> csr_unpack (csr_read_packed (c_csrs c2)) = csr_unpack (csr_read_packed (c_csrs c))
     \<and> (\<forall>r. r \<noteq> R_PC \<longrightarrow> reg_read r (c_regs c2) = reg_read r (c_regs c))
     \<and> store (c_mem c2, c_tb c2) = put_bytes (store (c_mem c, c_tb c)) (unat (reg_read R_SP (c_regs c) - 2))
          [hi_byte (c_pc c), lo_byte (c_pc c)]"
proof -
  define m where "m = cpu_abs store c"
  let ?sp = "m_reg m R_SP"
  have "?sp - 2 \<noteq> 0xFFFF"
  proof
    assume "?sp - 2 = 0xFFFF"
    then have "?sp - 2 + 2 = 0xFFFF + 2" by simp
    then show False using sp by (simp add: m_def cpu_abs_def)
  qed
  then have "unat (?sp - 2) \<noteq> unat (0xFFFF :: u16)" by (simp only: word_unat_eq_iff not_False_eq_True)
  then have lt: "unat (?sp - 2) + 1 < mem_size"
    using unsigned_less[of "?sp - 2", where 'a = nat] by (simp add: mem_size_def)
  let ?m1 = "m\<lparr>m_reg := (m_reg m)(R_SP := ?sp - 2, R_PC := join_bytes (m_mem m (unat ad)) (m_mem m (unat ad + 1))),
     m_mem := put_bytes (m_mem m) (unat (?sp - 2)) [hi_byte (m_reg m R_PC), lo_byte (m_reg m R_PC)], m_depth := m_depth m + 1\<rparr>"
  let ?m2 = "?m1\<lparr>m_reg := m_reg m, m_depth := m_depth m\<rparr>"
  obtain c1 where c1: "handle_call ops ad c = (Inr (), c1)" "cpu_abs store c1 = ?m1" "mem_ok c1"
    using sim_result[OF sim_call[where ad = ad] c, of "()" ?m1] ad lt
    by (auto simp: m_def[symmetric] load16_def store16_def get_reg_def set_reg_def add_depth_def stored_def mem_size_def andthen_def)
  have puts: "put_bytes f a [x, y] a = x" "put_bytes f a [x, y] (a + 1) = y" for f a and x y :: u8
    by (simp_all add: put_bytes_def)
  have regs: "(m_reg m)(R_SP := ?sp, R_PC := m_reg m R_PC) = m_reg m" by auto
  obtain c2 where c2: "handle_ret ops c1 = (Inr (), c2)" "cpu_abs store c2 = ?m2"
    using sim_result[OF sim_ret c1(3), of "()" ?m2] lt regs puts[of "m_mem m" "unat (?sp - 2)"]
    by (auto simp: c1(2) load16_def get_reg_def set_reg_def add_depth_def stored_def fun_upd_twist andthen_def)
  show ?thesis
    using c1(1) c2(1) cpu_abs_fields[OF c1(2)] cpu_abs_fields[OF c2(2)] cpu_abs_fields[OF m_def[symmetric]] by auto
qed

lemma store_load_byte:
  assumes c: "mem_ok c" and ad: "unat ad + 1 < 65536" and r: "register_of_u8 (target op) = R_A"
  shows "\<exists>c1 c2. handle_stbr ops op ad c = (Inr (), c1) \<and> handle_ldbr ops op ad c1 = (Inr (), c2)
     \<and> store (c_mem c1, c_tb c1) = put_bytes (store (c_mem c, c_tb c)) (unat ad) [lo_byte (reg_read R_A (c_regs c))]
     \<and> reg_read R_A (c_regs c2) = ucast (store (c_mem c, c_tb c) (unat ad + 1))"
proof -
  define m where "m = cpu_abs store c"
  let ?m1 = "m\<lparr>m_mem := put_bytes (m_mem m) (unat ad) [lo_byte (m_reg m R_A)]\<rparr>"
  let ?m2 = "?m1\<lparr>m_reg := (m_reg m)(R_A := ucast (m_mem m (unat ad + 1))), m_flags := alu_load_byte (m_mem m (unat ad + 1)) (m_flags m)\<rparr>"
  obtain c1 where c1: "handle_stbr ops op ad c = (Inr (), c1)" "cpu_abs store c1 = ?m1" "mem_ok c1"
    using sim_result[OF sim_stores(2)[where op = op and ad = ad] c, of "()" ?m1] ad
    by (auto simp: m_def[symmetric] r store8_def get_reg_def mem_size_def andthen_def)
  have past: "put_bytes f (unat ad) [x] (unat ad + 1) = f (unat ad + 1)" for f and x :: u8
    by (simp add: put_bytes_def)
  obtain c2 where c2: "handle_ldbr ops op ad c1 = (Inr (), c2)" "cpu_abs store c2 = ?m2"
    using sim_result[OF sim_ldbr[where op = op and ad = ad] c1(3), of "()" ?m2] ad past
    by (auto simp: c1(2) r load8_def get_reg_def set_reg_def get_flags_def set_flags_def mem_size_def stored_def andthen_def)
  show ?thesis
    using c1(1) c2(1) cpu_abs_fields[OF c1(2)] cpu_abs_fields[OF c2(2)] cpu_abs_fields[OF m_def[symmetric]] by auto
qed

lemma compare_flags:
  assumes c: "mem_ok c" and ad: "unat ad + 1 < 65536"
  shows "\<exists>c'. handle_cpwr ops op ad c = (Inr (), c') \<and> csr_unpack (csr_read_packed (c_csrs c')) =
     alu_compare (m_reg (cpu_abs store c) (register_of_u8 (target op)))
       (join_bytes (store (c_mem c, c_tb c) (unat ad)) (store (c_mem c, c_tb c) (unat ad + 1)))"
proof -
  define m where "m = cpu_abs store c"
  let ?f = "alu_compare (m_reg m (register_of_u8 (target op))) (join_bytes (m_mem m (unat ad)) (m_mem m (unat ad + 1)))"
  obtain c1 where c1: "handle_cpwr ops op ad c = (Inr (), c1)" "cpu_abs store c1 = m\<lparr>m_flags := ?f\<rparr>"
    using sim_result[OF sim_cpwr[where op = op and ad = ad] c, of "()" "m\<lparr>m_flags := ?f\<rparr>"] ad
    by (auto simp: m_def[symmetric] load16_def get_reg_def set_flags_def mem_size_def andthen_def)
  then show ?thesis using cpu_abs_fields[OF c1(2)] cpu_abs_fields[OF m_def[symmetric]] by (auto simp: m_def)
qed

end

section \<open>The return from a system call\<close>

text \<open>The handler leaves the working copy of the program counter as it was; every step but one does not touch it.\<close>

definition keeps_pc :: "('m, 'a) cpu_sm \<Rightarrow> bool" where
  "keeps_pc f \<longleftrightarrow> (\<forall>c. c_pc (snd (f c)) = c_pc c)"

lemma keeps_pc_andthen: "keeps_pc f \<Longrightarrow> (\<And>x. keeps_pc (g x)) \<Longrightarrow> keeps_pc (andthen f g)"
  unfolding keeps_pc_def andthen_def by (auto split: prod.split sum.split) (metis snd_conv)+

lemma keeps_pc_basic:
  "keeps_pc (ret x)" "keeps_pc (gets h)" "keeps_pc (on_mem m)" "keeps_pc (on_regs_t n)"
  "keeps_pc (read_register r)" "keeps_pc (write_packed_csr v)" "keeps_pc decrement_call_depth"
  by (auto simp: keeps_pc_def on_mem_def on_regs_t_def zoom_def read_register_def read_pc_def
      read_register_uncached_def write_packed_csr_def on_csrs_def decrement_call_depth_def change_call_depth_def Let_def
      split: prod.splits)

lemma keeps_pc_access:
  "keeps_pc (mem_read8 t a)" "keeps_pc (mem_write_bytes t a src)" "keeps_pc (ctx_load t a r ctx)"
  unfolding mem_read8_def mem_write_bytes_def ctx_load_def mem_read_bytes_def Let_def
  by (intro keeps_pc_andthen keeps_pc_basic)+

lemma keeps_pc_reread: "keeps_pc f \<Longrightarrow> keeps_pc (andthen (read_register R_PC) (\<lambda>pc. andthen (write_pc pc) (\<lambda>_. f)))"
  by (simp add: keeps_pc_def read_register_def read_pc_def write_pc_def)

lemma handle_sret_keeps_pc: "keeps_pc (handle_sret t)"
  unfolding handle_sret_def Let_def
  by (intro keeps_pc_reread keeps_pc_andthen keeps_pc_basic keeps_pc_access)

lemma write_back_pc_stores: "rb_pc (c_regs (snd (write_back_pc i c))) = c_pc c"
proof -
  obtain b tb where w: "reg_write R_PC (c_pc c) (c_regs c, c_tb c) = (b, tb)" by force
  have "rb_pc b = c_pc c"
    using read_reg_write[of R_PC R_PC "c_pc c" "(c_regs c, c_tb c)"] unfolding w by (simp add: stored_def)
  then show ?thesis
    by (simp add: write_back_pc_def read_pc_def write_register_uncached_def on_regs_def w write_pc_untraced_def Let_def)
qed

text \<open>A computation that succeeds from every state, with a result of some kind.\<close>

definition gives :: "('a \<Rightarrow> bool) \<Rightarrow> ('m, 'a) cpu_sm \<Rightarrow> bool" where
  "gives P f \<longleftrightarrow> (\<forall>c. \<exists>x c'. f c = (Inr x, c') \<and> P x)"

lemma gives_andthen: "gives P f \<Longrightarrow> (\<And>x. P x \<Longrightarrow> gives Q (g x)) \<Longrightarrow> gives Q (andthen f g)"
  unfolding gives_def andthen_def by (metis (no_types, lifting) case_prod_conv sum.case(2))

lemma gives_basic:
  "gives (\<lambda>_. True) (read_register r)" "gives (\<lambda>_. True) (gets c_op_data)" "gives (\<lambda>_. True) (write_packed_csr v)"
  "gives (\<lambda>_. True) (write_pc w)" "gives (\<lambda>_. True) decrement_call_depth"
  "gives (\<lambda>n. n = 12) (gets (\<lambda>c. unat (size_inclusive (bank_span (c_regs c, c_tb c)))))"
  by (auto simp: gives_def read_register_def read_pc_def read_register_uncached_def write_packed_csr_def write_pc_def
      decrement_call_depth_def gets_def modify_def bank_span_def REGISTER_COUNT_def size_inclusive_unat ivalid_def ival_def)

lemma gives_bank_read: "length dest = 12 \<Longrightarrow> gives (\<lambda>bs. length bs = 12) (on_regs_t (bank_read 0 dest p))"
  by (simp add: gives_def on_regs_t_def zoom_def bank_read_def out_of_bounds_def max_addr_def bank_span_def
      REGISTER_COUNT_def ival_def)

lemma gives_bank_write: "length src = 12 \<Longrightarrow> gives (\<lambda>_. True) (on_regs_t (bank_write 0 src p))"
  by (simp add: gives_def on_regs_t_def zoom_def bank_write_def out_of_bounds_def max_addr_def bank_span_def
      REGISTER_COUNT_def ival_def split: prod.split)

section \<open>Examples\<close>

text \<open>A processor after reset, with all of memory holding one byte; 7 is the opcode of \<open>NOP\<close>, 2 of \<open>SRET\<close>.\<close>

definition reset_cpu :: "'m \<Rightarrow> bool \<Rightarrow> 'm cpu" where
  "reset_cpu mem on =
     \<lparr>c_regs = make_reg_bank, c_csrs = make_csr_bank, c_pc = 0, c_call_depth = 0, c_instructions = 0,
      c_trace = \<lparr>bound = on, emitter = 5\<rparr>, c_may_trace = on, c_opcodes = opcode_plane10,
      c_op_data = mk_op Standard Kind_data 5, c_ref_call_depth = (0, 0), c_mem = mem, c_tb = fresh_trace_buffer 2\<rparr>"

lemma reset_cpu_fields [simp]:
  "c_regs (reset_cpu m on) = make_reg_bank" "c_csrs (reset_cpu m on) = make_csr_bank" "c_pc (reset_cpu m on) = 0"
  "c_instructions (reset_cpu m on) = 0" "c_trace (reset_cpu m on) = \<lparr>bound = on, emitter = 5\<rparr>"
  "c_may_trace (reset_cpu m on) = on" "c_opcodes (reset_cpu m on) = opcode_plane10" "c_mem (reset_cpu m on) = m"
  "c_tb (reset_cpu m on) = fresh_trace_buffer 2" "c_call_depth (reset_cpu m on) = 0"
  by (simp_all add: reset_cpu_def)

abbreviation dense_cpu where "dense_cpu b \<equiv> reset_cpu (make_dense (ival 0 0xFFFF) b)"
abbreviation sparse_cpu where "sparse_cpu b \<equiv> reset_cpu (make_sparse (ival 0 0xFFFF) b)"

lemma dense_cpu_ok: "cpu_ok dense_ops dense_ok (dense_cpu b on)"
  by (simp add: cpu_ok_def make_dense_ok dense_ops_def dense_span_def make_csr_bank_def)
     (simp add: make_dense_def)

lemma sparse_cpu_ok: "cpu_ok sparse_ops sparse_ok (sparse_cpu b on)"
  by (simp add: cpu_ok_def make_sparse_ok sparse_ops_def sparse_span_def make_csr_bank_def)
     (simp add: make_sparse_def)

definition reset_view :: "u8 \<Rightarrow> machine" where
  "reset_view b = \<lparr>m_reg = (\<lambda>_. 0), m_flags = (False, False, False, False), m_mem = filled (ival 0 0xFFFF) b, m_depth = 0\<rparr>"

lemma reset_views:
  "cpu_view dense_store (dense_cpu b on) = reset_view b" "cpu_view sparse_store (sparse_cpu b on) = reset_view b"
proof -
  have "reg_read r make_reg_bank = 0" for r by (cases r) (simp_all add: make_reg_bank_def)
  then show "cpu_view dense_store (dense_cpu b on) = reset_view b"
    "cpu_view sparse_store (sparse_cpu b on) = reset_view b"
    by (simp_all add: cpu_view_def reset_view_def dense_store_make sparse_store_make
        make_csr_bank_def csr_read_packed_def csr_unpack_def)
qed

lemma nop_plane: "opcode_plane10 ! 7 = sop B_HW_NOP SA_Unary" "opcode_plane10 ! 2 = sop B_SRET SA_Unary"
  by code_simp+

text \<open>The machine steps over a \<open>NOP\<close> anywhere in memory.\<close>

lemma nop_step:
  assumes "m_mem m = filled (ival 0 0xFFFF) 7"
  shows "machine_step opcode_plane10 m =
     (Inr (), m\<lparr>m_reg := (m_reg m)(R_PC := m_reg m R_PC + 1, R_IS := 7)\<rparr>)"
proof -
  have "unat (m_reg m R_PC) < mem_size" using unsigned_less[of "m_reg m R_PC", where 'a = nat] by (simp add: mem_size_def)
  then show ?thesis
    using assms nop_plane(1) unfolding machine_step_def
    by (simp add: load8_def get_reg_def set_reg_def filled_def ival_def mem_size_def andthen_def
        perform_def Let_def sop_def stored_def join_bytes_def lo_byte_def ret_def gets_def modify_def)
qed

section \<open>Properties\<close>







text \<open>
  Property C4.  Calling and returning.  A call jumps to the address its operand holds and pushes the
  program counter; the return that follows pops it: the program counter, every other register, the
  flags and the call depth are those before the call, and memory differs only in the two bytes of the
  return address.  (With 1 in \<open>SP\<close> the push would leave memory.)
\<close>

theorem call_then_return:
  assumes "cpu_ok dense_ops dense_ok c" and "unat ad + 1 < 65536" and "reg_read R_SP (c_regs c) \<noteq> 1"
  shows "\<exists>c1 c2. handle_call dense_ops ad c = (Inr (), c1) \<and> handle_ret dense_ops c1 = (Inr (), c2)
     \<and> c_pc c1 = join_bytes (dense_store (c_mem c, c_tb c) (unat ad)) (dense_store (c_mem c, c_tb c) (unat ad + 1))
     \<and> c_pc c2 = c_pc c \<and> c_call_depth c2 = c_call_depth c
     \<and> csr_unpack (csr_read_packed (c_csrs c2)) = csr_unpack (csr_read_packed (c_csrs c))
     \<and> (\<forall>r. r \<noteq> R_PC \<longrightarrow> reg_read r (c_regs c2) = reg_read r (c_regs c))
     \<and> dense_store (c_mem c2, c_tb c2) = put_bytes (dense_store (c_mem c, c_tb c)) (unat (reg_read R_SP (c_regs c) - 2))
          [hi_byte (c_pc c), lo_byte (c_pc c)]"
  using dn_traced.call_return[OF assms] .

lemma call_then_return_witness:
  "\<exists>c1 c2. handle_call dense_ops 16 (dense_cpu 7 False) = (Inr (), c1) \<and> handle_ret dense_ops c1 = (Inr (), c2)
     \<and> c_pc c1 = 0x0707 \<and> c_pc c2 = 0"
  using call_then_return[OF dense_cpu_ok[of 7 False], of 16]
  by (auto simp: make_reg_bank_def dense_store_make filled_def ival_def join_bytes_def)

text \<open>
  Property C5.  Comparing and branching.  After a comparison of a register with a word other than
  -32768, each conditional branch is taken exactly when the register stands in the named relation to
  the word as signed numbers; for -32768 the branches on less are taken whatever the register holds.
\<close>

theorem compare_then_branch:
  assumes "cpu_ok dense_ops dense_ok c" and "unat ad + 1 < 65536"
    and "a = m_reg (cpu_abs dense_store c) (register_of_u8 (target op))"
    and "b = join_bytes (dense_store (c_mem c, c_tb c) (unat ad)) (dense_store (c_mem c, c_tb c) (unat ad + 1))"
  shows "\<exists>c'. handle_cpwr dense_ops op ad c = (Inr (), c') \<and>
     (let f = csr_unpack (csr_read_packed (c_csrs c')) in
      (branch_taken BC_EQ f \<longleftrightarrow> a = b) \<and> (branch_taken BC_NE f \<longleftrightarrow> a \<noteq> b)
      \<and> (if b = 0x8000 then branch_taken BC_LT f \<and> branch_taken BC_LE f
         else (branch_taken BC_LT f \<longleftrightarrow> sint a < sint b) \<and> (branch_taken BC_LE f \<longleftrightarrow> sint a \<le> sint b)
            \<and> (branch_taken BC_GE f \<longleftrightarrow> sint a \<ge> sint b) \<and> (branch_taken BC_GT f \<longleftrightarrow> sint a > sint b)))"
proof -
  obtain c' where c': "handle_cpwr dense_ops op ad c = (Inr (), c')"
    "csr_unpack (csr_read_packed (c_csrs c')) = alu_compare a b"
    using dn_traced.compare_flags[OF assms(1,2), of op] unfolding assms(3,4) by blast
  have b: "b = 0x8000 \<longleftrightarrow> sint b = - 32768"
    using signed_word_eqI[of b "0x8000"] by auto
  have e: "a = b \<longleftrightarrow> sint a = sint b" by (auto intro: signed_word_eqI)
  show ?thesis using c' by (auto simp: Let_def alu_compare_def b e)
qed

lemma compare_then_branch_witness:
  "\<exists>c'. handle_cpwr dense_ops (sop_r B_CPW SA_I 0) 16 (dense_cpu 7 False) = (Inr (), c')
     \<and> branch_taken BC_LT (csr_unpack (csr_read_packed (c_csrs c')))"
  using compare_then_branch[OF dense_cpu_ok[of 7 False] _ refl refl, of 16 "sop_r B_CPW SA_I 0"]
  by (auto simp: make_reg_bank_def dense_store_make filled_def ival_def join_bytes_def cpu_abs_def
      sop_r_def register_of_u8_def Let_def)

text \<open>
  Property C6.  Byte loads and byte stores disagree.  The byte store of \<open>A\<close> writes the byte at the
  operand's address; the byte load that follows with the same address gives the byte after it.
\<close>

theorem byte_load_reads_next:
  assumes "cpu_ok dense_ops dense_ok c" and "unat ad + 1 < 65536" and "register_of_u8 (target op) = R_A"
  shows "\<exists>c1 c2. handle_stbr dense_ops op ad c = (Inr (), c1) \<and> handle_ldbr dense_ops op ad c1 = (Inr (), c2)
     \<and> dense_store (c_mem c1, c_tb c1) = put_bytes (dense_store (c_mem c, c_tb c)) (unat ad) [lo_byte (reg_read R_A (c_regs c))]
     \<and> reg_read R_A (c_regs c2) = ucast (dense_store (c_mem c, c_tb c) (unat ad + 1))"
  using dn_traced.store_load_byte[OF assms] .

lemma byte_load_reads_next_witness:
  "\<exists>c1 c2. handle_stbr dense_ops (sop_r B_STB SA_D 0) 16 (dense_cpu 7 False) = (Inr (), c1)
     \<and> handle_ldbr dense_ops (sop_r B_STB SA_D 0) 16 c1 = (Inr (), c2)
     \<and> dense_store (c_mem c1, c_tb c1) 16 = 0 \<and> reg_read R_A (c_regs c2) = 7"
  using byte_load_reads_next[OF dense_cpu_ok[of 7 False], of 16 "sop_r B_STB SA_D 0"]
  by (auto simp: make_reg_bank_def dense_store_make filled_def ival_def sop_r_def register_of_u8_def
      put_bytes_def lo_byte_def)

text \<open>
  Property C7.  The return from a system call does not return: whatever program counter the stack
  holds, execution goes on at the byte after the instruction.
\<close>

theorem sret_falls_through:
  assumes "mem_read8 t (ucast (rb_pc (c_regs c))) (c\<lparr>c_pc := rb_pc (c_regs c)\<rparr>) = (Inr opc, c1)"
    and "behavior (c_opcodes c ! unat opc) = B_SRET"
    and "fst (execute_instruction t c) = Inr ()"
  shows "rb_pc (c_regs (snd (execute_instruction t c))) = rb_pc (c_regs c) + 1"
proof -
  let ?pc = "rb_pc (c_regs c)"
  have c1: "c_opcodes c1 = c_opcodes c"
    using assms(1) by (auto simp: mem_read8_def on_mem_def zoom_def split: prod.splits)
  define c2 where "c2 = on_regs (reg_write R_IS (ucast opc)) (c1\<lparr>c_pc := ?pc + 1\<rparr>)"
  have c2: "c_pc c2 = ?pc + 1" "c_opcodes c2 = c_opcodes c"
    by (simp_all add: c2_def on_regs_def c1 split: prod.split)
  have e: "execute_instruction t c = andthen (handle_sret t) (\<lambda>_. write_back_pc ?pc) c2"
    using assms(1,2) c2
    by (simp add: execute_instruction_split fetch_execute_def write_pc_def write_register_def write_register_uncached_def
        handle_def andthen_def gets_def modify_def c2_def)
  obtain res c3 where h: "handle_sret t c2 = (res, c3)" by force
  then have r: "res = Inr ()" using assms(3) by (cases res) (auto simp: e andthen_def)
  have "c_pc c3 = c_pc c2" using handle_sret_keeps_pc[of t] h unfolding keeps_pc_def by (metis snd_conv)
  then show ?thesis using write_back_pc_stores[of ?pc c3] c2 by (simp add: e andthen_def h r)
qed

lemma sret_falls_through_witness:
  "let t = \<lparr>t_span = (\<lambda>_. ival 0 0xFFFF), t_read = (\<lambda>a dest p s. (Inr (map (\<lambda>_. 2) dest), s)),
            t_write = (\<lambda>a src p s. (Inr (), s))\<rparr>
   in rb_pc (c_regs (snd (execute_instruction t (reset_cpu () False)))) = 1"
proof -
  define t :: "unit cpu_target" where
    "t = \<lparr>t_span = (\<lambda>_. ival 0 0xFFFF), t_read = (\<lambda>a dest p s. (Inr (map (\<lambda>_. 2) dest), s)),
            t_write = (\<lambda>a src p s. (Inr (), s))\<rparr>"
  let ?c = "reset_cpu () False"
  have rd: "mem_read8 t a c = (Inr 2, c)" for a c
    by (simp add: mem_read8_def on_mem_def zoom_def read_int_def t_def andthen_def ret_def)
  have bytes: "gives (\<lambda>bs. length bs = 14) (ctx_load t a r ctx)"
    if "length ctx = 14" "unat (register_u8 r) < 6" for a r ctx
  proof -
    have "mem_read_bytes t a dest c = (Inr (map (\<lambda>_. 2) dest), c)" for dest c
      by (simp add: mem_read_bytes_def on_mem_def zoom_def t_def)
    then show ?thesis using that by (simp add: gives_def ctx_load_def andthen_def Let_def ret_def patch_def)
  qed
  have store: "gives (\<lambda>_. True) (mem_write_bytes t a src)" for a src
    by (simp add: gives_def mem_write_bytes_def on_mem_def zoom_def t_def)
  have read: "gives (\<lambda>x. x = 2) (mem_read8 t a)" for a by (simp add: gives_def rd)
  have sret: "gives (\<lambda>_. True) (handle_sret t)"
    unfolding handle_sret_def Let_def
    by (rule gives_andthen gives_basic bytes store read gives_bank_read gives_bank_write | simp add: RegisterCount10_def)+
  have "handle t (opcode_plane10 ! 2) = handle_sret t" by (simp add: handle_def nop_plane sop_def)
  then have "execute_instruction t ?c = andthen (handle_sret t) (\<lambda>_. write_back_pc 0)
      (on_regs (reg_write R_IS 2) (?c\<lparr>c_pc := 1\<rparr>))"
    by (simp add: execute_instruction_split fetch_execute_def write_pc_def write_register_def write_register_uncached_def
        andthen_def gets_def modify_def rd make_reg_bank_def on_regs_def split: prod.split)
  moreover have "\<exists>c'. write_back_pc 0 c = (Inr (), c')" for c :: "unit cpu"
    by (simp add: write_back_pc_def read_pc_def Let_def write_register_uncached_def)
  ultimately have "fst (execute_instruction t ?c) = Inr ()"
    using sret unfolding gives_def andthen_def by (metis (no_types, lifting) case_prod_conv fst_conv sum.case(2))
  then show ?thesis
    using sret_falls_through[of t ?c 2, OF rd] nop_plane(2)
    by (simp add: t_def[symmetric] sop_def make_reg_bank_def)
qed

end
