(* ===== verification/Tvm_Machine.thy ===== *)
theory Tvm_Machine
  imports Sim_Api
begin

text \<open>
  The state of the trace virtual machine, from \<^verbatim>\<open>sim/debugger/tvm_opcodes.hpp\<close>,
  \<^verbatim>\<open>tvm_machine.hpp\<close> and \<^verbatim>\<open>tvm_machine.cpp\<close>: opcodes and opcode words, flags,
  registers, the call stack and the reading of instruction words.

  The buffers that hold code and data are seen through \<open>buffers\<close>, the map from a buffer identifier
  to its bytes that \<^verbatim>\<open>BufferManager::find\<close> gives.
\<close>

section \<open>Opcodes\<close>

text \<open>A cast of a value without an enumerator keeps the value: \<open>Stop_unnamed\<close>.\<close>

datatype (plugins only: code size) stop_cause =
    Stop_None | Stop_StackOverflow | Stop_StackUnderflow | Stop_IllegalOpcode | Stop_InvalidIBuffer
  | Stop_InvalidDBuffer | Stop_WrongTR | Stop_MissingSystem | Stop_RegisterInvalid
  | Stop_RegisterSizeMismatch | Stop_RegisterWidthIllegal | Stop_StepWidthIllegal
  | Stop_TargetInvalid | Stop_TargetNotMemory | Stop_TargetNotFIFO | Stop_UnbalancedInvCall
  | Stop_Unimplemented | Stop_unnamed u16

definition stop_causes :: "stop_cause list" where
  "stop_causes =
     [Stop_None, Stop_StackOverflow, Stop_StackUnderflow, Stop_IllegalOpcode, Stop_InvalidIBuffer,
      Stop_InvalidDBuffer, Stop_WrongTR, Stop_MissingSystem, Stop_RegisterInvalid,
      Stop_RegisterSizeMismatch, Stop_RegisterWidthIllegal, Stop_StepWidthIllegal,
      Stop_TargetInvalid, Stop_TargetNotMemory, Stop_TargetNotFIFO, Stop_UnbalancedInvCall,
      Stop_Unimplemented]"

definition stop_cause_of :: "u16 \<Rightarrow> stop_cause" where
  "stop_cause_of v = (if unat v < length stop_causes then stop_causes ! unat v else Stop_unnamed v)"

datatype delta = Delta_Assign | Delta_Xor | Delta_Add

definition encode_order :: "byte_order \<Rightarrow> u16" where
  "encode_order ord = (if ord = BigEndian then 1 else 0)"

definition decode_order :: "u16 \<Rightarrow> byte_order" where
  "decode_order w = (if w \<noteq> 0 then BigEndian else LittleEndian)"

datatype (plugins only: code size) tvm_opcode =
    OP_HALT | OP_RET | OP_CALL | OP_LMR | OP_ASYN | OP_ISYN | OP_INVCALL | OP_BRF
  | OP_NOP | OP_BREQ | OP_BRGT | OP_BRGE | OP_BRLT | OP_BRLE | OP_BRNE | OP_BR
  | OP_SETMEM | OP_SETREG | OP_SETMEMX | OP_SETREGX | OP_CMPMEM | OP_CMPREG | OP_CLRMEM | OP_CLRREG
  | OP_TRADDR | OP_LDP | OP_ACCDP | OP_INCDP | OP_CCB | OP_INVRET | OP_SETMEMDX | OP_MMIO
  | OP_STEPMEM | OP_STEPREG

primrec opcode_number :: "tvm_opcode \<Rightarrow> nat" where
  "opcode_number OP_HALT = 0"
| "opcode_number OP_RET = 1"
| "opcode_number OP_CALL = 2"
| "opcode_number OP_LMR = 3"
| "opcode_number OP_ASYN = 4"
| "opcode_number OP_ISYN = 5"
| "opcode_number OP_INVCALL = 6"
| "opcode_number OP_BRF = 7"
| "opcode_number OP_NOP = 8"
| "opcode_number OP_BREQ = 9"
| "opcode_number OP_BRGT = 10"
| "opcode_number OP_BRGE = 11"
| "opcode_number OP_BRLT = 12"
| "opcode_number OP_BRLE = 13"
| "opcode_number OP_BRNE = 14"
| "opcode_number OP_BR = 15"
| "opcode_number OP_SETMEM = 16"
| "opcode_number OP_SETREG = 17"
| "opcode_number OP_SETMEMX = 18"
| "opcode_number OP_SETREGX = 19"
| "opcode_number OP_CMPMEM = 20"
| "opcode_number OP_CMPREG = 21"
| "opcode_number OP_CLRMEM = 22"
| "opcode_number OP_CLRREG = 23"
| "opcode_number OP_TRADDR = 24"
| "opcode_number OP_LDP = 25"
| "opcode_number OP_ACCDP = 26"
| "opcode_number OP_INCDP = 27"
| "opcode_number OP_CCB = 28"
| "opcode_number OP_INVRET = 29"
| "opcode_number OP_SETMEMDX = 30"
| "opcode_number OP_MMIO = 31"
| "opcode_number OP_STEPMEM = 32"
| "opcode_number OP_STEPREG = 34"

definition tvm_opcodes :: "tvm_opcode list" where
  "tvm_opcodes =
     [OP_HALT, OP_RET, OP_CALL, OP_LMR, OP_ASYN, OP_ISYN, OP_INVCALL, OP_BRF,
      OP_NOP, OP_BREQ, OP_BRGT, OP_BRGE, OP_BRLT, OP_BRLE, OP_BRNE, OP_BR,
      OP_SETMEM, OP_SETREG, OP_SETMEMX, OP_SETREGX, OP_CMPMEM, OP_CMPREG, OP_CLRMEM, OP_CLRREG,
      OP_TRADDR, OP_LDP, OP_ACCDP, OP_INCDP, OP_CCB, OP_INVRET, OP_SETMEMDX, OP_MMIO,
      OP_STEPMEM, OP_STEPREG]"

text \<open>The cast to \<^verbatim>\<open>Opcode\<close>, and which enumerator, if any, has the value.\<close>

definition opcode_value :: "tvm_opcode \<Rightarrow> 6 word" where
  "opcode_value c = word_of_nat (opcode_number c)"

definition opcode_of :: "6 word \<Rightarrow> tvm_opcode option" where
  "opcode_of w = List.find (\<lambda>c. opcode_number c = unat w) tvm_opcodes"

text \<open>The padding bit of an \<^verbatim>\<open>OpWord\<close> is never read and left out.\<close>

record opword =
  ow_ocpode :: "6 word"
  ow_clrmod :: bool
  ow_word_len :: u8

definition default_opword :: opword where
  "default_opword = \<lparr>ow_ocpode = opcode_value OP_HALT, ow_clrmod = False, ow_word_len = 0\<rparr>"

definition mk_opword :: "tvm_opcode \<Rightarrow> bool \<Rightarrow> u8 \<Rightarrow> opword" where
  "mk_opword c clrmod word_len = \<lparr>ow_ocpode = opcode_value c, ow_clrmod = clrmod, ow_word_len = word_len\<rparr>"

definition opword_of_bytes :: "u8 \<Rightarrow> u8 \<Rightarrow> opword" where
  "opword_of_bytes op_byte sz =
     \<lparr>ow_ocpode = ucast (op_byte AND (push_bit 6 1 - 1)), ow_clrmod = (op_byte AND push_bit 6 1 \<noteq> 0),
      ow_word_len = sz\<rparr>"

definition opword_of_u16 :: "u16 \<Rightarrow> opword" where
  "opword_of_u16 w = opword_of_bytes (ucast (drop_bit 8 w)) (ucast (w AND 0xFF))"

definition opword_as_u16 :: "opword \<Rightarrow> u16" where
  "opword_as_u16 w =
     (let op_byte = (push_bit 6 (if ow_clrmod w then 1 else 0) OR ucast (ow_ocpode w)) :: u8
      in push_bit 8 (ucast op_byte) OR ucast (ow_word_len w))"

text \<open>The bit of each register in the mask of a masked load.\<close>

datatype (plugins only: code size) reg_mask =
    RM_IP_HI | RM_IP_LO | RM_DP_HI | RM_DP_LO | RM_DS | RM_ACCESS | RM_ID_HI | RM_ID_LO
  | RM_OFF_HI | RM_OFF_LO | RM_MOD1_HI | RM_MOD1_LO | RM_MOD2_HI | RM_MOD2_LO | RM_FLAGS

definition reg_masks :: "reg_mask list" where
  "reg_masks =
     [RM_IP_HI, RM_IP_LO, RM_DP_HI, RM_DP_LO, RM_DS, RM_ACCESS, RM_ID_HI, RM_ID_LO,
      RM_OFF_HI, RM_OFF_LO, RM_MOD1_HI, RM_MOD1_LO, RM_MOD2_HI, RM_MOD2_LO, RM_FLAGS]"

definition reg_mask_at :: "nat \<Rightarrow> reg_mask option" where
  "reg_mask_at i = (if i < length reg_masks then Some (reg_masks ! i) else None)"

definition CC_E :: u16 where "CC_E = 1"
definition CC_G :: u16 where "CC_G = 2"
definition CC_L :: u16 where "CC_L = 4"
definition CC_F :: u16 where "CC_F = 8"
definition CC_MASK :: u16 where "CC_MASK = push_bit 1 CC_F - 1"

record segment_pair =
  s_hi :: u16
  s_lo :: u16

definition pair_as_u32 :: "segment_pair \<Rightarrow> u32" where
  "pair_as_u32 p = push_bit 16 (ucast (s_hi p)) OR ucast (s_lo p)"

definition null_pair :: segment_pair where
  "null_pair = \<lparr>s_hi = 0, s_lo = 0\<rparr>"

section \<open>The machine\<close>

record flags =
  fl_N :: bool
  fl_Z :: bool
  fl_TR :: bool
  fl_L :: bool
  fl_M1 :: bool
  fl_M2 :: bool
  fl_CLRMOD :: bool
  fl_F :: bool

definition default_flags :: flags where
  "default_flags = \<lparr>fl_N = False, fl_Z = False, fl_TR = False, fl_L = True, fl_M1 = False,
     fl_M2 = False, fl_CLRMOD = False, fl_F = False\<rparr>"

definition flags_of_u8 :: "u8 \<Rightarrow> flags" where
  "flags_of_u8 v =
     \<lparr>fl_N = (v AND 1 \<noteq> 0), fl_Z = (drop_bit 1 v AND 1 \<noteq> 0), fl_TR = (drop_bit 2 v AND 1 \<noteq> 0),
      fl_L = (drop_bit 3 v AND 1 \<noteq> 0), fl_M1 = (drop_bit 4 v AND 1 \<noteq> 0), fl_M2 = (drop_bit 5 v AND 1 \<noteq> 0),
      fl_CLRMOD = (drop_bit 6 v AND 1 \<noteq> 0), fl_F = (drop_bit 7 v AND 1 \<noteq> 0)\<rparr>"

definition flags_as_u8 :: "flags \<Rightarrow> u8" where
  "flags_as_u8 f =
     push_bit 0 (of_bool (fl_N f)) OR push_bit 1 (of_bool (fl_Z f)) OR push_bit 2 (of_bool (fl_TR f))
     OR push_bit 3 (of_bool (fl_L f)) OR push_bit 4 (of_bool (fl_M1 f)) OR push_bit 5 (of_bool (fl_M2 f))
     OR push_bit 6 (of_bool (fl_CLRMOD f)) OR push_bit 7 (of_bool (fl_F f))"

record tvm_regs =
  rg_IP :: segment_pair
  rg_DP :: segment_pair
  rg_DS :: u16
  rg_ACCESS :: u16
  rg_ID :: segment_pair
  rg_OFF :: segment_pair
  rg_MOD1 :: segment_pair
  rg_MOD2 :: segment_pair
  rg_STOP_CAUSE :: stop_cause
  rg_SP :: u16
  rg_IS :: opword

definition default_regs :: tvm_regs where
  "default_regs =
     \<lparr>rg_IP = null_pair, rg_DP = null_pair, rg_DS = 0, rg_ACCESS = 0, rg_ID = null_pair,
      rg_OFF = null_pair, rg_MOD1 = null_pair, rg_MOD2 = null_pair, rg_STOP_CAUSE = Stop_None,
      rg_SP = 0, rg_IS = default_opword\<rparr>"

record tvm =
  csrs :: flags
  regs :: tvm_regs
  stack :: "u8 list"

definition STACK_BYTES :: nat where
  "STACK_BYTES = 256"

definition fresh_tvm :: tvm where
  "fresh_tvm = \<lparr>csrs = default_flags, regs = default_regs, stack = replicate STACK_BYTES 0\<rparr>"

definition soft_stop :: "stop_cause \<Rightarrow> tvm \<Rightarrow> tvm" where
  "soft_stop cause st =
     st\<lparr>csrs := (csrs st)\<lparr>fl_L := False, fl_F := False\<rparr>, regs := (regs st)\<lparr>rg_STOP_CAUSE := cause\<rparr>\<rparr>"

definition hard_stop :: "stop_cause \<Rightarrow> tvm \<Rightarrow> tvm" where
  "hard_stop cause st =
     st\<lparr>csrs := (csrs st)\<lparr>fl_L := False, fl_F := True\<rparr>, regs := (regs st)\<lparr>rg_STOP_CAUSE := cause\<rparr>\<rparr>"

definition stopped :: "tvm \<Rightarrow> bool" where
  "stopped st \<longleftrightarrow> \<not> fl_L (csrs st)"

datatype retention = Retain_None | Retain_DP | Retain_All

definition restart :: "retention \<Rightarrow> tvm \<Rightarrow> tvm" where
  "restart retain st =
     (let st' = (case retain of
                   Retain_All \<Rightarrow> st
                 | Retain_DP \<Rightarrow> st\<lparr>regs := default_regs\<lparr>rg_DP := rg_DP (regs st), rg_DS := rg_DS (regs st)\<rparr>,
                                   csrs := default_flags\<rparr>
                 | Retain_None \<Rightarrow> st\<lparr>regs := default_regs, csrs := default_flags\<rparr>)
      in st'\<lparr>csrs := (csrs st')\<lparr>fl_L := True, fl_F := False\<rparr>\<rparr>)"

text \<open>A \<^verbatim>\<open>Buffer::Location\<close>: a buffer and an offset in it; and the location of a recorded program.\<close>

record location =
  loc_id :: u16
  loc_offset :: u16

record program_location =
  pl_code :: location
  pl_data :: location

definition update_ip :: "location \<Rightarrow> tvm \<Rightarrow> tvm" where
  "update_ip loc st =
     st\<lparr>regs := (regs st)\<lparr>rg_IP := \<lparr>s_hi = loc_id loc, s_lo = loc_offset loc AND 0xFFFE\<rparr>\<rparr>\<rparr>"

definition update_dp :: "location \<Rightarrow> tvm \<Rightarrow> tvm" where
  "update_dp loc st = st\<lparr>regs := (regs st)\<lparr>rg_DP := \<lparr>s_hi = loc_id loc, s_lo = loc_offset loc\<rparr>\<rparr>\<rparr>"

text \<open>The sum \<open>SP + 4\<close> is computed in \<^verbatim>\<open>int\<close> and does not wrap.\<close>

definition push :: "segment_pair \<Rightarrow> tvm \<Rightarrow> tvm" where
  "push v st =
     (let sp = unat (rg_SP (regs st)) in
      if sp + 4 > STACK_BYTES then hard_stop Stop_StackOverflow st
      else st\<lparr>stack := (stack st)[sp := hi_byte (s_hi v), sp + 1 := lo_byte (s_hi v),
                                 sp + 2 := hi_byte (s_lo v), sp + 3 := lo_byte (s_lo v)],
              regs := (regs st)\<lparr>rg_SP := rg_SP (regs st) + 4\<rparr>\<rparr>)"

definition pop :: "tvm \<Rightarrow> segment_pair \<times> tvm" where
  "pop st =
     (if rg_SP (regs st) < 4 then (null_pair, hard_stop Stop_StackUnderflow st)
      else let sp = unat (rg_SP (regs st) - 4); b = (\<lambda>i. stack st ! (sp + i))
           in (\<lparr>s_hi = join_bytes (b 0) (b 1), s_lo = join_bytes (b 2) (b 3)\<rparr>,
               st\<lparr>regs := (regs st)\<lparr>rg_SP := rg_SP (regs st) - 4\<rparr>\<rparr>))"

type_synonym buffers = "u16 \<Rightarrow> u8 list option"

definition read16 :: "buffers \<Rightarrow> u16 \<Rightarrow> u16 \<Rightarrow> tvm \<Rightarrow> u16 \<times> tvm" where
  "read16 find_buf ident offset st =
     (case find_buf ident of
        None \<Rightarrow> (0, hard_stop Stop_InvalidIBuffer st)
      | Some whole \<Rightarrow>
          if unat offset + 2 > length whole then (0, hard_stop Stop_InvalidIBuffer st)
          else (join_bytes (whole ! (unat offset + 1)) (whole ! unat offset), st))"

section \<open>Opcode words and flags\<close>

named_theorems tvm_simps "rewriting of the machine's records"

lemma opcode_of_value [simp, tvm_simps]: "opcode_of (opcode_value c) = Some c"
  by (cases c) (simp_all add: opcode_of_def opcode_value_def tvm_opcodes_def unat_of_nat)

lemma opcode_value_of: "opcode_of w = Some c \<Longrightarrow> opcode_value c = w"
  by (auto simp: opcode_of_def opcode_value_def find_Some_iff)

lemma opcode_value_inject: "opcode_value c = opcode_value d \<longleftrightarrow> c = d"
  by (metis opcode_of_value option.inject)

lemma opcode_bits [simp]: "bit (opcode_value c) i \<Longrightarrow> i < 6"
  using bit_imp_le_length by fastforce

lemma opword_round [simp, tvm_simps]: "opword_of_u16 (opword_as_u16 w) = w"
proof -
  have "(ucast (drop_bit 8 (opword_as_u16 w)) :: u8) =
      push_bit 6 (if ow_clrmod w then 1 else 0) OR ucast (ow_ocpode w)"
    by (intro bit_word_eqI) (auto simp: opword_as_u16_def bit_simps dest: bit_imp_le_length)
  moreover have "(ucast (opword_as_u16 w AND 0xFF) :: u8) = ow_word_len w"
  proof -
    have ff: "(0xFF :: u16) = mask 8" by (simp add: mask_eq_exp_minus_1)
    show ?thesis unfolding ff
      by (intro bit_word_eqI) (auto simp: opword_as_u16_def bit_simps dest: bit_imp_le_length)
  qed
  moreover have "(ucast ((push_bit 6 (if b then 1 else 0) OR ucast v :: u8) AND (push_bit 6 1 - 1)) :: 6 word) = v" for b and v :: "6 word"
  proof -
    have m: "(push_bit 6 1 - 1 :: u8) = mask 6" by (simp add: mask_eq_exp_minus_1)
    show ?thesis unfolding m
      by (intro bit_word_eqI) (auto simp: bit_simps dest: bit_imp_le_length)
  qed
  moreover have "(push_bit 6 (if b then 1 else 0) OR ucast v :: u8) AND push_bit 6 1 \<noteq> 0 \<longleftrightarrow> b" for b and v :: "6 word"
  proof -
    have "bit (push_bit 6 (if b then 1 else 0) OR ucast v :: u8) 6 \<longleftrightarrow> b"
      by (auto simp: bit_simps dest: bit_imp_le_length)
    then have "(push_bit 6 (if b then 1 else 0) OR ucast v :: u8) AND 2 ^ 6 \<noteq> 0 \<longleftrightarrow> b"
      using and_exp_eq_0_iff_not_bit[of "push_bit 6 (if b then 1 else 0) OR ucast v :: u8" 6] by blast
    moreover have "(2 ^ 6 :: u8) = push_bit 6 1" by (simp add: push_bit_eq_mult)
    ultimately show ?thesis by simp
  qed
  ultimately show ?thesis by (simp add: opword_of_u16_def opword_of_bytes_def)
qed

lemma drop_and_one: "drop_bit n x AND 1 \<noteq> 0 \<longleftrightarrow> bit x n" for x :: "'a::len word"
  by (simp add: and_one_eq mod_2_eq_odd bit_iff_odd_drop_bit)

lemma and_one_bit: "x AND 1 \<noteq> 0 \<longleftrightarrow> bit x 0" for x :: "'a::len word"
  using drop_and_one[of 0 x] by simp

lemma flags_round [simp]: "flags_of_u8 (flags_as_u8 f) = f"
  by (cases f) (simp only: flags_as_u8_def flags_of_u8_def drop_and_one and_one_bit bit_or_iff bit_push_bit_iff
      bit_of_bool_iff flags.select_convs, simp)

lemma flags_as_of [simp]: "flags_as_u8 (flags_of_u8 v) = v"
proof -
  have "\<forall>v. flags_as_u8 (flags_of_u8 v) = v" unfolding all_u8 by code_simp
  then show ?thesis by blast
qed

section \<open>The call stack as a list\<close>

text \<open>
  The frames below the stack pointer, the last one pushed at the end.  The stack pointer is no operand of
  any instruction, so it stays a multiple of four between 0 and 256.
\<close>

definition frame_at :: "u8 list \<Rightarrow> nat \<Rightarrow> segment_pair" where
  "frame_at s k = \<lparr>s_hi = join_bytes (s ! (4 * k)) (s ! (4 * k + 1)),
                  s_lo = join_bytes (s ! (4 * k + 2)) (s ! (4 * k + 3))\<rparr>"

definition frames :: "tvm \<Rightarrow> segment_pair list" where
  "frames st = map (frame_at (stack st)) [0..<unat (rg_SP (regs st)) div 4]"

definition stack_ok :: "tvm \<Rightarrow> bool" where
  "stack_ok st \<longleftrightarrow>
     length (stack st) = STACK_BYTES \<and> unat (rg_SP (regs st)) \<le> STACK_BYTES \<and> 4 dvd unat (rg_SP (regs st))"

lemma stops [simp]:
  "stack (hard_stop c st) = stack st" "stack (soft_stop c st) = stack st"
  "regs (hard_stop c st) = (regs st)\<lparr>rg_STOP_CAUSE := c\<rparr>" "regs (soft_stop c st) = (regs st)\<lparr>rg_STOP_CAUSE := c\<rparr>"
  "fl_L (csrs (hard_stop c st)) = False" "fl_L (csrs (soft_stop c st)) = False"
  "fl_F (csrs (hard_stop c st)) = True" "fl_F (csrs (soft_stop c st)) = False"
  by (simp_all add: hard_stop_def soft_stop_def)

lemma stack_ok_cong: "stack st' = stack st \<Longrightarrow> rg_SP (regs st') = rg_SP (regs st) \<Longrightarrow> stack_ok st' = stack_ok st"
  by (simp add: stack_ok_def)

lemma frames_cong: "stack st' = stack st \<Longrightarrow> rg_SP (regs st') = rg_SP (regs st) \<Longrightarrow> frames st' = frames st"
  by (simp add: frames_def)

lemma stack_ok_stops [simp]: "stack_ok (hard_stop c st) = stack_ok st" "stack_ok (soft_stop c st) = stack_ok st"
  by (rule stack_ok_cong; simp)+

lemma fresh_stack_ok [simp]: "stack_ok fresh_tvm" "frames fresh_tvm = []"
  by (simp_all add: stack_ok_def fresh_tvm_def default_regs_def frames_def)

lemma unat_SP_add: "unat (sp :: u16) + 4 \<le> STACK_BYTES \<Longrightarrow> unat (sp + 4) = unat sp + 4"
  by (simp add: STACK_BYTES_def unat_word_ariths(1))

lemma unat_SP_sub: "\<not> (sp :: u16) < 4 \<Longrightarrow> unat (sp - 4) = unat sp - 4"
  by (simp add: unat_sub word_le_nat_alt word_less_nat_alt not_less)

lemma length_frames: "length (frames st) = unat (rg_SP (regs st)) div 4"
  by (simp add: frames_def)

lemma stack_ok_frames:
  assumes "stack_ok st"
  shows "unat (rg_SP (regs st)) = 4 * length (frames st)" and "length (frames st) \<le> 64"
proof -
  have "4 dvd unat (rg_SP (regs st))" and le: "unat (rg_SP (regs st)) \<le> 256"
    using assms by (auto simp only: stack_ok_def STACK_BYTES_def)
  then show "unat (rg_SP (regs st)) = 4 * length (frames st)"
    by (simp only: length_frames dvd_mult_div_cancel)
  have d: "(256 :: nat) div 4 = 64" by simp
  show "length (frames st) \<le> 64" unfolding length_frames using div_le_mono[OF le, of 4] by (simp only: d)
qed

lemma push_within:
  assumes "stack_ok st" and "length (frames st) < 64"
  shows "stack_ok (push v st)" and "frames (push v st) = frames st @ [v]" and "csrs (push v st) = csrs st"
    and "regs (push v st) = (regs st)\<lparr>rg_SP := rg_SP (regs st) + 4\<rparr>"
proof -
  let ?sp = "unat (rg_SP (regs st))"
  define k where "k = length (frames st)"
  have sp: "?sp = 4 * k" "?sp + 4 \<le> STACK_BYTES"
    using stack_ok_frames[OF assms(1)] assms(2) by (simp_all add: STACK_BYTES_def k_def)
  note add = unat_SP_add[OF sp(2)]
  have len: "length (stack st) = 256" using assms(1) by (simp add: stack_ok_def STACK_BYTES_def)
  have p: "push v st = st\<lparr>stack := (stack st)[?sp := hi_byte (s_hi v), ?sp + 1 := lo_byte (s_hi v),
                                 ?sp + 2 := hi_byte (s_lo v), ?sp + 3 := lo_byte (s_lo v)],
              regs := (regs st)\<lparr>rg_SP := rg_SP (regs st) + 4\<rparr>\<rparr>"
    using sp(2) by (simp add: push_def Let_def)
  show "csrs (push v st) = csrs st" "regs (push v st) = (regs st)\<lparr>rg_SP := rg_SP (regs st) + 4\<rparr>"
    by (simp_all add: p)
  show "stack_ok (push v st)" using assms(1) sp(2) add by (simp add: p stack_ok_def)
  show "frames (push v st) = frames st @ [v]"
  proof -
    have n: "unat (rg_SP (regs (push v st))) div 4 = Suc k" using add sp(1) by (simp add: p)
    have old: "frame_at (stack (push v st)) i = frame_at (stack st) i" if "i < k" for i
      using that sp by (simp add: p frame_at_def)
    have new: "frame_at (stack (push v st)) k = v"
      using len sp by (simp add: p frame_at_def STACK_BYTES_def nth_list_update)
    have fst: "frames st = map (frame_at (stack st)) [0..<k]" using sp(1) by (simp add: frames_def)
    have "frames (push v st) = map (frame_at (stack (push v st))) [0..<k] @ [v]"
      using new by (simp add: frames_def n)
    also have "map (frame_at (stack (push v st))) [0..<k] = frames st"
      by (simp add: fst old)
    finally show ?thesis .
  qed
qed

lemma push_overflow: "stack_ok st \<Longrightarrow> length (frames st) = 64 \<Longrightarrow> push v st = hard_stop Stop_StackOverflow st"
  using stack_ok_frames[of st] by (simp add: push_def Let_def STACK_BYTES_def)

lemma pop_within:
  assumes "stack_ok st" and "frames st = fs @ [v]"
  shows "fst (pop st) = v" and "stack_ok (snd (pop st))" and "frames (snd (pop st)) = fs"
    and "csrs (snd (pop st)) = csrs st" and "regs (snd (pop st)) = (regs st)\<lparr>rg_SP := rg_SP (regs st) - 4\<rparr>"
proof -
  let ?sp = "unat (rg_SP (regs st))"
  have sp: "?sp = 4 * length fs + 4" using stack_ok_frames[OF assms(1)] assms(2) by simp
  then have ge: "\<not> rg_SP (regs st) < 4" by (simp add: word_less_nat_alt)
  note sub = unat_SP_sub[OF ge]
  have p: "pop st = (frame_at (stack st) (length fs), st\<lparr>regs := (regs st)\<lparr>rg_SP := rg_SP (regs st) - 4\<rparr>\<rparr>)"
    using ge sub sp by (simp add: pop_def Let_def frame_at_def)
  have fs: "map (frame_at (stack st)) [0..<length fs] @ [frame_at (stack st) (length fs)] = fs @ [v]"
    using assms(2) sp by (simp add: frames_def)
  show "fst (pop st) = v" using fs by (simp add: p)
  show "stack_ok (snd (pop st))" using assms(1) sp sub by (auto simp: p stack_ok_def dvd_def)
  show "frames (snd (pop st)) = fs" using fs sp sub by (simp add: p frames_def)
  show "csrs (snd (pop st)) = csrs st" "regs (snd (pop st)) = (regs st)\<lparr>rg_SP := rg_SP (regs st) - 4\<rparr>"
    by (simp_all add: p)
qed

lemma pop_underflow: "stack_ok st \<Longrightarrow> frames st = [] \<Longrightarrow> pop st = (null_pair, hard_stop Stop_StackUnderflow st)"
  using stack_ok_frames[of st] by (simp add: pop_def word_less_nat_alt)

text \<open>Whatever happens, the stack stays in its array.\<close>

lemma stack_ok_push [simp]: "stack_ok st \<Longrightarrow> stack_ok (push v st)"
  using push_within(1)[of st v] push_overflow[of st v] stack_ok_frames[of st] by (cases "length (frames st) < 64") auto

lemma stack_ok_pop [simp]: "stack_ok st \<Longrightarrow> stack_ok (snd (pop st))"
  using pop_within(2)[of st] pop_underflow[of st] by (cases "frames st" rule: rev_cases) auto

lemma stack_ok_read16 [simp]: "stack_ok (snd (read16 bufs i offset st)) = stack_ok st"
  by (auto simp: read16_def split: option.splits)

lemma stack_ok_restart [simp]: "stack_ok st \<Longrightarrow> stack_ok (restart r st)"
  by (cases r) (simp_all add: stack_ok_def restart_def default_regs_def Let_def STACK_BYTES_def)

lemma stack_ok_update_ip [simp]: "stack_ok (update_ip l st) = stack_ok st" "stack_ok (update_dp l st) = stack_ok st"
  by (rule stack_ok_cong; simp add: update_ip_def update_dp_def)+



end
