(* ===== verification/Tvm_Encoding.thy ===== *)
theory Tvm_Encoding
  imports Tvm_Machine
begin

text \<open>
  Encoded and decoded instructions of the trace virtual machine, from
  \<^verbatim>\<open>sim/debugger/tvm_encoding.hpp\<close>.  Each struct of \<^verbatim>\<open>EncodedOp\<close> is one definition, from
  its members to the bytes that \<^verbatim>\<open>encode()\<close> gives; the number at its end is that of the template
  argument.
\<close>

section \<open>Bytes of packets\<close>

definition word_bytes_le :: "u16 \<Rightarrow> u8 list" where
  "word_bytes_le w = [ucast (w AND 0xFF), ucast (drop_bit 8 w AND 0xFF)]"

definition encode_op :: "tvm_opcode \<Rightarrow> bool \<Rightarrow> u16 list \<Rightarrow> u8 list" where
  "encode_op c clrmod mods =
     concat (map word_bytes_le (opword_as_u16 (mk_opword c clrmod (word_of_nat (length mods))) # mods))"

fun pack_bytes :: "u8 list \<Rightarrow> u16 list" where
  "pack_bytes [] = []"
| "pack_bytes [b] = [ucast b]"
| "pack_bytes (b # b' # bs) = (ucast b OR push_bit 8 (ucast b')) # pack_bytes bs"

text \<open>
  \<^verbatim>\<open>ImmediateEncoder\<close>: the operand words \<open>prefix\<close>, the size of the data in bytes, and the data; from
  bytes and from words.
\<close>

definition encode_immediate :: "tvm_opcode \<Rightarrow> u16 list \<Rightarrow> u8 list \<Rightarrow> u8 list" where
  "encode_immediate c prefix bytes = encode_op c True (prefix @ word_of_nat (length bytes) # pack_bytes bytes)"

definition encode_immediate_words :: "tvm_opcode \<Rightarrow> u16 list \<Rightarrow> u16 list \<Rightarrow> u8 list" where
  "encode_immediate_words c prefix ws = encode_op c True (prefix @ (2 * word_of_nat (length ws)) # ws)"

section \<open>Encoded instructions\<close>

definition stop_cause_value :: "stop_cause \<Rightarrow> u16" where
  "stop_cause_value c =
     (case c of Stop_unnamed v \<Rightarrow> v
      | _ \<Rightarrow> word_of_nat (length (takeWhile (\<lambda>d. d \<noteq> c) stop_causes)))"

definition e_halt0 :: "u8 list" where "e_halt0 = encode_op OP_HALT True []"
definition e_halt1 :: "stop_cause \<Rightarrow> u8 list" where "e_halt1 cause = encode_op OP_HALT True [stop_cause_value cause]"
definition e_ret :: "u8 list" where "e_ret = encode_op OP_RET True []"
definition e_invret :: "u8 list" where "e_invret = encode_op OP_INVRET True []"

definition e_call0 :: "u8 list" where "e_call0 = encode_op OP_CALL True []"
definition e_call1 :: "u16 \<Rightarrow> u8 list" where "e_call1 next_ip_lo = encode_op OP_CALL True [next_ip_lo]"
definition e_call2 :: "segment_pair \<Rightarrow> u8 list" where
  "e_call2 next_ip = encode_op OP_CALL True [s_lo next_ip, s_hi next_ip]"

definition e_invcall0 :: "u8 list" where "e_invcall0 = encode_op OP_INVCALL True []"
definition e_invcall1 :: "u16 \<Rightarrow> u8 list" where "e_invcall1 on_forward_lo = encode_op OP_INVCALL True [on_forward_lo]"
definition e_invcall2 :: "u16 \<Rightarrow> u16 \<Rightarrow> u8 list" where
  "e_invcall2 on_forward_lo on_backward_lo = encode_op OP_INVCALL True [on_forward_lo, on_backward_lo]"
definition e_invcall3 :: "segment_pair \<Rightarrow> u16 \<Rightarrow> u8 list" where
  "e_invcall3 on_forward on_backward_lo =
     encode_op OP_INVCALL True [s_lo on_forward, on_backward_lo, s_hi on_forward]"
definition e_invcall4 :: "segment_pair \<Rightarrow> segment_pair \<Rightarrow> u8 list" where
  "e_invcall4 on_forward on_backward =
     encode_op OP_INVCALL True [s_lo on_forward, s_lo on_backward, s_hi on_forward, s_hi on_backward]"

text \<open>The synchronisation instructions, for \<open>c\<close> one of \<open>OP_ASYN\<close> and \<open>OP_ISYN\<close>.\<close>

definition e_syn0 :: "tvm_opcode \<Rightarrow> u8 list" where "e_syn0 c = encode_op c True []"
definition e_syn1 :: "tvm_opcode \<Rightarrow> u8 list \<Rightarrow> u8 list" where "e_syn1 c = encode_immediate c []"
definition e_syn1_words :: "tvm_opcode \<Rightarrow> u16 list \<Rightarrow> u8 list" where "e_syn1_words c = encode_immediate_words c []"

text \<open>
  The masked load.  The pairs of register and value are sorted by register, by insertion that moves
  a pair left past strictly greater ones.
\<close>

definition reg_mask_bit :: "reg_mask \<Rightarrow> u16" where
  "reg_mask_bit m = push_bit (length (takeWhile (\<lambda>d. d \<noteq> m) reg_masks)) 1"

fun lmr_insert :: "reg_mask \<times> u16 \<Rightarrow> (reg_mask \<times> u16) list \<Rightarrow> (reg_mask \<times> u16) list" where
  "lmr_insert key [] = [key]"
| "lmr_insert key (p # ps) =
     (if reg_mask_bit (fst p) > reg_mask_bit (fst key) then key # p # ps else p # lmr_insert key ps)"

definition lmr_sort :: "(reg_mask \<times> u16) list \<Rightarrow> (reg_mask \<times> u16) list" where
  "lmr_sort pairs = foldl (\<lambda>ps key. lmr_insert key ps) [] pairs"

definition e_lmr :: "bool \<Rightarrow> (reg_mask \<times> u16) list \<Rightarrow> u8 list" where
  "e_lmr clrmod pairs =
     (let sorted = lmr_sort pairs;
          combined = foldl (\<lambda>m p. m OR reg_mask_bit (fst p)) 0 sorted
      in encode_op OP_LMR clrmod (combined # map snd sorted))"

definition e_ldr :: "reg_mask \<Rightarrow> u16 \<Rightarrow> u8 list" where
  "e_ldr r v = encode_op OP_LMR False [reg_mask_bit r, v]"

text \<open>Branches, for \<open>c\<close> one of the nine branch opcodes.\<close>

definition e_br0 :: "tvm_opcode \<Rightarrow> u8 list" where "e_br0 c = encode_op c True []"
definition e_br1 :: "tvm_opcode \<Rightarrow> u16 \<Rightarrow> u8 list" where "e_br1 c displacement_lo = encode_op c True [displacement_lo]"
definition e_br2 :: "tvm_opcode \<Rightarrow> segment_pair \<Rightarrow> u8 list" where
  "e_br2 c displacement = encode_op c True [s_lo displacement, s_hi displacement]"

definition e_cmpmem1 :: "u16 \<Rightarrow> u8 list" where "e_cmpmem1 dev = encode_op OP_CMPMEM True [dev]"
definition e_cmpmem2 :: "u16 \<Rightarrow> u16 \<Rightarrow> u8 list" where "e_cmpmem2 dev off_hi = encode_op OP_CMPMEM True [dev, off_hi]"
definition e_cmpmem3 :: "u16 \<Rightarrow> segment_pair \<Rightarrow> u8 list" where
  "e_cmpmem3 dev off = encode_op OP_CMPMEM True [dev, s_hi off, s_lo off]"
definition e_cmpmem4 :: "u16 \<Rightarrow> segment_pair \<Rightarrow> u8 list \<Rightarrow> u8 list" where
  "e_cmpmem4 dev off = encode_immediate OP_CMPMEM [dev, s_hi off, s_lo off]"

definition set_mem_op :: "bool \<Rightarrow> tvm_opcode" where "set_mem_op x = (if x then OP_SETMEMX else OP_SETMEM)"
definition e_setmem1 :: "bool \<Rightarrow> u16 \<Rightarrow> u8 list" where "e_setmem1 x access = encode_op (set_mem_op x) True [access]"
definition e_setmem2 :: "bool \<Rightarrow> u16 \<Rightarrow> u16 \<Rightarrow> u8 list" where
  "e_setmem2 x access dev = encode_op (set_mem_op x) True [access, dev]"
definition e_setmem3 :: "bool \<Rightarrow> u16 \<Rightarrow> u16 \<Rightarrow> u16 \<Rightarrow> u8 list" where
  "e_setmem3 x access dev off_hi = encode_op (set_mem_op x) True [access, dev, off_hi]"
definition e_setmem4 :: "bool \<Rightarrow> u16 \<Rightarrow> u16 \<Rightarrow> segment_pair \<Rightarrow> u8 list" where
  "e_setmem4 x access dev off = encode_op (set_mem_op x) True [access, dev, s_hi off, s_lo off]"
definition e_setmem5 :: "bool \<Rightarrow> u16 \<Rightarrow> u16 \<Rightarrow> segment_pair \<Rightarrow> u8 list \<Rightarrow> u8 list" where
  "e_setmem5 x access dev off = encode_immediate (set_mem_op x) [access, dev, s_hi off, s_lo off]"

definition set_reg_op :: "bool \<Rightarrow> tvm_opcode" where "set_reg_op x = (if x then OP_SETREGX else OP_SETREG)"
definition e_setreg1 :: "bool \<Rightarrow> u16 \<Rightarrow> u8 list" where "e_setreg1 x access = encode_op (set_reg_op x) True [access]"
definition e_setreg2 :: "bool \<Rightarrow> u16 \<Rightarrow> u16 \<Rightarrow> u8 list" where
  "e_setreg2 x access reg = encode_op (set_reg_op x) True [access, reg]"
definition e_setreg3 :: "bool \<Rightarrow> u16 \<Rightarrow> u16 \<Rightarrow> u16 \<Rightarrow> u8 list" where
  "e_setreg3 x access reg field = encode_op (set_reg_op x) True [access, reg, field]"
definition e_setreg4 :: "bool \<Rightarrow> u16 \<Rightarrow> u16 \<Rightarrow> u16 \<Rightarrow> u8 list \<Rightarrow> u8 list" where
  "e_setreg4 x access reg field = encode_immediate (set_reg_op x) [access, reg, field]"

definition e_stepmem1 :: "u16 \<Rightarrow> u8 list" where "e_stepmem1 access = encode_op OP_STEPMEM True [access]"
definition e_stepmem2 :: "u16 \<Rightarrow> u16 \<Rightarrow> u8 list" where "e_stepmem2 access dev = encode_op OP_STEPMEM True [access, dev]"
definition e_stepmem3 :: "u16 \<Rightarrow> u16 \<Rightarrow> u16 \<Rightarrow> u8 list" where
  "e_stepmem3 access dev off_hi = encode_op OP_STEPMEM True [access, dev, off_hi]"
definition e_stepmem4 :: "u16 \<Rightarrow> u16 \<Rightarrow> segment_pair \<Rightarrow> u8 list" where
  "e_stepmem4 access dev off = encode_op OP_STEPMEM True [access, dev, s_hi off, s_lo off]"
definition e_stepmem5 :: "u16 \<Rightarrow> u16 \<Rightarrow> segment_pair \<Rightarrow> u16 \<Rightarrow> u8 list" where
  "e_stepmem5 access dev off order = encode_op OP_STEPMEM True [access, dev, s_hi off, s_lo off, order]"
definition e_stepmem6 :: "u16 \<Rightarrow> u16 \<Rightarrow> segment_pair \<Rightarrow> u16 \<Rightarrow> u8 list \<Rightarrow> u8 list" where
  "e_stepmem6 access dev off order = encode_immediate OP_STEPMEM [access, dev, s_hi off, s_lo off, order]"

definition e_stepreg1 :: "u16 \<Rightarrow> u8 list" where "e_stepreg1 access = encode_op OP_STEPREG True [access]"
definition e_stepreg2 :: "u16 \<Rightarrow> u16 \<Rightarrow> u8 list" where "e_stepreg2 access reg = encode_op OP_STEPREG True [access, reg]"
definition e_stepreg3 :: "u16 \<Rightarrow> u16 \<Rightarrow> u16 \<Rightarrow> u8 list" where
  "e_stepreg3 access reg field = encode_op OP_STEPREG True [access, reg, field]"
definition e_stepreg4 :: "u16 \<Rightarrow> u16 \<Rightarrow> u16 \<Rightarrow> u8 list \<Rightarrow> u8 list" where
  "e_stepreg4 access reg field = encode_immediate OP_STEPREG [access, reg, field]"

definition e_setmemdx1 :: "u16 \<Rightarrow> u8 list" where "e_setmemdx1 access = encode_op OP_SETMEMDX True [access]"
definition e_setmemdx2 :: "u16 \<Rightarrow> u16 \<Rightarrow> u8 list" where "e_setmemdx2 access dev = encode_op OP_SETMEMDX True [access, dev]"

definition e_clrmem1 :: "u16 \<Rightarrow> u8 list" where "e_clrmem1 dev = encode_op OP_CLRMEM True [dev]"
definition e_clrmem2 :: "u16 \<Rightarrow> u8 \<Rightarrow> u8 list" where "e_clrmem2 dev reset = encode_op OP_CLRMEM True [dev, ucast reset]"

definition e_cmpreg1 :: "u16 \<Rightarrow> u8 list" where "e_cmpreg1 reg = encode_op OP_CMPREG True [reg]"
definition e_cmpreg2 :: "u16 \<Rightarrow> u16 \<Rightarrow> u8 list" where "e_cmpreg2 reg field = encode_op OP_CMPREG True [reg, field]"
definition e_cmpreg3 :: "u16 \<Rightarrow> u16 \<Rightarrow> u8 list \<Rightarrow> u8 list" where
  "e_cmpreg3 reg field = encode_immediate OP_CMPREG [reg, field]"

definition e_clrreg1 :: "u16 \<Rightarrow> u8 list" where "e_clrreg1 reg = encode_op OP_CLRREG True [reg]"
definition e_clrreg2 :: "u16 \<Rightarrow> u16 \<Rightarrow> u8 list" where "e_clrreg2 reg field = encode_op OP_CLRREG True [reg, field]"

definition e_ldp1 :: "u16 \<Rightarrow> u8 list" where "e_ldp1 DP_lo = encode_op OP_LDP True [DP_lo]"
definition e_ldp2 :: "u16 \<Rightarrow> u16 \<Rightarrow> u8 list" where "e_ldp2 DP_lo DS = encode_op OP_LDP True [DP_lo, DS]"
definition e_ldp3 :: "segment_pair \<Rightarrow> u16 \<Rightarrow> u8 list" where
  "e_ldp3 DP DS = encode_op OP_LDP True [s_lo DP, DS, s_hi DP]"
definition e_accdp :: "u16 \<Rightarrow> u8 list" where "e_accdp DS = encode_op OP_ACCDP True [DS]"
definition e_incdp :: "u16 \<Rightarrow> u16 \<Rightarrow> u8 list" where "e_incdp dp_incr DS = encode_op OP_INCDP True [dp_incr, DS]"

definition e_mmio3 :: "bool \<Rightarrow> u16 \<Rightarrow> u16 \<Rightarrow> u8 list" where
  "e_mmio3 read_write access dev = encode_op OP_MMIO True [access, dev, if read_write then 1 else 0]"

section \<open>Decoded instructions\<close>

record delta_mem =
  dm_kind :: delta
  dm_access :: operation
  dm_target :: u8
  dm_offset :: u32
  dm_data :: segment_pair
  dm_size :: u16
  dm_order :: byte_order

text \<open>A register reference holds a register and a field identifier.\<close>

record delta_reg =
  dr_kind :: delta
  dr_reg :: "u16 \<times> u16"
  dr_data :: segment_pair
  dr_size :: u16

record cmp_mem =
  cm_target :: u8
  cm_offset :: u32
  cm_data :: segment_pair
  cm_size :: u16

record cmp_reg =
  cr_reg :: "u16 \<times> u16"
  cr_data :: segment_pair
  cr_size :: u16

record translate =
  ta_target :: u8
  ta_source :: u8
  ta_target_offset :: u32
  ta_source_offset :: u32
  ta_size :: u32

record mmio =
  mm_write :: bool
  mm_data :: u8
  mm_size :: u8
  mm_target :: u8
  mm_access :: operation
  mm_offset :: u32

datatype (plugins only: code size) decoded_op =
    D_Halt stop_cause
  | D_Ret
  | D_Call segment_pair
  | D_InvCall segment_pair segment_pair  \<comment> \<open>on forward, on backward\<close>
  | D_InvRet
  | D_ASyn u64
  | D_ISyn u64  \<comment> \<open>the signed difference\<close>
  | D_LMR u16 "u8 list"  \<comment> \<open>mask, bytes of the words\<close>
  | D_BR u16 segment_pair  \<comment> \<open>condition, displacement\<close>
  | D_DeltaMem delta_mem
  | D_CmpMem cmp_mem
  | D_ClrMem u8 u8  \<comment> \<open>target, fill\<close>
  | D_DeltaReg delta_reg
  | D_CmpReg cmp_reg
  | D_ClrReg "u16 \<times> u16"
  | D_TRADDR translate
  | D_LDP
  | D_DPIncr u16 u16  \<comment> \<open>increment, DS\<close>
  | D_MMIO mmio

definition lmr_word_count :: "u8 list \<Rightarrow> nat" where
  "lmr_word_count data = unat (word_of_nat (length data div 2) :: u8)"

definition lmr_word :: "u8 list \<Rightarrow> nat \<Rightarrow> u16" where
  "lmr_word data i = ucast (data ! (i * 2)) OR push_bit 8 (ucast (data ! (i * 2 + 1)))"

end
