(* ===== verification/Tvm_Decoder.thy ===== *)
theory Tvm_Decoder
  imports Tvm_Encoding
begin

text \<open>
  The decoder of the trace virtual machine, from \<^verbatim>\<open>sim/debugger/tvm_decoder.hpp\<close> and
  \<^verbatim>\<open>tvm_decoder.cpp\<close>.  Decoding a packet reads its words, programs the registers the packet
  supplies, keeps the others, and resolves the operands.  A switch over the number of words that falls
  through from the longest case is a sequence of steps, each taken from its number of words on.
\<close>

section \<open>Operand words\<close>

definition word_len :: "tvm \<Rightarrow> nat" where
  "word_len st = unat (ow_word_len (rg_IS (regs st)))"

definition if_words :: "nat \<Rightarrow> (tvm \<Rightarrow> tvm) \<Rightarrow> tvm \<Rightarrow> tvm" where
  "if_words k f st = (if k \<le> word_len st then f st else st)"

definition load_word :: "buffers \<Rightarrow> u16 \<Rightarrow> u16 \<Rightarrow> (u16 \<Rightarrow> tvm \<Rightarrow> tvm) \<Rightarrow> tvm \<Rightarrow> tvm" where
  "load_word bufs ibp offset put st = (case read16 bufs ibp offset st of (w, st') \<Rightarrow> put w st')"

definition put_ACCESS :: "u16 \<Rightarrow> tvm \<Rightarrow> tvm" where
  "put_ACCESS w st = st\<lparr>regs := (regs st)\<lparr>rg_ACCESS := w\<rparr>\<rparr>"

definition put_ID_hi :: "u16 \<Rightarrow> tvm \<Rightarrow> tvm" where
  "put_ID_hi w st = st\<lparr>regs := (regs st)\<lparr>rg_ID := (rg_ID (regs st))\<lparr>s_hi := w\<rparr>\<rparr>\<rparr>"

definition put_ID_lo :: "u16 \<Rightarrow> tvm \<Rightarrow> tvm" where
  "put_ID_lo w st = st\<lparr>regs := (regs st)\<lparr>rg_ID := (rg_ID (regs st))\<lparr>s_lo := w\<rparr>\<rparr>\<rparr>"

definition put_OFF_hi :: "u16 \<Rightarrow> tvm \<Rightarrow> tvm" where
  "put_OFF_hi w st = st\<lparr>regs := (regs st)\<lparr>rg_OFF := (rg_OFF (regs st))\<lparr>s_hi := w\<rparr>\<rparr>\<rparr>"

definition put_OFF_lo :: "u16 \<Rightarrow> tvm \<Rightarrow> tvm" where
  "put_OFF_lo w st = st\<lparr>regs := (regs st)\<lparr>rg_OFF := (rg_OFF (regs st))\<lparr>s_lo := w\<rparr>\<rparr>\<rparr>"

definition put_DP_hi :: "u16 \<Rightarrow> tvm \<Rightarrow> tvm" where
  "put_DP_hi w st = st\<lparr>regs := (regs st)\<lparr>rg_DP := (rg_DP (regs st))\<lparr>s_hi := w\<rparr>\<rparr>\<rparr>"

definition put_DP_lo :: "u16 \<Rightarrow> tvm \<Rightarrow> tvm" where
  "put_DP_lo w st = st\<lparr>regs := (regs st)\<lparr>rg_DP := (rg_DP (regs st))\<lparr>s_lo := w\<rparr>\<rparr>\<rparr>"

definition put_DS :: "u16 \<Rightarrow> tvm \<Rightarrow> tvm" where
  "put_DS w st = st\<lparr>regs := (regs st)\<lparr>rg_DS := w\<rparr>\<rparr>"

definition put_MOD1_hi :: "u16 \<Rightarrow> tvm \<Rightarrow> tvm" where
  "put_MOD1_hi w st = st\<lparr>regs := (regs st)\<lparr>rg_MOD1 := (rg_MOD1 (regs st))\<lparr>s_hi := w\<rparr>\<rparr>\<rparr>"

definition put_MOD1_lo :: "u16 \<Rightarrow> tvm \<Rightarrow> tvm" where
  "put_MOD1_lo w st = st\<lparr>regs := (regs st)\<lparr>rg_MOD1 := (rg_MOD1 (regs st))\<lparr>s_lo := w\<rparr>\<rparr>\<rparr>"

definition put_MOD2_hi :: "u16 \<Rightarrow> tvm \<Rightarrow> tvm" where
  "put_MOD2_hi w st = st\<lparr>regs := (regs st)\<lparr>rg_MOD2 := (rg_MOD2 (regs st))\<lparr>s_hi := w\<rparr>\<rparr>\<rparr>"

definition put_MOD2_lo :: "u16 \<Rightarrow> tvm \<Rightarrow> tvm" where
  "put_MOD2_lo w st = st\<lparr>regs := (regs st)\<lparr>rg_MOD2 := (rg_MOD2 (regs st))\<lparr>s_lo := w\<rparr>\<rparr>\<rparr>"

definition put_MOD1 :: "segment_pair \<Rightarrow> tvm \<Rightarrow> tvm" where
  "put_MOD1 p st = st\<lparr>regs := (regs st)\<lparr>rg_MOD1 := p\<rparr>, csrs := (csrs st)\<lparr>fl_M1 := True\<rparr>\<rparr>"

definition put_MOD2 :: "segment_pair \<Rightarrow> tvm \<Rightarrow> tvm" where
  "put_MOD2 p st = st\<lparr>regs := (regs st)\<lparr>rg_MOD2 := p\<rparr>, csrs := (csrs st)\<lparr>fl_M2 := True\<rparr>\<rparr>"

definition set_M1 :: "tvm \<Rightarrow> tvm" where "set_M1 st = st\<lparr>csrs := (csrs st)\<lparr>fl_M1 := True\<rparr>\<rparr>"
definition set_M2 :: "tvm \<Rightarrow> tvm" where "set_M2 st = st\<lparr>csrs := (csrs st)\<lparr>fl_M2 := True\<rparr>\<rparr>"
definition set_TR :: "bool \<Rightarrow> tvm \<Rightarrow> tvm" where "set_TR b st = st\<lparr>csrs := (csrs st)\<lparr>fl_TR := b\<rparr>\<rparr>"

text \<open>The immediate form: \<open>MOD1.lo\<close> holds the size, \<open>MOD2\<close> points at the data in the packet.\<close>

definition put_immediate :: "u16 \<Rightarrow> u16 \<Rightarrow> tvm \<Rightarrow> tvm" where
  "put_immediate at w st = put_MOD2 \<lparr>s_hi = s_hi (rg_IP (regs st)), s_lo = at\<rparr> (set_M1 (put_MOD1_lo w st))"

definition data_operand :: "nat \<Rightarrow> tvm \<Rightarrow> segment_pair \<times> u16" where
  "data_operand k st =
     (if k \<le> word_len st then (rg_MOD2 (regs st), s_lo (rg_MOD1 (regs st))) else (rg_DP (regs st), rg_DS (regs st)))"

section \<open>Control instructions\<close>

definition decode_halt :: "buffers \<Rightarrow> u16 \<Rightarrow> u16 \<Rightarrow> tvm \<Rightarrow> decoded_op \<times> tvm" where
  "decode_halt bufs ibp iop st =
     (if word_len st = 0 then (D_Halt Stop_None, st)
      else case read16 bufs ibp (iop + 0) st of (w, st') \<Rightarrow> (D_Halt (stop_cause_of w), st'))"

definition decode_call :: "buffers \<Rightarrow> u16 \<Rightarrow> u16 \<Rightarrow> tvm \<Rightarrow> decoded_op \<times> tvm" where
  "decode_call bufs ibp iop st =
     (let (hi, st1) = (if 2 \<le> word_len st then read16 bufs ibp (iop + 2) st else (s_hi (rg_IP (regs st)), st));
          (lo, st2) = (if 1 \<le> word_len st then read16 bufs ibp (iop + 0) st1 else (iop + 0, st1))
      in (D_Call \<lparr>s_hi = hi, s_lo = lo\<rparr>, st2))"

definition decode_invcall :: "buffers \<Rightarrow> u16 \<Rightarrow> u16 \<Rightarrow> tvm \<Rightarrow> decoded_op \<times> tvm" where
  "decode_invcall bufs ibp iop st =
     (let ip = rg_IP (regs st); n = word_len st;
          (bhi, st1) = (if 4 \<le> n then read16 bufs ibp (iop + 6) st else (s_hi ip, st));
          (fhi, st2) = (if 3 \<le> n then read16 bufs ibp (iop + 4) st1 else (s_hi ip, st1));
          (blo, st3) = (if 2 \<le> n then read16 bufs ibp (iop + 2) st2 else (s_lo ip, st2));
          (flo, st4) = (if 1 \<le> n then read16 bufs ibp (iop + 0) st3 else (s_lo ip, st3));
          on_forward = \<lparr>s_hi = fhi, s_lo = flo\<rparr>; on_backward = \<lparr>s_hi = bhi, s_lo = blo\<rparr>
      in (D_InvCall on_forward on_backward, if_words 2 (put_MOD2 on_backward) (if_words 1 (put_MOD1 on_forward) st4)))"

text \<open>
  The operand of a synchronisation instruction: the bytes found and their number, which is at most 8.
  When the data buffer does not hold them the machine stops and the result is 0.
\<close>

definition bytes_value :: "u8 list \<Rightarrow> u64" where
  "bytes_value bs = foldl (\<lambda>v i. v OR push_bit (8 * i) (ucast (bs ! i))) 0 [0..<length bs]"

definition decode_syn_data :: "buffers \<Rightarrow> u16 \<Rightarrow> u16 \<Rightarrow> tvm \<Rightarrow> (u64 \<times> u8) \<times> tvm" where
  "decode_syn_data bufs ibp iop st =
     (let st1 = if_words 1 (load_word bufs ibp (iop + 0) (\<lambda>w. put_immediate (iop + 2) (min w 8))) st;
          (data, size16) = (if 1 \<le> word_len st then (rg_MOD2 (regs st1), s_lo (rg_MOD1 (regs st1)))
                            else (rg_DP (regs st), min (rg_DS (regs st)) 8));
          size = (ucast size16 :: u8)
      in case bufs (s_hi data) of
           None \<Rightarrow> ((0, size), hard_stop Stop_InvalidDBuffer st1)
         | Some span \<Rightarrow>
             if unat (s_lo data) + unat size > length span then ((0, size), hard_stop Stop_InvalidDBuffer st1)
             else ((bytes_value (take (unat size) (drop (unat (s_lo data)) span)), size), st1))"

definition decode_asyn :: "buffers \<Rightarrow> u16 \<Rightarrow> u16 \<Rightarrow> tvm \<Rightarrow> decoded_op \<times> tvm" where
  "decode_asyn bufs ibp iop st =
     (case decode_syn_data bufs ibp iop st of ((v, _), st') \<Rightarrow> (D_ASyn v, st'))"

definition sign_extend_bytes :: "nat \<Rightarrow> u64 \<Rightarrow> u64" where
  "sign_extend_bytes width raw =
     (if 0 < width \<and> width < 8
      then let bits = 8 * width
           in if raw AND push_bit (bits - 1) 1 \<noteq> 0 then raw OR NOT (push_bit bits 1 - 1) else raw
      else raw)"

definition decode_isyn :: "buffers \<Rightarrow> u16 \<Rightarrow> u16 \<Rightarrow> tvm \<Rightarrow> decoded_op \<times> tvm" where
  "decode_isyn bufs ibp iop st =
     (case decode_syn_data bufs ibp iop st of
        ((raw, width), st') \<Rightarrow> (D_ISyn (sign_extend_bytes (unat width) raw), st'))"

definition decode_lmr :: "buffers \<Rightarrow> u16 \<Rightarrow> u16 \<Rightarrow> tvm \<Rightarrow> decoded_op \<times> tvm" where
  "decode_lmr bufs ibp iop st =
     (if word_len st = 0 then (D_LMR 0 [], st)
      else let (m, st1) = read16 bufs ibp (iop + 0) st; count = word_len st - 1
           in case bufs ibp of
                None \<Rightarrow> (D_LMR m [], hard_stop Stop_InvalidIBuffer st1)
              | Some whole \<Rightarrow>
                  let first = unat iop + 2; bytes = count * 2
                  in if first + bytes > length whole then (D_LMR m [], hard_stop Stop_InvalidIBuffer st1)
                     else (D_LMR m (take bytes (drop first whole)), st1))"

definition decode_br :: "buffers \<Rightarrow> u16 \<Rightarrow> u16 \<Rightarrow> tvm \<Rightarrow> decoded_op \<times> tvm" where
  "decode_br bufs ibp iop st =
     (let op = ow_ocpode (rg_IS (regs st));
          cond = (if op = opcode_value OP_BRF then CC_F else ucast (op AND 7));
          st0 = set_M1 (put_MOD1_lo cond st);
          ip_hi = s_hi (rg_IP (regs st))
      in if 2 \<le> word_len st
         then let (hi, st1) = read16 bufs ibp (iop + 2) st0; (lo, st2) = read16 bufs ibp (iop + 0) st1;
                  d = \<lparr>s_hi = hi, s_lo = lo\<rparr>
              in (D_BR cond d, put_MOD2 d st2)
         else if word_len st = 1
         then let (lo, st1) = read16 bufs ibp (iop + 0) st0; d = \<lparr>s_hi = ip_hi, s_lo = lo\<rparr>
              in (D_BR cond d, put_MOD2 d st1)
         else let d = (if fl_M2 (csrs st0) then rg_MOD2 (regs st0) else \<lparr>s_hi = ip_hi, s_lo = 0\<rparr>)
              in (D_BR cond (if s_hi d = 0 then d\<lparr>s_hi := ip_hi\<rparr> else d), st0))"

section \<open>Memory instructions\<close>

definition delta_mem_of :: "delta \<Rightarrow> nat \<Rightarrow> byte_order \<Rightarrow> tvm \<Rightarrow> delta_mem" where
  "delta_mem_of kind k order st =
     \<lparr>dm_kind = kind, dm_access = operation_of_u16 (rg_ACCESS (regs st)),
      dm_target = ucast (s_lo (rg_ID (regs st))), dm_offset = pair_as_u32 (rg_OFF (regs st)),
      dm_data = fst (data_operand k st), dm_size = snd (data_operand k st), dm_order = order\<rparr>"

definition decode_setmem :: "buffers \<Rightarrow> u16 \<Rightarrow> u16 \<Rightarrow> tvm \<Rightarrow> decoded_op \<times> tvm" where
  "decode_setmem bufs ibp iop st =
     (let kind = (if ow_ocpode (rg_IS (regs st)) = opcode_value OP_SETMEMX then Delta_Xor else Delta_Assign);
          st5 = if_words 5 (load_word bufs ibp (iop + 8) (put_immediate (iop + 10))) (set_TR False st);
          st4 = if_words 4 (load_word bufs ibp (iop + 6) put_OFF_lo) st5;
          st3 = if_words 3 (load_word bufs ibp (iop + 4) put_OFF_hi) st4;
          st2 = if_words 2 (load_word bufs ibp (iop + 2) put_ID_lo) st3;
          st1 = if_words 1 (load_word bufs ibp (iop + 0) put_ACCESS) st2
      in (D_DeltaMem (delta_mem_of kind 5 LittleEndian st1), st1))"

text \<open>The offset that heads the payload: two little-endian words, the upper one first.\<close>

definition SETMEMDX_ADDRESS_BYTES :: nat where "SETMEMDX_ADDRESS_BYTES = 4"
definition MMIO_PROLOGUE_BYTES :: nat where "MMIO_PROLOGUE_BYTES = 4"

definition put_offset :: "u8 list \<Rightarrow> nat \<Rightarrow> tvm \<Rightarrow> tvm" where
  "put_offset span lo st =
     put_OFF_lo (join_bytes (span ! (lo + 3)) (span ! (lo + 2)))
       (put_OFF_hi (join_bytes (span ! (lo + 1)) (span ! lo)) st)"

definition decode_setmemdx :: "buffers \<Rightarrow> u16 \<Rightarrow> u16 \<Rightarrow> tvm \<Rightarrow> decoded_op \<times> tvm" where
  "decode_setmemdx bufs ibp iop st =
     (let size = rg_DS (regs st);
          st2 = if_words 2 (load_word bufs ibp (iop + 2) put_ID_lo) (set_TR False st);
          st1 = if_words 1 (load_word bufs ibp (iop + 0) put_ACCESS) st2;
          dp = rg_DP (regs st1);
          partial = \<lparr>dm_kind = Delta_Xor, dm_access = mk_op Standard Kind_instruction 0, dm_target = 0,
                     dm_offset = 0, dm_data = null_pair, dm_size = size, dm_order = LittleEndian\<rparr>
      in case bufs (s_hi dp) of
           None \<Rightarrow> (D_DeltaMem partial, hard_stop Stop_InvalidDBuffer st1)
         | Some span \<Rightarrow>
             if unat (s_lo dp) + SETMEMDX_ADDRESS_BYTES + unat size > length span
             then (D_DeltaMem partial, hard_stop Stop_InvalidDBuffer st1)
             else let st0 = put_offset span (unat (s_lo dp)) st1
                  in (D_DeltaMem \<lparr>dm_kind = Delta_Xor, dm_access = operation_of_u16 (rg_ACCESS (regs st0)),
                        dm_target = ucast (s_lo (rg_ID (regs st0))), dm_offset = pair_as_u32 (rg_OFF (regs st0)),
                        dm_data = \<lparr>s_hi = s_hi dp, s_lo = s_lo dp + of_nat SETMEMDX_ADDRESS_BYTES\<rparr>,
                        dm_size = size, dm_order = LittleEndian\<rparr>, st0))"

definition decode_stepmem :: "buffers \<Rightarrow> u16 \<Rightarrow> u16 \<Rightarrow> tvm \<Rightarrow> decoded_op \<times> tvm" where
  "decode_stepmem bufs ibp iop st =
     (let order0 = decode_order (of_bool (fl_M1 (csrs st) \<and> s_hi (rg_MOD1 (regs st)) \<noteq> 0));
          st6 = if_words 6 (load_word bufs ibp (iop + 10)
                  (\<lambda>w s. put_MOD2 \<lparr>s_hi = s_hi (rg_IP (regs s)), s_lo = iop + 12\<rparr> (put_MOD1_lo w s))) (set_TR False st);
          st5 = if_words 5 (load_word bufs ibp (iop + 8) (\<lambda>w s. set_M1 (put_MOD1_hi w s))) st6;
          order = (if 5 \<le> word_len st then decode_order (s_hi (rg_MOD1 (regs st5))) else order0);
          st4 = if_words 4 (load_word bufs ibp (iop + 6) put_OFF_lo) st5;
          st3 = if_words 3 (load_word bufs ibp (iop + 4) put_OFF_hi) st4;
          st2 = if_words 2 (load_word bufs ibp (iop + 2) put_ID_lo) st3;
          st1 = if_words 1 (load_word bufs ibp (iop + 0) put_ACCESS) st2
      in (D_DeltaMem (delta_mem_of Delta_Add 6 order st1), st1))"

definition decode_cmpmem :: "buffers \<Rightarrow> u16 \<Rightarrow> u16 \<Rightarrow> tvm \<Rightarrow> decoded_op \<times> tvm" where
  "decode_cmpmem bufs ibp iop st =
     (let st4 = if_words 4 (load_word bufs ibp (iop + 6) (put_immediate (iop + 8))) (set_TR False st);
          st3 = if_words 3 (load_word bufs ibp (iop + 4) put_OFF_lo) st4;
          st2 = if_words 2 (load_word bufs ibp (iop + 2) put_OFF_hi) st3;
          st1 = if_words 1 (load_word bufs ibp (iop + 0) put_ID_lo) st2
      in (D_CmpMem \<lparr>cm_target = ucast (s_lo (rg_ID (regs st1))), cm_offset = pair_as_u32 (rg_OFF (regs st1)),
                    cm_data = fst (data_operand 4 st1), cm_size = snd (data_operand 4 st1)\<rparr>, st1))"

definition decode_clrmem :: "buffers \<Rightarrow> u16 \<Rightarrow> u16 \<Rightarrow> tvm \<Rightarrow> decoded_op \<times> tvm" where
  "decode_clrmem bufs ibp iop st =
     (let st2 = if_words 2 (load_word bufs ibp (iop + 2) (\<lambda>w s. set_M1 (put_MOD1_lo w s))) (set_TR False st);
          data = (if 2 \<le> word_len st then ucast (s_lo (rg_MOD1 (regs st2))) else 0);
          st1 = if_words 1 (load_word bufs ibp (iop + 0) put_ID_lo) st2
      in (D_ClrMem (ucast (s_lo (rg_ID (regs st1)))) data, st1))"

definition decode_traddr :: "buffers \<Rightarrow> u16 \<Rightarrow> u16 \<Rightarrow> tvm \<Rightarrow> decoded_op \<times> tvm" where
  "decode_traddr bufs ibp iop st =
     (let st8 = if_words 8 (load_word bufs ibp (iop + 14) put_MOD1_hi) (set_TR False st);
          st7 = if_words 7 (load_word bufs ibp (iop + 12) (\<lambda>w s. set_M1 (put_MOD1_lo w s))) st8;
          st6 = if_words 6 (load_word bufs ibp (iop + 10) put_MOD2_lo) st7;
          st5 = if_words 5 (load_word bufs ibp (iop + 8) (\<lambda>w s. set_M2 (put_MOD2_hi w s))) st6;
          st4 = if_words 4 (load_word bufs ibp (iop + 6) put_ID_hi) st5;
          st3 = if_words 3 (load_word bufs ibp (iop + 4) put_OFF_lo) st4;
          st2 = if_words 2 (load_word bufs ibp (iop + 2) put_OFF_hi) st3;
          st1 = if_words 1 (load_word bufs ibp (iop + 0) put_ID_lo) st2
      in (D_TRADDR \<lparr>ta_target = ucast (s_lo (rg_ID (regs st1))), ta_source = ucast (s_hi (rg_ID (regs st1))),
                    ta_target_offset = pair_as_u32 (rg_OFF (regs st1)),
                    ta_source_offset = pair_as_u32 (rg_MOD2 (regs st1)),
                    ta_size = pair_as_u32 (rg_MOD1 (regs st1))\<rparr>, st1))"

definition decode_mmio :: "buffers \<Rightarrow> u16 \<Rightarrow> u16 \<Rightarrow> tvm \<Rightarrow> decoded_op \<times> tvm" where
  "decode_mmio bufs ibp iop st =
     (let st3 = if_words 3 (load_word bufs ibp (iop + 4) (\<lambda>w s. set_M1 (put_MOD1_lo w s))) (set_TR False st);
          wr = (3 \<le> word_len st \<and> s_lo (rg_MOD1 (regs st3)) \<noteq> 0);
          st2 = if_words 2 (load_word bufs ibp (iop + 2) put_ID_lo) st3;
          st1 = if_words 1 (load_word bufs ibp (iop + 0) put_ACCESS) st2;
          dp = rg_DP (regs st1);
          partial = \<lparr>mm_write = wr, mm_data = 0, mm_size = 1, mm_target = 0,
                     mm_access = mk_op Standard Kind_instruction 0, mm_offset = 0\<rparr>
      in case bufs (s_hi dp) of
           None \<Rightarrow> (D_MMIO partial, hard_stop Stop_InvalidDBuffer st1)
         | Some span \<Rightarrow>
             if unat (s_lo dp) + MMIO_PROLOGUE_BYTES + 1 > length span
             then (D_MMIO partial, hard_stop Stop_InvalidDBuffer st1)
             else let st0 = put_offset span (unat (s_lo dp)) st1
                  in (D_MMIO \<lparr>mm_write = wr, mm_data = span ! (unat (s_lo dp) + MMIO_PROLOGUE_BYTES), mm_size = 1,
                        mm_target = ucast (s_lo (rg_ID (regs st0))),
                        mm_access = operation_of_u16 (rg_ACCESS (regs st0)),
                        mm_offset = pair_as_u32 (rg_OFF (regs st0))\<rparr>, st0))"

section \<open>Register instructions\<close>

definition register_operand :: "tvm \<Rightarrow> u16 \<times> u16" where
  "register_operand st = (s_hi (rg_ID (regs st)), s_lo (rg_ID (regs st)))"

definition decode_deltareg :: "buffers \<Rightarrow> u16 \<Rightarrow> u16 \<Rightarrow> tvm \<Rightarrow> decoded_op \<times> tvm" where
  "decode_deltareg bufs ibp iop st =
     (let op = ow_ocpode (rg_IS (regs st));
          kind = (if op = opcode_value OP_SETREGX then Delta_Xor
                  else if op = opcode_value OP_STEPREG then Delta_Add else Delta_Assign);
          st4 = if_words 4 (load_word bufs ibp (iop + 6) (put_immediate (iop + 8))) (set_TR True st);
          st3 = if_words 3 (load_word bufs ibp (iop + 4) put_ID_lo) st4;
          st2 = if_words 2 (load_word bufs ibp (iop + 2) put_ID_hi) st3;
          st1 = if_words 1 (load_word bufs ibp (iop + 0) put_ACCESS) st2
      in (D_DeltaReg \<lparr>dr_kind = kind, dr_reg = register_operand st1, dr_data = fst (data_operand 4 st1),
                      dr_size = snd (data_operand 4 st1)\<rparr>, st1))"

definition decode_cmpreg :: "buffers \<Rightarrow> u16 \<Rightarrow> u16 \<Rightarrow> tvm \<Rightarrow> decoded_op \<times> tvm" where
  "decode_cmpreg bufs ibp iop st =
     (let st3 = if_words 3 (load_word bufs ibp (iop + 4) (put_immediate (iop + 6))) (set_TR True st);
          st2 = if_words 2 (load_word bufs ibp (iop + 2) put_ID_lo) st3;
          st1 = if_words 1 (load_word bufs ibp (iop + 0) put_ID_hi) st2
      in (D_CmpReg \<lparr>cr_reg = register_operand st1, cr_data = fst (data_operand 3 st1),
                    cr_size = snd (data_operand 3 st1)\<rparr>, st1))"

definition decode_clrreg :: "buffers \<Rightarrow> u16 \<Rightarrow> u16 \<Rightarrow> tvm \<Rightarrow> decoded_op \<times> tvm" where
  "decode_clrreg bufs ibp iop st =
     (let st2 = if_words 2 (load_word bufs ibp (iop + 2) put_ID_lo) (set_TR True st);
          st1 = if_words 1 (load_word bufs ibp (iop + 0) put_ID_hi) st2
      in (D_ClrReg (register_operand st1), st1))"

section \<open>The data pointer\<close>

definition decode_ldp :: "buffers \<Rightarrow> u16 \<Rightarrow> u16 \<Rightarrow> tvm \<Rightarrow> decoded_op \<times> tvm" where
  "decode_ldp bufs ibp iop st =
     (let st3 = if_words 3 (load_word bufs ibp (iop + 4) put_DP_hi) st;
          st2 = if_words 2 (load_word bufs ibp (iop + 2) put_DS) st3;
          st1 = if_words 1 (load_word bufs ibp (iop + 0) put_DP_lo) st2
      in (D_LDP, st1))"

definition decode_accdp :: "buffers \<Rightarrow> u16 \<Rightarrow> u16 \<Rightarrow> tvm \<Rightarrow> decoded_op \<times> tvm" where
  "decode_accdp bufs ibp iop st =
     (let ds = rg_DS (regs st)
      in if 1 \<le> word_len st then case read16 bufs ibp (iop + 0) st of (w, st') \<Rightarrow> (D_DPIncr ds w, st')
         else (D_DPIncr ds ds, st))"

definition decode_incdp :: "buffers \<Rightarrow> u16 \<Rightarrow> u16 \<Rightarrow> tvm \<Rightarrow> decoded_op \<times> tvm" where
  "decode_incdp bufs ibp iop st =
     (let (ds, st1) = (if 2 \<le> word_len st then read16 bufs ibp (iop + 2) st else (rg_DS (regs st), st));
          (incr, st2) = (if 1 \<le> word_len st then read16 bufs ibp (iop + 0) st1 else (0, st1))
      in (D_DPIncr incr ds, st2))"

section \<open>One packet\<close>

definition clear_mods :: "tvm \<Rightarrow> tvm" where
  "clear_mods st =
     (if fl_CLRMOD (csrs st)
      then st\<lparr>regs := (regs st)\<lparr>rg_MOD1 := null_pair, rg_MOD2 := null_pair\<rparr>,
              csrs := (csrs st)\<lparr>fl_M1 := False, fl_M2 := False\<rparr>\<rparr>
      else st)"

text \<open>Fetch of the opcode word: the buffer, the offset of the first operand word, and the machine.\<close>

definition fetch :: "buffers \<Rightarrow> tvm \<Rightarrow> (u16 \<times> u16) \<times> tvm" where
  "fetch bufs st =
     (let st0 = clear_mods st;
          ibp = s_hi (rg_IP (regs st0)); lo = s_lo (rg_IP (regs st0));
          (opcode, st1) = read16 bufs ibp lo st0;
          w = opword_of_u16 opcode
      in ((ibp, 2 + lo),
          st1\<lparr>regs := (regs st1)\<lparr>rg_IS := w,
                rg_IP := \<lparr>s_hi = ibp, s_lo = (lo + 2 + ucast (ow_word_len w) * 2) AND 0xFFFE\<rparr>\<rparr>,
              csrs := (csrs st1)\<lparr>fl_CLRMOD := ow_clrmod w\<rparr>\<rparr>))"

definition decode_with :: "tvm_opcode \<Rightarrow> buffers \<Rightarrow> u16 \<Rightarrow> u16 \<Rightarrow> decoded_op \<Rightarrow> tvm \<Rightarrow> decoded_op \<times> tvm" where
  "decode_with c bufs ibp iop prev st =
     (case c of
        OP_HALT \<Rightarrow> decode_halt bufs ibp iop st
      | OP_RET \<Rightarrow> (D_Ret, st)
      | OP_CALL \<Rightarrow> decode_call bufs ibp iop st
      | OP_INVCALL \<Rightarrow> decode_invcall bufs ibp iop st
      | OP_INVRET \<Rightarrow> (D_InvRet, st)
      | OP_ASYN \<Rightarrow> decode_asyn bufs ibp iop st
      | OP_ISYN \<Rightarrow> decode_isyn bufs ibp iop st
      | OP_LMR \<Rightarrow> decode_lmr bufs ibp iop st
      | OP_SETMEM \<Rightarrow> decode_setmem bufs ibp iop st
      | OP_SETMEMX \<Rightarrow> decode_setmem bufs ibp iop st
      | OP_SETMEMDX \<Rightarrow> decode_setmemdx bufs ibp iop st
      | OP_STEPMEM \<Rightarrow> decode_stepmem bufs ibp iop st
      | OP_CMPMEM \<Rightarrow> decode_cmpmem bufs ibp iop st
      | OP_CLRMEM \<Rightarrow> decode_clrmem bufs ibp iop st
      | OP_SETREG \<Rightarrow> decode_deltareg bufs ibp iop st
      | OP_SETREGX \<Rightarrow> decode_deltareg bufs ibp iop st
      | OP_STEPREG \<Rightarrow> decode_deltareg bufs ibp iop st
      | OP_CMPREG \<Rightarrow> decode_cmpreg bufs ibp iop st
      | OP_CLRREG \<Rightarrow> decode_clrreg bufs ibp iop st
      | OP_TRADDR \<Rightarrow> decode_traddr bufs ibp iop st
      | OP_LDP \<Rightarrow> decode_ldp bufs ibp iop st
      | OP_ACCDP \<Rightarrow> decode_accdp bufs ibp iop st
      | OP_INCDP \<Rightarrow> decode_incdp bufs ibp iop st
      | OP_MMIO \<Rightarrow> decode_mmio bufs ibp iop st
      | OP_CCB \<Rightarrow> (prev, hard_stop Stop_IllegalOpcode st)
      | _ \<Rightarrow> decode_br bufs ibp iop st)"

text \<open>\<open>prev\<close> is what was decoded before, which stays when the opcode is not recognised.\<close>

definition decode :: "buffers \<Rightarrow> decoded_op \<Rightarrow> tvm \<Rightarrow> decoded_op \<times> tvm" where
  "decode bufs prev st =
     (case fetch bufs st of
        ((ibp, iop), st1) \<Rightarrow>
          case opcode_of (ow_ocpode (rg_IS (regs st1))) of
            None \<Rightarrow> (prev, hard_stop Stop_IllegalOpcode st1)
          | Some c \<Rightarrow> decode_with c bufs ibp iop prev st1)"

end
