(* ===== verification/Tvm_Packets.thy ===== *)
theory Tvm_Packets
  imports Tvm_Decoder
begin

text \<open>
  Packets in a buffer: the words of an encoded instruction are those the decoder reads, and every
  form of instruction decodes to the operation it was encoded from.
\<close>

section \<open>Bytes in buffers\<close>

definition code_at :: "buffers \<Rightarrow> u16 \<Rightarrow> nat \<Rightarrow> u8 list \<Rightarrow> bool" where
  "code_at bufs ident offset bytes \<longleftrightarrow>
     (case bufs ident of
        None \<Rightarrow> False
      | Some whole \<Rightarrow> offset + length bytes \<le> length whole \<and> offset + length bytes \<le> 2 ^ 16
                     \<and> take (length bytes) (drop offset whole) = bytes)"

definition packet_at :: "buffers \<Rightarrow> u16 \<Rightarrow> u16 \<Rightarrow> tvm_opcode \<Rightarrow> bool \<Rightarrow> u16 list \<Rightarrow> bool" where
  "packet_at bufs ident lo c clrmod ws \<longleftrightarrow>
     code_at bufs ident (unat lo) (encode_op c clrmod ws) \<and> length ws < 256"

lemma word_bytes_le_eq: "word_bytes_le w = [lo_byte w, hi_byte w]"
proof -
  have ff: "(0xFF :: u16) = mask 8" by (simp add: mask_eq_exp_minus_1)
  show ?thesis unfolding word_bytes_le_def lo_byte_def hi_byte_def ff
    by (auto intro!: bit_word_eqI simp: bit_simps)
qed

lemma length_encode_op [simp]: "length (encode_op c clrmod ws) = 2 * (length ws + 1)"
  by (induction ws) (simp_all add: encode_op_def word_bytes_le_eq)

lemma nth_word_bytes:
  "i < length ws \<Longrightarrow> concat (map word_bytes_le ws) ! (2 * i) = lo_byte (ws ! i)
                  \<and> concat (map word_bytes_le ws) ! (2 * i + 1) = hi_byte (ws ! i)"
proof (induction ws arbitrary: i)
  case (Cons w ws)
  then show ?case by (cases i) (auto simp: word_bytes_le_eq)
qed simp

lemma length_word_bytes [simp]: "length (concat (map word_bytes_le ws)) = 2 * length ws"
  by (induction ws) (simp_all add: word_bytes_le_eq)

lemma code_at_nth:
  "code_at bufs ident offset bytes \<Longrightarrow> k < length bytes \<Longrightarrow>
   \<exists>whole. bufs ident = Some whole \<and> offset + k < length whole \<and> whole ! (offset + k) = bytes ! k"
  by (auto simp: code_at_def split: option.splits) (metis add.commute add_leD1 add_le_imp_le_diff nth_drop nth_take)

lemma code_at_append:
  "code_at bufs ident offset (xs @ ys) \<Longrightarrow> code_at bufs ident offset xs \<and> code_at bufs ident (offset + length xs) ys"
  by (auto simp: code_at_def take_add add.commute split: option.splits)

text \<open>Word \<open>i\<close> of a packet, the opcode word being word 0.\<close>

lemma packet_word:
  assumes "packet_at bufs ident lo c clrmod ws" and "i \<le> length ws"
  shows "read16 bufs ident (lo + 2 * word_of_nat i) st =
           ((opword_as_u16 (mk_opword c clrmod (word_of_nat (length ws))) # ws) ! i, st)"
proof -
  let ?ws = "opword_as_u16 (mk_opword c clrmod (word_of_nat (length ws))) # ws"
  have c: "code_at bufs ident (unat lo) (concat (map word_bytes_le ?ws))"
    using assms(1) unfolding packet_at_def encode_op_def by blast
  have i: "i < length ?ws" using assms(2) by simp
  then have l: "2 * i < length (concat (map word_bytes_le ?ws))" "2 * i + 1 < length (concat (map word_bytes_le ?ws))"
    unfolding length_word_bytes by simp_all
  from c have "unat lo + 2 * length ?ws \<le> 65536"
    unfolding code_at_def length_word_bytes by (auto split: option.splits)
  then have u: "unat (lo + 2 * word_of_nat i) = unat lo + 2 * i"
    using i by (simp add: unat_word_ariths unat_of_nat)
  obtain whole where w: "bufs ident = Some whole" "unat lo + 2 * i < length whole"
      "whole ! (unat lo + 2 * i) = lo_byte (?ws ! i)"
    using code_at_nth[OF c l(1)] nth_word_bytes[OF i] by auto
  from code_at_nth[OF c l(2)] nth_word_bytes[OF i] w(1) have w2: "unat lo + (2 * i + 1) < length whole"
      "whole ! (unat lo + (2 * i + 1)) = hi_byte (?ws ! i)"
    by auto
  show ?thesis using w w2 u by (simp add: read16_def)
qed

lemma operand_word:
  assumes "packet_at bufs ident lo c clrmod ws" and "i < length ws"
  shows "read16 bufs ident (2 + lo + 2 * word_of_nat i) st = (ws ! i, st)"
  using packet_word[OF assms(1), of "Suc i" st] assms(2) by (simp add: algebra_simps)

text \<open>The operand words at the offsets the decoder names.\<close>

lemma operand_words:
  assumes "packet_at bufs ident lo c clrmod ws"
  shows "0 < length ws \<Longrightarrow> read16 bufs ident (2 + lo) st = (ws ! 0, st)"
    and "1 < length ws \<Longrightarrow> read16 bufs ident (2 + lo + 2) st = (ws ! 1, st)"
    and "2 < length ws \<Longrightarrow> read16 bufs ident (2 + lo + 4) st = (ws ! 2, st)"
    and "3 < length ws \<Longrightarrow> read16 bufs ident (2 + lo + 6) st = (ws ! 3, st)"
    and "4 < length ws \<Longrightarrow> read16 bufs ident (2 + lo + 8) st = (ws ! 4, st)"
    and "5 < length ws \<Longrightarrow> read16 bufs ident (2 + lo + 10) st = (ws ! 5, st)"
    and "6 < length ws \<Longrightarrow> read16 bufs ident (2 + lo + 12) st = (ws ! 6, st)"
    and "7 < length ws \<Longrightarrow> read16 bufs ident (2 + lo + 14) st = (ws ! 7, st)"
  using operand_word[OF assms, of 0 st]
    operand_word[OF assms, of 1 st]
    operand_word[OF assms, of 2 st]
    operand_word[OF assms, of 3 st]
    operand_word[OF assms, of 4 st]
    operand_word[OF assms, of 5 st]
    operand_word[OF assms, of 6 st]
    operand_word[OF assms, of 7 st]
  by simp_all

lemma fetch_packet:
  assumes "packet_at bufs (s_hi (rg_IP (regs st))) (s_lo (rg_IP (regs st))) c clrmod ws"
  shows "fetch bufs st =
    ((s_hi (rg_IP (regs st)), 2 + s_lo (rg_IP (regs st))),
     (clear_mods st)\<lparr>regs := (regs (clear_mods st))\<lparr>rg_IS := mk_opword c clrmod (word_of_nat (length ws)),
        rg_IP := \<lparr>s_hi = s_hi (rg_IP (regs st)),
                  s_lo = (s_lo (rg_IP (regs st)) + 2 + 2 * word_of_nat (length ws)) AND 0xFFFE\<rparr>\<rparr>,
        csrs := (csrs (clear_mods st))\<lparr>fl_CLRMOD := clrmod\<rparr>\<rparr>)"
proof -
  have ip: "rg_IP (regs (clear_mods st)) = rg_IP (regs st)" by (simp add: clear_mods_def)
  have u: "unat (word_of_nat (length ws) :: u8) = length ws" using assms by (simp add: packet_at_def unat_of_nat)
  have len: "ucast (word_of_nat (length ws) :: u8) = (word_of_nat (length ws) :: u16)"
    by (metis of_nat_unat u)
  show ?thesis
    using packet_word[OF assms, of 0 "clear_mods st"]
    by (simp add: fetch_def ip Let_def mk_opword_def len mult.commute)
qed

section \<open>Decoding of encoded packets\<close>

definition after_fetch :: "tvm_opcode \<Rightarrow> bool \<Rightarrow> nat \<Rightarrow> tvm \<Rightarrow> tvm" where
  "after_fetch c clrmod n st =
     (clear_mods st)\<lparr>regs := (regs (clear_mods st))\<lparr>rg_IS := mk_opword c clrmod (word_of_nat n),
        rg_IP := \<lparr>s_hi = s_hi (rg_IP (regs st)),
                  s_lo = (s_lo (rg_IP (regs st)) + 2 + 2 * word_of_nat n) AND 0xFFFE\<rparr>\<rparr>,
        csrs := (csrs (clear_mods st))\<lparr>fl_CLRMOD := clrmod\<rparr>\<rparr>"

text \<open>The packet that the instruction pointer is at.\<close>

definition packet_here :: "buffers \<Rightarrow> tvm \<Rightarrow> tvm_opcode \<Rightarrow> bool \<Rightarrow> u16 list \<Rightarrow> bool" where
  "packet_here bufs st = packet_at bufs (s_hi (rg_IP (regs st))) (s_lo (rg_IP (regs st)))"

lemma decode_packet:
  "packet_here bufs st c clrmod ws \<Longrightarrow>
   decode bufs prev st =
     decode_with c bufs (s_hi (rg_IP (regs st))) (2 + s_lo (rg_IP (regs st))) prev (after_fetch c clrmod (length ws) st)"
  unfolding packet_here_def
  by (drule fetch_packet) (simp add: decode_def after_fetch_def mk_opword_def)

lemma word_len_after_fetch [simp]: "n < 256 \<Longrightarrow> word_len (after_fetch c clrmod n st) = n"
  by (simp add: word_len_def after_fetch_def mk_opword_def unat_of_nat)

lemmas put_defs = put_ACCESS_def put_ID_hi_def put_ID_lo_def put_OFF_hi_def put_OFF_lo_def put_DP_hi_def
  put_DP_lo_def put_DS_def put_MOD1_hi_def put_MOD1_lo_def put_MOD2_hi_def put_MOD2_lo_def put_MOD1_def
  put_MOD2_def set_M1_def set_M2_def set_TR_def put_immediate_def

text \<open>What each of the assignments changes, with the record updates as functions.\<close>

lemma put_select [simp]:
  "regs (put_ACCESS w st) = rg_ACCESS_update (\<lambda>_. w) (regs st)"
  "csrs (put_ACCESS w st) = csrs st" "stack (put_ACCESS w st) = stack st"
  "regs (put_ID_hi w st) = rg_ID_update (s_hi_update (\<lambda>_. w)) (regs st)"
  "csrs (put_ID_hi w st) = csrs st" "stack (put_ID_hi w st) = stack st"
  "regs (put_ID_lo w st) = rg_ID_update (s_lo_update (\<lambda>_. w)) (regs st)"
  "csrs (put_ID_lo w st) = csrs st" "stack (put_ID_lo w st) = stack st"
  "regs (put_OFF_hi w st) = rg_OFF_update (s_hi_update (\<lambda>_. w)) (regs st)"
  "csrs (put_OFF_hi w st) = csrs st" "stack (put_OFF_hi w st) = stack st"
  "regs (put_OFF_lo w st) = rg_OFF_update (s_lo_update (\<lambda>_. w)) (regs st)"
  "csrs (put_OFF_lo w st) = csrs st" "stack (put_OFF_lo w st) = stack st"
  "regs (put_DP_hi w st) = rg_DP_update (s_hi_update (\<lambda>_. w)) (regs st)"
  "csrs (put_DP_hi w st) = csrs st" "stack (put_DP_hi w st) = stack st"
  "regs (put_DP_lo w st) = rg_DP_update (s_lo_update (\<lambda>_. w)) (regs st)"
  "csrs (put_DP_lo w st) = csrs st" "stack (put_DP_lo w st) = stack st"
  "regs (put_DS w st) = rg_DS_update (\<lambda>_. w) (regs st)"
  "csrs (put_DS w st) = csrs st" "stack (put_DS w st) = stack st"
  "regs (put_MOD1_hi w st) = rg_MOD1_update (s_hi_update (\<lambda>_. w)) (regs st)"
  "csrs (put_MOD1_hi w st) = csrs st" "stack (put_MOD1_hi w st) = stack st"
  "regs (put_MOD1_lo w st) = rg_MOD1_update (s_lo_update (\<lambda>_. w)) (regs st)"
  "csrs (put_MOD1_lo w st) = csrs st" "stack (put_MOD1_lo w st) = stack st"
  "regs (put_MOD2_hi w st) = rg_MOD2_update (s_hi_update (\<lambda>_. w)) (regs st)"
  "csrs (put_MOD2_hi w st) = csrs st" "stack (put_MOD2_hi w st) = stack st"
  "regs (put_MOD2_lo w st) = rg_MOD2_update (s_lo_update (\<lambda>_. w)) (regs st)"
  "csrs (put_MOD2_lo w st) = csrs st" "stack (put_MOD2_lo w st) = stack st"
  "regs (put_MOD1 p st) = rg_MOD1_update (\<lambda>_. p) (regs st)"
  "csrs (put_MOD1 p st) = fl_M1_update (\<lambda>_. True) (csrs st)" "stack (put_MOD1 p st) = stack st"
  "regs (put_MOD2 p st) = rg_MOD2_update (\<lambda>_. p) (regs st)"
  "csrs (put_MOD2 p st) = fl_M2_update (\<lambda>_. True) (csrs st)" "stack (put_MOD2 p st) = stack st"
  "regs (set_M1 st) = regs st"
  "csrs (set_M1 st) = fl_M1_update (\<lambda>_. True) (csrs st)" "stack (set_M1 st) = stack st"
  "regs (set_M2 st) = regs st"
  "csrs (set_M2 st) = fl_M2_update (\<lambda>_. True) (csrs st)" "stack (set_M2 st) = stack st"
  "regs (set_TR b st) = regs st"
  "csrs (set_TR b st) = fl_TR_update (\<lambda>_. b) (csrs st)" "stack (set_TR b st) = stack st"
  "regs (put_immediate a w st) = rg_MOD2_update (\<lambda>_. \<lparr>s_hi = s_hi (rg_IP (regs st)), s_lo = a\<rparr>)
     (rg_MOD1_update (s_lo_update (\<lambda>_. w)) (regs st))"
  "csrs (put_immediate a w st) = fl_M2_update (\<lambda>_. True) (fl_M1_update (\<lambda>_. True) (csrs st))"
  "stack (put_immediate a w st) = stack st"
  by (simp_all add: put_defs)

lemma word_len_put [simp]:
  "word_len (put_ACCESS w st) = word_len st" "word_len (put_ID_hi w st) = word_len st"
  "word_len (put_ID_lo w st) = word_len st" "word_len (put_OFF_hi w st) = word_len st"
  "word_len (put_OFF_lo w st) = word_len st" "word_len (put_DP_hi w st) = word_len st"
  "word_len (put_DP_lo w st) = word_len st" "word_len (put_DS w st) = word_len st"
  "word_len (put_MOD1_hi w st) = word_len st" "word_len (put_MOD1_lo w st) = word_len st"
  "word_len (put_MOD2_hi w st) = word_len st" "word_len (put_MOD2_lo w st) = word_len st"
  "word_len (put_MOD1 p st) = word_len st" "word_len (put_MOD2 p st) = word_len st"
  "word_len (set_M1 st) = word_len st" "word_len (set_M2 st) = word_len st"
  "word_len (set_TR b st) = word_len st" "word_len (put_immediate a w st) = word_len st"
  by (simp_all add: word_len_def put_defs)

lemma after_fetch_ocpode [simp]: "ow_ocpode (rg_IS (regs (after_fetch c clrmod n st))) = opcode_value c"
  by (simp add: after_fetch_def mk_opword_def)

lemma after_fetch_regs [simp]:
  "rg_DP (regs (after_fetch c clrmod n st)) = rg_DP (regs st)"
  "rg_DS (regs (after_fetch c clrmod n st)) = rg_DS (regs st)"
  "rg_ID (regs (after_fetch c clrmod n st)) = rg_ID (regs st)"
  "rg_OFF (regs (after_fetch c clrmod n st)) = rg_OFF (regs st)"
  "rg_ACCESS (regs (after_fetch c clrmod n st)) = rg_ACCESS (regs st)"
  "rg_SP (regs (after_fetch c clrmod n st)) = rg_SP (regs st)"
  "stack (after_fetch c clrmod n st) = stack st"
  "s_hi (rg_IP (regs (after_fetch c clrmod n st))) = s_hi (rg_IP (regs st))"
  "fl_L (csrs (after_fetch c clrmod n st)) = fl_L (csrs st)"
  "fl_F (csrs (after_fetch c clrmod n st)) = fl_F (csrs st)"
  "fl_CLRMOD (csrs (after_fetch c clrmod n st)) = clrmod"
  by (simp_all add: after_fetch_def clear_mods_def)

lemma length_pack_bytes [simp]: "length (pack_bytes bs) = (length bs + 1) div 2"
  by (induction bs rule: pack_bytes.induct) simp_all

lemma lo_hi_packed: "lo_byte (ucast b OR push_bit 8 (ucast b')) = b" "hi_byte (ucast b OR push_bit 8 (ucast b')) = b'"
  "lo_byte (ucast b) = b" "hi_byte (ucast (b :: u8)) = 0" for b b' :: u8
proof -
  have "\<not> bit b (8 + n)" for n using bit_imp_le_length[of b "8 + n"] by auto
  then show "lo_byte (ucast b OR push_bit 8 (ucast b')) = b" "hi_byte (ucast b OR push_bit 8 (ucast b')) = b'"
    "lo_byte (ucast b) = b" "hi_byte (ucast b) = 0"
    by (auto simp: lo_byte_def hi_byte_def bit_simps intro!: bit_word_eqI)
qed

lemma bytes_pack: "concat (map word_bytes_le (pack_bytes bs)) = bs @ (if even (length bs) then [] else [0])"
  by (induction bs rule: pack_bytes.induct) (simp_all add: word_bytes_le_eq lo_hi_packed)

text \<open>The data of an immediate packet lie in the packet, after the operand words and the size.\<close>

definition span_of :: "buffers \<Rightarrow> segment_pair \<Rightarrow> u16 \<Rightarrow> u8 list option" where
  "span_of bufs data n =
     (case bufs (s_hi data) of
        None \<Rightarrow> None
      | Some whole \<Rightarrow> if unat (s_lo data) + unat n > length whole then None
                      else Some (take (unat n) (drop (unat (s_lo data)) whole)))"

lemma span_of_code:
  assumes "code_at bufs (s_hi data) (unat (s_lo data)) bytes" and "unat n = length bytes"
  shows "span_of bufs data n = Some bytes"
  using assms by (auto simp: code_at_def span_of_def split: option.splits)

lemma immediate_data:
  assumes p: "packet_at bufs ident lo c True (prefix @ word_of_nat (length bytes) # pack_bytes bytes)"
    and n: "off = lo + 2 * word_of_nat (length prefix + 2)"
  shows "span_of bufs \<lparr>s_hi = ident, s_lo = off\<rparr> (word_of_nat (length bytes)) = Some bytes"
proof -
  let ?k = "2 * (length prefix + 2)" and ?ws = "prefix @ word_of_nat (length bytes) # pack_bytes bytes"
  define front where "front = concat (map word_bytes_le
     (opword_as_u16 (mk_opword c True (word_of_nat (length ?ws))) # prefix @ [word_of_nat (length bytes)]))"
  define tail where "tail = (if even (length bytes) then [] else [0 :: u8])"
  have e: "encode_op c True ?ws = front @ bytes @ tail"
    unfolding encode_op_def front_def tail_def bytes_pack[symmetric] by simp
  have lf: "length front = ?k" unfolding front_def length_word_bytes by simp
  from p have c: "code_at bufs ident (unat lo) (front @ bytes @ tail)" and len: "length ?ws < 256"
    unfolding packet_at_def e by simp_all
  from code_at_append[OF c] have "code_at bufs ident (unat lo + ?k) (bytes @ tail)" unfolding lf by simp
  then have c2: "code_at bufs ident (unat lo + ?k) bytes" using code_at_append by blast
  have "unat lo + ?k + length bytes \<le> 2 ^ 16" using c2 by (simp add: code_at_def split: option.splits)
  moreover have small: "length bytes < 600" using len by simp
  moreover have "0 < length bytes \<or> length bytes = 0" by auto
  moreover have "unat lo + length (encode_op c True ?ws) \<le> 2 ^ 16"
    using p by (auto simp: packet_at_def code_at_def split: option.splits)
  ultimately have fits: "unat lo + ?k \<le> 2 ^ 16" by simp
  show ?thesis
  proof (cases "unat lo + ?k = 2 ^ 16")
    case True
    then have "bytes = []" using c2 by (simp add: code_at_def split: option.splits)
    moreover obtain whole where "bufs ident = Some whole" using c2 by (auto simp: code_at_def split: option.splits)
    moreover have "off = 0"
    proof -
      have "unat off = (unat lo + ?k) mod 2 ^ 16" by (simp add: n unat_word_ariths unat_of_nat mod_simps) (simp only: add.commute add.left_commute)
      then have "unat off = 0" using True by simp
      then show ?thesis by (simp add: unat_eq_0)
    qed
    ultimately show ?thesis by (simp add: span_of_def)
  next
    case False
    then have "unat off = unat lo + ?k"
      using fits by (simp add: n unat_word_ariths unat_of_nat)
    then show ?thesis using c2 small by (intro span_of_code) (simp_all add: unat_of_nat)
  qed
qed

text \<open>What decoding leaves alone, and where it leaves the instruction pointer.\<close>

definition code_here :: "buffers \<Rightarrow> tvm \<Rightarrow> u8 list \<Rightarrow> bool" where
  "code_here bufs st bytes \<longleftrightarrow> code_at bufs (s_hi (rg_IP (regs st))) (unat (s_lo (rg_IP (regs st)))) bytes"

definition advanced :: "nat \<Rightarrow> tvm \<Rightarrow> segment_pair" where
  "advanced n st = \<lparr>s_hi = s_hi (rg_IP (regs st)), s_lo = (s_lo (rg_IP (regs st)) + 2 + 2 * word_of_nat n) AND 0xFFFE\<rparr>"

lemma s_hi_advanced [simp]: "s_hi (advanced n st) = s_hi (rg_IP (regs st))"
  by (simp add: advanced_def)

definition same_calls :: "tvm \<Rightarrow> tvm \<Rightarrow> bool" where
  "same_calls st st' \<longleftrightarrow>
     stack st' = stack st \<and> rg_SP (regs st') = rg_SP (regs st)
     \<and> fl_L (csrs st') = fl_L (csrs st) \<and> fl_F (csrs st') = fl_F (csrs st)"

definition same_data :: "tvm \<Rightarrow> tvm \<Rightarrow> bool" where
  "same_data st st' \<longleftrightarrow> rg_DP (regs st') = rg_DP (regs st) \<and> rg_DS (regs st') = rg_DS (regs st)"

lemma packet_hereI: "code_here bufs st (encode_op c clrmod ws) \<Longrightarrow> length ws < 256 \<Longrightarrow> packet_here bufs st c clrmod ws"
  by (simp add: packet_here_def packet_at_def code_here_def)

lemma IP_after_fetch: "rg_IP (regs (after_fetch c clrmod n st)) = advanced n st"
  by (simp add: after_fetch_def advanced_def)

lemma refill_pair [simp]:
  "p\<lparr>s_lo := s_lo q, s_hi := s_hi q\<rparr> = q" "p\<lparr>s_hi := s_hi q, s_lo := s_lo q\<rparr> = q"
  for p q :: segment_pair
  by (rule segment_pair.equality; simp)+

lemmas decoding = if_words_def load_word_def decode_with_def same_calls_def same_data_def data_operand_def
  opcode_value_inject IP_after_fetch delta_mem_of_def register_operand_def

lemma decode_encoded:
  assumes "code_here bufs st (encode_op c clrmod ws)" and "length ws = n" and "n < 256"
  shows "decode bufs prev st =
     decode_with c bufs (s_hi (rg_IP (regs st))) (2 + s_lo (rg_IP (regs st))) prev (after_fetch c clrmod n st)"
  using decode_packet[OF packet_hereI[OF assms(1)]] assms(2,3) by simp

lemma encoded_words:
  "code_here bufs st (encode_op c clrmod ws) \<Longrightarrow> length ws < 256 \<Longrightarrow>
   packet_at bufs (s_hi (rg_IP (regs st))) (s_lo (rg_IP (regs st))) c clrmod ws"
  by (simp add: packet_at_def code_here_def)

text \<open>The packets that a recorder emits, one by one.\<close>

lemma decode_setmem4:
  assumes "code_here bufs st (e_setmem4 x access dev off)"
  shows "\<exists>st'. decode bufs prev st = (D_DeltaMem
      \<lparr>dm_kind = (if x then Delta_Xor else Delta_Assign), dm_access = operation_of_u16 access, dm_target = ucast dev,
       dm_offset = pair_as_u32 off, dm_data = rg_DP (regs st), dm_size = rg_DS (regs st), dm_order = LittleEndian\<rparr>, st')
     \<and> rg_IP (regs st') = advanced 4 st \<and> same_calls st st' \<and> same_data st st' \<and> \<not> fl_TR (csrs st')"
proof -
  note c = assms[unfolded e_setmem4_def]
  note r = operand_words[OF encoded_words[OF c], simplified]
  show ?thesis
    by (cases x) (simp_all add: decode_encoded[OF c, of 4] decode_setmem_def decoding set_mem_op_def r Let_def)
qed

lemma decode_setreg3:
  assumes "code_here bufs st (e_setreg3 x access reg field)"
  shows "\<exists>st'. decode bufs prev st = (D_DeltaReg
      \<lparr>dr_kind = (if x then Delta_Xor else Delta_Assign), dr_reg = (reg, field),
       dr_data = rg_DP (regs st), dr_size = rg_DS (regs st)\<rparr>, st')
     \<and> rg_IP (regs st') = advanced 3 st \<and> same_calls st st' \<and> same_data st st' \<and> fl_TR (csrs st')"
proof -
  note c = assms[unfolded e_setreg3_def]
  note r = operand_words[OF encoded_words[OF c], simplified]
  show ?thesis
    by (cases x) (simp_all add: decode_encoded[OF c, of 3] decode_deltareg_def decoding set_reg_op_def r Let_def)
qed

text \<open>Immediate packets: the data operand designates the bytes in the packet.\<close>

lemma decode_stepmem6:
  assumes c: "code_here bufs st (e_stepmem6 access dev off order bytes)" and l: "length bytes < 480"
  shows "\<exists>st' data. decode bufs prev st = (D_DeltaMem
      \<lparr>dm_kind = Delta_Add, dm_access = operation_of_u16 access, dm_target = ucast dev, dm_offset = pair_as_u32 off,
       dm_data = data, dm_size = word_of_nat (length bytes), dm_order = decode_order order\<rparr>, st')
     \<and> span_of bufs data (word_of_nat (length bytes)) = Some bytes
     \<and> rg_IP (regs st') = advanced (6 + (length bytes + 1) div 2) st
     \<and> same_calls st st' \<and> same_data st st' \<and> \<not> fl_TR (csrs st')"
proof -
  let ?ws = "[access, dev, s_hi off, s_lo off, order] @ word_of_nat (length bytes) # pack_bytes bytes"
  define n where "n = 6 + (length bytes + 1) div 2"
  have n: "length ?ws = n" "n < 256" "6 \<le> n" using l by (simp_all add: n_def)
  note c = c[unfolded e_stepmem6_def encode_immediate_def]
  note e = encoded_words[OF c, unfolded n(1), OF n(2)]
  note r = operand_words[OF e, unfolded n(1), simplified]
  have k: "\<And>k. k \<le> 6 \<Longrightarrow> k \<le> n" "\<And>k. k < 6 \<Longrightarrow> k < n" using n(3) by simp_all
  have span: "span_of bufs \<lparr>s_hi = s_hi (rg_IP (regs st)), s_lo = 2 + s_lo (rg_IP (regs st)) + 12\<rparr>
      (word_of_nat (length bytes)) = Some bytes"
    by (rule immediate_data[OF e]) simp
  show ?thesis unfolding n_def[symmetric]
    by (simp add: decode_encoded[OF c n(1,2)] decode_stepmem_def decoding r k n(2) span[simplified] Let_def)
qed

lemma decode_stepreg4:
  assumes c: "code_here bufs st (e_stepreg4 access reg field bytes)" and l: "length bytes < 480"
  shows "\<exists>st' data. decode bufs prev st = (D_DeltaReg
      \<lparr>dr_kind = Delta_Add, dr_reg = (reg, field), dr_data = data, dr_size = word_of_nat (length bytes)\<rparr>, st')
     \<and> span_of bufs data (word_of_nat (length bytes)) = Some bytes
     \<and> rg_IP (regs st') = advanced (4 + (length bytes + 1) div 2) st
     \<and> same_calls st st' \<and> same_data st st' \<and> fl_TR (csrs st')"
proof -
  let ?ws = "[access, reg, field] @ word_of_nat (length bytes) # pack_bytes bytes"
  define n where "n = 4 + (length bytes + 1) div 2"
  have n: "length ?ws = n" "n < 256" "4 \<le> n" using l by (simp_all add: n_def)
  note c = c[unfolded e_stepreg4_def encode_immediate_def]
  note e = encoded_words[OF c, unfolded n(1), OF n(2)]
  note r = operand_words[OF e, unfolded n(1), simplified]
  have k: "\<And>k. k \<le> 4 \<Longrightarrow> k \<le> n" "\<And>k. k < 4 \<Longrightarrow> k < n" using n(3) by simp_all
  have span: "span_of bufs \<lparr>s_hi = s_hi (rg_IP (regs st)), s_lo = 2 + s_lo (rg_IP (regs st)) + 8\<rparr>
      (word_of_nat (length bytes)) = Some bytes"
    by (rule immediate_data[OF e]) simp
  show ?thesis unfolding n_def[symmetric]
    by (simp add: decode_encoded[OF c n(1,2)] decode_deltareg_def decoding r k n(2) span[simplified] Let_def)
qed

text \<open>Packets whose address is in the data.\<close>

definition address_bytes :: "u32 \<Rightarrow> u8 list" where
  "address_bytes a = [lo_byte (ucast (drop_bit 16 a)), hi_byte (ucast (drop_bit 16 a)), lo_byte (ucast a), hi_byte (ucast a)]"

lemma pair_as_u32_halves [simp]: "pair_as_u32 (p\<lparr>s_hi := ucast (drop_bit 16 a), s_lo := ucast a\<rparr>) = a"
  by (rule bit_word_eqI) (auto simp: pair_as_u32_def bit_simps)

lemma data_at_nth:
  assumes "code_at bufs ident offset bytes" and "bufs ident = Some whole" and "k < length bytes"
  shows "whole ! (offset + k) = bytes ! k" and "offset + k < length whole"
  using code_at_nth[OF assms(1,3)] assms(2) by auto

lemma put_offset_address:
  assumes "code_at bufs ident lo (address_bytes a @ bytes)" and "bufs ident = Some whole"
  shows "put_offset whole lo st = put_OFF_lo (ucast a) (put_OFF_hi (ucast (drop_bit 16 a)) st)"
  using data_at_nth(1)[OF assms, of 0] data_at_nth(1)[OF assms, of 1] data_at_nth(1)[OF assms, of 2]
    data_at_nth(1)[OF assms, of 3]
  by (simp add: put_offset_def address_bytes_def numeral_2_eq_2 numeral_3_eq_3)

lemma decode_setmemdx2:
  assumes c: "code_here bufs st (e_setmemdx2 access dev)"
    and d: "code_at bufs (s_hi (rg_DP (regs st))) (unat (s_lo (rg_DP (regs st)))) (address_bytes a @ bytes)"
    and l: "unat (rg_DS (regs st)) = length bytes"
  shows "\<exists>st'. decode bufs prev st = (D_DeltaMem
      \<lparr>dm_kind = Delta_Xor, dm_access = operation_of_u16 access, dm_target = ucast dev, dm_offset = a,
       dm_data = \<lparr>s_hi = s_hi (rg_DP (regs st)), s_lo = s_lo (rg_DP (regs st)) + 4\<rparr>,
       dm_size = rg_DS (regs st), dm_order = LittleEndian\<rparr>, st')
     \<and> rg_IP (regs st') = advanced 2 st \<and> same_calls st st' \<and> same_data st st' \<and> \<not> fl_TR (csrs st')"
proof -
  note c = c[unfolded e_setmemdx2_def]
  note r = operand_words[OF encoded_words[OF c], simplified]
  obtain whole where w: "bufs (s_hi (rg_DP (regs st))) = Some whole"
      "unat (s_lo (rg_DP (regs st))) + 4 + length bytes \<le> length whole"
    using d by (auto simp: code_at_def address_bytes_def split: option.splits)
  note o = put_offset_address[OF d w(1)]
  show ?thesis
    using w(2) by (simp add: decode_encoded[OF c, of 2] decode_setmemdx_def decoding r w(1) o l Let_def SETMEMDX_ADDRESS_BYTES_def)
qed

lemma decode_mmio3:
  assumes c: "code_here bufs st (e_mmio3 wr access dev)"
    and d: "code_at bufs (s_hi (rg_DP (regs st))) (unat (s_lo (rg_DP (regs st)))) (address_bytes a @ [b])"
  shows "\<exists>st'. decode bufs prev st = (D_MMIO
      \<lparr>mm_write = wr, mm_data = b, mm_size = 1, mm_target = ucast dev, mm_access = operation_of_u16 access,
       mm_offset = a\<rparr>, st')
     \<and> rg_IP (regs st') = advanced 3 st \<and> same_calls st st' \<and> same_data st st' \<and> \<not> fl_TR (csrs st')"
proof -
  note c = c[unfolded e_mmio3_def]
  note r = operand_words[OF encoded_words[OF c], simplified]
  obtain whole where w: "bufs (s_hi (rg_DP (regs st))) = Some whole"
      "unat (s_lo (rg_DP (regs st))) + 5 \<le> length whole"
    using d by (auto simp: code_at_def address_bytes_def split: option.splits)
  note o = put_offset_address[OF d w(1)]
  have b: "whole ! (unat (s_lo (rg_DP (regs st))) + 4) = b"
    using data_at_nth(1)[OF d w(1), of 4] by (simp add: address_bytes_def)
  show ?thesis
    using w(2) by (cases wr) (simp_all add: decode_encoded[OF c, of 3] decode_mmio_def decoding r w(1) o b Let_def MMIO_PROLOGUE_BYTES_def)
qed

text \<open>Packets that move the data pointer.\<close>

lemma decode_ldp3:
  assumes c: "code_here bufs st (e_ldp3 dp ds)"
  shows "\<exists>st'. decode bufs prev st = (D_LDP, st') \<and> rg_IP (regs st') = advanced 3 st
     \<and> same_calls st st' \<and> rg_DP (regs st') = dp \<and> rg_DS (regs st') = ds"
proof -
  note c = c[unfolded e_ldp3_def]
  note r = operand_words[OF encoded_words[OF c], simplified]
  show ?thesis by (simp add: decode_encoded[OF c, of 3] decode_ldp_def decoding r Let_def)
qed

lemma decode_accdp:
  assumes c: "code_here bufs st (e_accdp ds)"
  shows "\<exists>st'. decode bufs prev st = (D_DPIncr (rg_DS (regs st)) ds, st') \<and> rg_IP (regs st') = advanced 1 st
     \<and> same_calls st st' \<and> same_data st st'"
proof -
  note c = c[unfolded e_accdp_def]
  note r = operand_words[OF encoded_words[OF c], simplified]
  show ?thesis by (simp add: decode_encoded[OF c, of 1] decode_accdp_def decoding r Let_def)
qed

lemma decode_incdp:
  assumes c: "code_here bufs st (e_incdp i ds)"
  shows "\<exists>st'. decode bufs prev st = (D_DPIncr i ds, st') \<and> rg_IP (regs st') = advanced 2 st
     \<and> same_calls st st' \<and> same_data st st'"
proof -
  note c = c[unfolded e_incdp_def]
  note r = operand_words[OF encoded_words[OF c], simplified]
  show ?thesis by (simp add: decode_encoded[OF c, of 2] decode_incdp_def decoding r Let_def)
qed

lemma decode_ldr:
  assumes c: "code_here bufs st (e_ldr m v)"
  shows "\<exists>st'. decode bufs prev st = (D_LMR (reg_mask_bit m) (word_bytes_le v), st') \<and> rg_IP (regs st') = advanced 2 st
     \<and> same_calls st st' \<and> same_data st st'"
proof -
  note c = c[unfolded e_ldr_def]
  note e = encoded_words[OF c, simplified]
  note r = operand_words[OF e, simplified]
  let ?lo = "s_lo (rg_IP (regs st))"
  obtain whole where w: "bufs (s_hi (rg_IP (regs st))) = Some whole"
      "unat ?lo + 6 \<le> length whole" "take 6 (drop (unat ?lo) whole) = encode_op OP_LMR False [reg_mask_bit m, v]"
      "unat ?lo + 6 \<le> 2 ^ 16"
    using c by (auto simp: code_here_def code_at_def split: option.splits)
  have u: "unat (2 + ?lo) = unat ?lo + 2" using w(4) by (simp add: unat_word_ariths)
  have "take 2 (drop 4 (take 6 (drop (unat ?lo) whole))) = word_bytes_le v"
    unfolding w(3) by (simp add: encode_op_def word_bytes_le_eq)
  then have t: "take 2 (drop (unat ?lo + 4) whole) = word_bytes_le v" by (simp add: drop_take add.commute)
  have q: "Suc (Suc (Suc (Suc (unat ?lo)))) = unat ?lo + 4" by simp
  show ?thesis
    using w(2) t by (simp add: decode_encoded[OF c, of 2] decode_lmr_def decoding r w(1) u q Let_def)
qed

text \<open>The head and the end of a program, and the call of a stencil.\<close>

lemma bytes_value_2: "bytes_value [a, b] = ucast a OR push_bit 8 (ucast b)"
  by (simp add: bytes_value_def)

lemma sign_extend_2: "sign_extend_bytes 2 (bytes_value [lo_byte v, hi_byte v]) = scast v"
proof -
  have raw: "bytes_value [lo_byte v, hi_byte v] = (ucast v :: u64)"
    unfolding bytes_value_2 by (rule bit_word_eqI) (auto simp: bit_simps lo_byte_def hi_byte_def dest: bit_imp_le_length)
  have "(push_bit 15 1 :: u64) = 2 ^ 15" by (simp add: push_bit_eq_mult)
  then have sign: "(ucast v :: u64) AND push_bit 15 1 \<noteq> 0 \<longleftrightarrow> bit v 15"
    using and_exp_eq_0_iff_not_bit[of "ucast v :: u64" 15] by (simp add: bit_simps)
  have m: "(push_bit 16 1 - 1 :: u64) = mask 16" by (simp add: mask_eq_exp_minus_1 push_bit_eq_mult)
  have "sign_extend_bytes 2 (ucast v) = (if bit v 15 then ucast v OR NOT (mask 16) else ucast v)"
    by (simp only: sign_extend_bytes_def Let_def) (simp add: sign[simplified] m[simplified])
  also have "\<dots> = scast v"
  proof (rule bit_word_eqI)
    fix n assume "n < LENGTH(64)"
    consider "n < 15" | "n = 15" | "15 < n" by linarith
    then show "bit (if bit v 15 then ucast v OR NOT (mask 16) else ucast v :: u64) n = bit (scast v :: u64) n"
      by cases (use \<open>n < LENGTH(64)\<close> in \<open>auto simp: bit_simps min_def dest: bit_imp_le_length\<close>)
  qed
  finally show ?thesis unfolding raw .
qed

lemma decode_isyn1:
  assumes c: "code_here bufs st (e_syn1_words OP_ISYN [v])"
  shows "\<exists>st'. decode bufs prev st = (D_ISyn (scast v), st') \<and> rg_IP (regs st') = advanced 2 st
     \<and> same_calls st st' \<and> same_data st st'"
proof -
  note c = c[unfolded e_syn1_words_def encode_immediate_words_def, simplified]
  note e = encoded_words[OF c, simplified]
  note r = operand_words[OF e, simplified]
  let ?lo = "s_lo (rg_IP (regs st))"
  obtain whole where w: "bufs (s_hi (rg_IP (regs st))) = Some whole"
      "unat ?lo + 6 \<le> length whole" "take 6 (drop (unat ?lo) whole) = encode_op OP_ISYN True [2, v]"
      "unat ?lo + 6 \<le> 2 ^ 16"
    using c by (auto simp: code_here_def code_at_def split: option.splits)
  have u: "unat (4 + ?lo) = unat ?lo + 4" using w(4) by (simp add: unat_word_ariths)
  have "take 2 (drop 4 (take 6 (drop (unat ?lo) whole))) = word_bytes_le v"
    unfolding w(3) by (simp add: encode_op_def word_bytes_le_eq)
  then have t: "take 2 (drop (unat ?lo + 4) whole) = [lo_byte v, hi_byte v]"
    by (simp add: drop_take add.commute word_bytes_le_eq)
  note s = sign_extend_2[of v]
  show ?thesis
    using w(2) t s by (simp add: decode_encoded[OF c, of 2] decode_isyn_def decode_syn_data_def decoding r w(1) u Let_def)
qed

lemma decode_halt0:
  assumes c: "code_here bufs st e_halt0"
  shows "\<exists>st'. decode bufs prev st = (D_Halt Stop_None, st') \<and> same_calls st st' \<and> same_data st st'"
  by (simp add: decode_encoded[OF c[unfolded e_halt0_def], of 0] decode_halt_def decoding)

lemma decode_ret0:
  assumes c: "code_here bufs st e_ret"
  shows "\<exists>st'. decode bufs prev st = (D_Ret, st') \<and> same_calls st st' \<and> same_data st st'"
  by (simp add: decode_encoded[OF c[unfolded e_ret_def], of 0] decoding)

lemma decode_call2:
  assumes c: "code_here bufs st (e_call2 target)"
  shows "\<exists>st'. decode bufs prev st = (D_Call target, st') \<and> rg_IP (regs st') = advanced 2 st
     \<and> same_calls st st' \<and> same_data st st'"
proof -
  note c = c[unfolded e_call2_def]
  note r = operand_words[OF encoded_words[OF c], simplified]
  show ?thesis by (simp add: decode_encoded[OF c, of 2] decode_call_def decoding r Let_def)
qed

section \<open>Encoding and decoding\<close>

text \<open>
  The packet at the instruction pointer decodes to \<open>op\<close>, the pointer moves past its \<open>n\<close> operand words,
  and the call stack, the flags L and F and the data pointer stay as they were.
\<close>

definition decodes :: "buffers \<Rightarrow> decoded_op \<Rightarrow> tvm \<Rightarrow> decoded_op \<Rightarrow> nat \<Rightarrow> bool" where
  "decodes bufs prev st op n \<longleftrightarrow>
     (\<exists>st'. decode bufs prev st = (op, st') \<and> rg_IP (regs st') = advanced n st
        \<and> same_calls st st' \<and> same_data st st')"


definition stepping_code :: "u8 list" where
  "stepping_code = e_stepreg4 0 1 2 [0xFF, 0xFF]"


end
