(* ===== verification/Tvm_Backend.thy ===== *)
theory Tvm_Backend
  imports Tvm_Packets
begin

text \<open>
  What every backend of the trace virtual machine does with the instructions that only concern the
  machine, from \<^verbatim>\<open>sim/debugger/tvm_backend.hpp\<close> and \<^verbatim>\<open>tvm_backend.cpp\<close>: stopping, calls,
  invertible calls and the replay direction, masked loads, branches and the data pointer.
\<close>

section \<open>Replay policy\<close>

datatype direction = Forward | Backward

datatype access_mode = AsTraced | ReplaceWithInternal

text \<open>
  \<open>bk_trace\<close> stands for the trace buffer, when one is set: the buffers that follow and precede a
  buffer in its data chains, 0 if there is none (\<^verbatim>\<open>TraceBuffer::data_successor\<close> and
  \<^verbatim>\<open>data_predecessor\<close>).  \<open>bk_tmp\<close> is the scratch array of the backend that applies changes.
\<close>

record backend =
  bk_trace :: "((u16 \<Rightarrow> u16) \<times> (u16 \<Rightarrow> u16)) option"
  bk_access_mode :: access_mode
  bk_depth :: int
  bk_floor :: int
  bk_tmp :: "u8 list"

definition fresh_backend :: backend where
  "fresh_backend = \<lparr>bk_trace = None, bk_access_mode = AsTraced, bk_depth = 0, bk_floor = 0, bk_tmp = []\<rparr>"

definition set_direction :: "direction \<Rightarrow> backend \<Rightarrow> backend" where
  "set_direction d b = (let v = (if d = Backward then - 1 else 0) in b\<lparr>bk_depth := v, bk_floor := v\<rparr>)"

definition is_forward :: "backend \<Rightarrow> bool" where
  "is_forward b \<longleftrightarrow> bk_depth b \<ge> 0"

definition direction :: "backend \<Rightarrow> direction" where
  "direction b = (if bk_floor b < 0 then Backward else Forward)"

definition effective_access :: "backend \<Rightarrow> operation \<Rightarrow> operation" where
  "effective_access b recorded =
     (if bk_access_mode b = AsTraced then recorded
      else mk_op BufferInternal (op_kind recorded) (initiator recorded))"

text \<open>A signed little-endian payload as a 64-bit value, and as the current direction applies it.\<close>

definition signed_le :: "u8 list \<Rightarrow> u64" where
  "signed_le bytes = (let width = min (length bytes) 8 in sign_extend_bytes width (bytes_value (take width bytes)))"

definition directed_delta :: "backend \<Rightarrow> u64 \<Rightarrow> u64" where
  "directed_delta b d = (if is_forward b then d else 0 - d)"

section \<open>Stopping and calls\<close>

type_synonym control = "backend \<times> tvm \<Rightarrow> backend \<times> tvm"

definition on_halt :: "stop_cause \<Rightarrow> control" where
  "on_halt cause = (\<lambda>(b, st).
     if bk_depth b \<noteq> bk_floor b then (b, hard_stop Stop_UnbalancedInvCall st) else (b, soft_stop cause st))"

definition pop_ip :: "tvm \<Rightarrow> tvm" where
  "pop_ip st = (case pop st of (v, st') \<Rightarrow> st'\<lparr>regs := (regs st')\<lparr>rg_IP := v\<rparr>\<rparr>)"

definition push_ip :: "segment_pair \<Rightarrow> tvm \<Rightarrow> tvm" where
  "push_ip target st = (let st' = push (rg_IP (regs st)) st in st'\<lparr>regs := (regs st')\<lparr>rg_IP := target\<rparr>\<rparr>)"

definition on_ret :: control where
  "on_ret = (\<lambda>(b, st). (b, pop_ip st))"

definition on_call :: "segment_pair \<Rightarrow> control" where
  "on_call next_ip = (\<lambda>(b, st). (b, push_ip next_ip st))"

definition on_invcall :: "segment_pair \<Rightarrow> segment_pair \<Rightarrow> control" where
  "on_invcall on_forward on_backward = (\<lambda>(b, st).
     (b\<lparr>bk_depth := bk_depth b + 1\<rparr>, push_ip (if is_forward b then on_forward else on_backward) st))"

definition on_invret :: control where
  "on_invret = (\<lambda>(b, st).
     if bk_depth b \<le> bk_floor b then (b, hard_stop Stop_UnbalancedInvCall st)
     else (b\<lparr>bk_depth := bk_depth b - 1\<rparr>, pop_ip st))"

section \<open>Masked loads and branches\<close>

text \<open>The lowest bit that is set; 16 if none is.\<close>

definition countr_zero :: "u16 \<Rightarrow> nat" where
  "countr_zero m = length (takeWhile (\<lambda>i. \<not> bit m i) [0..<16])"

definition lmr_assign :: "reg_mask \<Rightarrow> u16 \<Rightarrow> tvm \<Rightarrow> tvm" where
  "lmr_assign m w st =
     (case m of
        RM_IP_HI \<Rightarrow> st\<lparr>regs := (regs st)\<lparr>rg_IP := (rg_IP (regs st))\<lparr>s_hi := w\<rparr>\<rparr>\<rparr>
      | RM_IP_LO \<Rightarrow> st\<lparr>regs := (regs st)\<lparr>rg_IP := (rg_IP (regs st))\<lparr>s_lo := w AND 0xFFFE\<rparr>\<rparr>\<rparr>
      | RM_DP_HI \<Rightarrow> put_DP_hi w st
      | RM_DP_LO \<Rightarrow> put_DP_lo w st
      | RM_DS \<Rightarrow> put_DS w st
      | RM_ACCESS \<Rightarrow> put_ACCESS w st
      | RM_ID_HI \<Rightarrow> put_ID_hi w st
      | RM_ID_LO \<Rightarrow> put_ID_lo w st
      | RM_OFF_HI \<Rightarrow> put_OFF_hi w st
      | RM_OFF_LO \<Rightarrow> put_OFF_lo w st
      | RM_MOD1_HI \<Rightarrow> set_M1 (put_MOD1_hi w st)
      | RM_MOD1_LO \<Rightarrow> set_M1 (put_MOD1_lo w st)
      | RM_MOD2_HI \<Rightarrow> set_M2 (put_MOD2_hi w st)
      | RM_MOD2_LO \<Rightarrow> set_M2 (put_MOD2_lo w st)
      | RM_FLAGS \<Rightarrow> st\<lparr>csrs := (flags_of_u8 (ucast (w AND 0xFF)))\<lparr>fl_L := fl_L (csrs st)\<rparr>\<rparr>)"

function (sequential) lmr_loop :: "u16 \<Rightarrow> nat \<Rightarrow> u8 list \<Rightarrow> tvm \<Rightarrow> tvm" where
  "lmr_loop m pos data st =
     (if m \<noteq> 0 \<and> pos < lmr_word_count data
      then let w = lmr_word data pos
           in lmr_loop (m AND (m - 1)) (pos + 1) data
                (case reg_mask_at (countr_zero m) of None \<Rightarrow> st | Some r \<Rightarrow> lmr_assign r w st)
      else st)"
  by pat_completeness auto

termination
  by (relation "measure (\<lambda>(m, pos, data, st). lmr_word_count data - pos)") auto

declare lmr_loop.simps [simp del]

definition on_lmr :: "u16 \<Rightarrow> u8 list \<Rightarrow> control" where
  "on_lmr m data = (\<lambda>(b, st). (b, lmr_loop m 0 data st))"

definition branch_passes :: "u16 \<Rightarrow> flags \<Rightarrow> bool" where
  "branch_passes condition f \<longleftrightarrow>
     (let cc = condition AND CC_MASK
      in fl_Z f \<and> cc AND CC_E \<noteq> 0 \<or> fl_N f \<and> cc AND CC_L \<noteq> 0
         \<or> \<not> fl_N f \<and> \<not> fl_Z f \<and> cc AND CC_G \<noteq> 0 \<or> fl_F f \<and> cc AND CC_F \<noteq> 0)"

definition on_br :: "u16 \<Rightarrow> segment_pair \<Rightarrow> control" where
  "on_br condition displacement = (\<lambda>(b, st).
     (b, if branch_passes condition (csrs st)
         then st\<lparr>regs := (regs st)\<lparr>rg_IP :=
                \<lparr>s_hi = s_hi displacement, s_lo = (s_lo (rg_IP (regs st)) + s_lo displacement) AND 0xFFFE\<rparr>\<rparr>\<rparr>
         else st))"

section \<open>The data pointer\<close>

definition BUF_SIZE :: int where "BUF_SIZE = 65536"

definition on_dpincr :: "u16 \<Rightarrow> u16 \<Rightarrow> control" where
  "on_dpincr dp_incr ds = (\<lambda>(b, st0).
     (let st = put_DS ds st0; dp = rg_DP (regs st)
      in case bk_trace b of
           None \<Rightarrow> (b, put_DP_lo (s_lo dp + dp_incr) st)
         | Some (succ, pred) \<Rightarrow>
             let new_lo = uint (s_lo dp) + sint dp_incr
             in if new_lo \<ge> BUF_SIZE
                then if succ (s_hi dp) = 0 then (b, hard_stop Stop_InvalidDBuffer st)
                     else (b, put_DP_lo (word_of_int (new_lo - BUF_SIZE)) (put_DP_hi (succ (s_hi dp)) st))
                else if new_lo < 0
                then if pred (s_hi dp) = 0 then (b, hard_stop Stop_InvalidDBuffer st)
                     else (b, put_DP_lo (word_of_int (new_lo + BUF_SIZE)) (put_DP_hi (pred (s_hi dp)) st))
                else (b, put_DP_lo (word_of_int new_lo) st)))"

end
