(* ===== verification/Register_Scan.thy ===== *)
theory Register_Scan
  imports Sparse_Ram Fifo_Register Register_Banks Ascii_Text
begin

text \<open>
  The devices of a system and the registry of the registers they expose to a debugger, from
  \<^verbatim>\<open>sim/debugger/register_scanner.hpp\<close> and \<^verbatim>\<open>register_scanner.cpp\<close>.

  A register is backed by an address of a target or by a variable of the host, which the code
  reaches through a pointer.  Host variables are an explicit store from variables to their bytes in
  memory; a pointer carries the size of what it points at and is null or names a variable.  The host
  is little-endian.
\<close>

section \<open>Devices\<close>

text \<open>The devices with a memory interface, and any other.\<close>

datatype device =
    Dev_Dense dense
  | Dev_Sparse sparse
  | Dev_Bank reg_bank
  | Dev_Csr csr_bank
  | Dev_Fifo fifo_register
  | Dev_Other

fun is_target :: "device \<Rightarrow> bool" where
  "is_target Dev_Other \<longleftrightarrow> False"
| "is_target _ \<longleftrightarrow> True"

text \<open>An operation of a device together with the buffer it reports to.\<close>

definition run_on :: "('m \<Rightarrow> device) \<Rightarrow> ('m \<times> trace_buffer \<Rightarrow> ('e + 'a) \<times> 'm \<times> trace_buffer)
    \<Rightarrow> 'm \<Rightarrow> trace_buffer \<Rightarrow> ('e + 'a) \<times> device \<times> trace_buffer" where
  "run_on con m d tb = (case m (d, tb) of (r, d', tb') \<Rightarrow> (r, con d', tb'))"

fun device_read :: "u32 \<Rightarrow> u8 list \<Rightarrow> operation \<Rightarrow> (device \<times> trace_buffer, sim_error, u8 list) sm" where
  "device_read a dest p (Dev_Dense d, tb) = run_on Dev_Dense (dense_read a dest p) d tb"
| "device_read a dest p (Dev_Sparse d, tb) = run_on Dev_Sparse (sparse_read a dest p) d tb"
| "device_read a dest p (Dev_Bank d, tb) = run_on Dev_Bank (bank_read a dest p) d tb"
| "device_read a dest p (Dev_Csr d, tb) = run_on Dev_Csr (csr_t_read a dest p) d tb"
| "device_read a dest p (Dev_Fifo d, tb) = run_on Dev_Fifo (fifo_read a dest p) d tb"
| "device_read a dest p (Dev_Other, tb) = (Inl UndefinedBehaviour, Dev_Other, tb)"

fun device_write :: "u32 \<Rightarrow> u8 list \<Rightarrow> operation \<Rightarrow> (device \<times> trace_buffer, sim_error, unit) sm" where
  "device_write a src p (Dev_Dense d, tb) = run_on Dev_Dense (dense_write a src p) d tb"
| "device_write a src p (Dev_Sparse d, tb) = run_on Dev_Sparse (sparse_write a src p) d tb"
| "device_write a src p (Dev_Bank d, tb) = run_on Dev_Bank (bank_write a src p) d tb"
| "device_write a src p (Dev_Csr d, tb) = run_on Dev_Csr (csr_t_write a src p) d tb"
| "device_write a src p (Dev_Fifo d, tb) = run_on Dev_Fifo (fifo_write a src p) d tb"
| "device_write a src p (Dev_Other, tb) = (Inl UndefinedBehaviour, Dev_Other, tb)"

fun device_clear :: "u8 \<Rightarrow> device \<Rightarrow> device" where
  "device_clear fill (Dev_Dense d) = Dev_Dense (dense_clear fill d)"
| "device_clear fill (Dev_Sparse d) = Dev_Sparse (sparse_clear fill d)"
| "device_clear fill (Dev_Bank d) = Dev_Bank (bank_clear fill d)"
| "device_clear fill (Dev_Csr d) = Dev_Csr (csr_clear fill d)"
| "device_clear fill (Dev_Fifo d) = Dev_Fifo (fifo_register_clear d)"
| "device_clear fill Dev_Other = Dev_Other"

section \<open>Registers\<close>

text \<open>Access rights are bit flags.\<close>

definition ACC_NONE :: u8 where "ACC_NONE = 0"
definition ACC_READ :: u8 where "ACC_READ = 1"
definition ACC_WRITE :: u8 where "ACC_WRITE = 2"

datatype register_kind = Kind_State | Kind_Count | Kind_Gauge
datatype visibility = Architectural | Microarchitectural | Internal

text \<open>A pointer: the size of the type it points at, and the variable unless it is null.\<close>

datatype storage =
    Loc_none
  | Loc_address u32
  | Loc_pointer nat "nat option"

record reg_field =
  rf_guest_access :: u8
  rf_host_access :: u8
  rf_bit_offset :: u8
  rf_bit_width :: u8
  rf_name :: string

record scan_register =
  sr_byte_width :: u8
  sr_guest_access :: u8
  sr_host_access :: u8
  sr_restore_on_step_back :: bool
  sr_kind :: register_kind
  sr_visibility :: visibility
  sr_target :: u8
  sr_order :: byte_order
  sr_name :: string
  sr_fields :: "reg_field list"
  sr_loc :: storage

text \<open>
  The hash map of registers is a list of its entries in the order in which the map would be walked;
  no result of the code is meant to depend on that order.
\<close>

record register_scan =
  sc_next :: u16
  sc_exposed :: "u8 \<Rightarrow> u16 list"
  sc_regs :: "(u16 \<times> scan_register) list"

record system =
  sys_devices :: "u8 \<Rightarrow> device option"
  sys_tb :: trace_buffer
  sys_scan :: register_scan
  sys_host :: "nat \<Rightarrow> u8 list"

type_synonym 'a sys_sm = "(system, sim_error, 'a) sm"

definition fresh_scan :: register_scan where
  "fresh_scan = \<lparr>sc_next = 1, sc_exposed = (\<lambda>_. []), sc_regs = []\<rparr>"

definition find_by_id :: "u8 \<Rightarrow> system \<Rightarrow> device option" where
  "find_by_id i sys = sys_devices sys i"

text \<open>Running an operation on a device of the system.\<close>

definition on_device :: "u8 \<Rightarrow> device \<Rightarrow> (device \<times> trace_buffer, sim_error, 'a) sm \<Rightarrow> 'a sys_sm" where
  "on_device i dev m = (\<lambda>sys. case m (dev, sys_tb sys) of (r, dev', tb') \<Rightarrow>
     (r, sys\<lparr>sys_devices := (sys_devices sys)(i \<mapsto> dev'), sys_tb := tb'\<rparr>))"

definition assoc_put :: "'k \<Rightarrow> 'v \<Rightarrow> ('k \<times> 'v) list \<Rightarrow> ('k \<times> 'v) list" where
  "assoc_put k v kvs =
     (if k \<in> fst ` set kvs then map (\<lambda>(k', v'). if k' = k then (k, v) else (k', v')) kvs else kvs @ [(k, v)])"

definition width_check :: "scan_register \<Rightarrow> sim_error option" where
  "width_check n =
     (case sr_loc n of
        Loc_pointer sz _ \<Rightarrow> if sz \<noteq> unat (sr_byte_width n) then Some (LogicError ''Register width'') else None
      | _ \<Rightarrow> None)"

definition expose :: "scan_register \<Rightarrow> (register_scan, sim_error, register_ref) sm" where
  "expose n = (\<lambda>sc.
     (case width_check n of
        Some e \<Rightarrow> (Inl e, sc)
      | None \<Rightarrow>
          let i = sc_next sc
          in (Inr (i, 0),
              sc\<lparr>sc_next := i + 1, sc_regs := assoc_put i n (sc_regs sc),
                 sc_exposed := (sc_exposed sc)(sr_target n := sc_exposed sc (sr_target n) @ [i])\<rparr>)))"

definition is_field :: "register_ref \<Rightarrow> bool" where
  "is_field r \<longleftrightarrow> snd r \<noteq> 0"

definition resolve :: "register_ref \<Rightarrow> register_scan \<Rightarrow> scan_register option \<times> reg_field option" where
  "resolve r sc =
     (case map_of (sc_regs sc) (fst r) of
        None \<Rightarrow> (None, None)
      | Some reg \<Rightarrow>
          if \<not> is_field r then (Some reg, None)
          else let idx = unat (snd r) - 1
               in if idx \<ge> length (sr_fields reg) then (None, None) else (Some reg, Some (sr_fields reg ! idx)))"

datatype level = Guest | Host

definition granted :: "scan_register \<Rightarrow> level \<Rightarrow> u8" where
  "granted reg l = (case l of Host \<Rightarrow> sr_host_access reg | Guest \<Rightarrow> sr_guest_access reg)"

definition granted_field :: "reg_field \<Rightarrow> level \<Rightarrow> u8" where
  "granted_field f l = (case l of Host \<Rightarrow> rf_host_access f | Guest \<Rightarrow> rf_guest_access f)"

definition allows :: "u8 \<Rightarrow> u8 \<Rightarrow> bool" where
  "allows granted_bits wanted \<longleftrightarrow> granted_bits AND wanted \<noteq> 0"

definition access :: "register_ref \<Rightarrow> level \<Rightarrow> register_scan \<Rightarrow> sim_error + u8" where
  "access r l sc =
     (case resolve r sc of
        (None, _) \<Rightarrow> Inl (RuntimeError ''Register not found'')
      | (Some reg, None) \<Rightarrow> Inr (granted reg l)
      | (Some reg, Some f) \<Rightarrow> Inr (granted_field f l))"

definition scan_bit_width :: "register_ref \<Rightarrow> register_scan \<Rightarrow> sim_error + u8" where
  "scan_bit_width r sc =
     (case resolve r sc of
        (None, _) \<Rightarrow> Inl (RuntimeError ''Register not found'')
      | (Some reg, None) \<Rightarrow> Inr (sr_byte_width reg * 8)
      | (Some reg, Some f) \<Rightarrow> Inr (rf_bit_width f))"

section \<open>Storage\<close>

definition rw_guest :: operation where "rw_guest = mk_op Application Kind_data 0"
definition rw_buf :: operation where "rw_buf = mk_op BufferInternal Kind_data 0"

definition access_of :: "level \<Rightarrow> operation" where
  "access_of l = (case l of Guest \<Rightarrow> rw_guest | Host \<Rightarrow> rw_buf)"

text \<open>Reading what backs a register into the bytes \<open>out\<close>.\<close>

definition load_register :: "scan_register \<Rightarrow> u8 list \<Rightarrow> operation \<Rightarrow> u8 list sys_sm" where
  "load_register reg out p = (\<lambda>sys.
     (case sr_loc reg of
        Loc_none \<Rightarrow> (Inl (RuntimeError ''Register has no storage location''), sys)
      | Loc_pointer sz var \<Rightarrow>
          if sz \<noteq> length out then (Inl (RuntimeError ''Register width mismatch''), sys)
          else (case var of
                  None \<Rightarrow> (Inl (RuntimeError ''Register pointer is null''), sys)
                | Some v \<Rightarrow> (Inr (sys_host sys v), sys))
      | Loc_address a \<Rightarrow>
          (case find_by_id (sr_target reg) sys of
             None \<Rightarrow> (Inl (RuntimeError ''Device not found''), sys)
           | Some dev \<Rightarrow>
               if \<not> is_target dev then (Inl (RuntimeError ''Device is not a Target''), sys)
               else on_device (sr_target reg) dev (device_read a out p) sys)))"

definition store_register :: "scan_register \<Rightarrow> u8 list \<Rightarrow> operation \<Rightarrow> unit sys_sm" where
  "store_register reg bs p = (\<lambda>sys.
     (case sr_loc reg of
        Loc_none \<Rightarrow> (Inl (RuntimeError ''Register has no storage location''), sys)
      | Loc_pointer sz var \<Rightarrow>
          if sz \<noteq> length bs then (Inl (RuntimeError ''Register width mismatch''), sys)
          else (case var of
                  None \<Rightarrow> (Inl (RuntimeError ''Register pointer is null''), sys)
                | Some v \<Rightarrow> (Inr (), sys\<lparr>sys_host := (sys_host sys)(v := bs)\<rparr>))
      | Loc_address a \<Rightarrow>
          (case find_by_id (sr_target reg) sys of
             None \<Rightarrow> (Inl (RuntimeError ''Device not found''), sys)
           | Some dev \<Rightarrow>
               if \<not> is_target dev then (Inl (RuntimeError ''Device is not a Target''), sys)
               else on_device (sr_target reg) dev (device_write a bs p) sys)))"

section \<open>Reading and writing\<close>

datatype swap_policy = Swap_Always | Swap_Never | Swap_IfHostMismatch

text \<open>
  The field of a value that was read.  A shift by 64 or more is undefined, which rules out fields of 64
  bits here.
\<close>

definition extract_field :: "reg_field \<Rightarrow> u64 \<Rightarrow> u64 option" where
  "extract_field f v =
     (if unat (rf_bit_offset f) \<ge> 64 \<or> unat (rf_bit_width f) \<ge> 64 then None
      else Some (drop_bit (unat (rf_bit_offset f)) v AND (push_bit (unat (rf_bit_width f)) 1 - 1)))"

text \<open>
  \<^verbatim>\<open>RegisterScan::read\<close> on a destination \<open>dest\<close>: on a little-endian host the last bytes of it
  receive the register.
\<close>

definition scan_read :: "scan_register option \<Rightarrow> reg_field option \<Rightarrow> u8 list \<Rightarrow> swap_policy \<Rightarrow> level
    \<Rightarrow> (u8 list \<times> byte_order) sys_sm" where
  "scan_read reg_ptr field dest bswap l = (\<lambda>sys.
     (case reg_ptr of
        None \<Rightarrow> (Inl (RuntimeError ''Register not found''), sys)
      | Some reg \<Rightarrow>
          let w = unat (sr_byte_width reg); front = take (length dest - w) dest
          in if sr_loc reg = Loc_none then (Inl (RuntimeError ''Register has no storage location''), sys)
             else if length dest < w then (Inl (RuntimeError ''Destination is narrower than the register''), sys)
             else if \<not> allows (granted reg l) ACC_READ then (Inl (RuntimeError ''Register is not readable''), sys)
             else andthen (load_register reg (drop (length dest - w) dest) (access_of l)) (\<lambda>out.
               andthen
                 (case field of
                    None \<Rightarrow> ret out
                  | Some f \<Rightarrow>
                      if \<not> allows (granted_field f l) ACC_READ then throw (RuntimeError ''Field is not readable'')
                      else (case extract_field f (memcpy_endian_to out (sr_order reg) :: u64) of
                              None \<Rightarrow> throw UndefinedBehaviour
                            | Some v \<Rightarrow> ret (memcpy_endian_from out (sr_order reg) v)))
                 (\<lambda>out'.
                    let swapped = bswap = Swap_Always \<or> bswap = Swap_IfHostMismatch \<and> sr_order reg \<noteq> LittleEndian
                    in ret (front @ (if swapped then rev out' else out'), sr_order reg))) sys))"

text \<open>A field of a value replaced; the bits outside it are kept.\<close>

definition insert_field :: "reg_field \<Rightarrow> u64 \<Rightarrow> u64 \<Rightarrow> u64 option" where
  "insert_field f whole v =
     (let m = (if unat (rf_bit_width f) \<ge> 64 then - 1 else push_bit (unat (rf_bit_width f)) 1 - 1 :: u64);
          k = unat (rf_bit_offset f)
      in if k \<ge> 64 then None
         else Some (whole AND NOT (push_bit k m) OR push_bit k (v AND m)))"

definition scan_write :: "scan_register option \<Rightarrow> reg_field option \<Rightarrow> u8 list \<Rightarrow> swap_policy \<Rightarrow> level \<Rightarrow> unit sys_sm" where
  "scan_write reg_ptr field src bswap l = (\<lambda>sys.
     (case reg_ptr of
        None \<Rightarrow> (Inl (RuntimeError ''Register not found''), sys)
      | Some reg \<Rightarrow>
          if sr_loc reg = Loc_none then (Inl (RuntimeError ''Register has no storage location''), sys)
          else if \<not> allows (granted reg l) ACC_WRITE then (Inl (RuntimeError ''Register is not writable''), sys)
          else
            let w = min (unat (sr_byte_width reg)) 8;
                src_order = (case bswap of
                   Swap_Never \<Rightarrow> sr_order reg
                 | Swap_Always \<Rightarrow> if sr_order reg = BigEndian then LittleEndian else BigEndian
                 | Swap_IfHostMismatch \<Rightarrow> LittleEndian);
                v = (memcpy_endian_to src src_order :: u64)
            in andthen
                 (case field of
                    None \<Rightarrow> ret v
                  | Some f \<Rightarrow>
                      if \<not> allows (granted_field f l) ACC_WRITE then throw (RuntimeError ''Field is not writable'')
                      else andthen (load_register reg (replicate w 0) rw_buf) (\<lambda>cur.
                        case insert_field f (memcpy_endian_to cur (sr_order reg)) v of
                          None \<Rightarrow> throw UndefinedBehaviour
                        | Some v' \<Rightarrow> ret v'))
                 (\<lambda>v'. store_register reg (memcpy_endian_from (replicate w 0) (sr_order reg) v') (access_of l)) sys))"

definition scan_read_ref :: "register_ref \<Rightarrow> u8 list \<Rightarrow> swap_policy \<Rightarrow> level \<Rightarrow> (u8 list \<times> byte_order) sys_sm" where
  "scan_read_ref r dest bswap l = (\<lambda>sys. case resolve r (sys_scan sys) of (reg, f) \<Rightarrow> scan_read reg f dest bswap l sys)"

definition scan_write_ref :: "register_ref \<Rightarrow> u8 list \<Rightarrow> swap_policy \<Rightarrow> level \<Rightarrow> unit sys_sm" where
  "scan_write_ref r src bswap l = (\<lambda>sys. case resolve r (sys_scan sys) of (reg, f) \<Rightarrow> scan_write reg f src bswap l sys)"

text \<open>The accessors of integers.\<close>

definition scan_read_int :: "register_ref \<Rightarrow> level \<Rightarrow> ('a::len word) sys_sm" where
  "scan_read_int r l = (\<lambda>sys.
     (case resolve r (sys_scan sys) of
        (None, _) \<Rightarrow> (Inl (RuntimeError ''Register not found''), sys)
      | (Some reg, f) \<Rightarrow>
          let w = min (unat (sr_byte_width reg)) 8
          in andthen (scan_read (Some reg) f (replicate w 0) Swap_Never l)
               (\<lambda>(bs, order). ret (ucast (memcpy_endian_to bs order :: u64))) sys))"

definition scan_write_int :: "register_ref \<Rightarrow> u64 \<Rightarrow> level \<Rightarrow> unit sys_sm" where
  "scan_write_int r v l = (\<lambda>sys.
     (case resolve r (sys_scan sys) of
        (None, _) \<Rightarrow> (Inl (RuntimeError ''Register not found''), sys)
      | (Some reg, f) \<Rightarrow>
          let w = min (unat (sr_byte_width reg)) 8
          in scan_write (Some reg) f (memcpy_endian_from (replicate w 0) (sr_order reg) v) Swap_Never l sys))"

definition scan_clear :: "register_ref \<Rightarrow> unit sys_sm" where
  "scan_clear r = (\<lambda>sys.
     (case resolve r (sys_scan sys) of
        (None, _) \<Rightarrow> (Inl (RuntimeError ''Register not found''), sys)
      | (Some reg, f) \<Rightarrow> scan_write (Some reg) f (replicate 8 0) Swap_Never Host sys))"

fun reset_loop :: "register_kind list \<Rightarrow> (u16 \<times> scan_register) list \<Rightarrow> nat sys_sm" where
  "reset_loop kinds [] = ret 0"
| "reset_loop kinds ((i, reg) # rest) =
     (if sr_kind reg \<notin> set kinds then reset_loop kinds rest
      else if \<not> allows (sr_host_access reg) ACC_WRITE then reset_loop kinds rest
      else andthen (scan_clear (i, 0)) (\<lambda>_. andthen (reset_loop kinds rest) (\<lambda>n. ret (n + 1))))"

definition scan_reset :: "register_kind list \<Rightarrow> nat sys_sm" where
  "scan_reset kinds = (\<lambda>sys. reset_loop kinds (sc_regs (sys_scan sys)) sys)"

text \<open>
  Searching by name: the matches in the order of the walk, and none if there is a second one.
\<close>

definition matches_of :: "string \<Rightarrow> u8 \<Rightarrow> u16 \<times> scan_register \<Rightarrow> register_ref list" where
  "matches_of name scope = (\<lambda>(i, reg).
     if \<not> (scope = 0 \<or> sr_target reg = scope) then []
     else (if sr_name reg = name then [(i, 0)] else [])
          @ map (\<lambda>k. (i, word_of_nat (k + 1))) (filter (\<lambda>k. rf_name (sr_fields reg ! k) = name) [0..<length (sr_fields reg)]))"

definition scan_find :: "string \<Rightarrow> u8 \<Rightarrow> register_scan \<Rightarrow> register_ref option" where
  "scan_find name scope sc =
     (case concat (map (matches_of name scope) (sc_regs sc)) of [r] \<Rightarrow> Some r | _ \<Rightarrow> None)"

section \<open>Selections and samples\<close>

record selection =
  sl_scan :: bool  \<comment> \<open>bound to a registry\<close>
  sl_regs :: "u16 list"
  sl_widths :: "u8 list"
  sl_hash :: u64

record sample =
  sm_values :: "u64 list"
  sm_widths :: "u8 list"
  sm_hash :: u64

definition fnv_bytes :: "u8 list \<Rightarrow> u64 \<Rightarrow> u64" where
  "fnv_bytes bs seed = foldl (\<lambda>h b. (h XOR ucast b) * FNV_prime) seed bs"

definition fresh_selection :: "bool \<Rightarrow> selection" where
  "fresh_selection b = \<lparr>sl_scan = b, sl_regs = [], sl_widths = [], sl_hash = FNV_offset_basis\<rparr>"

definition selection_add :: "register_ref \<Rightarrow> register_scan \<Rightarrow> selection \<Rightarrow> bool \<times> selection" where
  "selection_add r sc s =
     (if \<not> sl_scan s \<or> is_field r then (False, s)
      else case resolve r sc of
        (None, _) \<Rightarrow> (False, s)
      | (Some reg, _) \<Rightarrow>
          if sr_loc reg = Loc_none then (False, s)
          else if \<not> allows (granted reg Host) ACC_READ then (False, s)
          else if unat (sr_byte_width reg) > 8 then (False, s)
          else (True, s\<lparr>sl_regs := sl_regs s @ [fst r], sl_widths := sl_widths s @ [sr_byte_width reg],
                        sl_hash := fnv_bytes (to_le (fst r)) (sl_hash s)\<rparr>))"

definition index_of :: "register_ref \<Rightarrow> selection \<Rightarrow> nat option" where
  "index_of r s =
     (if is_field r then None
      else let n = length (takeWhile (\<lambda>i. i \<noteq> fst r) (sl_regs s))
           in if n = length (sl_regs s) then None else Some n)"

definition value_of :: "sample \<Rightarrow> register_ref \<Rightarrow> selection \<Rightarrow> sim_error + u64 option" where
  "value_of smp r s =
     (if sm_hash smp \<noteq> sl_hash s then Inl (RuntimeError ''Sample was not taken from this Selection'')
      else case index_of r s of None \<Rightarrow> Inr None | Some i \<Rightarrow> Inr (Some (sm_values smp ! i)))"

definition delta_of :: "sample \<Rightarrow> sample \<Rightarrow> register_ref \<Rightarrow> selection \<Rightarrow> sim_error + u64 option" where
  "delta_of before after r s =
     (if sm_hash before \<noteq> sl_hash s \<or> sm_hash after \<noteq> sl_hash s
      then Inl (RuntimeError ''Sample not taken from this Selection'')
      else case index_of r s of
             None \<Rightarrow> Inr None
           | Some i \<Rightarrow> Inr (Some ((sm_values after ! i - sm_values before ! i) AND byte_mask (sl_widths s ! i))))"

fun sample_loop :: "u16 list \<Rightarrow> u64 list sys_sm" where
  "sample_loop [] = ret []"
| "sample_loop (i # is) = andthen (scan_read_int (i, 0) Host) (\<lambda>v. andthen (sample_loop is) (\<lambda>vs. ret (v # vs)))"

definition take_sample :: "selection \<Rightarrow> sample sys_sm" where
  "take_sample s = andthen (sample_loop (sl_regs s)) (\<lambda>vs.
     ret \<lparr>sm_values = vs, sm_widths = sl_widths s, sm_hash = sl_hash s\<rparr>)"

definition delta_to :: "sample \<Rightarrow> sample \<Rightarrow> sim_error + u64 list" where
  "delta_to before after =
     (if sm_hash before \<noteq> sm_hash after then Inl (RuntimeError ''Samples come from different Selections'')
      else if length (sm_values before) \<noteq> length (sm_values after) then Inl (RuntimeError ''Sample sizes disagree'')
      else Inr (map (\<lambda>i. (sm_values after ! i - sm_values before ! i) AND byte_mask (sm_widths before ! i))
                  [0..<length (sm_values before)]))"

section \<open>Fields of a value\<close>

lemma low_mask: "(2 ^ k - 1 :: u64) = mask k"
  by (simp add: mask_eq_exp_minus_1)

lemma bit_insert_field:
  assumes "insert_field f whole v = Some x" and "n < 64"
  shows "bit x n \<longleftrightarrow> (if unat (rf_bit_offset f) \<le> n \<and> n < unat (rf_bit_offset f) + unat (rf_bit_width f)
    then bit v (n - unat (rf_bit_offset f)) else bit whole n)"
  using assms by (auto simp: insert_field_def Let_def low_mask bit_simps split: if_splits)

lemma bit_extract_field:
  assumes "extract_field f x = Some v"
  shows "bit v n \<longleftrightarrow> n < unat (rf_bit_width f) \<and> bit x (n + unat (rf_bit_offset f))"
  using assms by (auto simp: extract_field_def low_mask bit_simps add.commute split: if_splits)

text \<open>
  Property C31.  Writing a field into a value and reading it back gives the written value cut to the
  width of the field; every other field that does not overlap it reads as before, and so does every bit
  outside it.  Reading is defined for fields of fewer than 64 bits.
\<close>

theorem field_read_write:
  assumes "insert_field f whole v = Some x"
  shows "(unat (rf_bit_width f) < 64 \<and> unat (rf_bit_offset f) + unat (rf_bit_width f) \<le> 64 \<longrightarrow>
       extract_field f x = Some (take_bit (unat (rf_bit_width f)) v))
    \<and> (unat (rf_bit_offset g) + unat (rf_bit_width g) \<le> unat (rf_bit_offset f)
        \<or> unat (rf_bit_offset f) + unat (rf_bit_width f) \<le> unat (rf_bit_offset g) \<longrightarrow>
       extract_field g x = extract_field g whole)
    \<and> (extract_field f whole \<noteq> None \<longrightarrow> insert_field f x (the (extract_field f whole)) = Some whole)"
proof (intro conjI impI)
  assume w: "unat (rf_bit_width f) < 64 \<and> unat (rf_bit_offset f) + unat (rf_bit_width f) \<le> 64"
  have o: "unat (rf_bit_offset f) < 64" using assms by (auto simp: insert_field_def Let_def split: if_splits)
  then obtain y where y: "extract_field f x = Some y" using w by (auto simp: extract_field_def)
  have "y = take_bit (unat (rf_bit_width f)) v"
    by (rule bit_word_eqI) (use w in \<open>auto simp: bit_extract_field[OF y] bit_insert_field[OF assms] bit_take_bit_iff\<close>)
  then show "extract_field f x = Some (take_bit (unat (rf_bit_width f)) v)" using y by simp
next
  assume d: "unat (rf_bit_offset g) + unat (rf_bit_width g) \<le> unat (rf_bit_offset f)
        \<or> unat (rf_bit_offset f) + unat (rf_bit_width f) \<le> unat (rf_bit_offset g)"
  show "extract_field g x = extract_field g whole"
  proof (cases "extract_field g x")
    case None
    then show ?thesis by (auto simp: extract_field_def split: if_splits)
  next
    case (Some a)
    then obtain b where b: "extract_field g whole = Some b" by (auto simp: extract_field_def split: if_splits)
    have "bit a n = bit b n" for n
      using d bit_insert_field[OF assms, of "n + unat (rf_bit_offset g)"]
        bit_imp_le_length[of x "n + unat (rf_bit_offset g)"] bit_imp_le_length[of whole "n + unat (rf_bit_offset g)"]
      by (auto simp: bit_extract_field[OF Some] bit_extract_field[OF b] split: if_splits)
    then have "a = b" by (simp add: bit_eq_iff)
    then show ?thesis using Some b by simp
  qed
next
  assume "extract_field f whole \<noteq> None"
  then obtain b where b: "extract_field f whole = Some b" by auto
  obtain z where z: "insert_field f x b = Some z" using assms by (auto simp: insert_field_def Let_def split: if_splits)
  have "z = whole"
    by (rule bit_word_eqI) (auto simp: bit_insert_field[OF z] bit_insert_field[OF assms] bit_extract_field[OF b])
  then show "insert_field f x (the (extract_field f whole)) = Some whole" using b z by simp
qed

lemma field_read_write_witness:
  "extract_field \<lparr>rf_guest_access = 3, rf_host_access = 3, rf_bit_offset = 4, rf_bit_width = 3, rf_name = ''NZV''\<rparr> 0xFFFFFFFFFFFFFFAF
     = Some 2
   \<and> extract_field \<lparr>rf_guest_access = 3, rf_host_access = 3, rf_bit_offset = 7, rf_bit_width = 2, rf_name = ''high''\<rparr> 0xFFFFFFFFFFFFFFAF
     = extract_field \<lparr>rf_guest_access = 3, rf_host_access = 3, rf_bit_offset = 7, rf_bit_width = 2, rf_name = ''high''\<rparr> (- 1)"
  using field_read_write[of "\<lparr>rf_guest_access = 3, rf_host_access = 3, rf_bit_offset = 4, rf_bit_width = 3, rf_name = ''NZV''\<rparr>"
      "- 1" "0xFA" "0xFFFFFFFFFFFFFFAF"
      "\<lparr>rf_guest_access = 3, rf_host_access = 3, rf_bit_offset = 7, rf_bit_width = 2, rf_name = ''high''\<rparr>"]
  by (simp add: insert_field_def)


end
