(* ===== verification/Tvm_Apply.thy ===== *)
theory Tvm_Apply
  imports Tvm_Backend Register_Scan
begin

text \<open>
  The backend that applies recorded changes to the simulated system, from
  \<^verbatim>\<open>sim/debugger/tvm_apply_backend.hpp\<close> and \<^verbatim>\<open>tvm_apply_backend.cpp\<close>, and the interpreter
  that runs programs with it, from \<^verbatim>\<open>tvm_interpreter.hpp\<close> and \<^verbatim>\<open>tvm_interpreter.cpp\<close>.

  The buffers that programs are read from do not change while programs run.  An access that is refused
  sets the flag F; a structural problem stops the machine; an exception of any other class leaves the
  interpreter.
\<close>

section \<open>Accesses to the system\<close>

definition rw_cmp :: operation where
  "rw_cmp = mk_op BufferInternal Kind_data 0"

text \<open>Which exceptions \<^verbatim>\<open>try_access\<close> catches.\<close>

fun refusal :: "sim_error \<Rightarrow> bool" where
  "refusal (MemError _ _) \<longleftrightarrow> True"
| "refusal (RuntimeError _) \<longleftrightarrow> True"
| "refusal (RingOverflow _) \<longleftrightarrow> True"
| "refusal (LogicError _) \<longleftrightarrow> False"
| "refusal UndefinedBehaviour \<longleftrightarrow> False"

definition try_access :: "('s, sim_error, unit) sm \<Rightarrow> ('s, sim_error, bool) sm" where
  "try_access m = (\<lambda>s. case m s of
     (Inr _, s') \<Rightarrow> (Inr True, s')
   | (Inl e, s') \<Rightarrow> if refusal e then (Inr False, s') else (Inl e, s'))"

definition target_of :: "u8 \<Rightarrow> system \<Rightarrow> stop_cause + device" where
  "target_of i sys =
     (case find_by_id i sys of
        None \<Rightarrow> Inl Stop_TargetInvalid
      | Some dev \<Rightarrow> if is_target dev then Inr dev else Inl Stop_TargetNotMemory)"

definition at_target :: "u8 \<Rightarrow> (device \<times> trace_buffer, sim_error, 'a) sm \<Rightarrow> 'a sys_sm" where
  "at_target i m = (\<lambda>sys. case find_by_id i sys of
     None \<Rightarrow> (Inl UndefinedBehaviour, sys)
   | Some dev \<Rightarrow> on_device i dev m sys)"

type_synonym 'a work = "(backend \<times> system, sim_error, 'a) sm"

definition on_system :: "'a sys_sm \<Rightarrow> 'a work" where
  "on_system m = zoom snd (\<lambda>sys (b, _). (b, sys)) m"

text \<open>
  The scratch array grows to the widest access and is then reused; reading into its first \<open>n\<close> bytes.
\<close>

definition grow_tmp :: "nat \<Rightarrow> backend \<Rightarrow> backend" where
  "grow_tmp n b = b\<lparr>bk_tmp := bk_tmp b @ replicate (n - length (bk_tmp b)) 0\<rparr>"

definition read_tmp :: "u8 \<Rightarrow> u32 \<Rightarrow> nat \<Rightarrow> u8 list work" where
  "read_tmp i a n =
     andthen (modify (\<lambda>(b, sys). (grow_tmp n b, sys))) (\<lambda>_.
     andthen (gets (\<lambda>(b, sys). take n (bk_tmp b))) (\<lambda>tmp.
     andthen (on_system (at_target i (device_read a tmp rw_cmp))) (\<lambda>bs.
     andthen (modify (\<lambda>(b, sys). (b\<lparr>bk_tmp := patch (bk_tmp b) 0 bs\<rparr>, sys))) (\<lambda>_.
     ret bs))))"

definition store_tmp :: "u8 list \<Rightarrow> unit work" where
  "store_tmp bs = modify (\<lambda>(b, sys). (b\<lparr>bk_tmp := patch (bk_tmp b) 0 bs\<rparr>, sys))"

text \<open>The bytes that a change leaves, from those that were there.\<close>

definition changed_bytes :: "backend \<Rightarrow> delta \<Rightarrow> byte_order \<Rightarrow> u8 list \<Rightarrow> u8 list \<Rightarrow> u8 list" where
  "changed_bytes b kind order data prior =
     (case kind of
        Delta_Assign \<Rightarrow> data
      | Delta_Xor \<Rightarrow> inplace_xor prior data
      | Delta_Add \<Rightarrow> memcpy_endian_from prior order
                       ((memcpy_endian_to prior order :: u64) + directed_delta b (signed_le data)))"

definition delta_access :: "delta_mem \<Rightarrow> u8 list \<Rightarrow> unit work" where
  "delta_access op data =
     andthen
       (if dm_kind op = Delta_Assign then ret data
        else andthen (read_tmp (dm_target op) (dm_offset op) (unat (dm_size op))) (\<lambda>prior.
             andthen (gets (\<lambda>(b, sys). changed_bytes b (dm_kind op) (dm_order op) data prior)) (\<lambda>payload.
             andthen (store_tmp payload) (\<lambda>_. ret payload))))
       (\<lambda>payload. andthen (gets (\<lambda>(b, sys). effective_access b (dm_access op))) (\<lambda>p.
          on_system (at_target (dm_target op) (device_write (dm_offset op) payload p))))"

section \<open>Handlers\<close>

type_synonym apply_state = "backend \<times> tvm \<times> system option"
type_synonym handler = "(apply_state, sim_error, unit) sm"

definition stop_hard :: "stop_cause \<Rightarrow> handler" where
  "stop_hard c = modify (\<lambda>(b, st, s). (b, hard_stop c st, s))"

definition set_F :: "bool \<Rightarrow> tvm \<Rightarrow> tvm" where
  "set_F v st = st\<lparr>csrs := (csrs st)\<lparr>fl_F := v\<rparr>\<rparr>"

definition set_ZN :: "bool \<Rightarrow> bool \<Rightarrow> tvm \<Rightarrow> tvm" where
  "set_ZN z n st = st\<lparr>csrs := (csrs st)\<lparr>fl_Z := z, fl_N := n\<rparr>\<rparr>"

text \<open>Running an access under \<^verbatim>\<open>try_access\<close> and continuing with whether it succeeded.\<close>

definition attempt :: "unit work \<Rightarrow> (bool \<Rightarrow> tvm \<Rightarrow> tvm) \<Rightarrow> handler" where
  "attempt m k = (\<lambda>(b, st, s). case s of
     None \<Rightarrow> (Inl UndefinedBehaviour, (b, st, s))
   | Some sys \<Rightarrow> (case try_access m (b, sys) of
       (Inr ok, (b', sys')) \<Rightarrow> (Inr (), (b', k ok st, Some sys'))
     | (Inl e, (b', sys')) \<Rightarrow> (Inl e, (b', st, Some sys'))))"

definition on_deltamem :: "buffers \<Rightarrow> delta_mem \<Rightarrow> handler" where
  "on_deltamem bufs op = (\<lambda>(b, st, s).
     (if fl_TR (csrs st) then stop_hard Stop_WrongTR
      else case s of None \<Rightarrow> stop_hard Stop_MissingSystem
      | Some sys \<Rightarrow>
        if dm_kind op = Delta_Add \<and> dm_size op > 8 then stop_hard Stop_StepWidthIllegal
        else case target_of (dm_target op) sys of Inl c \<Rightarrow> stop_hard c
        | Inr dev \<Rightarrow>
          (case span_of bufs (dm_data op) (dm_size op) of None \<Rightarrow> stop_hard Stop_InvalidDBuffer
           | Some data \<Rightarrow> attempt (delta_access op data) (\<lambda>ok. set_F (\<not> ok)))) (b, st, s))"

text \<open>\<^verbatim>\<open>std::memcmp\<close>, as the sign of the first difference of unsigned bytes.\<close>

fun memcmp :: "u8 list \<Rightarrow> u8 list \<Rightarrow> int" where
  "memcmp (a # as) (b # bs) = (if a < b then - 1 else if a > b then 1 else memcmp as bs)"
| "memcmp _ _ = 0"

definition compare_flags :: "int \<Rightarrow> tvm \<Rightarrow> tvm" where
  "compare_flags cmp = (if cmp = 0 then set_ZN True False else if cmp < 0 then set_ZN False True else set_ZN False False)"

definition on_cmpmem :: "buffers \<Rightarrow> cmp_mem \<Rightarrow> handler" where
  "on_cmpmem bufs op = (\<lambda>(b, st, s).
     (if fl_TR (csrs st) then stop_hard Stop_WrongTR
      else case s of None \<Rightarrow> stop_hard Stop_MissingSystem
      | Some sys \<Rightarrow>
        case target_of (cm_target op) sys of Inl c \<Rightarrow> stop_hard c
        | Inr dev \<Rightarrow>
          (case span_of bufs (cm_data op) (cm_size op) of
             None \<Rightarrow> modify (\<lambda>(b, st, s). (grow_tmp (unat (cm_size op)) b, hard_stop Stop_InvalidDBuffer st, s))
           | Some expected \<Rightarrow> (\<lambda>(b, st, s).
               (case read_tmp (cm_target op) (cm_offset op) (unat (cm_size op)) (b, sys) of
                  (Inr actual, (b', sys')) \<Rightarrow>
                    (Inr (), (b', compare_flags (memcmp actual expected) (set_F False st), Some sys'))
                | (Inl e, (b', sys')) \<Rightarrow>
                    (if refusal e then Inr () else Inl e, (b', if refusal e then set_F True st else st, Some sys')))))) (b, st, s))"

definition on_clrmem :: "u8 \<Rightarrow> u8 \<Rightarrow> handler" where
  "on_clrmem i fill = (\<lambda>(b, st, s).
     (if fl_TR (csrs st) then stop_hard Stop_WrongTR
      else case s of None \<Rightarrow> stop_hard Stop_MissingSystem
      | Some sys \<Rightarrow>
        case target_of i sys of Inl c \<Rightarrow> stop_hard c
        | Inr dev \<Rightarrow>
          attempt (on_system (at_target i (\<lambda>(d, tb). (Inr (), (device_clear fill d, tb))))) (\<lambda>ok. set_F (\<not> ok))) (b, st, s))"

text \<open>The value that a change leaves in a register, from the value it held.\<close>

definition changed_value :: "backend \<Rightarrow> delta \<Rightarrow> u8 list \<Rightarrow> u64 \<Rightarrow> u64" where
  "changed_value b kind data prior =
     (let payload = (memcpy_endian_to data LittleEndian :: u64)
      in case kind of
           Delta_Assign \<Rightarrow> payload
         | Delta_Xor \<Rightarrow> payload XOR prior
         | Delta_Add \<Rightarrow> prior + directed_delta b (signed_le data))"

definition delta_register :: "delta_reg \<Rightarrow> u8 list \<Rightarrow> unit work" where
  "delta_register op data =
     andthen
       (if dr_kind op = Delta_Assign then gets (\<lambda>(b, sys). changed_value b Delta_Assign data 0)
        else andthen (on_system (scan_read_int (dr_reg op) Host)) (\<lambda>prior.
             gets (\<lambda>(b, sys). changed_value b (dr_kind op) data prior)))
       (\<lambda>v. on_system (scan_write_int (dr_reg op) v Host))"

definition on_deltareg :: "buffers \<Rightarrow> delta_reg \<Rightarrow> handler" where
  "on_deltareg bufs op = (\<lambda>(b, st, s).
     (if \<not> fl_TR (csrs st) then stop_hard Stop_WrongTR
      else case s of None \<Rightarrow> stop_hard Stop_MissingSystem
      | Some sys \<Rightarrow>
        case fst (resolve (dr_reg op) (sys_scan sys)) of None \<Rightarrow> stop_hard Stop_RegisterInvalid
        | Some reg \<Rightarrow>
          (case span_of bufs (dr_data op) (dr_size op) of None \<Rightarrow> stop_hard Stop_InvalidDBuffer
           | Some data \<Rightarrow>
               if sr_byte_width reg = 0 \<or> sr_byte_width reg > 8 then stop_hard Stop_RegisterWidthIllegal
               else if dr_kind op \<noteq> Delta_Add \<and> unat (sr_byte_width reg) \<noteq> unat (dr_size op)
               then stop_hard Stop_RegisterSizeMismatch
               else if dr_kind op = Delta_Add \<and> dr_size op > 8 then stop_hard Stop_StepWidthIllegal
               else attempt (delta_register op data) (\<lambda>ok. set_F (\<not> ok)))) (b, st, s))"

text \<open>
  The expected value of a register comparison is read in words of 16 bits, also for a register of one
  byte; the reads can stop the machine.
\<close>

definition expected_value :: "buffers \<Rightarrow> segment_pair \<Rightarrow> u8 \<Rightarrow> tvm \<Rightarrow> (u64 \<times> tvm) option" where
  "expected_value bufs data width st =
     (if width = 1 then (case read16 bufs (s_hi data) (s_lo data) st of (w, st') \<Rightarrow> Some (ucast (w AND 0xFF), st'))
      else if width = 2 then (case read16 bufs (s_hi data) (s_lo data) st of (w, st') \<Rightarrow> Some (ucast w, st'))
      else if width = 4 then
        (case read16 bufs (s_hi data) (s_lo data + 2) st of (h, st1) \<Rightarrow>
          case read16 bufs (s_hi data) (s_lo data) st1 of (l, st2) \<Rightarrow>
            Some (ucast (push_bit 16 (ucast h) OR ucast l :: u32), st2))
      else None)"

definition actual_value :: "register_ref \<Rightarrow> u8 \<Rightarrow> u64 sys_sm" where
  "actual_value r width =
     (if width = 1 then andthen (scan_read_int r Host) (\<lambda>v. ret (ucast (v :: u8)))
      else if width = 2 then andthen (scan_read_int r Host) (\<lambda>v. ret (ucast (v :: u16)))
      else andthen (scan_read_int r Host) (\<lambda>v. ret (ucast (v :: u32))))"

definition field_mask :: "reg_field option \<Rightarrow> u64" where
  "field_mask f =
     (case f of None \<Rightarrow> - 1
      | Some f \<Rightarrow> if unat (rf_bit_width f) \<ge> 64 then - 1 else push_bit (unat (rf_bit_width f)) 1 - 1)"

definition on_cmpreg :: "buffers \<Rightarrow> cmp_reg \<Rightarrow> handler" where
  "on_cmpreg bufs op = (\<lambda>(b, st, s).
     (if \<not> fl_TR (csrs st) then stop_hard Stop_WrongTR
      else case s of None \<Rightarrow> stop_hard Stop_MissingSystem
      | Some sys \<Rightarrow>
        case resolve (cr_reg op) (sys_scan sys) of (None, _) \<Rightarrow> stop_hard Stop_RegisterInvalid
        | (Some reg, field) \<Rightarrow>
          (case span_of bufs (cr_data op) (cr_size op) of None \<Rightarrow> stop_hard Stop_InvalidDBuffer
           | Some _ \<Rightarrow>
               if unat (sr_byte_width reg) \<noteq> unat (cr_size op) then stop_hard Stop_RegisterSizeMismatch
               else case expected_value bufs (cr_data op) (sr_byte_width reg) st of
                 None \<Rightarrow> stop_hard Stop_RegisterWidthIllegal
               | Some (expected0, st1) \<Rightarrow> (\<lambda>(b, st, s).
                   (case actual_value (cr_reg op) (sr_byte_width reg) sys of
                      (Inr actual, sys') \<Rightarrow>
                        (let expected = expected0 AND field_mask field
                         in (Inr (), (b, compare_flags (if actual = expected then 0 else if actual < expected then - 1 else 1)
                                           (set_F False st1), Some sys')))
                    | (Inl e, sys') \<Rightarrow>
                        (if refusal e then Inr () else Inl e, (b, if refusal e then set_F True st1 else st1, Some sys')))))) (b, st, s))"

definition on_clrreg :: "register_ref \<Rightarrow> handler" where
  "on_clrreg r = (\<lambda>(b, st, s).
     (if \<not> fl_TR (csrs st) then stop_hard Stop_WrongTR
      else case s of None \<Rightarrow> stop_hard Stop_MissingSystem
      | Some sys \<Rightarrow>
        if fst (resolve r (sys_scan sys)) = None then stop_hard Stop_RegisterInvalid
        else attempt (on_system (scan_clear r)) (\<lambda>ok. set_F (\<not> ok))) (b, st, s))"

definition on_traddr :: handler where
  "on_traddr = stop_hard Stop_Unimplemented"

text \<open>What an MMIO packet does to the queues of a FIFO register.\<close>

definition mmio_change :: "backend \<Rightarrow> bool \<Rightarrow> u8 \<Rightarrow> fifo_register \<Rightarrow> fifo_register" where
  "mmio_change b wr data r =
     (if is_forward b
      then if wr then r\<lparr>fr_output := fifo_push data (fr_output r)\<rparr> else advance_input data r
      else if wr then r\<lparr>fr_output := snd (fifo_pop_back (fr_output r))\<rparr> else snd (rewind_input r))"

definition on_mmio :: "mmio \<Rightarrow> handler" where
  "on_mmio op = (\<lambda>(b, st, s).
     (if fl_TR (csrs st) then stop_hard Stop_WrongTR
      else case s of None \<Rightarrow> stop_hard Stop_MissingSystem
      | Some sys \<Rightarrow>
        case target_of (mm_target op) sys of Inl c \<Rightarrow> stop_hard c
        | Inr dev \<Rightarrow>
          (case dev of
             Dev_Fifo r \<Rightarrow> modify (\<lambda>(b, st, s). (b, st, Some
               (sys\<lparr>sys_devices := (sys_devices sys)(mm_target op \<mapsto> Dev_Fifo (mmio_change b (mm_write op) (mm_data op) r))\<rparr>)))
           | _ \<Rightarrow> stop_hard Stop_TargetNotFIFO)) (b, st, s))"

definition on_control :: "control \<Rightarrow> handler" where
  "on_control f = modify (\<lambda>(b, st, s). case f (b, st) of (b', st') \<Rightarrow> (b', st', s))"

definition dispatch :: "buffers \<Rightarrow> decoded_op \<Rightarrow> handler" where
  "dispatch bufs d =
     (case d of
        D_Halt cause \<Rightarrow> on_control (on_halt cause)
      | D_Ret \<Rightarrow> on_control on_ret
      | D_Call ip \<Rightarrow> on_control (on_call ip)
      | D_InvCall fw bw \<Rightarrow> on_control (on_invcall fw bw)
      | D_InvRet \<Rightarrow> on_control on_invret
      | D_ASyn _ \<Rightarrow> ret ()
      | D_ISyn _ \<Rightarrow> ret ()
      | D_LMR m data \<Rightarrow> on_control (on_lmr m data)
      | D_BR c disp \<Rightarrow> on_control (on_br c disp)
      | D_DeltaMem op \<Rightarrow> on_deltamem bufs op
      | D_CmpMem op \<Rightarrow> on_cmpmem bufs op
      | D_ClrMem i fill \<Rightarrow> on_clrmem i fill
      | D_DeltaReg op \<Rightarrow> on_deltareg bufs op
      | D_CmpReg op \<Rightarrow> on_cmpreg bufs op
      | D_ClrReg r \<Rightarrow> on_clrreg r
      | D_TRADDR _ \<Rightarrow> on_traddr
      | D_LDP \<Rightarrow> ret ()
      | D_DPIncr i ds \<Rightarrow> on_control (on_dpincr i ds)
      | D_MMIO op \<Rightarrow> on_mmio op)"

section \<open>The interpreter\<close>

record interp =
  it_state :: tvm
  it_decoded :: decoded_op
  it_backend :: backend
  it_system :: "system option"

definition fresh_interp :: "backend \<Rightarrow> system option \<Rightarrow> interp" where
  "fresh_interp b s = \<lparr>it_state = fresh_tvm, it_decoded = D_Halt Stop_None, it_backend = b, it_system = s\<rparr>"

definition step :: "buffers \<Rightarrow> (interp, sim_error, unit) sm" where
  "step bufs = (\<lambda>i.
     (case decode bufs (it_decoded i) (it_state i) of (d, st) \<Rightarrow>
        let i1 = i\<lparr>it_state := st, it_decoded := d\<rparr>
        in if \<not> fl_L (csrs st) then (Inr (), i1)
           else case dispatch bufs d (it_backend i1, st, it_system i1) of
             (r, (b, st', s)) \<Rightarrow> (r, i1\<lparr>it_backend := b, it_state := st', it_system := s\<rparr>)))"

text \<open>The loop of \<^verbatim>\<open>run\<close>; a program that never stops has no result.\<close>

partial_function (option) run_loop :: "buffers \<Rightarrow> interp \<Rightarrow> ((sim_error + unit) \<times> interp) option" where
  "run_loop bufs i =
     (if \<not> fl_L (csrs (it_state i)) then Some (Inr (), i)
      else case step bufs i of
             (Inl e, i') \<Rightarrow> Some (Inl e, i')
           | (Inr _, i') \<Rightarrow> run_loop bufs i')"

definition run_location :: "buffers \<Rightarrow> location \<Rightarrow> retention \<Rightarrow> interp \<Rightarrow> ((sim_error + unit) \<times> interp) option" where
  "run_location bufs loc retain i =
     run_loop bufs (i\<lparr>it_state := update_ip loc (restart retain (it_state i))\<rparr>)"

definition start_program :: "program_location \<Rightarrow> retention \<Rightarrow> tvm \<Rightarrow> tvm" where
  "start_program loc retain st =
     (let st1 = restart retain st;
          st2 = (if loc_id (pl_data loc) \<noteq> 0 then update_dp (pl_data loc) st1 else st1)
      in update_ip (pl_code loc) st2)"

definition run_program :: "buffers \<Rightarrow> program_location \<Rightarrow> retention \<Rightarrow> interp \<Rightarrow> ((sim_error + unit) \<times> interp) option" where
  "run_program bufs loc retain i = run_loop bufs (i\<lparr>it_state := start_program loc retain (it_state i)\<rparr>)"

text \<open>
  \<^verbatim>\<open>run_each\<close>: the programs in turn, up to one that stops hard; the number of programs that were run.
\<close>

fun run_each :: "buffers \<Rightarrow> program_location list \<Rightarrow> retention \<Rightarrow> interp \<Rightarrow> ((sim_error + nat) \<times> interp) option" where
  "run_each bufs [] retain i = Some (Inr 0, i)"
| "run_each bufs (loc # locs) retain i =
     (case run_program bufs loc retain i of
        None \<Rightarrow> None
      | Some (Inl e, i') \<Rightarrow> Some (Inl e, i')
      | Some (Inr _, i') \<Rightarrow>
          if fl_F (csrs (it_state i')) then Some (Inr 1, i')
          else (case run_each bufs locs retain i' of
                  None \<Rightarrow> None
                | Some (Inl e, i'') \<Rightarrow> Some (Inl e, i'')
                | Some (Inr n, i'') \<Rightarrow> Some (Inr (n + 1), i'')))"

end
