(* ===== verification/Tvm_Safety.thy ===== *)
theory Tvm_Safety
  imports Tvm_Apply
begin

text \<open>
  What holds of every program the trace virtual machine is given, whatever its bytes: the call stack
  stays in its array, and invertible calls never turn the direction of a replay.
\<close>

section \<open>Decoding leaves the calls alone\<close>

definition calls :: "tvm \<Rightarrow> u8 list \<times> u16" where
  "calls st = (stack st, rg_SP (regs st))"

lemma stack_ok_calls: "calls st' = calls st \<Longrightarrow> stack_ok st' = stack_ok st"
  by (simp add: calls_def stack_ok_def)

lemma calls_put [simp]:
  "calls (put_ACCESS w st) = calls st" "calls (put_ID_hi w st) = calls st" "calls (put_ID_lo w st) = calls st"
  "calls (put_OFF_hi w st) = calls st" "calls (put_OFF_lo w st) = calls st" "calls (put_DP_hi w st) = calls st"
  "calls (put_DP_lo w st) = calls st" "calls (put_DS w st) = calls st" "calls (put_MOD1_hi w st) = calls st"
  "calls (put_MOD1_lo w st) = calls st" "calls (put_MOD2_hi w st) = calls st" "calls (put_MOD2_lo w st) = calls st"
  "calls (put_MOD1 p st) = calls st" "calls (put_MOD2 p st) = calls st" "calls (set_M1 st) = calls st"
  "calls (set_M2 st) = calls st" "calls (set_TR b st) = calls st" "calls (put_immediate a w st) = calls st"
  "calls (hard_stop c st) = calls st" "calls (soft_stop c st) = calls st" "calls (put_offset span lo st) = calls st"
  by (simp_all add: calls_def put_offset_def)

lemma calls_read16 [simp]: "calls (snd (read16 bufs i offset st)) = calls st"
  by (auto simp: read16_def split: option.splits)

lemma calls_if_words [simp]: "(\<And>s. calls (f s) = calls s) \<Longrightarrow> calls (if_words k f st) = calls st"
  by (simp add: if_words_def)

lemma calls_load_word [simp]: "(\<And>w s. calls (put w s) = calls s) \<Longrightarrow> calls (load_word bufs i offset put st) = calls st"
  by (simp add: load_word_def case_prod_beta)

lemma calls_case_read16 [simp]:
  "(\<And>w s. calls (snd (f w s)) = calls s) \<Longrightarrow>
   calls (snd (case read16 bufs i offset st of (w, s) \<Rightarrow> f w s)) = calls st"
  by (simp add: case_prod_beta)

lemma calls_syn_data [simp]: "calls (snd (decode_syn_data bufs ibp iop st)) = calls st"
  by (simp add: decode_syn_data_def Let_def split: option.split)

lemma calls_decode_with [simp]: "calls (snd (decode_with c bufs ibp iop prev st)) = calls st"
proof (cases c)
  case OP_INVCALL
  then show ?thesis by (simp add: decode_with_def decode_invcall_def Let_def case_prod_beta)
qed (simp_all add: decode_with_def decode_halt_def decode_call_def decode_asyn_def decode_isyn_def
    decode_lmr_def decode_br_def decode_setmem_def decode_setmemdx_def decode_stepmem_def decode_cmpmem_def
    decode_clrmem_def decode_traddr_def decode_mmio_def decode_deltareg_def decode_cmpreg_def decode_clrreg_def
    decode_ldp_def decode_accdp_def decode_incdp_def Let_def case_prod_beta split: option.split)

lemma calls_fetch [simp]: "calls (snd (fetch bufs st)) = calls st"
proof -
  have "calls (clear_mods st) = calls st" by (simp add: clear_mods_def calls_def)
  then show ?thesis
    using calls_read16[of bufs "s_hi (rg_IP (regs (clear_mods st)))" "s_lo (rg_IP (regs (clear_mods st)))" "clear_mods st"]
    by (simp add: fetch_def Let_def case_prod_beta calls_def)
qed

lemma calls_decode [simp]: "calls (snd (decode bufs prev st)) = calls st"
  unfolding decode_def by (simp add: case_prod_beta split: option.split)

section \<open>Execution\<close>

definition interp_ok :: "interp \<Rightarrow> bool" where
  "interp_ok i \<longleftrightarrow> stack_ok (it_state i) \<and> bk_floor (it_backend i) \<le> bk_depth (it_backend i)"

text \<open>What handlers keep: stack and nesting in order, and the direction of the replay.\<close>

definition handler_ok :: "int \<Rightarrow> apply_state \<Rightarrow> bool" where
  "handler_ok fl = (\<lambda>(b, st, s). stack_ok st \<and> bk_floor b = fl \<and> fl \<le> bk_depth b)"

lemma keeps_stop_hard [keeps_intros]: "keeps (handler_ok fl) (stop_hard c)"
  by (auto simp: keeps_def final_def stop_hard_def handler_ok_def)

lemma stack_ok_pop_ip [simp]: "stack_ok st \<Longrightarrow> stack_ok (pop_ip st)"
  using stack_ok_pop[of st] by (simp add: pop_ip_def case_prod_beta stack_ok_def)

lemma stack_ok_push_ip [simp]: "stack_ok st \<Longrightarrow> stack_ok (push_ip t st)"
  using stack_ok_push[of st "rg_IP (regs st)"] by (simp add: push_ip_def Let_def stack_ok_def)

lemma calls_lmr_assign [simp]: "calls (lmr_assign m w st) = calls st"
  by (cases m) (simp_all add: lmr_assign_def, simp_all add: calls_def)

lemma calls_lmr_loop [simp]: "calls (lmr_loop m pos data st) = calls st"
  by (induction m pos data st rule: lmr_loop.induct) (subst lmr_loop.simps, auto simp: Let_def split: option.splits)

lemma keeps_control:
  assumes "\<And>b st. stack_ok st \<Longrightarrow> bk_floor b = fl \<Longrightarrow> fl \<le> bk_depth b \<Longrightarrow>
    stack_ok (snd (f (b, st))) \<and> bk_floor (fst (f (b, st))) = fl \<and> fl \<le> bk_depth (fst (f (b, st)))"
  shows "keeps (handler_ok fl) (on_control f)"
  using assms by (auto simp: keeps_def final_def on_control_def handler_ok_def case_prod_beta)

lemma keeps_halt [keeps_intros]: "keeps (handler_ok fl) (on_control (on_halt c))"
  by (rule keeps_control) (auto simp: on_halt_def handler_ok_def)

lemma keeps_on_ret [keeps_intros]: "keeps (handler_ok fl) (on_control on_ret)"
  by (rule keeps_control) (auto simp: on_ret_def handler_ok_def)

lemma keeps_call [keeps_intros]: "keeps (handler_ok fl) (on_control (on_call t))"
  by (rule keeps_control) (auto simp: on_call_def handler_ok_def)

lemma keeps_invcall [keeps_intros]: "keeps (handler_ok fl) (on_control (on_invcall f g))"
  by (rule keeps_control) (auto simp: on_invcall_def handler_ok_def)

lemma keeps_invret [keeps_intros]: "keeps (handler_ok fl) (on_control on_invret)"
  by (rule keeps_control) (auto simp: on_invret_def handler_ok_def)

lemma keeps_lmr [keeps_intros]: "keeps (handler_ok fl) (on_control (on_lmr m data))"
  by (rule keeps_control) (auto simp: on_lmr_def handler_ok_def stack_ok_calls[OF calls_lmr_loop])

lemma keeps_br [keeps_intros]: "keeps (handler_ok fl) (on_control (on_br c d))"
  by (rule keeps_control) (auto simp: on_br_def handler_ok_def stack_ok_def)

lemma keeps_dpincr [keeps_intros]: "keeps (handler_ok fl) (on_control (on_dpincr i ds))"
  by (rule keeps_control)
    (auto simp: on_dpincr_def handler_ok_def Let_def stack_ok_def split: option.splits prod.splits)

lemma nesting_on_system: "bk_depth (fst (final (on_system m) w)) = bk_depth (fst w)"
    "bk_floor (fst (final (on_system m) w)) = bk_floor (fst w)"
  by (simp_all add: on_system_def zoom_def final_def split: prod.split)

definition nesting :: "int \<Rightarrow> int \<Rightarrow> backend \<times> system \<Rightarrow> bool" where
  "nesting d fl w \<longleftrightarrow> bk_depth (fst w) = d \<and> bk_floor (fst w) = fl"

lemma keeps_on_system [keeps_intros]: "keeps (nesting d fl) (on_system m)"
  by (simp add: keeps_def nesting_def nesting_on_system)

lemma keeps_tmp [keeps_intros]: "keeps (nesting d fl) (store_tmp bs)" "keeps (nesting d fl) (read_tmp i a n)"
  unfolding store_tmp_def read_tmp_def grow_tmp_def
  by (intro keeps_intros keeps_modify; auto simp: nesting_def)+

lemma keeps_delta_access [keeps_intros]: "keeps (nesting d fl) (delta_access op data)"
  unfolding delta_access_def by (intro keeps_intros)

lemma keeps_delta_register [keeps_intros]: "keeps (nesting d fl) (delta_register op data)"
  unfolding delta_register_def by (intro keeps_intros)

lemma keeps_attempt [keeps_intros]:
  assumes "\<And>d. keeps (nesting d fl) m" and "\<And>ok st. stack_ok (k ok st) = stack_ok st"
  shows "keeps (handler_ok fl) (attempt m k)"
  unfolding keeps_def
proof (intro allI impI)
  fix x :: apply_state assume ok: "handler_ok fl x"
  obtain b st s where x: "x = (b, st, s)" by (cases x)
  show "handler_ok fl (final (attempt m k) x)"
  proof (cases s)
    case None
    then show ?thesis using ok by (simp add: x final_def attempt_def)
  next
    case (Some sys)
    obtain r b' sys' where m: "m (b, sys) = (r, b', sys')" by (cases "m (b, sys)")
    have "nesting (bk_depth b) fl (b', sys')"
      using keepsD[OF assms(1)[of "bk_depth b"], of "(b, sys)"] ok m by (simp add: nesting_def final_def handler_ok_def x)
    then show ?thesis
      using ok m assms(2) by (cases r) (auto simp: x Some final_def attempt_def try_access_def handler_ok_def nesting_def)
  qed
qed

lemma stack_ok_flags [simp]: "stack_ok (set_F v st) = stack_ok st" "stack_ok (compare_flags c st) = stack_ok st"
  by (simp_all add: set_F_def compare_flags_def set_ZN_def stack_ok_def)

lemma calls_expected: "expected_value bufs d w st = Some (v, st') \<Longrightarrow> calls st' = calls st"
  using calls_read16[of bufs "s_hi d" "s_lo d" st] calls_read16[of bufs "s_hi d" "s_lo d + 2" st]
    calls_read16[of bufs "s_hi d" "s_lo d" "snd (read16 bufs (s_hi d) (s_lo d + 2) st)"]
  by (auto simp: expected_value_def case_prod_beta split: if_splits)

text \<open>Each handler keeps it; a handler that chooses by its state is judged by what it chooses.\<close>

lemma keeps_by_state:
  "(\<And>s. P s \<Longrightarrow> keeps P (f s)) \<Longrightarrow> keeps P (\<lambda>s. f s s)"
  by (simp add: keeps_def final_def)

lemma keeps_chosen:
  "(\<And>b st s. keeps P (f b st s)) \<Longrightarrow> keeps P (\<lambda>(b, st, s). f b st s (b, st, s))"
  by (auto simp: keeps_def final_def)

lemma keeps_opt [keeps_intros]:
  "keeps P m \<Longrightarrow> (\<And>x. keeps P (f x)) \<Longrightarrow> keeps P (case z of None \<Rightarrow> m | Some x \<Rightarrow> f x)"
  by (cases z) auto

lemma keeps_sum [keeps_intros]:
  "(\<And>x. keeps P (f x)) \<Longrightarrow> (\<And>x. keeps P (g x)) \<Longrightarrow> keeps P (case z of Inl x \<Rightarrow> f x | Inr x \<Rightarrow> g x)"
  by (cases z) auto

lemma keeps_pair [keeps_intros]: "(\<And>x y. keeps P (f x y)) \<Longrightarrow> keeps P (case z of (x, y) \<Rightarrow> f x y)"
  by (cases z) auto

lemma keeps_on_deltamem [keeps_intros]: "keeps (handler_ok fl) (on_deltamem bufs op)"
  unfolding on_deltamem_def by (intro keeps_chosen keeps_intros) simp

lemma keeps_on_clrmem [keeps_intros]: "keeps (handler_ok fl) (on_clrmem i fill)"
  unfolding on_clrmem_def by (intro keeps_chosen keeps_intros) simp

lemma keeps_on_deltareg [keeps_intros]: "keeps (handler_ok fl) (on_deltareg bufs op)"
  unfolding on_deltareg_def by (intro keeps_chosen keeps_intros) simp

lemma keeps_on_clrreg [keeps_intros]: "keeps (handler_ok fl) (on_clrreg r)"
  unfolding on_clrreg_def by (intro keeps_chosen keeps_intros) simp

lemma keeps_on_traddr [keeps_intros]: "keeps (handler_ok fl) on_traddr"
  unfolding on_traddr_def by (intro keeps_intros)

lemma keeps_on_mmio [keeps_intros]: "keeps (handler_ok fl) (on_mmio op)"
  by (auto simp: keeps_def final_def on_mmio_def handler_ok_def stop_hard_def
      split: option.splits sum.splits device.splits)

lemma keeps_on_cmpmem [keeps_intros]: "keeps (handler_ok fl) (on_cmpmem bufs op)"
  unfolding keeps_def
proof (intro allI impI)
  fix x :: apply_state assume ok: "handler_ok fl x"
  obtain b st s where x: "x = (b, st, s)" by (cases x)
  note r = keepsD[OF keeps_tmp(2)[of "bk_depth b" fl "cm_target op" "cm_offset op" "unat (cm_size op)"]]
  show "handler_ok fl (final (on_cmpmem bufs op) x)"
    using ok r[of "(b, the s)"]
    by (auto simp: x final_def on_cmpmem_def handler_ok_def stop_hard_def grow_tmp_def nesting_def
        split: option.splits sum.splits prod.splits)
qed

lemma keeps_on_cmpreg [keeps_intros]: "keeps (handler_ok fl) (on_cmpreg bufs op)"
  unfolding keeps_def
proof (intro allI impI)
  fix x :: apply_state assume ok: "handler_ok fl x"
  obtain b st s where x: "x = (b, st, s)" by (cases x)
  have e: "stack_ok st'" if "expected_value bufs d w st = Some (v, st')" for d w v st'
    using stack_ok_calls[OF calls_expected[OF that]] ok by (simp add: handler_ok_def x)
  show "handler_ok fl (final (on_cmpreg bufs op) x)"
    using ok e
    by (auto simp: x final_def on_cmpreg_def handler_ok_def stop_hard_def Let_def
        split: option.splits sum.splits prod.splits)
qed

lemma keeps_dispatch [keeps_intros]: "keeps (handler_ok fl) (dispatch bufs d)"
  unfolding dispatch_def by (cases d) (simp_all, (intro keeps_intros)+)

lemma step_ok:
  assumes "interp_ok i" and "step bufs i = (r, i')"
  shows "interp_ok i' \<and> bk_floor (it_backend i') = bk_floor (it_backend i)"
proof -
  obtain d st where dec: "decode bufs (it_decoded i) (it_state i) = (d, st)" by (cases "decode bufs (it_decoded i) (it_state i)")
  have ok: "stack_ok st" using assms(1) stack_ok_calls[OF calls_decode, of bufs "it_decoded i" "it_state i"]
    by (simp add: dec interp_ok_def)
  show ?thesis
  proof (cases "fl_L (csrs st)")
    case False
    then show ?thesis using assms ok by (auto simp: step_def dec interp_ok_def)
  next
    case True
    obtain q b st' s where h: "dispatch bufs d (it_backend i, st, it_system i) = (q, b, st', s)"
      by (cases "dispatch bufs d (it_backend i, st, it_system i)")
    have "handler_ok (bk_floor (it_backend i)) (b, st', s)"
      using keepsD[OF keeps_dispatch[of "bk_floor (it_backend i)" bufs d], of "(it_backend i, st, it_system i)"] assms(1) ok h
      by (simp add: handler_ok_def interp_ok_def final_def)
    then show ?thesis using assms True h by (auto simp: step_def dec interp_ok_def handler_ok_def)
  qed
qed

definition ends_ok :: "interp \<Rightarrow> (sim_error + unit) \<times> interp \<Rightarrow> bool" where
  "ends_ok i y \<longleftrightarrow>
     (interp_ok i \<longrightarrow> interp_ok (snd y) \<and> bk_floor (it_backend (snd y)) = bk_floor (it_backend i))
     \<and> (fst y = Inr () \<longrightarrow> \<not> fl_L (csrs (it_state (snd y))))"

lemma run_loop_ends_ok:
  assumes "run_loop bufs i = Some y"
  shows "ends_ok i y"
proof (rule run_loop.raw_induct[where P = "\<lambda>bufs i y. ends_ok i y", OF _ assms])
  fix loop :: "buffers \<Rightarrow> interp \<Rightarrow> ((sim_error + unit) \<times> interp) option" and bufs i y
  assume IH: "\<And>bufs i y. loop bufs i = Some y \<Longrightarrow> ends_ok i y"
    and body: "(if \<not> fl_L (csrs (it_state i)) then Some (Inr (), i)
      else case step bufs i of (Inl e, i') \<Rightarrow> Some (Inl e, i') | (Inr _, i') \<Rightarrow> loop bufs i') = Some y"
  show "ends_ok i y"
  proof (cases "fl_L (csrs (it_state i))")
    case False
    then show ?thesis using body by (auto simp: ends_ok_def)
  next
    case True
    obtain r i1 where s: "step bufs i = (r, i1)" by (cases "step bufs i")
    show ?thesis
    proof (cases r)
      case (Inl e)
      then show ?thesis using body True s step_ok[OF _ s] by (auto simp: ends_ok_def)
    next
      case (Inr u)
      then have "loop bufs i1 = Some y" using body True s by simp
      from IH[OF this] show ?thesis using step_ok[OF _ s] by (auto simp: ends_ok_def)
    qed
  qed
qed

lemma run_loop_ok:
  assumes "run_loop bufs i = Some y" and "interp_ok i"
  shows "interp_ok (snd y) \<and> bk_floor (it_backend (snd y)) = bk_floor (it_backend i)
         \<and> (fst y = Inr () \<longrightarrow> \<not> fl_L (csrs (it_state (snd y))))"
  using run_loop_ends_ok[OF assms(1)] assms(2) by (simp add: ends_ok_def)

lemma start_program_ok: "stack_ok st \<Longrightarrow> stack_ok (start_program loc retain st)"
  by (simp add: start_program_def Let_def)

lemma interp_ok_program: "interp_ok i \<Longrightarrow> interp_ok (i\<lparr>it_state := start_program loc retain (it_state i)\<rparr>)"
  by (simp add: interp_ok_def start_program_ok)

lemma run_each_ok:
  "run_each bufs locs retain i = Some y \<Longrightarrow> interp_ok i \<Longrightarrow>
   interp_ok (snd y) \<and> bk_floor (it_backend (snd y)) = bk_floor (it_backend i)"
proof (induction bufs locs retain i arbitrary: y rule: run_each.induct)
  case (2 bufs loc locs retain i)
  obtain r i1 where p: "run_program bufs loc retain i = Some (r, i1)" using "2.prems"(1)
    by (auto split: option.splits)
  have ok: "interp_ok i1 \<and> bk_floor (it_backend i1) = bk_floor (it_backend i)"
    using run_loop_ok[OF p[unfolded run_program_def] interp_ok_program[OF "2.prems"(2)]] by simp
  show ?case
  proof (cases r)
    case (Inl e)
    then show ?thesis using "2.prems" p ok by auto
  next
    case (Inr u)
    show ?thesis
    proof (cases "fl_F (csrs (it_state i1))")
      case True
      then show ?thesis using "2.prems" p ok Inr by auto
    next
      case False
      then show ?thesis using "2.prems" p ok Inr "2.IH"[OF p refl Inr False] by (fastforce split: option.splits sum.splits)
    qed
  qed
qed simp

lemma step_halt:
  assumes "code_here bufs (it_state i) e_halt0" and "fl_L (csrs (it_state i))"
    and "bk_depth (it_backend i) = bk_floor (it_backend i)"
  obtains i' where "step bufs i = (Inr (), i')" "\<not> fl_L (csrs (it_state i'))" "\<not> fl_F (csrs (it_state i'))"
    "it_backend i' = it_backend i" "it_system i' = it_system i"
proof -
  obtain st where "decode bufs (it_decoded i) (it_state i) = (D_Halt Stop_None, st)" "same_calls (it_state i) st"
    using decode_halt0[OF assms(1)] by blast
  then show ?thesis
    using assms(2,3) by (intro that[of "snd (step bufs i)"])
      (simp_all add: step_def Let_def dispatch_def on_control_def on_halt_def same_calls_def)
qed

lemma run_loop_halt:
  assumes "code_here bufs (it_state i) e_halt0" and "fl_L (csrs (it_state i))"
    and "bk_depth (it_backend i) = bk_floor (it_backend i)"
  obtains i' where "run_loop bufs i = Some (Inr (), i')" "\<not> fl_L (csrs (it_state i'))" "\<not> fl_F (csrs (it_state i'))"
    "it_backend i' = it_backend i" "it_system i' = it_system i"
proof -
  obtain i' where s: "step bufs i = (Inr (), i')" "\<not> fl_L (csrs (it_state i'))" "\<not> fl_F (csrs (it_state i'))"
    "it_backend i' = it_backend i" "it_system i' = it_system i"
    by (rule step_halt[OF assms])
  have "run_loop bufs i = run_loop bufs i'" using assms(2) s(1) by (subst run_loop.simps) simp
  also have "\<dots> = Some (Inr (), i')" using s(2) by (subst run_loop.simps) simp
  finally show ?thesis using s by (intro that)
qed


end
