(* ===== verification/Tvm_Memory.thy ===== *)
theory Tvm_Memory
  imports Tvm_Safety
begin

text \<open>
  Changes applied to the memories of a system.  The memory devices of a system keep the contract of a
  byte memory, reached through the system by their identifier; a recorded change applied forwards and
  then backwards leaves the bytes that were there.
\<close>

section \<open>Memory devices of a system\<close>

fun device_span :: "device \<times> trace_buffer \<Rightarrow> interval" where
  "device_span (Dev_Dense d, tb) = dense_span (d, tb)"
| "device_span (Dev_Sparse d, tb) = sparse_span (d, tb)"
| "device_span (Dev_Bank d, tb) = bank_span (d, tb)"
| "device_span (Dev_Csr d, tb) = csr_span (d, tb)"
| "device_span (Dev_Fifo d, tb) = fifo_span (d, tb)"
| "device_span (Dev_Other, tb) = empty_interval"

definition device_ops :: "(device \<times> trace_buffer) target_ops" where
  "device_ops = \<lparr>t_span = device_span, t_read = device_read, t_write = device_write\<rparr>"

fun memory_ok :: "device \<times> trace_buffer \<Rightarrow> bool" where
  "memory_ok (Dev_Dense d, tb) = dense_ok (d, tb)"
| "memory_ok (Dev_Sparse d, tb) = sparse_ok (d, tb)"
| "memory_ok _ = False"

fun memory_store :: "device \<times> trace_buffer \<Rightarrow> nat \<Rightarrow> u8" where
  "memory_store (Dev_Dense d, tb) = dense_store (d, tb)"
| "memory_store (Dev_Sparse d, tb) = sparse_store (d, tb)"
| "memory_store _ = (\<lambda>_. 0)"

lemma device_ops_select [simp]:
  "t_span device_ops = device_span" "t_read device_ops = device_read" "t_write device_ops = device_write"
  by (simp_all add: device_ops_def)

lemma memory_ok_cases:
  assumes "memory_ok x"
  obtains d tb where "x = (Dev_Dense d, tb)" "dense_ok (d, tb)"
    | d tb where "x = (Dev_Sparse d, tb)" "sparse_ok (d, tb)"
  using assms by (cases x rule: memory_ok.cases) auto

interpretation dv: byte_memory device_ops memory_ok memory_store
proof
  fix x :: "device \<times> trace_buffer" and a and dest :: "u8 list" and p
  assume ok: "memory_ok x" and w: "within (t_span device_ops x) a (length dest)"
  from ok show "\<exists>x'. t_read device_ops a dest p x = (Inr (get_bytes (memory_store x) (unat a) (length dest)), x')
      \<and> memory_ok x' \<and> memory_store x' = memory_store x \<and> t_span device_ops x' = t_span device_ops x"
  proof (cases rule: memory_ok_cases)
    case (1 d tb)
    obtain d' tb' where "dense_read a dest p (d, tb) = (Inr (get_bytes (dense_store (d, tb)) (unat a) (length dest)), d', tb')"
        "dense_ok (d', tb')" "dense_store (d', tb') = dense_store (d, tb)" "dense_span (d', tb') = dense_span (d, tb)"
      using dn.read_within[of "(d, tb)" a dest p] 1 w by (auto simp: dense_ops_def)
    then show ?thesis using 1 by (simp add: run_on_def)
  next
    case (2 d tb)
    obtain d' tb' where "sparse_read a dest p (d, tb) = (Inr (get_bytes (sparse_store (d, tb)) (unat a) (length dest)), d', tb')"
        "sparse_ok (d', tb')" "sparse_store (d', tb') = sparse_store (d, tb)" "sparse_span (d', tb') = sparse_span (d, tb)"
      using sp.read_within[of "(d, tb)" a dest p] 2 w by (auto simp: sparse_ops_def)
    then show ?thesis using 2 by (simp add: run_on_def)
  qed
next
  fix x :: "device \<times> trace_buffer" and a and src :: "u8 list" and p
  assume ok: "memory_ok x" and w: "within (t_span device_ops x) a (length src)"
  from ok show "\<exists>x'. t_write device_ops a src p x = (Inr (), x')
      \<and> memory_ok x' \<and> memory_store x' = put_bytes (memory_store x) (unat a) src \<and> t_span device_ops x' = t_span device_ops x"
  proof (cases rule: memory_ok_cases)
    case (1 d tb)
    obtain d' tb' where "dense_write a src p (d, tb) = (Inr (), d', tb')"
        "dense_ok (d', tb')" "dense_store (d', tb') = put_bytes (dense_store (d, tb)) (unat a) src"
        "dense_span (d', tb') = dense_span (d, tb)"
      using dn.write_within[of "(d, tb)" a src p] 1 w by (auto simp: dense_ops_def)
    then show ?thesis using 1 by (simp add: run_on_def)
  next
    case (2 d tb)
    obtain d' tb' where "sparse_write a src p (d, tb) = (Inr (), d', tb')"
        "sparse_ok (d', tb')" "sparse_store (d', tb') = put_bytes (sparse_store (d, tb)) (unat a) src"
        "sparse_span (d', tb') = sparse_span (d, tb)"
      using sp.write_within[of "(d, tb)" a src p] 2 w by (auto simp: sparse_ops_def)
    then show ?thesis using 2 by (simp add: run_on_def)
  qed
next
  fix x :: "device \<times> trace_buffer" and a and dest :: "u8 list" and p
  assume ok: "memory_ok x" and o: "out_of_bounds (t_span device_ops x) a (length dest)"
  from ok show "t_read device_ops a dest p x = (Inl (MemError OOBAccess a), x)"
    using dn.read_oob[of _ a dest p] sp.read_oob[of _ a dest p] o
    by (cases rule: memory_ok_cases) (auto simp: run_on_def dense_ops_def sparse_ops_def)
next
  fix x :: "device \<times> trace_buffer" and a and src :: "u8 list" and p
  assume ok: "memory_ok x" and o: "out_of_bounds (t_span device_ops x) a (length src)"
  from ok show "t_write device_ops a src p x = (Inl (MemError OOBAccess a), x)"
    using dn.write_oob[of _ a src p] sp.write_oob[of _ a src p] o
    by (cases rule: memory_ok_cases) (auto simp: run_on_def dense_ops_def sparse_ops_def)
qed

text \<open>The same, through the system.\<close>

definition system_ops :: "u8 \<Rightarrow> system target_ops" where
  "system_ops i =
     \<lparr>t_span = (\<lambda>sys. case find_by_id i sys of None \<Rightarrow> empty_interval | Some dev \<Rightarrow> device_span (dev, sys_tb sys)),
      t_read = (\<lambda>a dest p. at_target i (device_read a dest p)),
      t_write = (\<lambda>a src p. at_target i (device_write a src p))\<rparr>"

definition memory_at :: "u8 \<Rightarrow> system \<Rightarrow> bool" where
  "memory_at i sys \<longleftrightarrow> (case find_by_id i sys of None \<Rightarrow> False | Some dev \<Rightarrow> memory_ok (dev, sys_tb sys))"

definition bytes_at :: "u8 \<Rightarrow> system \<Rightarrow> nat \<Rightarrow> u8" where
  "bytes_at i sys = (case find_by_id i sys of None \<Rightarrow> (\<lambda>_. 0) | Some dev \<Rightarrow> memory_store (dev, sys_tb sys))"

lemma at_target_run:
  assumes "find_by_id i sys = Some dev" and "m (dev, sys_tb sys) = (r, dev', tb')"
  shows "at_target i m sys = (r, sys\<lparr>sys_devices := (sys_devices sys)(i \<mapsto> dev'), sys_tb := tb'\<rparr>)"
  using assms by (simp add: at_target_def on_device_def)

lemma find_updated [simp]:
  "find_by_id i (sys\<lparr>sys_devices := (sys_devices sys)(i \<mapsto> dev), sys_tb := tb\<rparr>) = Some dev"
  by (simp add: find_by_id_def)

interpretation sy: byte_memory "system_ops i" "memory_at i" "bytes_at i" for i
proof
  fix sys and a :: u32 and dest :: "u8 list" and p
  assume "memory_at i sys" and w: "within (t_span (system_ops i) sys) a (length dest)"
  then obtain dev where f: "find_by_id i sys = Some dev" "memory_ok (dev, sys_tb sys)"
    by (auto simp: memory_at_def split: option.splits)
  with w have "within (t_span device_ops (dev, sys_tb sys)) a (length dest)" by (simp add: system_ops_def)
  from dv.read_within[OF f(2) this, of p] obtain dev' tb' where
    "device_read a dest p (dev, sys_tb sys) = (Inr (get_bytes (memory_store (dev, sys_tb sys)) (unat a) (length dest)), dev', tb')"
    "memory_ok (dev', tb')" "memory_store (dev', tb') = memory_store (dev, sys_tb sys)"
    "device_span (dev', tb') = device_span (dev, sys_tb sys)" by auto
  then show "\<exists>sys'. t_read (system_ops i) a dest p sys = (Inr (get_bytes (bytes_at i sys) (unat a) (length dest)), sys')
      \<and> memory_at i sys' \<and> bytes_at i sys' = bytes_at i sys \<and> t_span (system_ops i) sys' = t_span (system_ops i) sys"
    by (simp add: system_ops_def at_target_run[OF f(1)] memory_at_def bytes_at_def f(1))
next
  fix sys and a :: u32 and src :: "u8 list" and p
  assume "memory_at i sys" and w: "within (t_span (system_ops i) sys) a (length src)"
  then obtain dev where f: "find_by_id i sys = Some dev" "memory_ok (dev, sys_tb sys)"
    by (auto simp: memory_at_def split: option.splits)
  with w have "within (t_span device_ops (dev, sys_tb sys)) a (length src)" by (simp add: system_ops_def)
  from dv.write_within[OF f(2) this, of p] obtain dev' tb' where
    "device_write a src p (dev, sys_tb sys) = (Inr (), dev', tb')"
    "memory_ok (dev', tb')" "memory_store (dev', tb') = put_bytes (memory_store (dev, sys_tb sys)) (unat a) src"
    "device_span (dev', tb') = device_span (dev, sys_tb sys)" by auto
  then show "\<exists>sys'. t_write (system_ops i) a src p sys = (Inr (), sys')
      \<and> memory_at i sys' \<and> bytes_at i sys' = put_bytes (bytes_at i sys) (unat a) src
      \<and> t_span (system_ops i) sys' = t_span (system_ops i) sys"
    by (simp add: system_ops_def at_target_run[OF f(1)] memory_at_def bytes_at_def f(1))
next
  fix sys and a :: u32 and dest :: "u8 list" and p
  assume "memory_at i sys" and w: "out_of_bounds (t_span (system_ops i) sys) a (length dest)"
  then obtain dev where f: "find_by_id i sys = Some dev" "memory_ok (dev, sys_tb sys)"
    by (auto simp: memory_at_def split: option.splits)
  with w have "out_of_bounds (t_span device_ops (dev, sys_tb sys)) a (length dest)" by (simp add: system_ops_def)
  from dv.read_oob[OF f(2) this, of p] show "t_read (system_ops i) a dest p sys = (Inl (MemError OOBAccess a), sys)"
    using f(1) by (simp add: system_ops_def at_target_run[OF f(1)] fun_upd_idem find_by_id_def)
next
  fix sys and a :: u32 and src :: "u8 list" and p
  assume "memory_at i sys" and w: "out_of_bounds (t_span (system_ops i) sys) a (length src)"
  then obtain dev where f: "find_by_id i sys = Some dev" "memory_ok (dev, sys_tb sys)"
    by (auto simp: memory_at_def split: option.splits)
  with w have "out_of_bounds (t_span device_ops (dev, sys_tb sys)) a (length src)" by (simp add: system_ops_def)
  from dv.write_oob[OF f(2) this, of p] show "t_write (system_ops i) a src p sys = (Inl (MemError OOBAccess a), sys)"
    using f(1) by (simp add: system_ops_def at_target_run[OF f(1)] fun_upd_idem find_by_id_def)
qed

section \<open>Sums of byte runs\<close>

lemma of_le_take_to_le: "(of_le (take n (to_le v)) :: u64) = take_bit (8 * n) v" for v :: u64
  by (rule bit_word_eqI) (auto simp: bit_of_le bit_take_bit_iff to_le_def bit_simps min_def div_less_iff_less_mult)

text \<open>A value of at most 64 bits read from bytes and written back over them.\<close>

definition as_order :: "byte_order \<Rightarrow> u8 list \<Rightarrow> u8 list" where
  "as_order order bs = (if order = LittleEndian then bs else rev bs)"

lemma length_as_order [simp]: "length (as_order order bs) = length bs"
  by (simp add: as_order_def)

lemma as_order_twice [simp]: "as_order order (as_order order bs) = bs"
  by (simp add: as_order_def)

lemma endian_to_order:
  assumes "length bs \<le> 8"
  shows "(memcpy_endian_to bs order :: u64) = of_le (as_order order bs)"
proof (cases order)
  case NotApplicable
  then show ?thesis using assms of_le_pad[of "rev bs" "8 - length bs"]
    by (simp add: as_order_def memcpy_endian_to_def memcpy_endian_def Let_def hostOrder_def patch_def min_def)
qed (simp_all add: as_order_def memcpy_endian_to_big memcpy_endian_to_little)

lemma endian_from_short:
  assumes "length dest \<le> 8"
  shows "memcpy_endian_from dest order (v :: u64) = as_order order (take (length dest) (to_le v))"
  using assms by (cases order)
    (auto simp: memcpy_endian_from_def memcpy_endian_def Let_def hostOrder_def patch_def as_order_def min_def)

lemma of_le_short: "length bs \<le> 8 \<Longrightarrow> take_bit (8 * length bs) (of_le bs :: u64) = of_le bs"
  by (rule bit_word_eqI) (auto simp: bit_of_le bit_take_bit_iff bit_simps less_mult_imp_div_less)

lemma to_le_short: "length bs \<le> 8 \<Longrightarrow> take (length bs) (to_le (of_le bs :: u64)) = bs"
  by (rule nth_equalityI) (auto simp: to_le_def intro!: bit_word_eqI simp: bit_simps bit_of_le)

lemma take_to_le_take_bit: "n \<le> 8 \<Longrightarrow> take n (to_le (take_bit (8 * n) v)) = take n (to_le v)" for v :: u64
  by (rule nth_equalityI) (auto simp: to_le_def intro!: bit_word_eqI simp: bit_simps)

lemma take_bit_add_left: "take_bit k (take_bit k x + y) = take_bit k (x + y)" for x y :: "'a::len word"
  by transfer (simp add: take_bit_eq_mod mod_simps)

lemma endian_step_back:
  assumes n: "length bs \<le> 8"
  shows "memcpy_endian_from (memcpy_endian_from bs order ((memcpy_endian_to bs order :: u64) + d)) order
    ((memcpy_endian_to (memcpy_endian_from bs order ((memcpy_endian_to bs order :: u64) + d)) order :: u64) - d) = bs"
proof -
  let ?v = "of_le (as_order order bs) :: u64" and ?n = "8 * length bs"
  have e: "take_bit ?n (take_bit ?n (?v + d) - d) = ?v" 
    using of_le_short[of "as_order order bs"] n take_bit_add_left[of ?n "?v + d" "- d"] by simp
  have "take (length bs) (to_le (take_bit ?n (?v + d) - d)) = as_order order bs"
    using take_to_le_take_bit[OF n, of "take_bit ?n (?v + d) - d"] e to_le_short[of "as_order order bs"] n by simp
  then show ?thesis
    using n by (simp add: endian_to_order endian_from_short of_le_take_to_le)
qed

section \<open>A change to a memory and its undoing\<close>

lemma changed_bytes_tmp [simp]: "changed_bytes (b\<lparr>bk_tmp := t\<rparr>) = changed_bytes b"
  by (intro ext) (simp add: changed_bytes_def directed_delta_def is_forward_def split: delta.split)

lemma effective_access_tmp [simp]: "effective_access (b\<lparr>bk_tmp := t\<rparr>) = effective_access b"
  by (intro ext) (simp add: effective_access_def)

lemma take_patch_0: "length bs \<le> length xs \<Longrightarrow> take (length bs) (patch xs 0 bs) = bs"
  by (simp add: patch_def)

lemma read_tmp_run:
  assumes "memory_at i sys" and "within (t_span (system_ops i) sys) a n"
  obtains tmp sys' where "read_tmp i a n (b, sys) = (Inr (get_bytes (bytes_at i sys) (unat a) n), b\<lparr>bk_tmp := tmp\<rparr>, sys')"
    "n \<le> length tmp" "memory_at i sys'" "bytes_at i sys' = bytes_at i sys"
    "t_span (system_ops i) sys' = t_span (system_ops i) sys"
proof -
  let ?junk = "take n (bk_tmp (grow_tmp n b))"
  have l: "length ?junk = n" by (simp add: grow_tmp_def)
  then have "within (t_span (system_ops i) sys) a (length ?junk)" using assms(2) by simp
  from sy.read_within[OF assms(1) this, of rw_cmp] obtain sys' where s:
    "at_target i (device_read a ?junk rw_cmp) sys = (Inr (get_bytes (bytes_at i sys) (unat a) n), sys')"
    "memory_at i sys'" "bytes_at i sys' = bytes_at i sys" "t_span (system_ops i) sys' = t_span (system_ops i) sys"
    unfolding l by (auto simp: system_ops_def)
  show ?thesis
    by (rule that[OF _ _ s(2-4)])
      (use s(1) in \<open>auto simp: read_tmp_def on_system_def zoom_def andthen_def modify_def gets_def ret_def grow_tmp_def\<close>)
qed

lemma delta_access_run:
  assumes m: "memory_at (dm_target op) sys"
    and w: "within (t_span (system_ops (dm_target op)) sys) (dm_offset op) (unat (dm_size op))"
    and l: "length data = unat (dm_size op)"
  obtains tmp sys' where "delta_access op data (b, sys) = (Inr (), b\<lparr>bk_tmp := tmp\<rparr>, sys')"
    "memory_at (dm_target op) sys'"
    "bytes_at (dm_target op) sys' = put_bytes (bytes_at (dm_target op) sys) (unat (dm_offset op))
       (changed_bytes b (dm_kind op) (dm_order op) data
          (get_bytes (bytes_at (dm_target op) sys) (unat (dm_offset op)) (unat (dm_size op))))"
    "t_span (system_ops (dm_target op)) sys' = t_span (system_ops (dm_target op)) sys"
proof -
  let ?i = "dm_target op" and ?n = "unat (dm_size op)" and ?a = "dm_offset op"
  let ?prior = "get_bytes (bytes_at ?i sys) (unat ?a) ?n"
  let ?new = "changed_bytes b (dm_kind op) (dm_order op) data ?prior"
  have n: "length ?new = ?n" using l by (simp add: changed_bytes_def memcpy_endian_from_def split: delta.split)
  have store: "\<exists>sys'. at_target ?i (device_write ?a ?new p) s = (Inr (), sys') \<and> memory_at ?i sys'
      \<and> bytes_at ?i sys' = put_bytes (bytes_at ?i s) (unat ?a) ?new
      \<and> t_span (system_ops ?i) sys' = t_span (system_ops ?i) s"
    if "memory_at ?i s" "t_span (system_ops ?i) s = t_span (system_ops ?i) sys" for s p
    using sy.write_within[OF that(1), of ?a ?new p] w n that(2) by (simp add: system_ops_def)
  show ?thesis
  proof (cases "dm_kind op = Delta_Assign")
    case True
    then show ?thesis using store[OF m refl, of "effective_access b (dm_access op)"] that[of "bk_tmp b"]
      by (auto simp: delta_access_def on_system_def zoom_def andthen_def gets_def ret_def changed_bytes_def)
  next
    case False
    obtain tmp s1 where r: "read_tmp ?i ?a ?n (b, sys) = (Inr ?prior, b\<lparr>bk_tmp := tmp\<rparr>, s1)"
      "?n \<le> length tmp" "memory_at ?i s1" "bytes_at ?i s1 = bytes_at ?i sys"
      "t_span (system_ops ?i) s1 = t_span (system_ops ?i) sys"
      by (rule read_tmp_run[OF m w])
    show ?thesis
      using False store[OF r(3,5), of "effective_access b (dm_access op)"] r that[of "patch tmp 0 ?new"]
      by (auto simp: delta_access_def on_system_def zoom_def andthen_def gets_def ret_def store_tmp_def modify_def)
  qed
qed

lemma on_deltamem_run:
  assumes m: "memory_at (dm_target op) sys" and tr: "\<not> fl_TR (csrs st)"
    and w: "within (t_span (system_ops (dm_target op)) sys) (dm_offset op) (unat (dm_size op))"
    and k: "dm_kind op = Delta_Add \<Longrightarrow> dm_size op \<le> 8"
    and s: "span_of bufs (dm_data op) (dm_size op) = Some data"
  obtains tmp sys' where "on_deltamem bufs op (b, st, Some sys) = (Inr (), b\<lparr>bk_tmp := tmp\<rparr>, set_F False st, Some sys')"
    "memory_at (dm_target op) sys'"
    "bytes_at (dm_target op) sys' = put_bytes (bytes_at (dm_target op) sys) (unat (dm_offset op))
       (changed_bytes b (dm_kind op) (dm_order op) data
          (get_bytes (bytes_at (dm_target op) sys) (unat (dm_offset op)) (unat (dm_size op))))"
    "t_span (system_ops (dm_target op)) sys' = t_span (system_ops (dm_target op)) sys"
proof -
  have l: "length data = unat (dm_size op)"
    using s by (auto simp: span_of_def split: option.splits if_splits)
  from m obtain dev where f: "find_by_id (dm_target op) sys = Some dev" "memory_ok (dev, sys_tb sys)"
    by (auto simp: memory_at_def split: option.splits)
  have t: "is_target dev" using f(2) by (cases dev) auto
  obtain tmp sys' where d: "delta_access op data (b, sys) = (Inr (), b\<lparr>bk_tmp := tmp\<rparr>, sys')"
    "memory_at (dm_target op) sys'"
    "bytes_at (dm_target op) sys' = put_bytes (bytes_at (dm_target op) sys) (unat (dm_offset op))
       (changed_bytes b (dm_kind op) (dm_order op) data
          (get_bytes (bytes_at (dm_target op) sys) (unat (dm_offset op)) (unat (dm_size op))))"
    "t_span (system_ops (dm_target op)) sys' = t_span (system_ops (dm_target op)) sys"
    by (rule delta_access_run[OF m w l])
  have "\<not> (dm_kind op = Delta_Add \<and> dm_size op > 8)" using k by auto
  then have "on_deltamem bufs op (b, st, Some sys) = (Inr (), b\<lparr>bk_tmp := tmp\<rparr>, set_F False st, Some sys')"
    using d tr f(1) t s by (auto simp: on_deltamem_def target_of_def attempt_def try_access_def)
  then show ?thesis by (rule that[OF _ d(2-4)])
qed

lemma changed_bytes_back:
  assumes "length data = length prior" and "kind \<noteq> Delta_Assign" and "kind = Delta_Add \<Longrightarrow> length prior \<le> 8"
    and "is_forward b' \<longleftrightarrow> \<not> is_forward b"
  shows "changed_bytes b' kind order data (changed_bytes b kind order data prior) = prior"
  using assms endian_step_back[of prior order "directed_delta b (signed_le data)"]
  by (cases kind) (auto simp: changed_bytes_def directed_delta_def)

lemma put_get_back: "length bs = n \<Longrightarrow> put_bytes (put_bytes m a bs) a (get_bytes m a n) = m"
  by (rule ext) (auto simp: put_bytes_def get_bytes_def)

text \<open>
  Property C26.  A change of a memory that was recorded as an exclusive or, or as a step of at most
  eight bytes, is applied and undone exactly: performing the instruction in one direction and then in
  the other leaves every byte of the device as it was, and both report success.  The directions differ
  in the sign of the step; the access may be reported under any initiator.
\<close>

theorem memory_change_undone:
  assumes "memory_at (dm_target op) sys" and "\<not> fl_TR (csrs st)"
    and "within (t_span (system_ops (dm_target op)) sys) (dm_offset op) (unat (dm_size op))"
    and "dm_kind op = Delta_Xor \<or> dm_kind op = Delta_Add \<and> dm_size op \<le> 8"
    and "span_of bufs (dm_data op) (dm_size op) = Some data"
    and "is_forward b' \<longleftrightarrow> \<not> is_forward b"
  shows "\<exists>b1 sys1 b2 sys2.
     on_deltamem bufs op (b, st, Some sys) = (Inr (), b1, set_F False st, Some sys1)
     \<and> bytes_at (dm_target op) sys1 = put_bytes (bytes_at (dm_target op) sys) (unat (dm_offset op))
         (changed_bytes b (dm_kind op) (dm_order op) data
            (get_bytes (bytes_at (dm_target op) sys) (unat (dm_offset op)) (unat (dm_size op))))
     \<and> on_deltamem bufs op (b', set_F False st, Some sys1) = (Inr (), b2, set_F False st, Some sys2)
     \<and> bytes_at (dm_target op) sys2 = bytes_at (dm_target op) sys"
proof -
  let ?i = "dm_target op" and ?a = "unat (dm_offset op)" and ?n = "unat (dm_size op)"
  let ?prior = "get_bytes (bytes_at ?i sys) ?a ?n"
  let ?new = "changed_bytes b (dm_kind op) (dm_order op) data ?prior"
  have l: "length data = ?n" using assms(5) by (auto simp: span_of_def split: option.splits if_splits)
  have ln: "length ?new = ?n" using l by (simp add: changed_bytes_def memcpy_endian_from_def split: delta.split)
  have k: "dm_kind op = Delta_Add \<Longrightarrow> dm_size op \<le> 8" "dm_kind op \<noteq> Delta_Assign" using assms(4) by auto
  have n: "dm_size op \<le> 8 \<Longrightarrow> ?n \<le> 8" by (simp add: word_le_nat_alt)
  obtain t1 sys1 where 1: "on_deltamem bufs op (b, st, Some sys) = (Inr (), b\<lparr>bk_tmp := t1\<rparr>, set_F False st, Some sys1)"
    "memory_at ?i sys1" "bytes_at ?i sys1 = put_bytes (bytes_at ?i sys) ?a ?new"
    "t_span (system_ops ?i) sys1 = t_span (system_ops ?i) sys"
    by (rule on_deltamem_run[OF assms(1,2,3) k(1) assms(5)])
  have w: "within (t_span (system_ops ?i) sys1) (dm_offset op) ?n" using assms(3) 1(4) by simp
  have f: "\<not> fl_TR (csrs (set_F False st))" using assms(2) by (simp add: set_F_def)
  obtain t2 sys2 where 2: "on_deltamem bufs op (b', set_F False st, Some sys1)
      = (Inr (), b'\<lparr>bk_tmp := t2\<rparr>, set_F False (set_F False st), Some sys2)" "memory_at ?i sys2"
    "bytes_at ?i sys2 = put_bytes (bytes_at ?i sys1) ?a (changed_bytes b' (dm_kind op) (dm_order op) data
        (get_bytes (bytes_at ?i sys1) ?a ?n))"
    "t_span (system_ops ?i) sys2 = t_span (system_ops ?i) sys1"
    by (rule on_deltamem_run[OF 1(2) f w k(1) assms(5)])
  have "get_bytes (bytes_at ?i sys1) ?a ?n = ?new" using 1(3) get_put_same[of "bytes_at ?i sys" ?a ?new] ln by simp
  then have "bytes_at ?i sys2 = bytes_at ?i sys"
    using 2(3) 1(3) changed_bytes_back[OF _ k(2) _ assms(6), of data ?prior "dm_order op"] l k(1) n ln
    by (simp add: put_get_back)
  moreover have "set_F False (set_F False st) = set_F False st" by (simp add: set_F_def)
  ultimately show ?thesis using 1(1,3) 2(1) by auto
qed

definition sample_system :: system where
  "sample_system =
     \<lparr>sys_devices = [1 \<mapsto> Dev_Dense (make_dense \<lparr>lower = 0, upper = 15\<rparr> 7)],
      sys_tb = fresh_trace_buffer 1, sys_scan = fresh_scan, sys_host = (\<lambda>_. [])\<rparr>"

definition sample_step :: delta_mem where
  "sample_step =
     \<lparr>dm_kind = Delta_Add, dm_access = rw_cmp, dm_target = 1, dm_offset = 4, dm_data = \<lparr>s_hi = 1, s_lo = 0\<rparr>,
      dm_size = 2, dm_order = BigEndian\<rparr>"

lemma memory_change_undone_witness:
  "\<exists>b1 sys1 b2 sys2.
     on_deltamem [1 \<mapsto> [5, 1]] sample_step (fresh_backend, fresh_tvm, Some sample_system)
       = (Inr (), b1, set_F False fresh_tvm, Some sys1)
     \<and> bytes_at 1 sys1 = put_bytes (bytes_at 1 sample_system) 4
         (changed_bytes fresh_backend Delta_Add BigEndian [5, 1] (get_bytes (bytes_at 1 sample_system) 4 2))
     \<and> on_deltamem [1 \<mapsto> [5, 1]] sample_step (set_direction Backward fresh_backend, set_F False fresh_tvm, Some sys1)
       = (Inr (), b2, set_F False fresh_tvm, Some sys2)
     \<and> bytes_at 1 sys2 = bytes_at 1 sample_system"
proof -
  have m: "memory_at (dm_target sample_step) sample_system"
    by (simp add: memory_at_def find_by_id_def sample_system_def sample_step_def dense_ok_def make_dense_def)
  have w: "within (t_span (system_ops (dm_target sample_step)) sample_system) (dm_offset sample_step)
      (unat (dm_size sample_step))"
    by (simp add: system_ops_def find_by_id_def sample_system_def sample_step_def dense_span_def make_dense_def within_def)
  have s: "span_of [1 \<mapsto> [5, 1]] (dm_data sample_step) (dm_size sample_step) = Some [5, 1]"
    by (simp add: span_of_def sample_step_def)
  have k: "dm_kind sample_step = Delta_Xor \<or> dm_kind sample_step = Delta_Add \<and> dm_size sample_step \<le> 8"
    by (simp add: sample_step_def)
  have d: "is_forward (set_direction Backward fresh_backend) \<longleftrightarrow> \<not> is_forward fresh_backend"
    by (simp add: is_forward_def set_direction_def fresh_backend_def Let_def)
  have tr: "\<not> fl_TR (csrs fresh_tvm)" by (simp add: fresh_tvm_def default_flags_def)
  show ?thesis using memory_change_undone[OF m tr w k s d] by (simp add: sample_step_def)
qed

end
