(* ===== verification/Tvm_Registers.thy ===== *)
theory Tvm_Registers
  imports Tvm_Memory
begin

text \<open>
  Changes applied to the registers of a system.  A register held in a variable of the simulator, or a
  field of one, is a cell of some width that can be read and set; a recorded change applied forwards and
  then backwards leaves the variable as it was, whole or by field.
\<close>

section \<open>A cell of bits\<close>

locale bit_cell =
  fixes got :: "'s \<Rightarrow> u64"
    and set :: "u64 \<Rightarrow> 's \<Rightarrow> 's"
    and width :: "'s \<Rightarrow> nat"
    and ok :: "'s \<Rightarrow> bool"
  assumes got_set: "ok s \<Longrightarrow> got (set v s) = take_bit (width s) v"
    and set_set: "ok s \<Longrightarrow> set v (set u s) = set v s"
    and set_got: "ok s \<Longrightarrow> set (got s) s = s"
    and set_cut: "ok s \<Longrightarrow> set (take_bit (width s) v) s = set v s"
begin

lemma cut_got: "ok s \<Longrightarrow> take_bit (width s) (got s) = got s"
  using got_set[of s "got s"] by (simp add: set_got)

lemma step_back:
  assumes "ok s"
  shows "set (got (set (got s + d) s) - d) (set (got s + d) s) = s"
proof -
  let ?w = "width s"
  have "take_bit ?w (take_bit ?w (got s + d) - d) = got s"
    using take_bit_add_left[of ?w "got s + d" "- d"] cut_got[OF assms] by simp
  then have "set (take_bit ?w (got s + d) - d) s = set (got s) s"
    using set_cut[OF assms, of "take_bit ?w (got s + d) - d"] by simp
  then show ?thesis using assms by (simp add: got_set set_set set_got)
qed

lemma xor_back:
  assumes "ok s"
  shows "set (d XOR got (set (d XOR got s) s)) (set (d XOR got s) s) = s"
proof -
  let ?w = "width s"
  have "take_bit ?w (d XOR take_bit ?w (d XOR got s)) = take_bit ?w (got s)"
    by (rule bit_word_eqI) (auto simp: bit_simps)
  then have "set (d XOR take_bit ?w (d XOR got s)) s = set (got s) s"
    using set_cut[OF assms, of "d XOR take_bit ?w (d XOR got s)"] cut_got[OF assms] by simp
  then show ?thesis using assms by (simp add: got_set set_set set_got)
qed

end

section \<open>The bytes of a register\<close>

definition whole_value :: "byte_order \<Rightarrow> u8 list \<Rightarrow> u64" where
  "whole_value order bs = memcpy_endian_to bs order"

definition set_whole :: "byte_order \<Rightarrow> u64 \<Rightarrow> u8 list \<Rightarrow> u8 list" where
  "set_whole order v bs = memcpy_endian_from (replicate (length bs) 0) order v"

definition bit_count :: "u8 list \<Rightarrow> nat" where
  "bit_count bs = 8 * length bs"

definition narrow :: "u8 list \<Rightarrow> bool" where
  "narrow bs \<longleftrightarrow> length bs \<le> 8"

lemma length_set_whole [simp]: "length (set_whole order v bs) = length bs"
  by (simp add: set_whole_def memcpy_endian_from_def)

lemma set_whole_order: "narrow bs \<Longrightarrow> set_whole order v bs = as_order order (take (length bs) (to_le v))"
  by (simp add: set_whole_def narrow_def endian_from_short)

lemma whole_value_order: "narrow bs \<Longrightarrow> whole_value order bs = of_le (as_order order bs)"
  by (simp add: whole_value_def narrow_def endian_to_order)

lemma narrow_set_whole [simp]: "narrow (set_whole order v bs) = narrow bs"
  by (simp add: narrow_def)

interpretation whole: bit_cell "whole_value order" "set_whole order" bit_count narrow for order
proof
  fix s :: "u8 list" and u v :: u64
  assume n: "narrow s"
  show "whole_value order (set_whole order v s) = take_bit (bit_count s) v"
  proof -
    have n': "narrow (set_whole order v s)" using n by simp
    show ?thesis unfolding whole_value_order[OF n'] unfolding set_whole_order[OF n]
      by (simp add: of_le_take_to_le bit_count_def)
  qed
  show "set_whole order v (set_whole order u s) = set_whole order v s"
    by (simp add: set_whole_def memcpy_endian_from_def)
  show "set_whole order (whole_value order s) s = s"
    using n to_le_short[of "as_order order s"] by (simp add: whole_value_order set_whole_order narrow_def)
  show "set_whole order (take_bit (bit_count s) v) s = set_whole order v s"
    using n take_to_le_take_bit[of "length s" v] by (simp add: set_whole_order bit_count_def narrow_def)
qed

text \<open>A field that lies inside the register and that the scanner can read.\<close>

definition field_inside :: "reg_field \<Rightarrow> u8 list \<Rightarrow> bool" where
  "field_inside f bs \<longleftrightarrow>
     narrow bs \<and> unat (rf_bit_offset f) < 64 \<and> unat (rf_bit_width f) < 64
     \<and> unat (rf_bit_offset f) + unat (rf_bit_width f) \<le> bit_count bs"

definition field_value :: "reg_field \<Rightarrow> byte_order \<Rightarrow> u8 list \<Rightarrow> u64" where
  "field_value f order bs = the (extract_field f (whole_value order bs))"

definition set_field :: "reg_field \<Rightarrow> byte_order \<Rightarrow> u64 \<Rightarrow> u8 list \<Rightarrow> u8 list" where
  "set_field f order v bs = set_whole order (the (insert_field f (whole_value order bs) v)) bs"

lemma length_set_field [simp]: "length (set_field f order v bs) = length bs"
  by (simp add: set_field_def)

lemma field_inside_set [simp]: "field_inside f (set_field g order v bs) = field_inside f bs"
  by (simp add: field_inside_def narrow_def bit_count_def)

lemma field_defined:
  assumes "field_inside f bs"
  shows "extract_field f x = Some (the (extract_field f x))" and "insert_field f x v = Some (the (insert_field f x v))"
  using assms by (auto simp: field_inside_def extract_field_def insert_field_def Let_def)

lemma set_whole_eq: "narrow bs \<Longrightarrow> take_bit (bit_count bs) a = take_bit (bit_count bs) b \<Longrightarrow>
  set_whole order a bs = set_whole order b bs"
  using whole.set_cut[of bs order a] whole.set_cut[of bs order b] by simp

lemma bit_field:
  assumes "field_inside f bs"
  shows "bit (the (extract_field f x)) n \<longleftrightarrow> n < unat (rf_bit_width f) \<and> bit x (n + unat (rf_bit_offset f))"
    and "n < 64 \<Longrightarrow> bit (the (insert_field f x v)) n \<longleftrightarrow>
      (if unat (rf_bit_offset f) \<le> n \<and> n < unat (rf_bit_offset f) + unat (rf_bit_width f)
       then bit v (n - unat (rf_bit_offset f)) else bit x n)"
  using bit_extract_field[OF field_defined(1)[OF assms]] bit_insert_field[OF field_defined(2)[OF assms]] by blast+

interpretation field: bit_cell "field_value f order" "set_field f order" "\<lambda>bs. unat (rf_bit_width f)" "field_inside f"
  for f order
proof
  fix s :: "u8 list" and u v :: u64
  assume i: "field_inside f s"
  then have n: "narrow s" and le: "unat (rf_bit_offset f) + unat (rf_bit_width f) \<le> bit_count s" "bit_count s \<le> 64"
    by (auto simp: field_inside_def narrow_def bit_count_def)
  note b = bit_field[OF i]
  let ?x = "whole_value order s"
  have got: "whole_value order (set_field f order w s) = take_bit (bit_count s) (the (insert_field f ?x w))" for w
    using whole.got_set[OF n] by (simp add: set_field_def)
  show "field_value f order (set_field f order v s) = take_bit (unat (rf_bit_width f)) v"
    unfolding field_value_def got
    by (rule bit_word_eqI) (use le in \<open>auto simp: b bit_take_bit_iff\<close>)
  have "set_field f order v (set_field f order u s)
      = set_whole order (the (insert_field f (take_bit (bit_count s) (the (insert_field f ?x u))) v)) s"
    unfolding set_field_def[of f order v "set_field f order u s"] got
    using whole.set_set[OF n] by (simp add: set_field_def)
  also have "\<dots> = set_field f order v s" unfolding set_field_def
    by (rule set_whole_eq[OF n], rule bit_word_eqI) (auto simp: b bit_take_bit_iff)
  finally show "set_field f order v (set_field f order u s) = set_field f order v s" .
  have "the (insert_field f ?x (the (extract_field f ?x))) = ?x"
    by (rule bit_word_eqI) (auto simp: b)
  then show "set_field f order (field_value f order s) s = s"
    using whole.set_got[OF n] by (simp add: set_field_def field_value_def)
  show "set_field f order (take_bit (unat (rf_bit_width f)) v) s = set_field f order v s" unfolding set_field_def
    by (rule set_whole_eq[OF n], rule bit_word_eqI) (auto simp: b bit_take_bit_iff)
qed

section \<open>Registers held in variables of the simulator\<close>

text \<open>Register \<open>r\<close> of the scan designates a variable of at most eight bytes that the host may read and write.\<close>

definition held_in :: "register_ref \<Rightarrow> scan_register \<Rightarrow> reg_field option \<Rightarrow> nat \<Rightarrow> system \<Rightarrow> bool" where
  "held_in r reg f var sys \<longleftrightarrow>
     resolve r (sys_scan sys) = (Some reg, f)
     \<and> sr_loc reg = Loc_pointer (length (sys_host sys var)) (Some var)
     \<and> unat (sr_byte_width reg) = length (sys_host sys var) \<and> length (sys_host sys var) \<le> 8
     \<and> allows (granted reg Host) ACC_READ \<and> allows (granted reg Host) ACC_WRITE
     \<and> (case f of None \<Rightarrow> True | Some g \<Rightarrow> field_inside g (sys_host sys var)
           \<and> allows (granted_field g Host) ACC_READ \<and> allows (granted_field g Host) ACC_WRITE)"

definition cell_value :: "reg_field option \<Rightarrow> byte_order \<Rightarrow> u8 list \<Rightarrow> u64" where
  "cell_value f order = (case f of None \<Rightarrow> whole_value order | Some g \<Rightarrow> field_value g order)"

definition set_cell :: "reg_field option \<Rightarrow> byte_order \<Rightarrow> u64 \<Rightarrow> u8 list \<Rightarrow> u8 list" where
  "set_cell f order = (case f of None \<Rightarrow> set_whole order | Some g \<Rightarrow> set_field g order)"

lemma whole_of_zeros: "length (bs :: u8 list) \<le> 8 \<Longrightarrow>
  memcpy_endian_to (memcpy_endian_from (replicate (length bs) 0) order v) order = take_bit (8 * length bs) (v :: u64)"
  using whole.got_set[of bs order v] by (simp add: narrow_def bit_count_def whole_value_def set_whole_def)

lemma read_int_held:
  assumes "held_in r reg f var sys"
  shows "scan_read_int r Host sys = (Inr (cell_value f (sr_order reg) (sys_host sys var)), sys)"
proof -
  let ?bs = "sys_host sys var"
  note h = assms[unfolded held_in_def]
  have m: "min (unat (sr_byte_width reg)) 8 = length ?bs" using h by simp
  show ?thesis
  proof (cases f)
    case None
    then show ?thesis using h m
      by (simp add: scan_read_int_def scan_read_def load_register_def andthen_def ret_def Let_def cell_value_def whole_value_def)
  next
    case (Some g)
    have i: "field_inside g ?bs" using h Some by simp
    let ?v = "the (extract_field g (whole_value (sr_order reg) ?bs))"
    have e: "extract_field g (memcpy_endian_to ?bs (sr_order reg)) = Some ?v"
      using field_defined(1)[OF i] by (simp add: whole_value_def)
    have "take_bit (8 * length ?bs) ?v = ?v"
      by (rule bit_word_eqI) (use i in \<open>auto simp: bit_field[OF i] bit_take_bit_iff field_inside_def bit_count_def\<close>)
    then have "memcpy_endian_to (memcpy_endian_from ?bs (sr_order reg) ?v) (sr_order reg) = ?v"
      using h whole_of_zeros[of ?bs "sr_order reg" ?v] endian_from_short[of ?bs "sr_order reg" ?v]
        endian_from_short[of "replicate (length ?bs) 0" "sr_order reg" ?v] by simp
    then show ?thesis using h Some m e
      by (simp add: scan_read_int_def scan_read_def load_register_def andthen_def ret_def Let_def cell_value_def field_value_def)
  qed
qed

lemma write_int_held:
  assumes "held_in r reg f var sys"
  shows "scan_write_int r v Host sys
    = (Inr (), sys\<lparr>sys_host := (sys_host sys)(var := set_cell f (sr_order reg) v (sys_host sys var))\<rparr>)"
proof -
  let ?bs = "sys_host sys var" and ?o = "sr_order reg"
  note h = assms[unfolded held_in_def]
  have m: "min (unat (sr_byte_width reg)) 8 = length ?bs" using h by simp
  have l: "length ?bs \<le> 8" using h by simp
  have z: "memcpy_endian_to (memcpy_endian_from (replicate (length ?bs) 0) ?o v) ?o = take_bit (8 * length ?bs) v"
    by (rule whole_of_zeros[OF l])
  have n: "narrow ?bs" using l by (simp add: narrow_def)
  show ?thesis
  proof (cases f)
    case None
    then show ?thesis using h m z whole.set_cut[OF n, of ?o v]
      by (simp add: scan_write_int_def scan_write_def store_register_def andthen_def ret_def Let_def set_cell_def
          set_whole_def bit_count_def memcpy_endian_from_def)
  next
    case (Some g)
    have i: "field_inside g ?bs" using h Some by simp
    let ?w = "the (insert_field g (whole_value ?o ?bs) (take_bit (8 * length ?bs) v))"
    have e: "insert_field g (memcpy_endian_to ?bs ?o) (take_bit (8 * length ?bs) v) = Some ?w"
      using field_defined(2)[OF i] by (simp add: whole_value_def)
    have "the (insert_field g (whole_value ?o ?bs) v) = ?w"
      by (rule bit_word_eqI) (use i in \<open>auto simp: bit_field[OF i] bit_take_bit_iff field_inside_def bit_count_def\<close>)
    then have "set_field g ?o v ?bs = memcpy_endian_from (replicate (length ?bs) 0) ?o ?w"
      by (simp add: set_field_def set_whole_def)
    then show ?thesis using h Some m z e
      by (simp add: scan_write_int_def scan_write_def load_register_def store_register_def andthen_def ret_def Let_def
          set_cell_def memcpy_endian_from_def)
  qed
qed

section \<open>A change of a register and its undoing\<close>

lemma held_in_host:
  "held_in r reg f var (sys\<lparr>sys_host := (sys_host sys)(var := set_cell f' (sr_order reg) v (sys_host sys var))\<rparr>)
     = held_in r reg f var sys"
  by (cases f; cases f') (simp_all add: held_in_def set_cell_def field_inside_def narrow_def bit_count_def)

text \<open>The value that a change writes, from the one that was there.\<close>

definition cell_change :: "backend \<Rightarrow> delta \<Rightarrow> u8 list \<Rightarrow> reg_field option \<Rightarrow> byte_order \<Rightarrow> u8 list \<Rightarrow> u8 list" where
  "cell_change b kind data f order bs = set_cell f order (changed_value b kind data (cell_value f order bs)) bs"

lemma changed_value_assign: "changed_value b Delta_Assign data v = changed_value b Delta_Assign data w"
  by (simp add: changed_value_def Let_def)

lemma delta_register_held:
  assumes "held_in (dr_reg op) reg f var sys"
  shows "delta_register op data (b, sys)
    = (Inr (), b, sys\<lparr>sys_host := (sys_host sys)(var :=
         cell_change b (dr_kind op) data f (sr_order reg) (sys_host sys var))\<rparr>)"
  using read_int_held[OF assms] write_int_held[OF assms]
    changed_value_assign[of b data 0 "cell_value f (sr_order reg) (sys_host sys var)"]
  by (auto simp: delta_register_def on_system_def zoom_def andthen_def gets_def cell_change_def)

lemma on_deltareg_held:
  assumes h: "held_in (dr_reg op) reg f var sys" and tr: "fl_TR (csrs st)" and n: "0 < length (sys_host sys var)"
    and s: "span_of bufs (dr_data op) (dr_size op) = Some data"
    and k: "if dr_kind op = Delta_Add then dr_size op \<le> 8 else unat (dr_size op) = length (sys_host sys var)"
  shows "on_deltareg bufs op (b, st, Some sys) = (Inr (), b, set_F False st,
      Some (sys\<lparr>sys_host := (sys_host sys)(var := cell_change b (dr_kind op) data f (sr_order reg) (sys_host sys var))\<rparr>))"
proof -
  have w: "unat (sr_byte_width reg) = length (sys_host sys var)" "length (sys_host sys var) \<le> 8"
    using h by (auto simp: held_in_def)
  then have "\<not> (sr_byte_width reg = 0 \<or> sr_byte_width reg > 8)"
    using n by (auto simp: word_less_nat_alt unat_eq_0)
  moreover have "\<not> (dr_kind op \<noteq> Delta_Add \<and> unat (sr_byte_width reg) \<noteq> unat (dr_size op))"
    "\<not> (dr_kind op = Delta_Add \<and> dr_size op > 8)"
    using k w by (auto split: if_splits)
  moreover have "fst (resolve (dr_reg op) (sys_scan sys)) = Some reg" using h by (simp add: held_in_def)
  ultimately show ?thesis using tr s delta_register_held[OF h]
    by (auto simp: on_deltareg_def attempt_def try_access_def)
qed

lemma cell_change_back:
  assumes "held_in r reg f var sys" and "kind \<noteq> Delta_Assign" and "is_forward b' \<longleftrightarrow> \<not> is_forward b"
  shows "cell_change b' kind data f order (cell_change b kind data f order (sys_host sys var)) = sys_host sys var"
proof -
  let ?bs = "sys_host sys var" and ?d = "directed_delta b (signed_le data)"
  have d: "directed_delta b' (signed_le data) = - ?d" using assms(3) by (simp add: directed_delta_def)
  show ?thesis
  proof (cases f)
    case None
    have "narrow ?bs" using assms(1) by (simp add: held_in_def narrow_def)
    from whole.step_back[OF this, of order ?d] whole.xor_back[OF this, of order "memcpy_endian_to data LittleEndian"]
    show ?thesis using None assms(2) d
      by (cases kind) (simp_all add: cell_change_def changed_value_def Let_def cell_value_def set_cell_def)
  next
    case (Some g)
    have "field_inside g ?bs" using assms(1) Some by (simp add: held_in_def)
    from field.step_back[OF this, of order ?d] field.xor_back[OF this, of order "memcpy_endian_to data LittleEndian"]
    show ?thesis using Some assms(2) d
      by (cases kind) (simp_all add: cell_change_def changed_value_def Let_def cell_value_def set_cell_def)
  qed
qed

text \<open>
  Property C27.  A change of a register, or of a field of one, that was recorded as an exclusive or or as a
  signed step is applied and undone exactly: performing the instruction in one direction and then in the
  other returns without a refusal and leaves the variable that backs the register bit for bit as it was,
  the sibling fields included.
\<close>

theorem register_change_undone:
  assumes "held_in (dr_reg op) reg f var sys" and "fl_TR (csrs st)" and "0 < length (sys_host sys var)"
    and "dr_kind op = Delta_Xor \<and> unat (dr_size op) = length (sys_host sys var)
         \<or> dr_kind op = Delta_Add \<and> dr_size op \<le> 8"
    and "span_of bufs (dr_data op) (dr_size op) = Some data"
    and "is_forward b' \<longleftrightarrow> \<not> is_forward b"
  shows "\<exists>sys1. on_deltareg bufs op (b, st, Some sys) = (Inr (), b, set_F False st, Some sys1)
     \<and> sys_host sys1 var = set_cell f (sr_order reg)
         (changed_value b (dr_kind op) data (cell_value f (sr_order reg) (sys_host sys var))) (sys_host sys var)
     \<and> on_deltareg bufs op (b', set_F False st, Some sys1) = (Inr (), b', set_F False st, Some sys)"
proof -
  let ?o = "sr_order reg"
  let ?sys1 = "sys\<lparr>sys_host := (sys_host sys)(var := cell_change b (dr_kind op) data f ?o (sys_host sys var))\<rparr>"
  have k: "if dr_kind op = Delta_Add then dr_size op \<le> 8 else unat (dr_size op) = length (sys_host sys var)"
    and a: "dr_kind op \<noteq> Delta_Assign" using assms(4) by auto
  have l: "length (sys_host ?sys1 var) = length (sys_host sys var)"
    by (cases f) (simp_all add: cell_change_def set_cell_def)
  have h: "held_in (dr_reg op) reg f var ?sys1" using assms(1) held_in_host[of "dr_reg op" reg f var sys f]
    by (simp add: cell_change_def)
  note 1 = on_deltareg_held[OF assms(1,2,3,5) k, of b]
  have "on_deltareg bufs op (b', set_F False st, Some ?sys1) = (Inr (), b', set_F False (set_F False st),
      Some (?sys1\<lparr>sys_host := (sys_host ?sys1)(var := cell_change b' (dr_kind op) data f ?o (sys_host ?sys1 var))\<rparr>))"
    by (rule on_deltareg_held[OF h]) (use assms(2,3,5) k l in \<open>simp_all add: set_F_def\<close>)
  moreover have "set_F False (set_F False st) = set_F False st" by (simp add: set_F_def)
  ultimately have "on_deltareg bufs op (b', set_F False st, Some ?sys1) = (Inr (), b', set_F False st, Some sys)"
    using cell_change_back[OF assms(1) a assms(6), of data ?o] by (simp add: fun_upd_idem)
  with 1 show ?thesis by (auto simp: cell_change_def)
qed

definition flags_register :: scan_register where
  "flags_register =
     \<lparr>sr_byte_width = 1, sr_guest_access = 0, sr_host_access = 3, sr_restore_on_step_back = True, sr_kind = Kind_State,
      sr_visibility = Architectural, sr_target = 1, sr_order = BigEndian, sr_name = ''NZVC'',
      sr_fields = [\<lparr>rf_guest_access = 3, rf_host_access = 3, rf_bit_offset = 1, rf_bit_width = 3, rf_name = ''NZV''\<rparr>],
      sr_loc = Loc_pointer 1 (Some 0)\<rparr>"

definition flags_system :: system where
  "flags_system =
     \<lparr>sys_devices = (\<lambda>_. None), sys_tb = fresh_trace_buffer 1,
      sys_scan = \<lparr>sc_next = 2, sc_exposed = (\<lambda>_. [1]), sc_regs = [(1, flags_register)]\<rparr>, sys_host = (\<lambda>_. [0xAB])\<rparr>"

lemma register_change_undone_witness:
  "\<exists>sys1. on_deltareg [1 \<mapsto> [6]] \<lparr>dr_kind = Delta_Add, dr_reg = (1, 1), dr_data = \<lparr>s_hi = 1, s_lo = 0\<rparr>, dr_size = 1\<rparr>
       (fresh_backend, fresh_tvm\<lparr>csrs := default_flags\<lparr>fl_TR := True\<rparr>\<rparr>, Some flags_system)
       = (Inr (), fresh_backend, set_F False (fresh_tvm\<lparr>csrs := default_flags\<lparr>fl_TR := True\<rparr>\<rparr>), Some sys1)
     \<and> on_deltareg [1 \<mapsto> [6]] \<lparr>dr_kind = Delta_Add, dr_reg = (1, 1), dr_data = \<lparr>s_hi = 1, s_lo = 0\<rparr>, dr_size = 1\<rparr>
       (set_direction Backward fresh_backend, set_F False (fresh_tvm\<lparr>csrs := default_flags\<lparr>fl_TR := True\<rparr>\<rparr>), Some sys1)
       = (Inr (), set_direction Backward fresh_backend, set_F False (fresh_tvm\<lparr>csrs := default_flags\<lparr>fl_TR := True\<rparr>\<rparr>),
          Some flags_system)"
proof -
  let ?op = "\<lparr>dr_kind = Delta_Add, dr_reg = (1, 1), dr_data = \<lparr>s_hi = 1, s_lo = 0\<rparr>, dr_size = 1\<rparr> :: delta_reg"
  let ?st = "fresh_tvm\<lparr>csrs := default_flags\<lparr>fl_TR := True\<rparr>\<rparr>"
  have h: "held_in (dr_reg ?op) flags_register (Some (hd (sr_fields flags_register))) 0 flags_system"
    by (simp add: held_in_def flags_system_def flags_register_def resolve_def is_field_def field_inside_def narrow_def
        bit_count_def allows_def granted_def granted_field_def ACC_READ_def ACC_WRITE_def)
  have tr: "fl_TR (csrs ?st)" and n: "0 < length (sys_host flags_system 0)" by (simp_all add: flags_system_def)
  have k: "dr_kind ?op = Delta_Xor \<and> unat (dr_size ?op) = length (sys_host flags_system 0)
      \<or> dr_kind ?op = Delta_Add \<and> dr_size ?op \<le> 8" by simp
  have s: "span_of [1 \<mapsto> [6]] (dr_data ?op) (dr_size ?op) = Some [6]" by (simp add: span_of_def)
  have d: "is_forward (set_direction Backward fresh_backend) \<longleftrightarrow> \<not> is_forward fresh_backend"
    by (simp add: is_forward_def set_direction_def fresh_backend_def Let_def)
  from register_change_undone[OF h tr n k s d] show ?thesis by blast
qed

end
