(* ===== verification/Slab.thy ===== *)
theory Slab
  imports Sim_Api
begin

text \<open>
  Blocks of memory that are filled from the front, from \<^verbatim>\<open>Page\<close> and \<^verbatim>\<open>Slab\<close> of
  \<^verbatim>\<open>ds/alloc/paged.hpp\<close>, with bytes for elements.  Sizes are natural numbers: they are
  bounded by the memory of the host, far below the width of \<^verbatim>\<open>size_t\<close>.  The address of the storage is a
  part of the state, since aligned allocations depend on it; what fresh storage holds is given from outside.
\<close>

section \<open>Pages\<close>

record slab =
  sb_base :: nat
  sb_used :: nat
  sb_data :: "u8 list"

definition MIN_PAGE_SIZE :: nat where "MIN_PAGE_SIZE = 256"
definition MAX_PAGE_SIZE :: nat where "MAX_PAGE_SIZE = 65536"

definition slab_capacity :: "slab \<Rightarrow> nat" where
  "slab_capacity s = length (sb_data s)"

definition make_slab :: "nat \<Rightarrow> (nat \<Rightarrow> u8) \<Rightarrow> nat \<Rightarrow> sim_error + slab" where
  "make_slab base junk capacity =
     (case nearest_power_of_two (word_of_nat capacity) of
        None \<Rightarrow> Inl UndefinedBehaviour
      | Some c \<Rightarrow>
          if unat c < MIN_PAGE_SIZE then Inl (LogicError ''Allocation smaller than MIN_PAGE_SIZE'')
          else if unat c > MAX_PAGE_SIZE then Inl (LogicError ''Allocation larger than MAX_PAGE_SIZE'')
          else Inr \<lparr>sb_base = base, sb_used = 0, sb_data = map junk [0..<unat c]\<rparr>)"

definition slab_fill :: "nat \<Rightarrow> nat \<Rightarrow> u8 \<Rightarrow> slab \<Rightarrow> slab" where
  "slab_fill start stop v s =
     (let a = min start (slab_capacity s); b = min stop (slab_capacity s);
          lo = min a b; hi = max a b
      in s\<lparr>sb_data := patch (sb_data s) lo (replicate (hi - lo) v)\<rparr>)"

section \<open>Slabs\<close>

definition slab_clear :: "slab \<Rightarrow> slab" where
  "slab_clear s = s\<lparr>sb_used := 0\<rparr>"

definition slab_fill_clear :: "u8 \<Rightarrow> slab \<Rightarrow> slab" where
  "slab_fill_clear v s = slab_clear (slab_fill 0 (sb_used s) v s)"

definition remaining_capacity :: "slab \<Rightarrow> nat" where
  "remaining_capacity s = slab_capacity s - sb_used s"

definition padded_size :: "nat \<Rightarrow> nat \<Rightarrow> nat \<Rightarrow> slab \<Rightarrow> nat" where
  "padded_size count align pad s =
     (let mis = (sb_base s + sb_used s) mod align
      in count + (if align > 1 \<and> mis \<noteq> 0 then align - mis else 0) + pad)"

definition can_fit :: "nat \<Rightarrow> slab \<Rightarrow> bool" where
  "can_fit request s \<longleftrightarrow> request \<le> remaining_capacity s"

definition can_fit_bytes :: "u8 list \<Rightarrow> nat \<Rightarrow> nat \<Rightarrow> slab \<Rightarrow> bool" where
  "can_fit_bytes request align pad s \<longleftrightarrow> padded_size (length request) align pad s \<le> remaining_capacity s"

definition slab_append :: "u8 list \<Rightarrow> nat \<Rightarrow> nat \<Rightarrow> u8 \<Rightarrow> (slab, sim_error, nat) sm" where
  "slab_append bytes align pad v = (\<lambda>s.
     (let total = padded_size (length bytes) align pad s;
          start = padded_size (sb_used s) align 0 s
      in if total > remaining_capacity s then (Inl (RuntimeError ''Page overflow''), s)
         else let s1 = slab_fill (sb_used s) start v s;
                  s2 = s1\<lparr>sb_data := patch (sb_data s1) start bytes\<rparr>;
                  s3 = slab_fill (start + length bytes) (sb_used s + total) v s2
              in (Inr start, s3\<lparr>sb_used := sb_used s + total\<rparr>)))"

definition slab_allocate_initialized :: "nat \<Rightarrow> u8 \<Rightarrow> (slab, sim_error, nat) sm" where
  "slab_allocate_initialized n v = (\<lambda>s.
     if n > remaining_capacity s then (Inl (RuntimeError ''Page overflow''), s)
     else (Inr (sb_used s), (slab_fill (sb_used s) (sb_used s + n) v s)\<lparr>sb_used := sb_used s + n\<rparr>))"

definition slab_allocate_uninitialized :: "nat \<Rightarrow> (slab, sim_error, nat) sm" where
  "slab_allocate_uninitialized n = (\<lambda>s.
     if n > remaining_capacity s then (Inl (RuntimeError ''Page overflow''), s)
     else (Inr (sb_used s), s\<lparr>sb_used := sb_used s + n\<rparr>))"

section \<open>Where an allocation lands\<close>

definition slab_ok :: "slab \<Rightarrow> bool" where
  "slab_ok s \<longleftrightarrow> sb_used s \<le> slab_capacity s"

lemma slab_fill_selects [simp]:
  "sb_used (slab_fill a b v s) = sb_used s" "sb_base (slab_fill a b v s) = sb_base s"
  "length (sb_data (slab_fill a b v s)) = length (sb_data s)"
  by (simp_all add: slab_fill_def Let_def slab_capacity_def)

lemma slab_capacity_fill [simp]: "slab_capacity (slab_fill a b v s) = slab_capacity s"
  by (simp add: slab_capacity_def)

lemma nth_slab_fill:
  assumes "a \<le> b" and "b \<le> slab_capacity s" and "k < slab_capacity s"
  shows "sb_data (slab_fill a b v s) ! k = (if a \<le> k \<and> k < b then v else sb_data s ! k)"
  using assms by (auto simp: slab_fill_def Let_def slab_capacity_def nth_patch)

text \<open>
  An allocation takes its bytes from the end of what is in use, aligned, in one piece, and leaves what was
  allocated before as it is; if it does not fit nothing changes.
\<close>

lemma slab_append_effect:
  assumes "slab_ok s" and "can_fit_bytes bytes align pad s"
  obtains off s' where "slab_append bytes align pad v s = (Inr off, s')" "slab_ok s'"
    "sb_used s \<le> off" "off + length bytes \<le> sb_used s'" "slab_capacity s' = slab_capacity s" "sb_base s' = sb_base s"
    "sb_used s' = sb_used s + padded_size (length bytes) align pad s"
    "take (length bytes) (drop off (sb_data s')) = bytes"
    "\<And>k. k < sb_used s \<Longrightarrow> sb_data s' ! k = sb_data s ! k"
    "align > 1 \<Longrightarrow> (sb_base s + off) mod align = 0"
proof -
  let ?n = "length bytes" and ?u = "sb_used s" and ?c = "slab_capacity s"
  let ?gap = "padded_size ?u align 0 s - ?u"
  let ?start = "padded_size ?u align 0 s" and ?total = "padded_size ?n align pad s"
  have start: "?start = ?u + ?gap" and total: "?total = ?gap + ?n + pad" by (simp_all add: padded_size_def Let_def)
  have fits: "?u + ?total \<le> ?c"
    using assms by (auto simp: can_fit_bytes_def remaining_capacity_def slab_ok_def)
  define s1 where "s1 = slab_fill ?u ?start v s"
  define s2 where "s2 = s1\<lparr>sb_data := patch (sb_data s1) ?start bytes\<rparr>"
  define s3 where "s3 = slab_fill (?start + ?n) (?u + ?total) v s2"
  define s4 where "s4 = s3\<lparr>sb_used := ?u + ?total\<rparr>"
  have l1: "length (sb_data s1) = ?c" by (simp add: s1_def slab_capacity_def)
  have in1: "?start + ?n \<le> length (sb_data s1)" using fits start total l1 by simp
  have l2: "slab_capacity s2 = ?c" using in1 l1 by (simp add: s2_def slab_capacity_def)
  have l4: "slab_capacity s4 = ?c" using l2 by (simp add: s4_def s3_def slab_capacity_def)
  have run: "slab_append bytes align pad v s = (Inr ?start, s4)"
    using assms(2) by (simp add: slab_append_def Let_def can_fit_bytes_def s1_def s2_def s3_def s4_def)
  have at3: "sb_data s4 ! k = sb_data s2 ! k" if "k < ?start + ?n" for k
    using that fits start total l2 by (simp add: s4_def s3_def nth_slab_fill)
  have data: "take ?n (drop ?start (sb_data s4)) = bytes"
  proof (rule nth_equalityI)
    show "length (take ?n (drop ?start (sb_data s4))) = length bytes"
      using fits start total l4 by (simp add: slab_capacity_def)
    fix i assume "i < length (take ?n (drop ?start (sb_data s4)))"
    then have "i < ?n" by simp
    then show "take ?n (drop ?start (sb_data s4)) ! i = bytes ! i"
      using at3[of "?start + i"] in1 l4 fits start total by (simp add: s2_def nth_patch slab_capacity_def)
  qed
  have old: "sb_data s4 ! k = sb_data s ! k" if "k < ?u" for k
    using that at3[of k] in1 start fits total by (simp add: s2_def nth_patch s1_def nth_slab_fill)
  have mis: "(sb_base s + ?start) mod align = 0" if "align > 1"
  proof -
    let ?a = "sb_base s + ?u"
    show ?thesis
    proof (cases "?a mod align = 0")
      case True
      then show ?thesis by (simp add: padded_size_def Let_def)
    next
      case False
      have "?start = ?u + (align - ?a mod align)" using that False by (simp add: padded_size_def Let_def)
      then have "sb_base s + ?start = ?a + (align - ?a mod align)" by simp
      also have "\<dots> = (?a div align + 1) * align"
      proof -
        have "?a mod align < align" "?a = ?a div align * align + ?a mod align" using that by simp_all
        then show ?thesis unfolding distrib_right by linarith
      qed
      finally show ?thesis by simp
    qed
  qed
  show ?thesis
    by (rule that[OF run _ _ _ l4 _ _ data old mis])
      (use fits l4 start total in \<open>simp_all add: slab_ok_def s4_def s3_def s2_def s1_def\<close>)
qed

lemma slab_append_overflow:
  "\<not> can_fit_bytes bytes align pad s \<Longrightarrow> slab_append bytes align pad v s = (Inl (RuntimeError ''Page overflow''), s)"
  by (simp add: slab_append_def can_fit_bytes_def Let_def)

end
