(* ===== verification/Buffer_Manager.thy ===== *)
theory Buffer_Manager
  imports Slab
begin

text \<open>
  Numbered buffers of 64 KiB, from \<^verbatim>\<open>ds/alloc/pagechain.hpp\<close> and \<^verbatim>\<open>pagechain.cpp\<close>: the manager that
  hands them out and takes them back, and the identifiers by which they are found.  A pointer to a buffer
  is the number of the slot that owns its storage; storage stays with its slot for ever.
\<close>

section \<open>Identifiers\<close>

definition BUFFER_SIZE :: nat where "BUFFER_SIZE = 65536"
definition INDEX_BITS :: nat where "INDEX_BITS = 12"
definition INDEX_MASK :: u16 where "INDEX_MASK = push_bit INDEX_BITS 1 - 1"
definition GENERATION_MASK :: u16 where "GENERATION_MASK = drop_bit INDEX_BITS 0xFFFF"
definition MAX_LIVE_BUFFERS :: u16 where "MAX_LIVE_BUFFERS = INDEX_MASK"

definition handle_index :: "u16 \<Rightarrow> u16" where
  "handle_index ident = ident AND INDEX_MASK"

definition handle_generation :: "u16 \<Rightarrow> u16" where
  "handle_generation ident = drop_bit INDEX_BITS ident"

definition make_handle :: "u16 \<Rightarrow> u16 \<Rightarrow> u16" where
  "make_handle index generation =
     push_bit INDEX_BITS (generation AND GENERATION_MASK) OR (index AND INDEX_MASK)"

section \<open>The manager\<close>

record buffer =
  bf_id :: u16
  bf_slab :: slab

record slot =
  st_live :: bool
  st_generation :: u16
  st_next_free :: u16
  st_storage :: "buffer option"

text \<open>\<open>mg_heap\<close> says at which address the storage of a slot is created and what it holds at that time.\<close>

record manager =
  mg_slots :: "slot list"
  mg_free_head :: u16
  mg_free_tail :: u16
  mg_live_count :: u16
  mg_free_count :: u16
  mg_heap :: "nat \<Rightarrow> nat \<times> (nat \<Rightarrow> u8)"

definition NO_INDEX :: u16 where "NO_INDEX = 0xFFFF"

definition empty_slot :: slot where
  "empty_slot = \<lparr>st_live = False, st_generation = 0, st_next_free = NO_INDEX, st_storage = None\<rparr>"

definition fresh_manager :: "(nat \<Rightarrow> nat \<times> (nat \<Rightarrow> u8)) \<Rightarrow> manager" where
  "fresh_manager heap =
     \<lparr>mg_slots = [], mg_free_head = NO_INDEX, mg_free_tail = NO_INDEX, mg_live_count = 0, mg_free_count = 0,
      mg_heap = heap\<rparr>"

definition slot_at :: "manager \<Rightarrow> nat \<Rightarrow> slot" where
  "slot_at m k = mg_slots m ! k"

definition set_slot :: "nat \<Rightarrow> slot \<Rightarrow> manager \<Rightarrow> manager" where
  "set_slot k s m = m\<lparr>mg_slots := (mg_slots m)[k := s]\<rparr>"

definition out_of_buffers :: sim_error where
  "out_of_buffers = RuntimeError ''BufferManager: out of buffer indices''"

definition alloc_buffer :: "(manager, sim_error, nat) sm" where
  "alloc_buffer = (\<lambda>m.
     if mg_free_head m \<noteq> NO_INDEX then
       (let k = unat (mg_free_head m); s = slot_at m k;
            head = st_next_free s;
            s' = s\<lparr>st_next_free := NO_INDEX, st_live := True,
                   st_storage := map_option (\<lambda>b. b\<lparr>bf_id := make_handle (word_of_nat k) (st_generation s)\<rparr>) (st_storage s)\<rparr>
        in (Inr k, (set_slot k s' m)
              \<lparr>mg_free_head := head, mg_free_tail := (if head = NO_INDEX then NO_INDEX else mg_free_tail m),
               mg_free_count := mg_free_count m - 1, mg_live_count := mg_live_count m + 1\<rparr>))
     else if mg_slots m \<noteq> [] \<and> length (mg_slots m) > unat MAX_LIVE_BUFFERS then (Inl out_of_buffers, m)
     else
       (let slots = (if mg_slots m = [] then [empty_slot] else mg_slots m); k = length slots
        in case make_slab (fst (mg_heap m k)) (snd (mg_heap m k)) BUFFER_SIZE of
             Inl e \<Rightarrow> (Inl e, m\<lparr>mg_slots := slots @ [empty_slot]\<rparr>)
           | Inr sl \<Rightarrow>
               (Inr k, m\<lparr>mg_slots := slots @
                  [empty_slot\<lparr>st_live := True,
                     st_storage := Some \<lparr>bf_id = make_handle (word_of_nat k) 0, bf_slab = sl\<rparr>\<rparr>],
                  mg_live_count := mg_live_count m + 1\<rparr>)))"

definition find_buffer :: "u16 \<Rightarrow> manager \<Rightarrow> nat option" where
  "find_buffer ident m =
     (let k = unat (handle_index ident)
      in if k = 0 \<or> k \<ge> length (mg_slots m) then None
         else if \<not> st_live (slot_at m k) \<or> st_generation (slot_at m k) \<noteq> handle_generation ident then None
         else Some k)"

definition free_buffer :: "u16 \<Rightarrow> manager \<Rightarrow> manager" where
  "free_buffer ident m =
     (let index = handle_index ident; k = unat index
      in if k = 0 \<or> k \<ge> length (mg_slots m) then m
         else let s = slot_at m k
              in if \<not> st_live s \<or> st_generation s \<noteq> handle_generation ident then m
         else let s' = s\<lparr>st_storage := map_option (\<lambda>b. b\<lparr>bf_slab := slab_clear (bf_slab b)\<rparr>) (st_storage s),
                         st_live := False,
                         st_generation := (st_generation s + 1) AND GENERATION_MASK,
                         st_next_free := NO_INDEX\<rparr>;
                  m1 = set_slot k s' m;
                  m2 = (if mg_free_tail m = NO_INDEX then m1\<lparr>mg_free_head := index, mg_free_tail := index\<rparr>
                        else (set_slot (unat (mg_free_tail m))
                                ((slot_at m1 (unat (mg_free_tail m)))\<lparr>st_next_free := index\<rparr>) m1)
                               \<lparr>mg_free_tail := index\<rparr>)
              in m2\<lparr>mg_live_count := mg_live_count m - 1, mg_free_count := mg_free_count m + 1\<rparr>)"

definition allocated_buffers :: "manager \<Rightarrow> u16" where
  "allocated_buffers m = mg_live_count m"

definition free_buffers :: "manager \<Rightarrow> u16" where
  "free_buffers m = mg_free_count m"

section \<open>Identifiers name a slot and an occupant\<close>

lemma masks: "INDEX_MASK = mask 12" "GENERATION_MASK = mask 4"
  by (simp_all add: INDEX_MASK_def GENERATION_MASK_def INDEX_BITS_def mask_eq_exp_minus_1)

lemma unat_MAX_LIVE_BUFFERS [simp]: "unat MAX_LIVE_BUFFERS = 4095"
  by (simp add: MAX_LIVE_BUFFERS_def masks mask_eq_exp_minus_1)

lemma handle_parts:
  "handle_index (make_handle index g) = take_bit 12 index" "handle_generation (make_handle index g) = take_bit 4 g"
  by (rule bit_word_eqI; auto simp: handle_index_def handle_generation_def make_handle_def masks INDEX_BITS_def
      bit_simps)+

lemma handle_bits:
  "bit (handle_index i) n \<longleftrightarrow> n < 12 \<and> bit i n" "bit (handle_generation i) n \<longleftrightarrow> bit i (12 + n)"
  "bit (make_handle j g) n \<longleftrightarrow> (if n < 12 then bit j n else n < 16 \<and> bit g (n - 12))"
  by (auto simp: handle_index_def handle_generation_def make_handle_def masks INDEX_BITS_def bit_simps)

lemma handle_whole: "make_handle (handle_index i) (handle_generation i) = i"
proof (rule bit_word_eqI)
  fix n assume "n < LENGTH(16)"
  then show "bit (make_handle (handle_index i) (handle_generation i)) n = bit i n"
    by (cases "n < 12") (simp_all only: handle_bits if_True if_False simp_thms, simp)
qed

lemma handle_eqI: "handle_index i = handle_index j \<Longrightarrow> handle_generation i = handle_generation j \<Longrightarrow> i = j"
  by (metis handle_whole)

lemma unat_take_12: "k < 4096 \<Longrightarrow> unat (take_bit 12 (word_of_nat k :: u16)) = k"
  by (simp add: unsigned_take_bit_eq unat_of_nat take_bit_nat_eq_self)

lemma generation_bound: "unat (handle_generation i) < 16"
proof -
  have "handle_generation i = take_bit 4 (handle_generation i)"
    by (rule bit_word_eqI) (use bit_imp_le_length[of i] in \<open>force simp: handle_bits bit_simps\<close>)
  then have "unat (handle_generation i) = take_bit 4 (unat (handle_generation i))"
    by (metis unsigned_take_bit_eq)
  then show ?thesis using take_bit_nat_less_exp[of 4 "unat (handle_generation i)"] by simp
qed

section \<open>The invariant\<close>

text \<open>
  The free list threads through the slots: \<open>chained slots i ks\<close> says that following \<open>st_next_free\<close> from
  \<open>i\<close> visits \<open>ks\<close> and ends.
\<close>

fun chained :: "slot list \<Rightarrow> u16 \<Rightarrow> nat list \<Rightarrow> bool" where
  "chained slots i [] \<longleftrightarrow> i = NO_INDEX"
| "chained slots i (k # ks) \<longleftrightarrow> i = word_of_nat k \<and> chained slots (st_next_free (slots ! k)) ks"

definition slot_ok :: "nat \<Rightarrow> slot \<Rightarrow> bool" where
  "slot_ok k s \<longleftrightarrow> unat (st_generation s) < 16
     \<and> (\<exists>b. st_storage s = Some b \<and> slab_ok (bf_slab b) \<and> slab_capacity (bf_slab b) = BUFFER_SIZE
          \<and> (st_live s \<longrightarrow> bf_id b = make_handle (word_of_nat k) (st_generation s))
          \<and> (\<not> st_live s \<longrightarrow> sb_used (bf_slab b) = 0))"

definition live_slots :: "manager \<Rightarrow> nat set" where
  "live_slots m = {k. k < length (mg_slots m) \<and> st_live (mg_slots m ! k)}"

definition free_order :: "manager \<Rightarrow> nat list \<Rightarrow> bool" where
  "free_order m ks \<longleftrightarrow> distinct ks \<and> set ks = {k. 0 < k \<and> k < length (mg_slots m) \<and> \<not> st_live (mg_slots m ! k)}
     \<and> chained (mg_slots m) (mg_free_head m) ks
     \<and> mg_free_tail m = (if ks = [] then NO_INDEX else word_of_nat (last ks))"

definition manager_ok :: "manager \<Rightarrow> bool" where
  "manager_ok m \<longleftrightarrow>
     length (mg_slots m) \<le> 4096 \<and> (mg_slots m \<noteq> [] \<longrightarrow> \<not> st_live (mg_slots m ! 0))
     \<and> (\<forall>k. 0 < k \<and> k < length (mg_slots m) \<longrightarrow> slot_ok k (mg_slots m ! k))
     \<and> (\<exists>ks. free_order m ks)
     \<and> mg_live_count m = word_of_nat (card (live_slots m))
     \<and> mg_free_count m = word_of_nat (length (mg_slots m) - 1 - card (live_slots m))"

lemma chained_update: "k \<notin> set ks \<Longrightarrow> chained (slots[k := s]) i ks = chained slots i ks"
  by (induction slots i ks rule: chained.induct) auto

lemma chained_grow: "\<forall>k\<in>set ks. k < length slots \<Longrightarrow> chained (slots @ new) i ks = chained slots i ks"
  by (induction slots i ks rule: chained.induct) (auto simp: nth_append)

lemma chained_extend:
  assumes "chained slots i ks" and "distinct (ks @ [x])" and "ks \<noteq> []" and "last ks < length slots"
    and "st_next_free (slots ! x) = NO_INDEX" and "st_next_free s = word_of_nat x"
  shows "chained (slots[last ks := s]) i (ks @ [x])"
  using assms
proof (induction slots i ks rule: chained.induct)
  case (2 slots i k ks)
  show ?case
  proof (cases "ks = []")
    case True
    then show ?thesis using 2 by auto
  next
    case False
    then have "k \<noteq> last ks" using 2 last_in_set[OF False] by auto
    then show ?thesis using 2 False by auto
  qed
qed simp

lemma index_word: "k < 4096 \<Longrightarrow> unat (word_of_nat k :: u16) = k" "k < 4096 \<Longrightarrow> (word_of_nat k :: u16) \<noteq> NO_INDEX"
proof -
  show u: "k < 4096 \<Longrightarrow> unat (word_of_nat k :: u16) = k" by (simp add: unat_of_nat)
  show "k < 4096 \<Longrightarrow> (word_of_nat k :: u16) \<noteq> NO_INDEX"
    using u by (auto simp: NO_INDEX_def dest!: arg_cong[where f = unat])
qed

lemma fresh_manager_ok [simp]: "manager_ok (fresh_manager heap)"
  by (auto simp: manager_ok_def fresh_manager_def free_order_def live_slots_def intro!: exI[of _ "[]"])

lemma live_slots_finite [simp]: "finite (live_slots m)"
  by (rule finite_subset[of _ "{..<length (mg_slots m)}"]) (auto simp: live_slots_def)

lemma manager_okD:
  assumes "manager_ok m"
  shows "length (mg_slots m) \<le> 4096" and "live_slots m \<subseteq> {1..<length (mg_slots m)}"
    and "card (live_slots m) \<le> length (mg_slots m) - 1"
    and "\<And>k. 0 < k \<Longrightarrow> k < length (mg_slots m) \<Longrightarrow> slot_ok k (mg_slots m ! k)"
proof -
  show "length (mg_slots m) \<le> 4096" and "\<And>k. 0 < k \<Longrightarrow> k < length (mg_slots m) \<Longrightarrow> slot_ok k (mg_slots m ! k)"
    using assms by (auto simp: manager_ok_def)
  show sub: "live_slots m \<subseteq> {1..<length (mg_slots m)}"
  proof
    fix k assume k: "k \<in> live_slots m"
    then have "mg_slots m \<noteq> []" by (auto simp: live_slots_def)
    then have "\<not> st_live (mg_slots m ! 0)" using assms unfolding manager_ok_def by blast
    then have "k \<noteq> 0" using k by (auto simp: live_slots_def intro: ccontr)
    then show "k \<in> {1..<length (mg_slots m)}" using k by (auto simp: live_slots_def)
  qed
  show "card (live_slots m) \<le> length (mg_slots m) - 1" using card_mono[OF _ sub] by simp
qed

lemma free_orderD:
  assumes "free_order m ks"
  shows "distinct ks" and "set ks = {k. 0 < k \<and> k < length (mg_slots m) \<and> \<not> st_live (mg_slots m ! k)}"
    and "chained (mg_slots m) (mg_free_head m) ks"
    and "mg_free_tail m = (if ks = [] then NO_INDEX else word_of_nat (last ks))"
  using assms unfolding free_order_def by blast+

lemma free_order_count:
  assumes "manager_ok m" and "free_order m ks"
  shows "length ks = length (mg_slots m) - 1 - card (live_slots m)"
proof -
  have "set ks = {1..<length (mg_slots m)} - live_slots m"
    unfolding free_orderD(2)[OF assms(2)] by (auto simp: live_slots_def)
  then have "card (set ks) = card {1..<length (mg_slots m)} - card (live_slots m)"
    using card_Diff_subset[OF live_slots_finite manager_okD(2)[OF assms(1)]] by simp
  moreover have "card (set ks) = length ks" by (rule distinct_card[OF free_orderD(1)[OF assms(2)]])
  ultimately show ?thesis by simp
qed

text \<open>What an operation does to the slots other than one.\<close>

definition others_kept :: "nat \<Rightarrow> manager \<Rightarrow> manager \<Rightarrow> bool" where
  "others_kept k m m' \<longleftrightarrow>
     (\<forall>j. 0 < j \<and> j < length (mg_slots m) \<and> j \<noteq> k \<longrightarrow>
        st_live (mg_slots m' ! j) = st_live (mg_slots m ! j)
        \<and> st_generation (mg_slots m' ! j) = st_generation (mg_slots m ! j)
        \<and> st_storage (mg_slots m' ! j) = st_storage (mg_slots m ! j))"

lemma make_buffer_slab:
  "\<exists>sl. make_slab base junk BUFFER_SIZE = Inr sl \<and> sb_used sl = 0 \<and> slab_capacity sl = BUFFER_SIZE \<and> slab_ok sl"
proof -
  have "nearest_power_of_two 65536 = Some 65536" by code_simp
  then show ?thesis
    by (simp add: make_slab_def BUFFER_SIZE_def MIN_PAGE_SIZE_def MAX_PAGE_SIZE_def slab_capacity_def slab_ok_def)
qed

lemma slots_ok_update:
  assumes "\<And>j. 0 < j \<Longrightarrow> j < length slots \<Longrightarrow> slot_ok j (slots ! j)" and "slot_ok k s"
  shows "\<forall>j. 0 < j \<and> j < length (slots[k := s]) \<longrightarrow> slot_ok j (slots[k := s] ! j)"
  using assms by (cases "k < length slots") (auto simp: nth_list_update)

lemma alloc_reuse:
  assumes ok: "manager_ok m" and head: "mg_free_head m \<noteq> NO_INDEX"
  obtains k m' where "alloc_buffer m = (Inr k, m')" "manager_ok m'" "0 < k" "k < length (mg_slots m)"
    "length (mg_slots m') = length (mg_slots m)" "live_slots m' = insert k (live_slots m)" "k \<notin> live_slots m"
    "others_kept k m m'" "st_generation (mg_slots m' ! k) = st_generation (mg_slots m ! k)"
    "\<exists>b. st_storage (mg_slots m' ! k) = Some b \<and> sb_used (bf_slab b) = 0"
proof -
  let ?n = "length (mg_slots m)"
  obtain ks0 where fo: "free_order m ks0" using ok by (auto simp: manager_ok_def)
  then obtain k ks where ks: "ks0 = k # ks" using head free_orderD(3)[OF fo] by (cases ks0) auto
  have k: "0 < k" "k < ?n" "\<not> st_live (mg_slots m ! k)" "k \<notin> set ks" and hd: "mg_free_head m = word_of_nat k"
    and chain: "chained (mg_slots m) (st_next_free (mg_slots m ! k)) ks" and dis: "distinct ks"
    and rest: "set ks = {j. 0 < j \<and> j < ?n \<and> \<not> st_live (mg_slots m ! j)} - {k}"
    using free_orderD[OF fo] unfolding ks by auto
  have n: "?n \<le> 4096" by (rule manager_okD(1)[OF ok])
  have uk: "unat (mg_free_head m) = k" using hd k n by (simp add: index_word)
  let ?s = "mg_slots m ! k"
  obtain b where b: "st_storage ?s = Some b" "sb_used (bf_slab b) = 0" "slab_ok (bf_slab b)"
      "slab_capacity (bf_slab b) = BUFFER_SIZE" "unat (st_generation ?s) < 16"
    using manager_okD(4)[OF ok k(1,2)] k(3) by (auto simp: slot_ok_def)
  define s' where "s' = ?s\<lparr>st_next_free := NO_INDEX, st_live := True,
      st_storage := Some (b\<lparr>bf_id := make_handle (word_of_nat k) (st_generation ?s)\<rparr>)\<rparr>"
  define m' where "m' = (set_slot k s' m)\<lparr>mg_free_head := st_next_free ?s,
      mg_free_tail := (if st_next_free ?s = NO_INDEX then NO_INDEX else mg_free_tail m),
      mg_free_count := mg_free_count m - 1, mg_live_count := mg_live_count m + 1\<rparr>"
  have run: "alloc_buffer m = (Inr k, m')"
    using head by (simp add: alloc_buffer_def Let_def uk slot_at_def m'_def s'_def b(1))
  have slots: "mg_slots m' = (mg_slots m)[k := s']" by (simp add: m'_def set_slot_def)
  have live: "live_slots m' = insert k (live_slots m)"
    using k by (auto simp: live_slots_def slots s'_def nth_list_update)
  have nk: "k \<notin> live_slots m" using k by (simp add: live_slots_def)
  have fo': "free_order m' ks"
    unfolding free_order_def
  proof (intro conjI)
    show "set ks = {j. 0 < j \<and> j < length (mg_slots m') \<and> \<not> st_live (mg_slots m' ! j)}"
      using k by (auto simp: rest slots s'_def nth_list_update)
    show "chained (mg_slots m') (mg_free_head m') ks"
      using chain k(4) by (simp add: slots chained_update) (simp add: m'_def)
    have "ks = [] \<longleftrightarrow> st_next_free ?s = NO_INDEX"
    proof (cases ks)
      case (Cons j js)
      then have "j \<in> set ks" by simp
      then have "j < 4096" unfolding rest using n by simp
      from index_word(2)[OF this] show ?thesis using chain Cons by simp
    qed (use chain in simp)
    then show "mg_free_tail m' = (if ks = [] then NO_INDEX else word_of_nat (last ks))"
      using free_orderD(4)[OF fo] unfolding ks by (auto simp: m'_def)
  qed (rule dis)
  have cards: "card (live_slots m') = Suc (card (live_slots m))" using live nk by simp
  have "length ks0 = ?n - 1 - card (live_slots m)" by (rule free_order_count[OF ok fo])
  then have cnt: "?n - 1 - card (live_slots m) = Suc (length ks)" using ks by simp
  then have cnt': "?n - 1 - card (live_slots m') = length ks" using cards by simp
  have "mg_free_count m = word_of_nat (Suc (length ks))" using ok cnt unfolding manager_ok_def by metis
  then have fc: "mg_free_count m' = word_of_nat (length ks)" by (simp add: m'_def)
  have "manager_ok m'"
    unfolding manager_ok_def
  proof (intro conjI)
    show "\<exists>ks. free_order m' ks" using fo' by blast
    show "mg_live_count m' = word_of_nat (card (live_slots m'))"
      using ok cards by (simp add: manager_ok_def m'_def)
    show "mg_free_count m' = word_of_nat (length (mg_slots m') - 1 - card (live_slots m'))"
      by (simp only: fc slots length_list_update cnt')
    show "\<forall>j. 0 < j \<and> j < length (mg_slots m') \<longrightarrow> slot_ok j (mg_slots m' ! j)"
      unfolding slots using b by (intro slots_ok_update manager_okD(4)[OF ok]) (simp_all add: s'_def slot_ok_def)
  qed (use ok k in \<open>auto simp: manager_ok_def slots\<close>)
  then show ?thesis
    by (rule that[OF run _ k(1,2) _ live nk])
      (use k b in \<open>auto simp: slots s'_def others_kept_def nth_list_update\<close>)
qed

lemma free_order_Nil:
  assumes "manager_ok m" and "mg_free_head m = NO_INDEX"
  shows "free_order m []" and "card (live_slots m) = length (mg_slots m) - 1"
proof -
  obtain ks where fo: "free_order m ks" using assms(1) by (auto simp: manager_ok_def)
  have "ks = []"
  proof (cases ks)
    case (Cons k js)
    then have "k \<in> set ks" by simp
    then have "k < 4096" unfolding free_orderD(2)[OF fo] using manager_okD(1)[OF assms(1)] by simp
    from index_word(2)[OF this] show ?thesis using free_orderD(3)[OF fo] Cons assms(2) by simp
  qed
  then show nil: "free_order m []" using fo by simp
  show "card (live_slots m) = length (mg_slots m) - 1"
    using free_order_count[OF assms(1) nil] manager_okD(3)[OF assms(1)] by simp
qed

lemma alloc_grow:
  assumes ok: "manager_ok m" and head: "mg_free_head m = NO_INDEX" and room: "card (live_slots m) < 4095"
  obtains k m' where "alloc_buffer m = (Inr k, m')" "manager_ok m'" "0 < k" "k < length (mg_slots m')"
    "length (mg_slots m) \<le> k" "live_slots m' = insert k (live_slots m)" "k \<notin> live_slots m" "others_kept k m m'"
    "st_generation (mg_slots m' ! k) = 0" "\<exists>b. st_storage (mg_slots m' ! k) = Some b \<and> sb_used (bf_slab b) = 0"
proof -
  let ?n = "length (mg_slots m)"
  note nil = free_order_Nil[OF ok head]
  have n: "?n \<le> 4095" using nil(2) room by simp
  define slots where "slots = (if mg_slots m = [] then [empty_slot] else mg_slots m)"
  define k where "k = length slots"
  have k: "0 < k" "k < 4096" "?n \<le> k" using n by (auto simp: k_def slots_def)
  obtain sl where sl: "make_slab (fst (mg_heap m k)) (snd (mg_heap m k)) BUFFER_SIZE = Inr sl" "sb_used sl = 0"
      "slab_capacity sl = BUFFER_SIZE" "slab_ok sl" using make_buffer_slab by blast
  define s' where "s' = empty_slot\<lparr>st_live := True,
      st_storage := Some \<lparr>bf_id = make_handle (word_of_nat k) 0, bf_slab = sl\<rparr>\<rparr>"
  define m' where "m' = m\<lparr>mg_slots := slots @ [s'], mg_live_count := mg_live_count m + 1\<rparr>"
  have run: "alloc_buffer m = (Inr k, m')"
    using head n sl(1) by (simp add: alloc_buffer_def Let_def slots_def[symmetric] k_def[symmetric] m'_def s'_def)
  have ms: "mg_slots m' = slots @ [s']" by (simp add: m'_def)
  have old: "slots ! j = mg_slots m ! j" if "j < ?n" for j using that by (auto simp: slots_def)
  have zero: "\<not> st_live (slots ! 0)"
    using ok by (auto simp: slots_def empty_slot_def manager_ok_def)
  have shape: "length slots = max 1 ?n" by (cases "mg_slots m") (auto simp: slots_def)
  have live: "live_slots m' = insert k (live_slots m)"
  proof (rule set_eqI)
    fix j
    have "j \<in> live_slots m' \<longleftrightarrow> j = k \<or> j < k \<and> st_live (slots ! j)"
      by (auto simp: live_slots_def ms nth_append k_def s'_def less_Suc_eq)
    also have "(j < k \<and> st_live (slots ! j)) \<longleftrightarrow> j \<in> live_slots m"
      using zero old[of j] shape by (cases "j < ?n") (auto simp: live_slots_def k_def max_def split: if_splits)
    finally show "j \<in> live_slots m' \<longleftrightarrow> j \<in> insert k (live_slots m)" by simp
  qed
  have nk: "k \<notin> live_slots m" using k by (auto simp: live_slots_def)
  have cards: "card (live_slots m') = Suc (card (live_slots m))" using live nk by simp
  have lm: "length (mg_slots m') = Suc k" by (simp add: ms k_def)
  have full: "card (live_slots m') = k"
    using cards nil(2) shape by (simp add: k_def max_def split: if_splits)
  have sok: "slot_ok k s'" using sl by (simp add: slot_ok_def s'_def empty_slot_def)
  have "manager_ok m'"
    unfolding manager_ok_def
  proof (intro conjI)
    show "length (mg_slots m') \<le> 4096" using lm k by simp
    show "mg_slots m' \<noteq> [] \<longrightarrow> \<not> st_live (mg_slots m' ! 0)" using zero k by (simp add: ms nth_append k_def)
    show "\<forall>j. 0 < j \<and> j < length (mg_slots m') \<longrightarrow> slot_ok j (mg_slots m' ! j)"
    proof (intro allI impI)
      fix j assume j: "0 < j \<and> j < length (mg_slots m')"
      show "slot_ok j (mg_slots m' ! j)"
      proof (cases "j = k")
        case True
        then show ?thesis using sok by (simp add: ms nth_append k_def)
      next
        case False
        then have jk: "j < k" using j lm by simp
        then have "j < ?n" using j shape by (simp add: k_def max_def split: if_splits)
        then show ?thesis using jk j old[of j] manager_okD(4)[OF ok, of j] by (simp add: ms nth_append k_def)
      qed
    qed
    have "{j. 0 < j \<and> j < length (mg_slots m') \<and> \<not> st_live (mg_slots m' ! j)} = {}"
    proof -
      have "live_slots m' \<subseteq> {1..<Suc k}"
        using manager_okD(2)[OF ok] k unfolding live by (auto dest: subsetD)
      then have all: "live_slots m' = {1..<Suc k}" using card_subset_eq[of "{1..<Suc k}" "live_slots m'"] full by simp
      have "st_live (mg_slots m' ! j)" if "0 < j" and "j < length (mg_slots m')" for j
      proof -
        have "j \<in> live_slots m'" unfolding all using that lm by simp
        then show ?thesis by (simp add: live_slots_def)
      qed
      then show ?thesis by blast
    qed
    then have "free_order m' []" using free_orderD(3,4)[OF nil(1)] by (simp add: free_order_def) (simp add: m'_def)
    then show "\<exists>ks. free_order m' ks" by blast
    show "mg_live_count m' = word_of_nat (card (live_slots m'))"
      using ok unfolding cards manager_ok_def by (simp add: m'_def)
    have "mg_free_count m = word_of_nat (?n - 1 - card (live_slots m))" using ok unfolding manager_ok_def by blast
    then show "mg_free_count m' = word_of_nat (length (mg_slots m') - 1 - card (live_slots m'))"
      unfolding full lm nil(2) by (simp add: m'_def)
  qed
  then show ?thesis
    by (rule that[OF run _ k(1) _ k(3) live nk])
      (use sl old in \<open>auto simp: ms nth_append k_def s'_def empty_slot_def others_kept_def slots_def\<close>)
qed

lemma alloc_full:
  assumes ok: "manager_ok m" and full: "\<not> card (live_slots m) < 4095"
  shows "alloc_buffer m = (Inl out_of_buffers, m)"
proof -
  have n: "length (mg_slots m) = 4096" "card (live_slots m) = 4095"
    using manager_okD(1,3)[OF ok] full by auto
  obtain ks where fo: "free_order m ks" using ok by (auto simp: manager_ok_def)
  then have "ks = []" using free_order_count[OF ok fo] n by simp
  then have "mg_free_head m = NO_INDEX" using free_orderD(3)[OF fo] by simp
  moreover have "mg_slots m \<noteq> []" using n by auto
  ultimately show ?thesis using n by (simp add: alloc_buffer_def)
qed

lemma free_unknown: "find_buffer ident m = None \<Longrightarrow> free_buffer ident m = m"
  by (auto simp: find_buffer_def free_buffer_def Let_def split: if_splits)

lemma find_Some:
  assumes "find_buffer ident m = Some k"
  shows "k = unat (handle_index ident)" and "0 < k" and "k < length (mg_slots m)" and "k \<in> live_slots m"
    and "st_generation (mg_slots m ! k) = handle_generation ident"
  using assms by (auto simp: find_buffer_def Let_def live_slots_def slot_at_def split: if_splits)

lemma find_iff:
  "find_buffer ident m = Some k \<longleftrightarrow> k = unat (handle_index ident) \<and> 0 < k \<and> k \<in> live_slots m
     \<and> st_generation (mg_slots m ! k) = handle_generation ident"
  by (auto simp: find_buffer_def Let_def live_slots_def slot_at_def)

lemma free_effect:
  assumes ok: "manager_ok m" and f: "find_buffer ident m = Some k"
  defines "m' \<equiv> free_buffer ident m"
  shows "manager_ok m'" and "length (mg_slots m') = length (mg_slots m)" and "live_slots m' = live_slots m - {k}"
    and "others_kept k m m'" and "st_generation (mg_slots m' ! k) = (handle_generation ident + 1) AND GENERATION_MASK"
proof -
  let ?n = "length (mg_slots m)" and ?s = "mg_slots m ! k"
  note F = find_Some[OF f]
  have n: "?n \<le> 4096" by (rule manager_okD(1)[OF ok])
  have live: "st_live ?s" using F by (simp add: live_slots_def)
  have w: "handle_index ident = word_of_nat k" using F(1) by simp
  obtain b where b: "st_storage ?s = Some b" "slab_ok (bf_slab b)" "slab_capacity (bf_slab b) = BUFFER_SIZE"
    using manager_okD(4)[OF ok F(2,3)] by (auto simp: slot_ok_def)
  obtain ks where fo: "free_order m ks" using ok by (auto simp: manager_ok_def)
  note D = free_orderD[OF fo]
  define s' where "s' = ?s\<lparr>st_storage := Some (b\<lparr>bf_slab := slab_clear (bf_slab b)\<rparr>), st_live := False,
      st_generation := (handle_generation ident + 1) AND GENERATION_MASK, st_next_free := NO_INDEX\<rparr>"
  define slots1 where "slots1 = (mg_slots m)[k := s']"
  define slots2 where "slots2 = (if ks = [] then slots1
      else slots1[last ks := (slots1 ! last ks)\<lparr>st_next_free := word_of_nat k\<rparr>])"
  have tail_in: "last ks \<in> set ks" if "ks \<noteq> []" using that by simp
  then have tail: "0 < last ks" "last ks < ?n" "last ks \<noteq> k" if "ks \<noteq> []"
    using that live unfolding D(2) by auto
  have tw: "mg_free_tail m = NO_INDEX \<longleftrightarrow> ks = []" and tu: "ks \<noteq> [] \<Longrightarrow> unat (mg_free_tail m) = last ks"
    using D(4) tail n index_word[of "last ks"] by auto
  have m': "m' = m\<lparr>mg_slots := slots2, mg_free_head := (if ks = [] then word_of_nat k else mg_free_head m),
      mg_free_tail := word_of_nat k, mg_live_count := mg_live_count m - 1, mg_free_count := mg_free_count m + 1\<rparr>"
    using F live b tw tu
    by (simp add: m'_def free_buffer_def Let_def slot_at_def set_slot_def F(1)[symmetric] w slots2_def slots1_def s'_def)
  have ms: "mg_slots m' = slots2" by (simp add: m')
  have l2: "length slots2 = ?n" by (simp add: slots2_def slots1_def)
  show len: "length (mg_slots m') = ?n" by (simp add: ms l2)
  have at_k: "slots2 ! k = s'"
    using F(3) tail(3) by (auto simp: slots2_def slots1_def)
  have at_j: "st_live (slots2 ! j) = st_live (mg_slots m ! j) \<and> st_generation (slots2 ! j) = st_generation (mg_slots m ! j)
      \<and> st_storage (slots2 ! j) = st_storage (mg_slots m ! j)" if "j \<noteq> k" for j
    using that tail F(3) by (cases "j = last ks") (auto simp: slots2_def slots1_def)
  show "others_kept k m m'" using at_j by (simp add: others_kept_def ms)
  show gen: "st_generation (mg_slots m' ! k) = (handle_generation ident + 1) AND GENERATION_MASK"
    by (simp add: ms at_k s'_def)
  show lv: "live_slots m' = live_slots m - {k}"
  proof (rule set_eqI)
    fix j show "j \<in> live_slots m' \<longleftrightarrow> j \<in> live_slots m - {k}"
      by (cases "j = k") (auto simp: live_slots_def ms l2 at_k s'_def at_j)
  qed
  have nk: "k \<notin> set ks" unfolding D(2) using live by simp
  have kin: "k < 4096" using F(3) n by simp
  have fo': "free_order m' (ks @ [k])"
    unfolding free_order_def
  proof (intro conjI)
    show "distinct (ks @ [k])" using D(1) nk by simp
    show "set (ks @ [k]) = {j. 0 < j \<and> j < length (mg_slots m') \<and> \<not> st_live (mg_slots m' ! j)}"
    proof (rule set_eqI)
      fix j show "j \<in> set (ks @ [k]) \<longleftrightarrow> j \<in> {j. 0 < j \<and> j < length (mg_slots m') \<and> \<not> st_live (mg_slots m' ! j)}"
        using F(2,3) at_j[of j] by (cases "j = k") (simp_all add: D(2) ms l2 at_k s'_def)
    qed
    show "chained (mg_slots m') (mg_free_head m') (ks @ [k])"
    proof (cases "ks = []")
      case True
      then show ?thesis by (simp add: ms at_k s'_def) (simp add: m')
    next
      case False
      have "chained slots1 (mg_free_head m) ks" using D(3) nk by (simp add: slots1_def chained_update)
      moreover have "st_next_free (slots1 ! k) = NO_INDEX" using F(3) by (simp add: slots1_def s'_def)
      ultimately have "chained slots2 (mg_free_head m) (ks @ [k])"
        using chained_extend[of slots1 "mg_free_head m" ks k "(slots1 ! last ks)\<lparr>st_next_free := word_of_nat k\<rparr>"]
          False D(1) nk tail(2)[OF False] by (simp add: slots2_def slots1_def)
      moreover have "mg_free_head m' = mg_free_head m" using False by (simp add: m')
      ultimately show ?thesis by (simp add: ms)
    qed
    show "mg_free_tail m' = (if ks @ [k] = [] then NO_INDEX else word_of_nat (last (ks @ [k])))" by (simp add: m')
  qed
  have kl: "k \<in> live_slots m" by (rule F(4))
  then have cards: "card (live_slots m) = Suc (card (live_slots m'))"
    unfolding lv by (rule card_Suc_Diff1[OF live_slots_finite, symmetric])
  have room: "card (live_slots m) \<le> ?n - 1" by (rule manager_okD(3)[OF ok])
  show "manager_ok m'"
    unfolding manager_ok_def
  proof (intro conjI)
    show "length (mg_slots m') \<le> 4096" using n len by simp
    show "mg_slots m' \<noteq> [] \<longrightarrow> \<not> st_live (mg_slots m' ! 0)"
      using at_j[of 0] F(2,3) ok unfolding manager_ok_def ms by auto
    show "\<exists>ks. free_order m' ks" using fo' by blast
    show "\<forall>j. 0 < j \<and> j < length (mg_slots m') \<longrightarrow> slot_ok j (mg_slots m' ! j)"
    proof (intro allI impI)
      fix j assume j: "0 < j \<and> j < length (mg_slots m')"
      show "slot_ok j (mg_slots m' ! j)"
      proof (cases "j = k")
        case True
        have "take_bit 4 (unat ((handle_generation ident + 1) AND GENERATION_MASK))
            = unat ((handle_generation ident + 1) AND GENERATION_MASK)"
          by (simp add: masks take_bit_eq_mask[symmetric] unsigned_take_bit_eq)
        then have "unat ((handle_generation ident + 1) AND GENERATION_MASK) < 16"
          using take_bit_nat_less_exp[of 4 "unat ((handle_generation ident + 1) AND GENERATION_MASK)"] by simp
        then show ?thesis using True b
          by (simp add: ms at_k s'_def slot_ok_def slab_clear_def slab_ok_def slab_capacity_def)
      next
        case False
        then show ?thesis using manager_okD(4)[OF ok, of j] j len at_j[OF False] by (simp add: ms slot_ok_def)
      qed
    qed
    have lc: "mg_live_count m = word_of_nat (card (live_slots m))"
      and fc: "mg_free_count m = word_of_nat (?n - 1 - card (live_slots m))" using ok unfolding manager_ok_def by blast+
    have more: "?n - 1 - card (live_slots m') = Suc (?n - 1 - card (live_slots m))" using cards room by simp
    have "mg_live_count m' = mg_live_count m - 1" "mg_free_count m' = mg_free_count m + 1" by (simp_all add: m')
    then show "mg_live_count m' = word_of_nat (card (live_slots m'))"
      and "mg_free_count m' = word_of_nat (length (mg_slots m') - 1 - card (live_slots m'))"
      unfolding lc fc len more unfolding cards by simp_all
  qed
qed

section \<open>Handles over time\<close>

text \<open>The identifier of the buffer in a slot.\<close>

definition handle_of :: "manager \<Rightarrow> nat \<Rightarrow> u16" where
  "handle_of m k = (case st_storage (mg_slots m ! k) of None \<Rightarrow> 0 | Some b \<Rightarrow> bf_id b)"

lemma handle_of_live:
  assumes "manager_ok m" and "k \<in> live_slots m"
  shows "handle_of m k = make_handle (word_of_nat k) (st_generation (mg_slots m ! k))"
    and "find_buffer (handle_of m k) m = Some k" and "handle_of m k \<noteq> 0"
proof -
  have k: "0 < k" "k < length (mg_slots m)" using manager_okD(2)[OF assms(1)] assms(2) by auto
  then have k4: "k < 4096" using manager_okD(1)[OF assms(1)] by simp
  have live: "st_live (mg_slots m ! k)" using assms(2) by (simp add: live_slots_def)
  have so: "slot_ok k (mg_slots m ! k)" by (rule manager_okD(4)[OF assms(1) k])
  then show h: "handle_of m k = make_handle (word_of_nat k) (st_generation (mg_slots m ! k))"
    using live by (auto simp: slot_ok_def handle_of_def)
  have ix: "unat (handle_index (handle_of m k)) = k" using k4 by (simp only: h handle_parts unat_take_12)
  have "unat (st_generation (mg_slots m ! k)) < 16" using so by (simp add: slot_ok_def)
  then have "unat (take_bit 4 (st_generation (mg_slots m ! k))) = unat (st_generation (mg_slots m ! k))"
    by (simp add: unsigned_take_bit_eq take_bit_nat_eq_self)
  then have "handle_generation (handle_of m k) = st_generation (mg_slots m ! k)"
    by (simp only: h handle_parts word_unat_eq_iff)
  then show "find_buffer (handle_of m k) m = Some k" using ix k assms(2) by (simp add: find_iff)
  show "handle_of m k \<noteq> 0" using ix k by (auto simp: handle_index_def)
qed

lemma others_kept_find:
  assumes "others_kept k m m'" and "find_buffer i m = Some j" and "j \<noteq> k" and "length (mg_slots m) \<le> length (mg_slots m')"
  shows "find_buffer i m' = Some j"
  using assms find_Some[OF assms(2)] by (auto simp: find_iff others_kept_def live_slots_def)

text \<open>
  Property C32.  The buffer manager hands out every one of its 4095 buffers and each under an identifier of
  its own.  An allocation succeeds exactly when fewer than 4095 buffers are in use; it returns an empty
  buffer that was not in use, under an identifier that is not 0 and that finds it.  Freeing a buffer
  makes its identifier find nothing; freeing through an identifier that finds nothing changes nothing.
  Neither touches any other buffer, and the counts and the queue of free slots stay consistent.
\<close>

theorem buffer_manager_hands_out:
  assumes "manager_ok m"
  shows "(card (live_slots m) < 4095 \<longrightarrow>
      (\<exists>k m'. alloc_buffer m = (Inr k, m') \<and> manager_ok m' \<and> k \<notin> live_slots m \<and> live_slots m' = insert k (live_slots m)
         \<and> handle_of m' k \<noteq> 0 \<and> find_buffer (handle_of m' k) m' = Some k
         \<and> (\<exists>b. st_storage (mg_slots m' ! k) = Some b \<and> sb_used (bf_slab b) = 0)
         \<and> allocated_buffers m' = allocated_buffers m + 1
         \<and> (\<forall>i j. find_buffer i m = Some j \<longrightarrow> find_buffer i m' = Some j
              \<and> st_storage (mg_slots m' ! j) = st_storage (mg_slots m ! j))))
    \<and> (\<not> card (live_slots m) < 4095 \<longrightarrow> alloc_buffer m = (Inl out_of_buffers, m))
    \<and> (find_buffer ident m = None \<longrightarrow> free_buffer ident m = m)
    \<and> (\<forall>k. find_buffer ident m = Some k \<longrightarrow>
         manager_ok (free_buffer ident m) \<and> find_buffer ident (free_buffer ident m) = None
         \<and> live_slots (free_buffer ident m) = live_slots m - {k}
         \<and> (\<forall>i j. find_buffer i m = Some j \<and> j \<noteq> k \<longrightarrow> find_buffer i (free_buffer ident m) = Some j
              \<and> st_storage (mg_slots (free_buffer ident m) ! j) = st_storage (mg_slots m ! j)))"
proof (intro conjI impI allI)
  assume room: "card (live_slots m) < 4095"
  obtain k m' where a: "alloc_buffer m = (Inr k, m')" "manager_ok m'" "k \<notin> live_slots m"
      "live_slots m' = insert k (live_slots m)" "others_kept k m m'" "length (mg_slots m) \<le> length (mg_slots m')"
      "\<exists>b. st_storage (mg_slots m' ! k) = Some b \<and> sb_used (bf_slab b) = 0"
  proof (cases "mg_free_head m = NO_INDEX")
    case True
    show ?thesis by (rule alloc_grow[OF assms True room]) (rule that, assumption+, simp, assumption)
  next
    case False
    show ?thesis by (rule alloc_reuse[OF assms False]) (rule that, assumption+, simp, assumption)
  qed
  have kin: "k \<in> live_slots m'" using a(4) by simp
  have counts: "mg_live_count m = word_of_nat (card (live_slots m))" "mg_live_count m' = word_of_nat (card (live_slots m'))"
    using assms a(2) unfolding manager_ok_def by blast+
  then have "allocated_buffers m' = allocated_buffers m + 1"
    using a(3) unfolding allocated_buffers_def a(4) by simp
  moreover have "find_buffer i m' = Some j \<and> st_storage (mg_slots m' ! j) = st_storage (mg_slots m ! j)"
    if "find_buffer i m = Some j" for i j
  proof -
    have "j \<noteq> k" using find_Some(4)[OF that] a(3) by auto
    then show ?thesis
      using others_kept_find[OF a(5) that _ a(6)] find_Some(2,3)[OF that] a(5) by (simp add: others_kept_def)
  qed
  ultimately show "\<exists>k m'. alloc_buffer m = (Inr k, m') \<and> manager_ok m' \<and> k \<notin> live_slots m
         \<and> live_slots m' = insert k (live_slots m)
         \<and> handle_of m' k \<noteq> 0 \<and> find_buffer (handle_of m' k) m' = Some k
         \<and> (\<exists>b. st_storage (mg_slots m' ! k) = Some b \<and> sb_used (bf_slab b) = 0)
         \<and> allocated_buffers m' = allocated_buffers m + 1
         \<and> (\<forall>i j. find_buffer i m = Some j \<longrightarrow> find_buffer i m' = Some j
              \<and> st_storage (mg_slots m' ! j) = st_storage (mg_slots m ! j))"
    using a handle_of_live(2,3)[OF a(2) kin] by blast
next
  assume "\<not> card (live_slots m) < 4095"
  then show "alloc_buffer m = (Inl out_of_buffers, m)" by (rule alloc_full[OF assms])
next
  assume "find_buffer ident m = None"
  then show "free_buffer ident m = m" by (rule free_unknown)
next
  fix k assume f: "find_buffer ident m = Some k"
  note e = free_effect[OF assms f]
  show "manager_ok (free_buffer ident m)" "live_slots (free_buffer ident m) = live_slots m - {k}" by (rule e)+
  have "k \<notin> live_slots (free_buffer ident m)" unfolding e(3) by simp
  then show "find_buffer ident (free_buffer ident m) = None"
    using find_iff[of ident "free_buffer ident m"] find_Some(1)[OF f] by (cases "find_buffer ident (free_buffer ident m)") auto
  fix i j assume j: "find_buffer i m = Some j \<and> j \<noteq> k"
  then show "find_buffer i (free_buffer ident m) = Some j"
    using others_kept_find[OF e(4), of i j] e(2) by simp
  show "st_storage (mg_slots (free_buffer ident m) ! j) = st_storage (mg_slots m ! j)"
    using e(4) j find_Some(2,3)[of i m j] by (simp add: others_kept_def)
qed

lemma buffer_manager_hands_out_witness:
  "(\<exists>k m'. alloc_buffer (fresh_manager (\<lambda>_. (0, \<lambda>_. 0))) = (Inr k, m') \<and> live_slots m' = {k}
      \<and> find_buffer (handle_of m' k) m' = Some k)
   \<and> free_buffer 5 (fresh_manager (\<lambda>_. (0, \<lambda>_. 0))) = fresh_manager (\<lambda>_. (0, \<lambda>_. 0))"
proof -
  let ?m = "fresh_manager (\<lambda>_. (0, \<lambda>_. 0))"
  have l: "live_slots ?m = {}" by (simp add: live_slots_def fresh_manager_def)
  have f: "find_buffer 5 ?m = None" by (simp add: find_buffer_def fresh_manager_def)
  note t = buffer_manager_hands_out[of ?m 5, OF fresh_manager_ok]
  have "\<exists>k m'. alloc_buffer ?m = (Inr k, m') \<and> live_slots m' = {k} \<and> find_buffer (handle_of m' k) m' = Some k"
    using t[THEN conjunct1] l by auto
  moreover have "free_buffer 5 ?m = ?m" using t f by blast
  ultimately show ?thesis by blast
qed

section \<open>Stale identifiers\<close>

datatype manager_op = Op_Alloc | Op_Free u16

definition run_op :: "manager_op \<Rightarrow> manager \<Rightarrow> manager" where
  "run_op op m = (case op of Op_Alloc \<Rightarrow> snd (alloc_buffer m) | Op_Free i \<Rightarrow> free_buffer i m)"

text \<open>How often a sequence of operations frees slot \<open>k\<close>.\<close>

fun frees :: "nat \<Rightarrow> manager_op list \<Rightarrow> manager \<Rightarrow> nat" where
  "frees k [] m = 0"
| "frees k (op # ops) m =
     (if (case op of Op_Free i \<Rightarrow> find_buffer i m = Some k | Op_Alloc \<Rightarrow> False) then 1 else 0) + frees k ops (run_op op m)"

lemma next_generation:
  assumes "unat (g :: u16) < 16"
  shows "unat ((g + 1) AND GENERATION_MASK) = (unat g + 1) mod 16"
proof -
  have "unat (g + 1) = unat g + 1" using assms by (simp add: unat_word_ariths)
  moreover have "unat ((g + 1) AND GENERATION_MASK) = take_bit 4 (unat (g + 1))"
    by (simp only: masks take_bit_eq_mask[symmetric] unsigned_take_bit_eq)
  ultimately show ?thesis by (simp add: take_bit_eq_mod)
qed

lemma run_op_generation:
  assumes ok: "manager_ok m" and k: "0 < k" "k < length (mg_slots m)"
  shows "manager_ok (run_op op m) \<and> k < length (mg_slots (run_op op m))
    \<and> unat (st_generation (mg_slots (run_op op m) ! k)) = (unat (st_generation (mg_slots m ! k)) + frees k [op] m) mod 16"
proof -
  have g: "unat (st_generation (mg_slots m ! k)) < 16" using manager_okD(4)[OF ok k] by (simp add: slot_ok_def)
  show ?thesis
  proof (cases op)
    case Op_Alloc
    show ?thesis
    proof (cases "card (live_slots m) < 4095")
      case False
      then show ?thesis using alloc_full[OF ok] ok k g Op_Alloc by (simp add: run_op_def)
    next
      case True
      show ?thesis
      proof (cases "mg_free_head m = NO_INDEX")
        case head: True
        obtain j m' where a: "alloc_buffer m = (Inr j, m')" "manager_ok m'" "length (mg_slots m) \<le> j"
          "j < length (mg_slots m')" "others_kept j m m'" by (rule alloc_grow[OF ok head True])
        then have "st_generation (mg_slots m' ! k) = st_generation (mg_slots m ! k)" using k by (simp add: others_kept_def)
        then show ?thesis using a k g Op_Alloc by (simp add: run_op_def)
      next
        case False
        obtain j m' where a: "alloc_buffer m = (Inr j, m')" "manager_ok m'" "length (mg_slots m') = length (mg_slots m)"
          "others_kept j m m'" "st_generation (mg_slots m' ! j) = st_generation (mg_slots m ! j)"
          by (rule alloc_reuse[OF ok False])
        then have "st_generation (mg_slots m' ! k) = st_generation (mg_slots m ! k)"
          using k by (cases "k = j") (simp_all add: others_kept_def)
        then show ?thesis using a k g Op_Alloc by (simp add: run_op_def)
      qed
    qed
  next
    case (Op_Free i)
    show ?thesis
    proof (cases "find_buffer i m")
      case None
      then show ?thesis using free_unknown[OF None] ok k g Op_Free by (simp add: run_op_def)
    next
      case (Some j)
      note e = free_effect[OF ok Some]
      show ?thesis
      proof (cases "j = k")
        case True
        then show ?thesis using e find_Some(5)[OF Some] Some Op_Free k next_generation[of "handle_generation i"] generation_bound[of i]
          by (simp add: run_op_def)
      next
        case False
        then show ?thesis using e(1,2,4) Some Op_Free k g by (simp add: run_op_def others_kept_def)
      qed
    qed
  qed
qed

lemma run_ops_generation:
  "manager_ok m \<Longrightarrow> 0 < k \<Longrightarrow> k < length (mg_slots m) \<Longrightarrow>
   unat (st_generation (mg_slots (fold run_op ops m) ! k)) = (unat (st_generation (mg_slots m ! k)) + frees k ops m) mod 16"
proof (induction ops arbitrary: m)
  case Nil
  then show ?case using manager_okD(4)[of m k] by (simp add: slot_ok_def)
next
  case (Cons op ops)
  note r = run_op_generation[OF Cons.prems, of op]
  have "frees k (op # ops) m = frees k [op] m + frees k ops (run_op op m)" by simp
  then show ?case using Cons.IH[of "run_op op m"] r Cons.prems(2) by (simp add: mod_simps add.assoc del: frees.simps)
qed

text \<open>
  Property C33.  A stale identifier does not come back to life.  After a buffer was freed, and through any
  sequence of allocations and frees, its old identifier finds nothing until the slot of the buffer has
  been freed another fifteen times.
\<close>

theorem stale_handle_finds_nothing:
  assumes "manager_ok m" and "find_buffer ident m = Some k"
    and "frees k ops (free_buffer ident m) < 15"
  shows "find_buffer ident (fold run_op ops (free_buffer ident m)) = None"
proof (rule ccontr)
  let ?m1 = "free_buffer ident m" and ?g = "unat (handle_generation ident)"
  assume "find_buffer ident (fold run_op ops ?m1) \<noteq> None"
  then obtain j where "find_buffer ident (fold run_op ops ?m1) = Some j" by blast
  note j = find_Some[OF this]
  have k: "0 < k" "k < length (mg_slots ?m1)"
    using find_Some(2,3)[OF assms(2)] free_effect(2)[OF assms(1,2)] by simp_all
  have "j = k" using j(1) find_Some(1)[OF assms(2)] by simp
  then have "st_generation (mg_slots (fold run_op ops ?m1) ! k) = handle_generation ident" using j(5) by simp
  then have "?g = (unat (st_generation (mg_slots ?m1 ! k)) + frees k ops ?m1) mod 16"
    using run_ops_generation[OF free_effect(1)[OF assms(1,2)] k, of ops] by (simp only:)
  also have "unat (st_generation (mg_slots ?m1 ! k)) = (?g + 1) mod 16"
    unfolding free_effect(5)[OF assms(1,2)] by (rule next_generation[OF generation_bound])
  finally have "?g = ((?g + 1) mod 16 + frees k ops ?m1) mod 16" .
  moreover have "False" if "g = ((g + 1) mod 16 + f) mod 16" "g < 16" "f < 15" for g f :: nat
  proof (cases "g = 15")
    case True
    then show ?thesis using that by simp
  next
    case False
    then have "(g + 1) mod 16 = g + 1" using that by simp
    then have "(g + 1 + f) mod 16 = g" using that by simp
    moreover have "(g + 1 + f) mod 16 = (if g + 1 + f < 16 then g + 1 + f else g + 1 + f - 16)"
      using that by (simp add: mod_if)
    ultimately show ?thesis using that by (simp split: if_splits)
  qed
  ultimately show False using assms(3) generation_bound[of ident] by blast
qed

lemma stale_handle_finds_nothing_witness:
  "\<exists>m. manager_ok m \<and> find_buffer 1 m = Some 1
     \<and> find_buffer 1 (fold run_op [Op_Alloc] (free_buffer 1 m)) = None"
proof -
  let ?m0 = "fresh_manager (\<lambda>_. (0, \<lambda>_. 0))"
  have "card (live_slots ?m0) < 4095" "mg_free_head ?m0 = NO_INDEX" "mg_slots ?m0 = []"
    by (simp_all add: live_slots_def fresh_manager_def)
  with alloc_grow[OF fresh_manager_ok this(2,1)] obtain k m where
    a: "alloc_buffer ?m0 = (Inr k, m)" "manager_ok m" "live_slots m = insert k (live_slots ?m0)"
      "st_generation (mg_slots m ! k) = 0" "k < length (mg_slots m)" by metis
  have k: "k = 1" using a(1) by (auto simp: alloc_buffer_def fresh_manager_def NO_INDEX_def Let_def split: sum.splits)
  have f: "find_buffer 1 m = Some 1"
    using a(3,4) k by (simp add: find_iff handle_index_def handle_generation_def masks mask_eq_exp_minus_1 INDEX_BITS_def)
  have "frees 1 [Op_Alloc] (free_buffer 1 m) < 15" by simp
  from stale_handle_finds_nothing[OF a(2) f this] show ?thesis using a(2) f by blast
qed

end
