(* ===== verification/Buffer_Chain.thy ===== *)
theory Buffer_Chain
  imports Buffer_Manager Tvm_Packets
begin

text \<open>
  Chains of buffers that only grow at their end, \<^verbatim>\<open>BufferChain\<close> of \<^verbatim>\<open>ds/alloc/pagechain.hpp\<close> and
  \<^verbatim>\<open>pagechain.cpp\<close>, and the bytes that the trace machine sees through the identifiers of buffers.
\<close>

section \<open>Chains\<close>

text \<open>Buffers are given by their slots; the maps lead from identifier to identifier.\<close>

record chain =
  ch_bufs :: "nat list"
  ch_succ :: "u16 \<Rightarrow> u16 option"
  ch_pred :: "u16 \<Rightarrow> u16 option"
  ch_count :: u16

definition alloc_chain :: chain where
  "alloc_chain = \<lparr>ch_bufs = [], ch_succ = (\<lambda>_. None), ch_pred = (\<lambda>_. None), ch_count = 0\<rparr>"

type_synonym 'a chain_sm = "(manager \<times> chain, sim_error, 'a) sm"

text \<open>An operation on the storage of a slot.\<close>

definition on_slab :: "nat \<Rightarrow> (slab, sim_error, 'a) sm \<Rightarrow> (manager, sim_error, 'a) sm" where
  "on_slab k op = (\<lambda>m.
     (case st_storage (slot_at m k) of
        None \<Rightarrow> (Inl UndefinedBehaviour, m)
      | Some b \<Rightarrow> (case op (bf_slab b) of (r, sl) \<Rightarrow>
          (r, set_slot k ((slot_at m k)\<lparr>st_storage := Some (b\<lparr>bf_slab := sl\<rparr>)\<rparr>) m))))"

definition slab_of :: "manager \<Rightarrow> nat \<Rightarrow> slab" where
  "slab_of m k = (case st_storage (mg_slots m ! k) of
     None \<Rightarrow> \<lparr>sb_base = 0, sb_used = 0, sb_data = []\<rparr> | Some b \<Rightarrow> bf_slab b)"

definition append_buffer :: "unit chain_sm" where
  "append_buffer = (\<lambda>(m, ch).
     (case alloc_buffer m of
        (Inl e, m') \<Rightarrow> (Inl e, (m', ch))
      | (Inr k, m') \<Rightarrow>
          (let new = handle_of m' k
           in (Inr (), (m',
                if ch_bufs ch = [] then ch\<lparr>ch_count := ch_count ch + 1, ch_bufs := [k]\<rparr>
                else let old = handle_of m' (last (ch_bufs ch))
                     in ch\<lparr>ch_count := ch_count ch + 1, ch_succ := (ch_succ ch)(old \<mapsto> new),
                          ch_pred := (ch_pred ch)(new \<mapsto> old), ch_bufs := ch_bufs ch @ [k]\<rparr>)))))"

definition chain_tail :: "nat chain_sm" where
  "chain_tail = andthen (\<lambda>(m, ch). if ch_bufs ch = [] then append_buffer (m, ch) else (Inr (), (m, ch)))
     (\<lambda>_. gets (\<lambda>(m, ch). last (ch_bufs ch)))"

text \<open>The tail if \<open>fits\<close> holds of it, a fresh buffer otherwise.\<close>

definition tail_with :: "(slab \<Rightarrow> bool) \<Rightarrow> nat chain_sm" where
  "tail_with fits = andthen chain_tail (\<lambda>k.
     andthen (gets (\<lambda>(m, ch). fits (slab_of m k))) (\<lambda>ok.
     if ok then ret k else andthen append_buffer (\<lambda>_. chain_tail)))"

definition at_offset :: "nat \<Rightarrow> nat \<Rightarrow> location chain_sm" where
  "at_offset k off = gets (\<lambda>(m, ch). \<lparr>loc_id = handle_of m k, loc_offset = word_of_nat off\<rparr>)"

definition on_buffer :: "nat \<Rightarrow> (slab, sim_error, 'a) sm \<Rightarrow> 'a chain_sm" where
  "on_buffer k op = zoom fst (\<lambda>m (_, ch). (m, ch)) (on_slab k op)"

text \<open>A reservation is a location with the buffer and the offset at which its bytes are written.\<close>

definition chain_reserve :: "nat \<Rightarrow> (location \<times> nat \<times> nat) chain_sm" where
  "chain_reserve n =
     andthen (tail_with (can_fit n)) (\<lambda>k.
     andthen (on_buffer k (slab_allocate_uninitialized n)) (\<lambda>off.
     andthen (at_offset k off) (\<lambda>loc. ret (loc, k, off))))"

definition chain_allocate_uninitialized :: "nat \<Rightarrow> location chain_sm" where
  "chain_allocate_uninitialized n = andthen (chain_reserve n) (\<lambda>(loc, _). ret loc)"

definition chain_allocate_initialized :: "nat \<Rightarrow> u8 \<Rightarrow> location chain_sm" where
  "chain_allocate_initialized n v =
     andthen (tail_with (can_fit n)) (\<lambda>k.
     andthen (on_buffer k (slab_allocate_initialized n v)) (at_offset k))"

definition chain_append :: "u8 list \<Rightarrow> nat \<Rightarrow> nat \<Rightarrow> u8 \<Rightarrow> location chain_sm" where
  "chain_append bytes align pad v =
     andthen (tail_with (can_fit_bytes bytes align pad)) (\<lambda>k.
     andthen (on_buffer k (slab_append bytes align pad v)) (at_offset k))"

definition ensure_capacity :: "nat \<Rightarrow> unit chain_sm" where
  "ensure_capacity n =
     andthen chain_tail (\<lambda>k.
     andthen (gets (\<lambda>(m, ch). can_fit n (slab_of m k))) (\<lambda>ok. if ok then ret () else append_buffer))"

definition chain_clear :: "manager \<times> chain \<Rightarrow> manager \<times> chain" where
  "chain_clear = (\<lambda>(m, ch).
     (fold (\<lambda>k m. free_buffer (handle_of m k) m) (ch_bufs ch) m, alloc_chain))"

definition successor :: "u16 \<Rightarrow> chain \<Rightarrow> u16" where
  "successor i ch = (case ch_succ ch i of None \<Rightarrow> 0 | Some j \<Rightarrow> j)"

definition predecessor :: "u16 \<Rightarrow> chain \<Rightarrow> u16" where
  "predecessor i ch = (case ch_pred ch i of None \<Rightarrow> 0 | Some j \<Rightarrow> j)"

definition chain_buffer_at :: "nat \<Rightarrow> chain \<Rightarrow> nat option" where
  "chain_buffer_at index ch = (if index \<ge> length (ch_bufs ch) then None else Some (ch_bufs ch ! index))"

definition chain_buffer :: "u16 \<Rightarrow> manager \<times> chain \<Rightarrow> nat option" where
  "chain_buffer i = (\<lambda>(m, ch). List.find (\<lambda>k. handle_of m k = i) (ch_bufs ch))"

text \<open>What the trace machine reads through an identifier: the whole storage of the buffer.\<close>

definition buffers_of :: "manager \<Rightarrow> buffers" where
  "buffers_of m i = (case find_buffer i m of None \<Rightarrow> None | Some k \<Rightarrow> Some (sb_data (slab_of m k)))"

section \<open>Growing never overwrites\<close>

definition in_use :: "manager \<Rightarrow> nat \<Rightarrow> u8 list" where
  "in_use m k = take (sb_used (slab_of m k)) (sb_data (slab_of m k))"

text \<open>
  \<open>extends_memory m m'\<close>: every buffer in use stays in use under its identifier, and what has been
  written to it stays as it is.
\<close>

definition extends_memory :: "manager \<Rightarrow> manager \<Rightarrow> bool" where
  "extends_memory m m' \<longleftrightarrow>
     live_slots m \<subseteq> live_slots m'
     \<and> (\<forall>k\<in>live_slots m. st_generation (mg_slots m' ! k) = st_generation (mg_slots m ! k)
          \<and> handle_of m' k = handle_of m k \<and> (\<exists>more. in_use m' k = in_use m k @ more))"

lemma extends_memory_refl [simp]: "extends_memory m m"
  by (simp add: extends_memory_def)

lemma extends_memory_trans: "extends_memory a b \<Longrightarrow> extends_memory b c \<Longrightarrow> extends_memory a c"
  unfolding extends_memory_def by (auto 0 3 dest: subsetD) (metis append.assoc subsetD)

lemma live_slab:
  assumes "manager_ok m" and "k \<in> live_slots m"
  shows "slab_ok (slab_of m k)" and "slab_capacity (slab_of m k) = BUFFER_SIZE"
    and "\<exists>b. st_storage (mg_slots m ! k) = Some b \<and> slab_of m k = bf_slab b"
proof -
  have "slot_ok k (mg_slots m ! k)" using manager_okD(2,4)[OF assms(1)] assms(2) by auto
  then show "slab_ok (slab_of m k)" "slab_capacity (slab_of m k) = BUFFER_SIZE"
    "\<exists>b. st_storage (mg_slots m ! k) = Some b \<and> slab_of m k = bf_slab b"
    by (auto simp: slot_ok_def slab_of_def)
qed

lemma alloc_extends:
  assumes ok: "manager_ok m" and a: "alloc_buffer m = (Inr k, m')"
  shows "manager_ok m'" and "extends_memory m m'" and "k \<in> live_slots m'" and "k \<notin> live_slots m"
    and "live_slots m' = insert k (live_slots m)" and "sb_used (slab_of m' k) = 0"
    and "\<And>j. j \<in> live_slots m \<Longrightarrow> slab_of m' j = slab_of m j"
proof -
  have room: "card (live_slots m) < 4095"
    using alloc_full[OF ok] a by (cases "card (live_slots m) < 4095") auto
  obtain k0 m0 where b: "alloc_buffer m = (Inr k0, m0)" "manager_ok m0" "k0 \<notin> live_slots m"
      "live_slots m0 = insert k0 (live_slots m)" "others_kept k0 m m0"
      "\<exists>b. st_storage (mg_slots m0 ! k0) = Some b \<and> sb_used (bf_slab b) = 0"
  proof (cases "mg_free_head m = NO_INDEX")
    case True
    show ?thesis by (rule alloc_grow[OF ok True room]) (rule that)
  next
    case False
    show ?thesis by (rule alloc_reuse[OF ok False]) (rule that)
  qed
  have e: "k0 = k" "m0 = m'" using a b(1) by auto
  note b = b(2-)[unfolded e]
  show "manager_ok m'" "k \<notin> live_slots m" "live_slots m' = insert k (live_slots m)" by (fact b)+
  then show "k \<in> live_slots m'" by simp
  show "sb_used (slab_of m' k) = 0" using b(5) by (auto simp: slab_of_def)
  have kept: "st_storage (mg_slots m' ! j) = st_storage (mg_slots m ! j)"
    "st_generation (mg_slots m' ! j) = st_generation (mg_slots m ! j)" if j: "j \<in> live_slots m" for j
  proof -
    from j have "0 < j" "j < length (mg_slots m)" "j \<noteq> k" using manager_okD(2)[OF ok] b(2) by auto
    then show "st_storage (mg_slots m' ! j) = st_storage (mg_slots m ! j)"
      "st_generation (mg_slots m' ! j) = st_generation (mg_slots m ! j)" using b(4) by (auto simp: others_kept_def)
  qed
  then show "slab_of m' j = slab_of m j" if "j \<in> live_slots m" for j using that by (simp add: slab_of_def)
  show "extends_memory m m'"
    unfolding extends_memory_def
  proof (intro conjI ballI)
    show "live_slots m \<subseteq> live_slots m'" using b(3) by auto
    fix j assume j: "j \<in> live_slots m"
    note kept[OF j]
    then show "st_generation (mg_slots m' ! j) = st_generation (mg_slots m ! j)"
      "handle_of m' j = handle_of m j" "\<exists>more. in_use m' j = in_use m j @ more"
      by (simp_all add: handle_of_def in_use_def slab_of_def)
  qed
qed


lemma buffer_available:
  assumes "manager_ok m" and "card (live_slots m) < 4095"
  obtains k m' where "alloc_buffer m = (Inr k, m')"
proof (cases "mg_free_head m = NO_INDEX")
  case True
  show ?thesis by (rule alloc_grow[OF assms(1) True assms(2)]) (rule that)
next
  case False
  show ?thesis by (rule alloc_reuse[OF assms(1) False]) (rule that)
qed

text \<open>What an operation on a block may do: take more from its end and write there.\<close>

definition slab_extends :: "slab \<Rightarrow> slab \<Rightarrow> bool" where
  "slab_extends s s' \<longleftrightarrow> slab_ok s' \<and> slab_capacity s' = slab_capacity s
     \<and> (\<exists>more. take (sb_used s') (sb_data s') = take (sb_used s) (sb_data s) @ more)"

lemma slab_extendsI:
  assumes "slab_ok s" and "slab_ok s'" and "slab_capacity s' = slab_capacity s" and "sb_used s \<le> sb_used s'"
    and "\<And>k. k < sb_used s \<Longrightarrow> sb_data s' ! k = sb_data s ! k"
  shows "slab_extends s s'"
proof -
  let ?u = "sb_used s" and ?v = "sb_used s'"
  have "take ?u (sb_data s') = take ?u (sb_data s)"
    by (rule nth_equalityI) (use assms in \<open>auto simp: slab_ok_def slab_capacity_def\<close>)
  then have "take ?v (sb_data s') = take ?u (sb_data s) @ take (?v - ?u) (drop ?u (sb_data s'))"
    using assms(4) take_add[of ?u "?v - ?u" "sb_data s'"] by simp
  then show ?thesis using assms(2,3) unfolding slab_extends_def by blast
qed

lemma slab_extends_refl: "slab_ok s \<Longrightarrow> slab_extends s s"
  by (simp add: slab_extends_def)

lemma slab_append_extends: "slab_ok s \<Longrightarrow> slab_extends s (snd (slab_append bytes align pad v s))"
proof (cases "can_fit_bytes bytes align pad s")
  case True
  assume ok: "slab_ok s"
  show ?thesis by (rule slab_append_effect[OF ok True, of v]) (auto intro!: slab_extendsI[OF ok])
qed (simp add: slab_append_overflow slab_extends_refl)

lemma slab_allocate_extends:
  assumes "slab_ok s"
  shows "slab_extends s (snd (slab_allocate_uninitialized n s))"
    and "slab_extends s (snd (slab_allocate_initialized n v s))"
  using assms
  by (auto simp: slab_allocate_uninitialized_def slab_allocate_initialized_def remaining_capacity_def slab_ok_def
      slab_capacity_def nth_slab_fill intro!: slab_extendsI)

lemma on_slab_changes:
  assumes ok: "manager_ok m" and k: "k \<in> live_slots m" and run: "op (slab_of m k) = (r, sl)"
    and sl: "slab_ok sl" "slab_capacity sl = slab_capacity (slab_of m k)"
  obtains m' where "on_slab k op m = (r, m')" "manager_ok m'" "live_slots m' = live_slots m"
    "slab_of m' k = sl" "\<And>j. j \<noteq> k \<Longrightarrow> slab_of m' j = slab_of m j" "\<And>j. handle_of m' j = handle_of m j"
    "\<And>j. st_generation (mg_slots m' ! j) = st_generation (mg_slots m ! j)"
proof -
  note L = live_slab[OF ok k]
  obtain b where b: "st_storage (mg_slots m ! k) = Some b" "slab_of m k = bf_slab b" using L(3) by blast
  have kn: "0 < k" "k < length (mg_slots m)" using manager_okD(2)[OF ok] k by auto
  define s' where "s' = (mg_slots m ! k)\<lparr>st_storage := Some (b\<lparr>bf_slab := sl\<rparr>)\<rparr>"
  define m' where "m' = set_slot k s' m"
  have ms: "mg_slots m' = (mg_slots m)[k := s']" by (simp add: m'_def set_slot_def)
  have R: "on_slab k op m = (r, m')" using run b by (simp add: on_slab_def slot_at_def m'_def s'_def)
  have same: "st_live (mg_slots m' ! j) = st_live (mg_slots m ! j)"
    "st_generation (mg_slots m' ! j) = st_generation (mg_slots m ! j)"
    "st_next_free (mg_slots m' ! j) = st_next_free (mg_slots m ! j)" for j
    using kn(2) by (simp_all add: ms s'_def nth_list_update)
  have hd: "handle_of m' j = handle_of m j" for j
    using kn b by (cases "j = k") (simp_all add: handle_of_def ms s'_def)
  have sk: "slab_of m' k = sl" using kn by (simp add: slab_of_def ms s'_def)
  have sj: "slab_of m' j = slab_of m j" if "j \<noteq> k" for j using that by (simp add: slab_of_def ms)
  have len: "length (mg_slots m') = length (mg_slots m)" by (simp add: ms)
  have ne: "mg_slots m' \<noteq> [] \<longleftrightarrow> mg_slots m \<noteq> []" by (simp add: ms)
  have heads: "mg_free_head m' = mg_free_head m" "mg_free_tail m' = mg_free_tail m"
    "mg_live_count m' = mg_live_count m" "mg_free_count m' = mg_free_count m"
    by (simp_all add: m'_def set_slot_def)
  have lv: "live_slots m' = live_slots m" by (simp add: live_slots_def same len)
  have ch: "chained (mg_slots m') i ks = chained (mg_slots m) i ks" for i ks
    by (induction ks arbitrary: i) (simp_all add: same)
  have fo: "free_order m' ks = free_order m ks" for ks
    unfolding free_order_def ch same len heads by (rule refl)
  have so: "slot_ok k s'"
    using manager_okD(4)[OF ok kn] k b sl L(2) by (auto simp: slot_ok_def s'_def live_slots_def)
  have ok': "manager_ok m'"
    unfolding manager_ok_def fo lv heads
  proof (intro conjI)
    show "\<forall>j. 0 < j \<and> j < length (mg_slots m') \<longrightarrow> slot_ok j (mg_slots m' ! j)"
      unfolding ms by (intro slots_ok_update manager_okD(4)[OF ok] so)
    show "mg_slots m' \<noteq> [] \<longrightarrow> \<not> st_live (mg_slots m' ! 0)"
      using ok unfolding manager_ok_def same ne by blast
  qed (use ok in \<open>unfold manager_ok_def len, blast\<close>)+
  show ?thesis by (rule that[OF R ok' lv sk sj hd same(2)])
qed

lemma on_slab_run:
  assumes ok: "manager_ok m" and k: "k \<in> live_slots m" and run: "op (slab_of m k) = (r, sl)"
    and ext: "slab_extends (slab_of m k) sl"
  obtains m' where "on_slab k op m = (r, m')" "manager_ok m'" "extends_memory m m'" "live_slots m' = live_slots m"
    "slab_of m' k = sl" "\<And>j. j \<noteq> k \<Longrightarrow> slab_of m' j = slab_of m j" "\<And>j. handle_of m' j = handle_of m j"
proof -
  from on_slab_changes[of m k op r sl, OF ok k run] obtain m' where m': "on_slab k op m = (r, m')" "manager_ok m'"
    "live_slots m' = live_slots m" "slab_of m' k = sl" "\<And>j. j \<noteq> k \<Longrightarrow> slab_of m' j = slab_of m j"
    "\<And>j. handle_of m' j = handle_of m j" "\<And>j. st_generation (mg_slots m' ! j) = st_generation (mg_slots m ! j)"
    using ext unfolding slab_extends_def by metis
  have "extends_memory m m'"
    unfolding extends_memory_def m'(3)
  proof (intro conjI ballI subset_refl)
    fix j assume "j \<in> live_slots m"
    show "\<exists>more. in_use m' j = in_use m j @ more"
      using ext m'(5)[of j] m'(4) by (cases "j = k") (auto simp: in_use_def slab_extends_def)
  qed (simp_all add: m'(6,7))
  then show ?thesis using that[OF m'(1,2)] m'(3-6) by blast
qed

section \<open>What chain operations do\<close>

text \<open>
  A chain holds buffers in use.  An operation returns or fails, and either way memory has only grown: the chain
  may have got buffers that were not in use, and the buffers outside the chain are as they were.
\<close>

definition chain_ok :: "manager \<times> chain \<Rightarrow> bool" where
  "chain_ok = (\<lambda>(m, ch). manager_ok m \<and> set (ch_bufs ch) \<subseteq> live_slots m)"

definition grown :: "manager \<times> chain \<Rightarrow> manager \<times> chain \<Rightarrow> bool" where
  "grown s s' \<longleftrightarrow> chain_ok s' \<and> extends_memory (fst s) (fst s')
     \<and> (\<exists>new. ch_bufs (snd s') = ch_bufs (snd s) @ new \<and> distinct new \<and> set new \<inter> live_slots (fst s) = {}
          \<and> live_slots (fst s') = live_slots (fst s) \<union> set new)
     \<and> (\<forall>j\<in>live_slots (fst s) - set (ch_bufs (snd s)). slab_of (fst s') j = slab_of (fst s) j)"

lemma grown_refl [simp]: "chain_ok s \<Longrightarrow> grown s s"
  by (simp add: grown_def)

lemma grown_trans:
  assumes "grown a b" and "grown b c"
  shows "grown a c"
proof -
  obtain x where x: "ch_bufs (snd b) = ch_bufs (snd a) @ x" "distinct x" "set x \<inter> live_slots (fst a) = {}"
      "live_slots (fst b) = live_slots (fst a) \<union> set x" using assms(1) by (auto simp: grown_def)
  obtain y where y: "ch_bufs (snd c) = ch_bufs (snd b) @ y" "distinct y" "set y \<inter> live_slots (fst b) = {}"
      "live_slots (fst c) = live_slots (fst b) \<union> set y" using assms(2) by (auto simp: grown_def)
  have "slab_of (fst c) j = slab_of (fst a) j" if "j \<in> live_slots (fst a) - set (ch_bufs (snd a))" for j
  proof -
    have "j \<in> live_slots (fst b) - set (ch_bufs (snd b))" using that x by auto
    then show ?thesis using assms that by (simp add: grown_def)
  qed
  moreover have "extends_memory (fst a) (fst c)" using assms unfolding grown_def by (metis extends_memory_trans)
  moreover have "distinct (x @ y)" "set (x @ y) \<inter> live_slots (fst a) = {}" using x y by auto
  ultimately show ?thesis
    unfolding grown_def using assms(2) x y by (intro conjI exI[of _ "x @ y"] ballI) (auto simp: grown_def)
qed

lemma grown_ok: "grown s s' \<Longrightarrow> chain_ok s'"
  by (simp add: grown_def)

text \<open>Buffers may have been added, which are empty; those that were in use are as they were.\<close>

definition only_fresh :: "manager \<Rightarrow> manager \<Rightarrow> bool" where
  "only_fresh m m' \<longleftrightarrow> live_slots m \<subseteq> live_slots m' \<and> (\<forall>j\<in>live_slots m. slab_of m' j = slab_of m j)
     \<and> (\<forall>j\<in>live_slots m' - live_slots m. sb_used (slab_of m' j) = 0)"

lemma only_fresh_refl [simp]: "only_fresh m m"
  by (simp add: only_fresh_def)

lemma only_fresh_trans: "only_fresh a b \<Longrightarrow> only_fresh b c \<Longrightarrow> only_fresh a c"
  unfolding only_fresh_def by (metis DiffD1 DiffD2 DiffI subsetD subset_trans)

lemma append_buffer_cases:
  assumes "chain_ok (m, ch)"
  obtains (full) "append_buffer (m, ch) = (Inl out_of_buffers, (m, ch))" "\<not> card (live_slots m) < 4095"
  | (new) k m' ch' where "append_buffer (m, ch) = (Inr (), (m', ch'))" "grown (m, ch) (m', ch')"
      "ch_bufs ch' = ch_bufs ch @ [k]" "k \<notin> live_slots m" "sb_used (slab_of m' k) = 0" "only_fresh m m'"
proof (cases "card (live_slots m) < 4095")
  case False
  then show ?thesis using full[OF _ False] alloc_full[of m] assms by (simp add: append_buffer_def chain_ok_def)
next
  case True
  have ok: "manager_ok m" "set (ch_bufs ch) \<subseteq> live_slots m" using assms by (auto simp: chain_ok_def)
  obtain k m' where a: "alloc_buffer m = (Inr k, m')" using buffer_available[OF ok(1) True] by blast
  note A = alloc_extends[OF ok(1) a]
  obtain ch' where r: "append_buffer (m, ch) = (Inr (), (m', ch'))" "ch_bufs ch' = ch_bufs ch @ [k]"
    using a by (simp add: append_buffer_def Let_def)
  have "grown (m, ch) (m', ch')" using A(1,2,4,5,7) ok(2) r(2) by (auto simp: grown_def chain_ok_def)
  moreover have "only_fresh m m'" using A(5,6,7) by (auto simp: only_fresh_def)
  ultimately show ?thesis using new r A(4,6) by blast
qed

lemma chain_tail_cases:
  assumes "chain_ok (m, ch)"
  obtains (full) "chain_tail (m, ch) = (Inl out_of_buffers, (m, ch))" "\<not> card (live_slots m) < 4095"
  | (tail) k m' ch' where "chain_tail (m, ch) = (Inr k, (m', ch'))" "grown (m, ch) (m', ch')"
      "ch_bufs ch' \<noteq> []" "k = last (ch_bufs ch')"
      "k \<in> live_slots m \<and> m' = m \<and> ch' = ch \<or> k \<notin> live_slots m \<and> sb_used (slab_of m' k) = 0"
      "only_fresh m m'"
proof (cases "ch_bufs ch = []")
  case True
  then have e: "chain_tail (m, ch) = andthen append_buffer (\<lambda>_. gets (\<lambda>(m, ch). last (ch_bufs ch))) (m, ch)"
    by (simp add: chain_tail_def andthen_def)
  show ?thesis
  proof (cases rule: append_buffer_cases[OF assms])
    case 1
    show ?thesis by (rule full) (simp add: e andthen_def 1, rule 1(2))
  next
    case A: (2 k m' ch')
    show ?thesis
      by (rule tail[of k m' ch'], simp add: e andthen_def A(1,3)) (use A in simp_all)
  qed
next
  case False
  then have k: "last (ch_bufs ch) \<in> live_slots m" using assms by (auto simp: chain_ok_def)
  have "chain_tail (m, ch) = (Inr (last (ch_bufs ch)), (m, ch))" using False by (simp add: chain_tail_def andthen_def)
  then show ?thesis by (rule tail) (use k False assms in simp_all)
qed

text \<open>The buffer that takes an allocation: one in use as it was, or a fresh one.\<close>

lemma tail_with_cases:
  assumes "chain_ok (m, ch)"
  obtains (full) m' ch' where "tail_with fits (m, ch) = (Inl out_of_buffers, (m', ch'))" "grown (m, ch) (m', ch')"
      "\<not> card (live_slots m') < 4095" "only_fresh m m'"
  | (tail) k m' ch' where "tail_with fits (m, ch) = (Inr k, (m', ch'))" "grown (m, ch) (m', ch')"
      "k \<in> set (ch_bufs ch')" "k \<in> live_slots m \<Longrightarrow> slab_of m' k = slab_of m k"
      "fits (slab_of m' k) \<or> sb_used (slab_of m' k) = 0" "only_fresh m m'"
proof (cases rule: chain_tail_cases[OF assms])
  case 1
  then show ?thesis using full assms by (simp add: tail_with_def andthen_def)
next
  case T: (2 k m1 ch1)
  show ?thesis
  proof (cases "fits (slab_of m1 k)")
    case True
    then show ?thesis using tail[of k m1 ch1] T by (auto simp: tail_with_def andthen_def)
  next
    case False
    have ok1: "chain_ok (m1, ch1)" using T(2) by (rule grown_ok)
    show ?thesis
    proof (cases rule: append_buffer_cases[OF ok1])
      case 1
      then show ?thesis using full T(1,2,6) False by (simp add: tail_with_def andthen_def)
    next
      case A: (2 j m2 ch2)
      have run: "tail_with fits (m, ch) = (Inr j, (m2, ch2))"
        using T(1) A(1,3) False by (simp add: tail_with_def andthen_def chain_tail_def)
      have "live_slots m \<subseteq> live_slots m1" using T(2) by (simp add: grown_def extends_memory_def)
      then show ?thesis using tail[OF run grown_trans[OF T(2) A(2)]] A(3,4,5) only_fresh_trans[OF T(6) A(6)] by auto
    qed
  qed
qed

text \<open>An allocation on the tail.\<close>

lemma chain_step_cases:
  fixes fits :: "slab \<Rightarrow> bool"
  assumes "chain_ok (m, ch)"
    and op: "\<And>sl. slab_ok sl \<Longrightarrow> slab_extends sl (snd (op sl))"
  defines "run \<equiv> andthen (tail_with fits) (\<lambda>k. andthen (on_buffer k op) (\<lambda>off. ret (k, off)))"
  obtains (error) e m' ch' where "run (m, ch) = (Inl e, (m', ch'))" "grown (m, ch) (m', ch')"
      "e = out_of_buffers \<and> \<not> card (live_slots m') < 4095
       \<or> (\<exists>sl. slab_ok sl \<and> slab_capacity sl = BUFFER_SIZE \<and> fst (op sl) = Inl e \<and> (fits sl \<or> sb_used sl = 0))"
  | (at_offset) k off m' ch' sl where "run (m, ch) = (Inr (k, off), (m', ch'))" "grown (m, ch) (m', ch')"
      "k \<in> set (ch_bufs ch')" "slab_ok sl" "op sl = (Inr off, slab_of m' k)"
      "k \<in> live_slots m \<Longrightarrow> sl = slab_of m k" "fits sl \<or> sb_used sl = 0"
proof (cases rule: tail_with_cases[OF assms(1), of fits])
  case 1
  then show ?thesis using error by (simp add: run_def andthen_def)
next
  case T: (2 k m1 ch1)
  have ok1: "manager_ok m1" "k \<in> live_slots m1" "set (ch_bufs ch1) \<subseteq> live_slots m1"
    using grown_ok[OF T(2)] T(3) by (auto simp: chain_ok_def)
  have sl: "slab_ok (slab_of m1 k)" using live_slab(1)[OF ok1(1,2)] .
  obtain r s' where r: "op (slab_of m1 k) = (r, s')" by fastforce
  have "slab_extends (slab_of m1 k) s'" using op[OF sl] r by simp
  from on_slab_run[of m1 k op r s', OF ok1(1,2) r this] obtain m2 where m2: "on_slab k op m1 = (r, m2)" "manager_ok m2"
    "extends_memory m1 m2" "live_slots m2 = live_slots m1" "slab_of m2 k = s'"
    "\<And>j. j \<noteq> k \<Longrightarrow> slab_of m2 j = slab_of m1 j" by metis
  have "slab_of m2 j = slab_of m1 j" if "j \<notin> set (ch_bufs ch1)" for j
    by (rule m2(6)) (use that T(3) in blast)
  then have "grown (m1, ch1) (m2, ch1)" using m2 ok1(3) by (simp add: grown_def chain_ok_def)
  then have g: "grown (m, ch) (m2, ch1)" by (rule grown_trans[OF T(2)])
  have run: "run (m, ch) = (case r of Inl e \<Rightarrow> (Inl e, (m2, ch1)) | Inr off \<Rightarrow> (Inr (k, off), (m2, ch1)))"
    using T(1) m2(1) by (simp add: run_def andthen_def on_buffer_def zoom_def split: sum.split)
  show ?thesis
  proof (cases r)
    case (Inl e)
    have "fst (op (slab_of m1 k)) = Inl e" using r Inl by simp
    then have "\<exists>sl. slab_ok sl \<and> slab_capacity sl = BUFFER_SIZE \<and> fst (op sl) = Inl e \<and> (fits sl \<or> sb_used sl = 0)"
      using sl live_slab(2)[OF ok1(1,2)] T(5) by blast
    then show ?thesis using error[of e m2 ch1] run g Inl by simp
  next
    case (Inr off)
    then show ?thesis using at_offset[of k off m2 ch1 "slab_of m1 k"] run g T(3-) sl r m2(5) by auto
  qed
qed


text \<open>An append with the buffer and the offset it went to.\<close>

definition append_placed :: "u8 list \<Rightarrow> nat \<Rightarrow> nat \<Rightarrow> u8 \<Rightarrow> (location \<times> nat \<times> nat) chain_sm" where
  "append_placed bytes align pad v =
     andthen (tail_with (can_fit_bytes bytes align pad)) (\<lambda>k.
     andthen (on_buffer k (slab_append bytes align pad v)) (\<lambda>off.
     andthen (at_offset k off) (\<lambda>loc. ret (loc, k, off))))"

lemma chain_ops_step:
  "chain_append bytes align pad v =
     andthen (andthen (tail_with (can_fit_bytes bytes align pad)) (\<lambda>k.
       andthen (on_buffer k (slab_append bytes align pad v)) (\<lambda>off. ret (k, off)))) (\<lambda>(k, off). at_offset k off)"
  "append_placed bytes align pad v =
     andthen (andthen (tail_with (can_fit_bytes bytes align pad)) (\<lambda>k.
       andthen (on_buffer k (slab_append bytes align pad v)) (\<lambda>off. ret (k, off))))
       (\<lambda>(k, off). andthen (at_offset k off) (\<lambda>loc. ret (loc, k, off)))"
  "chain_allocate_initialized n v =
     andthen (andthen (tail_with (can_fit n)) (\<lambda>k.
       andthen (on_buffer k (slab_allocate_initialized n v)) (\<lambda>off. ret (k, off)))) (\<lambda>(k, off). at_offset k off)"
  "chain_reserve n =
     andthen (andthen (tail_with (can_fit n)) (\<lambda>k.
       andthen (on_buffer k (slab_allocate_uninitialized n)) (\<lambda>off. ret (k, off))))
       (\<lambda>(k, off). andthen (at_offset k off) (\<lambda>loc. ret (loc, k, off)))"
  by (simp_all add: chain_append_def append_placed_def chain_allocate_initialized_def chain_reserve_def andthen_assoc)

text \<open>Bytes that have been stored are found through the identifier of their buffer, as long as memory grows.\<close>

definition stored :: "manager \<Rightarrow> u16 \<Rightarrow> nat \<Rightarrow> u8 list \<Rightarrow> bool" where
  "stored m ident off bytes \<longleftrightarrow>
     (\<exists>k. k \<in> live_slots m \<and> handle_of m k = ident \<and> off + length bytes \<le> sb_used (slab_of m k)
        \<and> take (length bytes) (drop off (in_use m k)) = bytes)"

lemma stored_grows: "stored m ident off bytes \<Longrightarrow> manager_ok m \<Longrightarrow> extends_memory m m' \<Longrightarrow> manager_ok m'
  \<Longrightarrow> stored m' ident off bytes"
proof -
  assume st: "stored m ident off bytes" and ok: "manager_ok m" and ex: "extends_memory m m'" and ok': "manager_ok m'"
  obtain k where k: "k \<in> live_slots m" "handle_of m k = ident" "off + length bytes \<le> sb_used (slab_of m k)"
    "take (length bytes) (drop off (in_use m k)) = bytes" using st by (auto simp: stored_def)
  then obtain new where e: "in_use m' k = in_use m k @ new" "handle_of m' k = ident" "k \<in> live_slots m'"
    using ex unfolding extends_memory_def by (metis subsetD)
  have u: "length (in_use m k) = sb_used (slab_of m k)" "length (in_use m' k) = sb_used (slab_of m' k)"
    using live_slab(1)[OF ok k(1)] live_slab(1)[OF ok' e(3)] by (simp_all add: in_use_def slab_ok_def slab_capacity_def)
  then have "off + length bytes \<le> sb_used (slab_of m' k)" using k(3) e(1) by (metis le_add1 le_trans length_append)
  moreover have "take (length bytes) (drop off (in_use m' k)) = bytes"
    using k(3,4) u(1) by (simp add: e(1))
  ultimately show "stored m' ident off bytes" using e(2,3) by (auto simp: stored_def)
qed

lemma window_in_use:
  assumes "off + n \<le> u"
  shows "take n (drop off (take u xs)) = take n (drop off xs)"
proof -
  have "n \<le> u - off" using assms by simp
  then show ?thesis by (simp add: drop_take min_absorb1)
qed

lemma stored_code_at:
  assumes ok: "manager_ok m" and st: "stored m ident off bytes"
  shows "code_at (buffers_of m) ident off bytes"
proof -
  obtain k where k: "k \<in> live_slots m" "handle_of m k = ident" "off + length bytes \<le> sb_used (slab_of m k)"
    "take (length bytes) (drop off (in_use m k)) = bytes" using st by (auto simp: stored_def)
  have "buffers_of m ident = Some (sb_data (slab_of m k))"
    using handle_of_live(2)[OF ok k(1)] k(2) by (simp add: buffers_of_def)
  moreover have "sb_used (slab_of m k) \<le> length (sb_data (slab_of m k))" "length (sb_data (slab_of m k)) = 65536"
    using live_slab(1,2)[OF ok k(1)] by (simp_all add: slab_ok_def slab_capacity_def BUFFER_SIZE_def)
  moreover have "take (length bytes) (drop off (sb_data (slab_of m k))) = bytes"
    using k(4) by (simp add: in_use_def window_in_use[OF k(3)])
  ultimately show ?thesis using k(3) by (simp add: code_at_def)
qed

lemma chain_append_placed: "chain_append bytes align pad v = andthen (append_placed bytes align pad v) (\<lambda>(loc, _). ret loc)"
  by (rule ext) (auto simp: chain_append_def append_placed_def andthen_def split: prod.split sum.split)

lemma append_placed_cases:
  assumes "chain_ok (m, ch)"
  obtains (error) e m' ch' where "append_placed bytes align pad v (m, ch) = (Inl e, (m', ch'))" "grown (m, ch) (m', ch')"
      "e = out_of_buffers \<and> \<not> card (live_slots m') < 4095 \<or>
       e = RuntimeError ''Page overflow'' \<and> (\<exists>sl. slab_capacity sl = BUFFER_SIZE \<and> sb_used sl = 0 \<and> \<not> can_fit_bytes bytes align pad sl)"
  | (at_offset) k off m' ch' where
      "append_placed bytes align pad v (m, ch) = (Inr (\<lparr>loc_id = handle_of m' k, loc_offset = word_of_nat off\<rparr>, k, off), (m', ch'))"
      "grown (m, ch) (m', ch')" "k \<in> live_slots m'" "k \<in> set (ch_bufs ch')" "stored m' (handle_of m' k) off bytes"
      "k \<in> live_slots m \<Longrightarrow> sb_used (slab_of m k) \<le> off"
      "align > 1 \<Longrightarrow> (sb_base (slab_of m' k) + off) mod align = 0"
proof (cases rule: chain_step_cases[OF assms, where op = "slab_append bytes align pad v"
      and fits = "can_fit_bytes bytes align pad"])
  case 1
  show ?case by (rule slab_append_extends[OF 1])
next
  case (2 e m' ch')
  have run: "append_placed bytes align pad v (m, ch) = (Inl e, (m', ch'))"
    by (unfold chain_ops_step(2), rule andthen_Inl, rule 2(1))
  have "can_fit_bytes bytes align pad sl \<Longrightarrow> slab_ok sl \<Longrightarrow> fst (slab_append bytes align pad v sl) \<noteq> Inl e" for sl
    by (rule slab_append_effect[of sl bytes align pad v]) auto
  moreover have "\<not> can_fit_bytes bytes align pad sl \<Longrightarrow> fst (slab_append bytes align pad v sl) = Inl e \<Longrightarrow>
      e = RuntimeError ''Page overflow''" for sl
    by (simp add: slab_append_overflow)
  ultimately show ?thesis using error[OF run 2(2)] 2(3) by blast
next
  case (3 k off m' ch' sl)
  have run: "append_placed bytes align pad v (m, ch) = (Inr (\<lparr>loc_id = handle_of m' k, loc_offset = word_of_nat off\<rparr>, k, off), (m', ch'))"
    by (unfold chain_ops_step(2), subst andthen_Inr, rule 3(1)) (simp add: at_offset_def)
  have fit: "can_fit_bytes bytes align pad sl"
    using slab_append_overflow[of bytes align pad sl v] 3(5) by (cases "can_fit_bytes bytes align pad sl") auto
  have live: "k \<in> live_slots m'" using grown_ok[OF 3(2)] 3(3) by (auto simp: chain_ok_def)
  obtain off' s' where e: "slab_append bytes align pad v sl = (Inr off', s')" "sb_used sl \<le> off'"
    "off' + length bytes \<le> sb_used s'" "take (length bytes) (drop off' (sb_data s')) = bytes"
    "sb_base s' = sb_base sl" "align > 1 \<Longrightarrow> (sb_base sl + off') mod align = 0"
    by (rule slab_append_effect[OF 3(4) fit, of v]) (rule that, assumption+)
  then have e': "off' = off" "s' = slab_of m' k" using 3(5) by auto
  have "stored m' (handle_of m' k) off bytes"
    unfolding stored_def
    by (rule exI[of _ k]) (use e(3,4) live in \<open>simp add: e' in_use_def window_in_use\<close>)
  then show ?thesis using at_offset[OF run 3(2) live 3(3)] 3(6) e(2,5,6) e' by auto
qed


lemma chain_append_cases:
  assumes "chain_ok (m, ch)"
  obtains (error) e m' ch' where "chain_append bytes align pad v (m, ch) = (Inl e, (m', ch'))" "grown (m, ch) (m', ch')"
      "e = out_of_buffers \<and> \<not> card (live_slots m') < 4095 \<or>
       e = RuntimeError ''Page overflow'' \<and> (\<exists>sl. slab_capacity sl = BUFFER_SIZE \<and> sb_used sl = 0 \<and> \<not> can_fit_bytes bytes align pad sl)"
  | (at_offset) k off m' ch' where
      "chain_append bytes align pad v (m, ch) = (Inr \<lparr>loc_id = handle_of m' k, loc_offset = word_of_nat off\<rparr>, (m', ch'))"
      "grown (m, ch) (m', ch')" "k \<in> live_slots m'" "k \<in> set (ch_bufs ch')" "stored m' (handle_of m' k) off bytes"
proof (cases rule: append_placed_cases[OF assms, of bytes align pad v])
  case (1 e m' ch')
  then show ?thesis using error[of e m' ch'] by (simp add: chain_append_placed andthen_def)
next
  case (2 k off m' ch')
  then show ?thesis using at_offset[of m' k off ch'] by (simp add: chain_append_placed andthen_def)
qed

text \<open>Every operation on a chain, for sequences of them.\<close>

datatype chain_op = C_Append "u8 list" nat nat u8 | C_Reserve nat | C_Initialize nat u8 | C_Ensure nat

fun do_chain_op :: "chain_op \<Rightarrow> manager \<times> chain \<Rightarrow> manager \<times> chain" where
  "do_chain_op (C_Append bytes align pad v) = final (chain_append bytes align pad v)"
| "do_chain_op (C_Reserve n) = final (chain_reserve n)"
| "do_chain_op (C_Initialize n v) = final (chain_allocate_initialized n v)"
| "do_chain_op (C_Ensure n) = final (ensure_capacity n)"

lemma final_andthen_keeps: "(\<And>a s. snd (f a s) = s) \<Longrightarrow> final (andthen op f) s = final op s"
  by (auto simp: final_def andthen_def split: prod.split sum.split)

lemma step_grows:
  assumes "chain_ok s" and "\<And>sl. slab_ok sl \<Longrightarrow> slab_extends sl (snd (op sl))"
  shows "grown s (final (andthen (tail_with fits) (\<lambda>k. andthen (on_buffer k op) (\<lambda>off. ret (k, off)))) s)"
proof (cases s)
  case (Pair m ch)
  show ?thesis
    by (rule chain_step_cases[OF assms(1)[unfolded Pair], of op fits])
      (use assms(2) in \<open>auto simp: final_def Pair\<close>)
qed

lemma ensure_grows: "chain_ok s \<Longrightarrow> grown s (final (ensure_capacity n) s)"
proof (cases s)
  case (Pair m ch)
  assume ok: "chain_ok s"
  show ?thesis
  proof (cases rule: chain_tail_cases[OF ok[unfolded Pair]])
    case 1
    then show ?thesis using ok by (simp add: ensure_capacity_def andthen_def Pair final_def)
  next
    case T: (2 k m1 ch1)
    have "grown (m1, ch1) (final append_buffer (m1, ch1))"
      by (rule append_buffer_cases[OF grown_ok[OF T(2)]]) (use grown_ok[OF T(2)] in \<open>auto simp: final_def\<close>)
    then have "grown (m, ch) (final append_buffer (m1, ch1))" by (rule grown_trans[OF T(2)])
    then show ?thesis using T(1,2) by (simp add: ensure_capacity_def andthen_def Pair final_def)
  qed
qed

lemma grown_then_pure: "grown s (final op s) \<Longrightarrow> (\<And>a s. snd (f a s) = s) \<Longrightarrow> grown s (final (andthen op f) s)"
  by (simp add: final_andthen_keeps)

lemma do_chain_op_grows:
  assumes "chain_ok s"
  shows "grown s (do_chain_op c s)"
proof (cases c)
  case (C_Append bytes align pad v)
  show ?thesis
    unfolding C_Append do_chain_op.simps chain_ops_step
    by (rule grown_then_pure[OF step_grows[OF assms slab_append_extends]]) (simp_all add: at_offset_def split: prod.split)
next
  case (C_Reserve n)
  show ?thesis
    unfolding C_Reserve do_chain_op.simps chain_ops_step
    by (rule grown_then_pure[OF step_grows[OF assms slab_allocate_extends(1)]])
      (simp_all add: at_offset_def split: prod.split)
next
  case (C_Initialize n v)
  show ?thesis
    unfolding C_Initialize do_chain_op.simps chain_ops_step
    by (rule grown_then_pure[OF step_grows[OF assms slab_allocate_extends(2)]])
      (simp_all add: at_offset_def split: prod.split)
qed (simp add: ensure_grows assms)

lemma fold_chain_ops_grow: "chain_ok s \<Longrightarrow> grown s (fold do_chain_op cs s)"
proof (induction cs arbitrary: s)
  case (Cons c cs)
  have g: "grown s (do_chain_op c s)" by (rule do_chain_op_grows[OF Cons.prems])
  show ?case using grown_trans[OF g Cons.IH[OF grown_ok[OF g]]] by simp
qed simp

section \<open>Giving buffers back\<close>

lemma chain_clear_effect:
  assumes "chain_ok (m, ch)" and "distinct (ch_bufs ch)"
  shows "manager_ok (fst (chain_clear (m, ch)))" and "snd (chain_clear (m, ch)) = alloc_chain"
    and "live_slots (fst (chain_clear (m, ch))) = live_slots m - set (ch_bufs ch)"
    and "j \<in> live_slots m \<Longrightarrow> j \<notin> set (ch_bufs ch) \<Longrightarrow> st_storage (mg_slots (fst (chain_clear (m, ch))) ! j) = st_storage (mg_slots m ! j)
      \<and> st_generation (mg_slots (fst (chain_clear (m, ch))) ! j) = st_generation (mg_slots m ! j)"
proof -
  let ?free = "\<lambda>k m. free_buffer (handle_of m k) m"
  have *: "manager_ok m \<Longrightarrow> set ks \<subseteq> live_slots m \<Longrightarrow> distinct ks \<Longrightarrow>
      manager_ok (fold ?free ks m) \<and> live_slots (fold ?free ks m) = live_slots m - set ks
      \<and> (\<forall>j\<in>live_slots m - set ks. st_storage (mg_slots (fold ?free ks m) ! j) = st_storage (mg_slots m ! j)
           \<and> st_generation (mg_slots (fold ?free ks m) ! j) = st_generation (mg_slots m ! j))" for m ks
  proof (induction ks arbitrary: m)
    case (Cons k ks)
    have "k \<in> live_slots m" using Cons.prems(2) by simp
    note F = free_effect[OF Cons.prems(1) handle_of_live(2)[OF Cons.prems(1) this]]
    have sub: "set ks \<subseteq> live_slots (?free k m)" using Cons.prems(2,3) by (auto simp: F(3))
    note I = Cons.IH[OF F(1) sub] 
    have "0 < j \<and> j < length (mg_slots m)" if "j \<in> live_slots m" for j
      using manager_okD(2)[OF Cons.prems(1)] that by auto
    then have "st_storage (mg_slots (?free k m) ! j) = st_storage (mg_slots m ! j)
        \<and> st_generation (mg_slots (?free k m) ! j) = st_generation (mg_slots m ! j)" if "j \<in> live_slots m" "j \<noteq> k" for j
      using F(4) that unfolding others_kept_def by metis
    then show ?case using I Cons.prems(3) by (auto simp: F(3))
  qed simp
  show "manager_ok (fst (chain_clear (m, ch)))" "snd (chain_clear (m, ch)) = alloc_chain"
    "live_slots (fst (chain_clear (m, ch))) = live_slots m - set (ch_bufs ch)"
    "j \<in> live_slots m \<Longrightarrow> j \<notin> set (ch_bufs ch) \<Longrightarrow> st_storage (mg_slots (fst (chain_clear (m, ch))) ! j) = st_storage (mg_slots m ! j)
      \<and> st_generation (mg_slots (fst (chain_clear (m, ch))) ! j) = st_generation (mg_slots m ! j)"
    using *[of m "ch_bufs ch"] assms by (auto simp: chain_ok_def chain_clear_def)
qed

section \<open>Several appends in one piece\<close>

text \<open>What an append leaves to the tail, where it fits.\<close>

lemma slab_append_packed:
  assumes "slab_ok s" and "length bytes \<le> remaining_capacity s"
  obtains s' where "slab_append bytes 0 0 v s = (Inr (sb_used s), s')" "slab_extends s s'"
    "sb_used s' = sb_used s + length bytes" "take (sb_used s') (sb_data s') = take (sb_used s) (sb_data s) @ bytes"
proof -
  have e: "slab_fill a a v s' = s'" for a s' by (simp add: slab_fill_def Let_def patch_def)
  define s' where "s' = s\<lparr>sb_data := patch (sb_data s) (sb_used s) bytes, sb_used := sb_used s + length bytes\<rparr>"
  have run: "slab_append bytes 0 0 v s = (Inr (sb_used s), s')"
    using assms(2) by (simp add: slab_append_def padded_size_def Let_def e s'_def)
  have fit: "sb_used s + length bytes \<le> length (sb_data s)"
    using assms by (simp add: slab_ok_def remaining_capacity_def slab_capacity_def)
  have "take (sb_used s') (sb_data s') = take (sb_used s) (sb_data s) @ bytes"
    using fit by (simp add: s'_def patch_def)
  moreover have "slab_extends s s'" using slab_append_extends[OF assms(1), of bytes 0 0 v] run by simp
  ultimately show ?thesis using run that by (simp add: s'_def)
qed

lemma append_on_tail:
  assumes ok: "chain_ok (m, ch)" and ne: "ch_bufs ch \<noteq> []" and k: "k = last (ch_bufs ch)"
    and fit: "length bytes \<le> remaining_capacity (slab_of m k)"
  obtains m' where "append_placed bytes 0 0 v (m, ch) =
      (Inr (\<lparr>loc_id = handle_of m k, loc_offset = word_of_nat (sb_used (slab_of m k))\<rparr>, k, sb_used (slab_of m k)), (m', ch))"
    "grown (m, ch) (m', ch)" "live_slots m' = live_slots m" "in_use m' k = in_use m k @ bytes"
    "sb_used (slab_of m' k) = sb_used (slab_of m k) + length bytes" "slab_capacity (slab_of m' k) = slab_capacity (slab_of m k)"
    "\<And>j. j \<noteq> k \<Longrightarrow> slab_of m' j = slab_of m j" "\<And>j. handle_of m' j = handle_of m j"
proof -
  have m: "manager_ok m" "k \<in> live_slots m" "set (ch_bufs ch) \<subseteq> live_slots m" "k \<in> set (ch_bufs ch)"
    using ok ne k by (auto simp: chain_ok_def)
  have sl: "slab_ok (slab_of m k)" by (rule live_slab(1)[OF m(1,2)])
  obtain s' where s': "slab_append bytes 0 0 v (slab_of m k) = (Inr (sb_used (slab_of m k)), s')" "slab_extends (slab_of m k) s'"
    "sb_used s' = sb_used (slab_of m k) + length bytes"
    "take (sb_used s') (sb_data s') = take (sb_used (slab_of m k)) (sb_data (slab_of m k)) @ bytes"
    by (rule slab_append_packed[OF sl fit])
  from on_slab_run[of m k "slab_append bytes 0 0 v", OF m(1,2) s'(1,2)]
  obtain m' where m': "on_slab k (slab_append bytes 0 0 v) m = (Inr (sb_used (slab_of m k)), m')" "manager_ok m'"
    "extends_memory m m'" "live_slots m' = live_slots m" "slab_of m' k = s'" "\<And>j. j \<noteq> k \<Longrightarrow> slab_of m' j = slab_of m j"
    "\<And>j. handle_of m' j = handle_of m j"
    by metis
  have t: "tail_with (can_fit_bytes bytes 0 0) (m, ch) = (Inr k, (m, ch))"
    using ne k fit by (simp add: tail_with_def chain_tail_def andthen_def can_fit_bytes_def padded_size_def Let_def)
  have run: "append_placed bytes 0 0 v (m, ch) =
      (Inr (\<lparr>loc_id = handle_of m k, loc_offset = word_of_nat (sb_used (slab_of m k))\<rparr>, k, sb_used (slab_of m k)), (m', ch))"
    using t m' by (simp add: append_placed_def andthen_def on_buffer_def zoom_def at_offset_def)
  have "slab_of m' j = slab_of m j" if "j \<notin> set (ch_bufs ch)" for j
    by (rule m'(6)) (use that m(4) in blast)
  then have g: "grown (m, ch) (m', ch)" using m' m(3) by (simp add: grown_def chain_ok_def)
  show ?thesis
    by (rule that[OF run g m'(4) _ _ _ m'(6,7)])
      (use s'(2-4) m'(5) in \<open>simp_all add: in_use_def slab_extends_def\<close>)
qed

text \<open>Room for a request at the end of the chain.\<close>

lemma ensure_capacity_cases:
  assumes "chain_ok (m, ch)"
  obtains (full) m' ch' where "ensure_capacity n (m, ch) = (Inl out_of_buffers, (m', ch'))" "grown (m, ch) (m', ch')"
      "only_fresh m m'"
  | (room) m' ch' where "ensure_capacity n (m, ch) = (Inr (), (m', ch'))" "grown (m, ch) (m', ch')" "ch_bufs ch' \<noteq> []"
      "can_fit n (slab_of m' (last (ch_bufs ch'))) \<or> sb_used (slab_of m' (last (ch_bufs ch'))) = 0" "only_fresh m m'"
proof (cases rule: chain_tail_cases[OF assms])
  case 1
  then show ?thesis using full assms by (simp add: ensure_capacity_def andthen_def)
next
  case T: (2 k m1 ch1)
  show ?thesis
  proof (cases "can_fit n (slab_of m1 k)")
    case True
    then show ?thesis using room[of m1 ch1] T by (auto simp: ensure_capacity_def andthen_def)
  next
    case False
    then have e: "ensure_capacity n (m, ch) = append_buffer (m1, ch1)"
      using T(1) by (simp add: ensure_capacity_def andthen_def)
    show ?thesis
    proof (cases rule: append_buffer_cases[OF grown_ok[OF T(2)]])
      case 1
      then show ?thesis using full e T(2,6) by simp
    next
      case A: (2 j m2 ch2)
      show ?thesis using room[of m2 ch2] e A grown_trans[OF T(2) A(2)] only_fresh_trans[OF T(6) A(6)] by simp
    qed
  qed
qed

section \<open>Reserving and appending\<close>

text \<open>\<^verbatim>\<open>bits::memcpy\<close> into the bytes of a reservation.\<close>

definition slab_write :: "nat \<Rightarrow> u8 list \<Rightarrow> (slab, sim_error, unit) sm" where
  "slab_write off bytes = modify (\<lambda>s. s\<lparr>sb_data := patch (sb_data s) off bytes\<rparr>)"

definition reserve_and_write :: "u8 list \<Rightarrow> (location \<times> nat \<times> nat) chain_sm" where
  "reserve_and_write bytes =
     andthen (chain_reserve (length bytes)) (\<lambda>(loc, k, off).
     andthen (on_buffer k (slab_write off bytes)) (\<lambda>_. ret (loc, k, off)))"

lemma reserve_fits: "can_fit_bytes bytes 0 0 = can_fit (length bytes)"
  by (simp add: can_fit_bytes_def can_fit_def padded_size_def Let_def fun_eq_iff)

lemma slab_reserve_write:
  "slab_append bytes 0 0 v s =
     andthen (slab_allocate_uninitialized (length bytes)) (\<lambda>off. andthen (slab_write off bytes) (\<lambda>_. ret off)) s"
  if "slab_ok s"
proof -
  have e: "slab_fill a a v s' = s'" for a s' by (simp add: slab_fill_def Let_def patch_def)
  show ?thesis
    by (simp add: slab_append_def slab_allocate_uninitialized_def andthen_def slab_write_def padded_size_def Let_def e)
qed

lemma on_slab_andthen:
  "on_slab k (andthen op f) m = andthen (on_slab k op) (\<lambda>a. on_slab k (f a)) m"
  if "k < length (mg_slots m)" "st_storage (mg_slots m ! k) \<noteq> None"
  using that by (auto simp: on_slab_def andthen_def set_slot_def slot_at_def split: sum.splits prod.splits)


lemma handle_of_on_slab: "on_slab k op m = (r, m') \<Longrightarrow> handle_of m' j = handle_of m j"
  by (cases "j = k"; cases "k < length (mg_slots m)")
    (auto simp: on_slab_def handle_of_def set_slot_def slot_at_def list_update_beyond split: option.splits prod.splits)

lemma on_buffer_append:
  assumes "manager_ok m" and "k \<in> live_slots m"
  shows "andthen (on_buffer k (slab_append bytes 0 0 v)) (\<lambda>off. andthen (at_offset k off) (\<lambda>loc. ret (loc, k, off))) (m, ch) =
    andthen (on_buffer k (slab_allocate_uninitialized (length bytes))) (\<lambda>off. andthen (at_offset k off) (\<lambda>loc.
      andthen (on_buffer k (slab_write off bytes)) (\<lambda>_. ret (loc, k, off)))) (m, ch)"
proof -
  note L = live_slab[OF assms]
  have k: "k < length (mg_slots m)" "st_storage (mg_slots m ! k) \<noteq> None"
    using assms(2) L(3) by (auto simp: live_slots_def)
  have "on_slab k (slab_append bytes 0 0 v) m
      = on_slab k (andthen (slab_allocate_uninitialized (length bytes)) (\<lambda>off. andthen (slab_write off bytes) (\<lambda>_. ret off))) m"
    using L(3) slab_reserve_write[OF L(1), of bytes v] by (auto simp: on_slab_def slot_at_def)
  also have "\<dots> = andthen (on_slab k (slab_allocate_uninitialized (length bytes)))
      (\<lambda>off. on_slab k (andthen (slab_write off bytes) (\<lambda>_. ret off))) m"
    by (rule on_slab_andthen[OF k])
  finally have e: "on_slab k (slab_append bytes 0 0 v) m = \<dots>" .
  show ?thesis
  proof (cases "on_slab k (slab_allocate_uninitialized (length bytes)) m")
    case (Pair r m1)
    show ?thesis
    proof (cases r)
      case (Inl err)
      then show ?thesis using Pair e by (simp add: andthen_def on_buffer_def zoom_def)
    next
      case (Inr off)
      obtain m2 where w: "on_slab k (slab_write off bytes) m1 = (Inr (), m2)"
        "on_slab k (andthen (slab_write off bytes) (\<lambda>_. ret off)) m1 = (Inr off, m2)"
        using Pair k by (auto simp: on_slab_def slot_at_def set_slot_def slab_write_def andthen_def split: option.splits prod.splits)
      have "handle_of m2 k = handle_of m1 k" by (rule handle_of_on_slab[OF w(1)])
      then show ?thesis using Pair Inr e w by (simp add: andthen_def on_buffer_def zoom_def at_offset_def)
    qed
  qed
qed

lemma andthen_cong_at: "m s = m' s \<Longrightarrow> (\<And>a s'. m s = (Inr a, s') \<Longrightarrow> f a s' = g a s') \<Longrightarrow> andthen m f s = andthen m' g s"
  by (auto simp: andthen_def split: prod.splits sum.splits)

lemma reserve_then_write: "chain_ok s \<Longrightarrow> reserve_and_write bytes s = append_placed bytes 0 0 v s"
proof -
  assume ok: "chain_ok s"
  obtain m ch where s: "s = (m, ch)" by (cases s)
  have "reserve_and_write bytes s = andthen (tail_with (can_fit (length bytes))) (\<lambda>k.
      andthen (on_buffer k (slab_allocate_uninitialized (length bytes))) (\<lambda>off. andthen (at_offset k off) (\<lambda>loc.
        andthen (on_buffer k (slab_write off bytes)) (\<lambda>_. ret (loc, k, off))))) s"
    by (simp add: reserve_and_write_def chain_reserve_def andthen_assoc)
  also have "\<dots> = append_placed bytes 0 0 v s"
    unfolding append_placed_def reserve_fits
  proof (rule andthen_cong_at[OF refl])
    fix k s' assume t: "tail_with (can_fit (length bytes)) s = (Inr k, s')"
    obtain m' ch' where s': "s' = (m', ch')" by (cases s')
    have "manager_ok m'" "k \<in> live_slots m'"
      using t unfolding s s'
      by (rule_tac tail_with_cases[OF ok[unfolded s], of "can_fit (length bytes)"],
          auto simp: grown_def chain_ok_def)+
    from on_buffer_append[OF this, of bytes v ch']
    show "andthen (on_buffer k (slab_allocate_uninitialized (length bytes))) (\<lambda>off. andthen (at_offset k off) (\<lambda>loc.
        andthen (on_buffer k (slab_write off bytes)) (\<lambda>_. ret (loc, k, off)))) s'
      = andthen (on_buffer k (slab_append bytes 0 0 v)) (\<lambda>off. andthen (at_offset k off) (\<lambda>loc. ret (loc, k, off))) s'" unfolding s' by (rule sym)
  qed
  finally show ?thesis .
qed



lemma first_append:
  "\<exists>loc s. chain_append [1, 2, 3] 0 0 0 (fresh_manager (\<lambda>_. (0, \<lambda>_. 0)), alloc_chain) = (Inr loc, s)"
proof -
  obtain sl where sl: "make_slab 0 (\<lambda>_. 0) BUFFER_SIZE = Inr sl" "sb_used sl = 0" "slab_capacity sl = BUFFER_SIZE"
    using make_buffer_slab by blast
  then show ?thesis
    by (simp add: chain_append_def tail_with_def chain_tail_def andthen_def append_buffer_def alloc_buffer_def
        fresh_manager_def alloc_chain_def slab_of_def reserve_fits can_fit_def remaining_capacity_def BUFFER_SIZE_def
        on_buffer_def zoom_def on_slab_def slot_at_def empty_slot_def slab_append_def padded_size_def Let_def at_offset_def)
qed


end
