(* ===== verification/Tvm_Replay.thy ===== *)
theory Tvm_Replay
  imports Tvm_Safety
begin

text \<open>
  What replaying recorded packets does.  A packet of the recorder changes the view of the interpreter that
  is given here: the backend, the system, the data pointer and the flag F.  The machine that fetches, decodes and
  dispatches them is a refinement of that: where the packets stand, and whether a part of them was moved to a
  subroutine, makes no difference.
\<close>

section \<open>Packets of the recorder\<close>

datatype (plugins only: code size) replay_packet =
    RP_SetMemX u16 u16 segment_pair
  | RP_SetMemDX u16 u16
  | RP_StepMem u16 u16 segment_pair u16 "u8 list"
  | RP_SetRegX u16 u16 u16
  | RP_StepReg u16 u16 u16 "u8 list"
  | RP_MMIO bool u16 u16
  | RP_ISyn u16
  | RP_DS u16
  | RP_LDP segment_pair u16
  | RP_ACCDP u16
  | RP_INCDP u16 u16

fun packet_bytes :: "replay_packet \<Rightarrow> u8 list" where
  "packet_bytes (RP_SetMemX acc dev off) = e_setmem4 True acc dev off"
| "packet_bytes (RP_SetMemDX acc dev) = e_setmemdx2 acc dev"
| "packet_bytes (RP_StepMem acc dev off order bytes) = e_stepmem6 acc dev off order bytes"
| "packet_bytes (RP_SetRegX acc reg field) = e_setreg3 True acc reg field"
| "packet_bytes (RP_StepReg acc reg field bytes) = e_stepreg4 acc reg field bytes"
| "packet_bytes (RP_MMIO wr acc dev) = e_mmio3 wr acc dev"
| "packet_bytes (RP_ISyn delta) = e_syn1_words OP_ISYN [delta]"
| "packet_bytes (RP_DS ds) = e_ldr RM_DS ds"
| "packet_bytes (RP_LDP dp ds) = e_ldp3 dp ds"
| "packet_bytes (RP_ACCDP ds) = e_accdp ds"
| "packet_bytes (RP_INCDP i ds) = e_incdp i ds"

definition packets_bytes :: "replay_packet list \<Rightarrow> u8 list" where
  "packets_bytes ps = concat (map packet_bytes ps)"

text \<open>An immediate payload must leave the number of words of its packet below 256.\<close>

fun packet_ok :: "replay_packet \<Rightarrow> bool" where
  "packet_ok (RP_StepMem acc dev off order bytes) \<longleftrightarrow> length bytes < 480"
| "packet_ok (RP_StepReg acc reg field bytes) \<longleftrightarrow> length bytes < 480"
| "packet_ok _ \<longleftrightarrow> True"

fun packet_words :: "replay_packet \<Rightarrow> nat" where
  "packet_words (RP_SetMemX acc dev off) = 4"
| "packet_words (RP_SetMemDX acc dev) = 2"
| "packet_words (RP_StepMem acc dev off order bytes) = 6 + (length bytes + 1) div 2"
| "packet_words (RP_SetRegX acc reg field) = 3"
| "packet_words (RP_StepReg acc reg field bytes) = 4 + (length bytes + 1) div 2"
| "packet_words (RP_MMIO wr acc dev) = 3"
| "packet_words (RP_ISyn delta) = 2"
| "packet_words (RP_DS ds) = 2"
| "packet_words (RP_LDP dp ds) = 3"
| "packet_words (RP_ACCDP ds) = 1"
| "packet_words (RP_INCDP i ds) = 2"

lemma length_packet_bytes [simp]: "length (packet_bytes p) = 2 * (packet_words p + 1)"
  by (cases p)
    (simp_all add: e_setmem4_def e_setmemdx2_def e_stepmem6_def e_setreg3_def e_stepreg4_def e_mmio3_def
      e_syn1_words_def e_ldr_def e_ldp3_def e_accdp_def e_incdp_def encode_immediate_def encode_immediate_words_def)

section \<open>What a packet does\<close>

record view =
  vw_backend :: backend
  vw_system :: "system option"
  vw_DP :: segment_pair
  vw_DS :: u16
  vw_F :: bool

datatype (plugins only: code size) outcome = Goes view | Stops stop_cause view | Throws sim_error view

definition view_of :: "interp \<Rightarrow> view" where
  "view_of i = \<lparr>vw_backend = it_backend i, vw_system = it_system i, vw_DP = rg_DP (regs (it_state i)),
     vw_DS = rg_DS (regs (it_state i)), vw_F = fl_F (csrs (it_state i))\<rparr>"

definition stops :: "stop_cause \<Rightarrow> view \<Rightarrow> outcome" where
  "stops c v = Stops c (v\<lparr>vw_F := True\<rparr>)"

definition attempts :: "system \<Rightarrow> unit work \<Rightarrow> view \<Rightarrow> outcome" where
  "attempts sys m v =
     (case try_access m (vw_backend v, sys) of
        (Inr ok, (b, sys')) \<Rightarrow> Goes (v\<lparr>vw_backend := b, vw_system := Some sys', vw_F := \<not> ok\<rparr>)
      | (Inl e, (b, sys')) \<Rightarrow> Throws e (v\<lparr>vw_backend := b, vw_system := Some sys'\<rparr>))"

definition changes_memory :: "delta_mem \<Rightarrow> u8 list option \<Rightarrow> view \<Rightarrow> outcome" where
  "changes_memory op data v =
     (case vw_system v of
        None \<Rightarrow> stops Stop_MissingSystem v
      | Some sys \<Rightarrow>
          if dm_kind op = Delta_Add \<and> dm_size op > 8 then stops Stop_StepWidthIllegal v
          else case target_of (dm_target op) sys of Inl c \<Rightarrow> stops c v
          | Inr dev \<Rightarrow> (case data of None \<Rightarrow> stops Stop_InvalidDBuffer v
                       | Some bytes \<Rightarrow> attempts sys (delta_access op bytes) v))"

definition changes_register :: "delta_reg \<Rightarrow> u8 list option \<Rightarrow> view \<Rightarrow> outcome" where
  "changes_register op data v =
     (case vw_system v of
        None \<Rightarrow> stops Stop_MissingSystem v
      | Some sys \<Rightarrow>
          case fst (resolve (dr_reg op) (sys_scan sys)) of None \<Rightarrow> stops Stop_RegisterInvalid v
          | Some reg \<Rightarrow> (case data of None \<Rightarrow> stops Stop_InvalidDBuffer v
              | Some bytes \<Rightarrow>
                  if sr_byte_width reg = 0 \<or> sr_byte_width reg > 8 then stops Stop_RegisterWidthIllegal v
                  else if dr_kind op \<noteq> Delta_Add \<and> unat (sr_byte_width reg) \<noteq> unat (dr_size op)
                  then stops Stop_RegisterSizeMismatch v
                  else if dr_kind op = Delta_Add \<and> dr_size op > 8 then stops Stop_StepWidthIllegal v
                  else attempts sys (delta_register op bytes) v))"

definition replays_mmio :: "bool \<Rightarrow> u8 \<Rightarrow> u8 \<Rightarrow> view \<Rightarrow> outcome" where
  "replays_mmio wr dev data v =
     (case vw_system v of
        None \<Rightarrow> stops Stop_MissingSystem v
      | Some sys \<Rightarrow>
          case target_of dev sys of Inl c \<Rightarrow> stops c v
          | Inr (Dev_Fifo r) \<Rightarrow> Goes (v\<lparr>vw_system := Some
              (sys\<lparr>sys_devices := (sys_devices sys)(dev \<mapsto> Dev_Fifo (mmio_change (vw_backend v) wr data r))\<rparr>)\<rparr>)
          | Inr _ \<Rightarrow> stops Stop_TargetNotFIFO v)"

text \<open>The data pointer moves within its buffer or, when a trace buffer is known, to a neighbour in the chain.\<close>

definition moves_data :: "u16 \<Rightarrow> u16 \<Rightarrow> view \<Rightarrow> outcome" where
  "moves_data incr ds v0 =
     (let v = v0\<lparr>vw_DS := ds\<rparr>; dp = vw_DP v
      in case bk_trace (vw_backend v) of
           None \<Rightarrow> Goes (v\<lparr>vw_DP := dp\<lparr>s_lo := s_lo dp + incr\<rparr>\<rparr>)
         | Some (succ, pred) \<Rightarrow>
             let lo = uint (s_lo dp) + sint incr; there = (if lo < 0 then pred else succ) (s_hi dp)
             in if 0 \<le> lo \<and> lo < BUF_SIZE then Goes (v\<lparr>vw_DP := dp\<lparr>s_lo := word_of_int lo\<rparr>\<rparr>)
                else if there = 0 then stops Stop_InvalidDBuffer v
                else Goes (v\<lparr>vw_DP := \<lparr>s_hi = there, s_lo = word_of_int lo\<rparr>\<rparr>))"

text \<open>The four bytes of address that head some payloads, upper half first.\<close>

definition address_at :: "u8 list \<Rightarrow> nat \<Rightarrow> u32" where
  "address_at bs lo = pair_as_u32 \<lparr>s_hi = join_bytes (bs ! (lo + 1)) (bs ! lo), s_lo = join_bytes (bs ! (lo + 3)) (bs ! (lo + 2))\<rparr>"

definition replay_packet :: "buffers \<Rightarrow> replay_packet \<Rightarrow> view \<Rightarrow> outcome" where
  "replay_packet bufs p v =
     (let dp = vw_DP v; ds = vw_DS v in
      case p of
        RP_SetMemX acc dev off \<Rightarrow> changes_memory
          \<lparr>dm_kind = Delta_Xor, dm_access = operation_of_u16 acc, dm_target = ucast dev, dm_offset = pair_as_u32 off,
           dm_data = dp, dm_size = ds, dm_order = LittleEndian\<rparr> (span_of bufs dp ds) v
      | RP_SetMemDX acc dev \<Rightarrow>
          (case bufs (s_hi dp) of None \<Rightarrow> stops Stop_InvalidDBuffer v
           | Some span \<Rightarrow>
               if unat (s_lo dp) + 4 + unat ds > length span then stops Stop_InvalidDBuffer v
               else let there = \<lparr>s_hi = s_hi dp, s_lo = s_lo dp + 4\<rparr>
                    in changes_memory
                 \<lparr>dm_kind = Delta_Xor, dm_access = operation_of_u16 acc, dm_target = ucast dev,
                  dm_offset = address_at span (unat (s_lo dp)),
                  dm_data = there, dm_size = ds, dm_order = LittleEndian\<rparr> (span_of bufs there ds) v)
      | RP_StepMem acc dev off order bytes \<Rightarrow> changes_memory
          \<lparr>dm_kind = Delta_Add, dm_access = operation_of_u16 acc, dm_target = ucast dev, dm_offset = pair_as_u32 off,
           dm_data = null_pair, dm_size = word_of_nat (length bytes), dm_order = decode_order order\<rparr> (Some bytes) v
      | RP_SetRegX acc reg field \<Rightarrow> changes_register
          \<lparr>dr_kind = Delta_Xor, dr_reg = (reg, field), dr_data = dp, dr_size = ds\<rparr> (span_of bufs dp ds) v
      | RP_StepReg acc reg field bytes \<Rightarrow> changes_register
          \<lparr>dr_kind = Delta_Add, dr_reg = (reg, field), dr_data = null_pair, dr_size = word_of_nat (length bytes)\<rparr>
          (Some bytes) v
      | RP_MMIO wr acc dev \<Rightarrow>
          (case bufs (s_hi dp) of None \<Rightarrow> stops Stop_InvalidDBuffer v
           | Some span \<Rightarrow>
               if unat (s_lo dp) + 5 > length span then stops Stop_InvalidDBuffer v
               else replays_mmio wr (ucast dev) (span ! (unat (s_lo dp) + 4)) v)
      | RP_ISyn delta \<Rightarrow> Goes v
      | RP_DS ds' \<Rightarrow> Goes (v\<lparr>vw_DS := ds'\<rparr>)
      | RP_LDP dp' ds' \<Rightarrow> Goes (v\<lparr>vw_DP := dp', vw_DS := ds'\<rparr>)
      | RP_ACCDP ds' \<Rightarrow> moves_data ds ds' v
      | RP_INCDP i ds' \<Rightarrow> moves_data i ds' v)"

fun bind_outcome :: "outcome \<Rightarrow> (view \<Rightarrow> outcome) \<Rightarrow> outcome" where
  "bind_outcome (Goes v) f = f v"
| "bind_outcome (Stops c v) f = Stops c v"
| "bind_outcome (Throws e v) f = Throws e v"

lemma bind_outcome_Goes [simp]: "bind_outcome out Goes = out"
  by (cases out) simp_all

lemma bind_outcome_assoc: "bind_outcome (bind_outcome out f) g = bind_outcome out (\<lambda>v. bind_outcome (f v) g)"
  by (cases out) simp_all

fun replay :: "buffers \<Rightarrow> replay_packet list \<Rightarrow> view \<Rightarrow> outcome" where
  "replay bufs [] v = Goes v"
| "replay bufs (p # ps) v = bind_outcome (replay_packet bufs p v) (replay bufs ps)"


section \<open>One packet on the machine\<close>

text \<open>
  \<open>follows bufs i i' n out\<close>: what the machine has reached after the packet of \<open>n\<close> operand words it was at in state
  \<open>i\<close>, when the packet is to do \<open>out\<close>.
\<close>

definition running :: "interp \<Rightarrow> bool" where
  "running i \<longleftrightarrow> fl_L (csrs (it_state i))"

definition follows :: "interp \<Rightarrow> nat \<Rightarrow> (sim_error + unit) \<times> interp \<Rightarrow> outcome \<Rightarrow> bool" where
  "follows i n = (\<lambda>(r, i') out.
     (case out of
        Goes v \<Rightarrow> r = Inr () \<and> view_of i' = v \<and> running i' \<and> rg_IP (regs (it_state i')) = advanced n (it_state i)
                  \<and> calls (it_state i') = calls (it_state i)
      | Stops c v \<Rightarrow> r = Inr () \<and> view_of i' = v \<and> \<not> running i' \<and> rg_STOP_CAUSE (regs (it_state i')) = c
      | Throws e v \<Rightarrow> r = Inl e \<and> view_of i' = v))"

text \<open>Decoding left the machine in \<open>st\<close>, with the data pointer \<open>dp\<close> and the size \<open>ds\<close>.\<close>

definition decoded :: "tvm \<Rightarrow> nat \<Rightarrow> segment_pair \<Rightarrow> u16 \<Rightarrow> tvm \<Rightarrow> bool" where
  "decoded st0 n dp ds st \<longleftrightarrow> rg_IP (regs st) = advanced n st0 \<and> calls st = calls st0 \<and> fl_L (csrs st)
     \<and> fl_F (csrs st) = fl_F (csrs st0) \<and> rg_DP (regs st) = dp \<and> rg_DS (regs st) = ds"

lemma decodedI:
  "rg_IP (regs st) = advanced n st0 \<and> same_calls st0 st \<and> same_data st0 st \<Longrightarrow> fl_L (csrs st0) \<Longrightarrow>
   decoded st0 n (rg_DP (regs st0)) (rg_DS (regs st0)) st"
  by (simp add: decoded_def same_calls_def same_data_def calls_def)

lemma step_dispatch:
  assumes "decode bufs (it_decoded i) (it_state i) = (d, st)" and "fl_L (csrs st)"
    and "dispatch bufs d (it_backend i, st, it_system i) = (r, (b, st', s))"
  shows "step bufs i = (r, i\<lparr>it_state := st', it_decoded := d, it_backend := b, it_system := s\<rparr>)"
  using assms by (simp add: step_def Let_def)

lemma step_stop:
  assumes "decode bufs (it_decoded i) (it_state i) = (d, st)" and "\<not> fl_L (csrs st)"
  shows "step bufs i = (Inr (), i\<lparr>it_state := st, it_decoded := d\<rparr>)"
  using assms by (simp add: step_def Let_def)

lemmas follow_defs = follows_def view_of_def running_def stops_def decoded_def calls_def

lemma view_fields [simp]:
  "vw_backend (view_of i) = it_backend i" "vw_system (view_of i) = it_system i"
  "vw_DP (view_of i) = rg_DP (regs (it_state i))" "vw_DS (view_of i) = rg_DS (regs (it_state i))"
  "vw_F (view_of i) = fl_F (csrs (it_state i))"
  by (simp_all add: view_of_def)

lemma follows_hard_stop:
  "step bufs i = (Inr (), i\<lparr>it_state := hard_stop c st, it_decoded := d\<rparr>) \<Longrightarrow> decoded (it_state i) n dp ds st \<Longrightarrow>
   dp = rg_DP (regs (it_state i)) \<Longrightarrow> ds = rg_DS (regs (it_state i)) \<Longrightarrow> follows i n (step bufs i) (stops c (view_of i))"
  by (simp add: follow_defs hard_stop_def)

lemma attempt_follows:
  assumes dec: "decode bufs (it_decoded i) (it_state i) = (d, st)"
    and st: "decoded (it_state i) n (rg_DP (regs (it_state i))) (rg_DS (regs (it_state i))) st"
    and run: "dispatch bufs d (it_backend i, st, it_system i) = attempt m (\<lambda>ok. set_F (\<not> ok)) (it_backend i, st, it_system i)"
    and sys: "it_system i = Some sys"
  shows "follows i n (step bufs i) (attempts sys m (view_of i))"
proof -
  have L: "fl_L (csrs st)" using st by (simp add: decoded_def)
  obtain r b sys' where t: "try_access m (it_backend i, sys) = (r, (b, sys'))" by (metis prod_cases3)
  show ?thesis
  proof (cases r)
    case (Inl e)
    then have "dispatch bufs d (it_backend i, st, it_system i) = (Inl e, (b, st, Some sys'))"
      using run t sys by (simp add: attempt_def)
    from step_dispatch[OF dec L this] show ?thesis using st t Inl by (simp add: follow_defs attempts_def)
  next
    case (Inr ok)
    then have "dispatch bufs d (it_backend i, st, it_system i) = (Inr (), (b, set_F (\<not> ok) st, Some sys'))"
      using run t sys by (simp add: attempt_def)
    from step_dispatch[OF dec L this] show ?thesis using st t Inr by (simp add: follow_defs attempts_def set_F_def)
  qed
qed

lemma stop_follows:
  assumes dec: "decode bufs (it_decoded i) (it_state i) = (d, st)"
    and st: "decoded (it_state i) n (rg_DP (regs (it_state i))) (rg_DS (regs (it_state i))) st"
    and run: "dispatch bufs d (it_backend i, st, it_system i) = stop_hard c (it_backend i, st, it_system i)"
  shows "follows i n (step bufs i) (stops c (view_of i))"
proof -
  have L: "fl_L (csrs st)" using st by (simp add: decoded_def)
  have "dispatch bufs d (it_backend i, st, it_system i) = (Inr (), (it_backend i, hard_stop c st, it_system i))"
    using run by (simp add: stop_hard_def)
  from step_dispatch[OF dec L this] show ?thesis using st by (simp add: follow_defs hard_stop_def)
qed

lemma memory_follows:
  assumes dec: "decode bufs (it_decoded i) (it_state i) = (D_DeltaMem op, st)"
    and st: "decoded (it_state i) n (rg_DP (regs (it_state i))) (rg_DS (regs (it_state i))) st"
    and tr: "\<not> fl_TR (csrs st)"
  shows "follows i n (step bufs i) (changes_memory op (span_of bufs (dm_data op) (dm_size op)) (view_of i))"
proof (cases "it_system i")
  case None
  then show ?thesis using stop_follows[OF dec st, of Stop_MissingSystem] tr
    by (simp add: changes_memory_def dispatch_def on_deltamem_def)
next
  case (Some sys)
  show ?thesis
  proof (cases "dm_kind op = Delta_Add \<and> dm_size op > 8")
    case True
    then show ?thesis using stop_follows[OF dec st, of Stop_StepWidthIllegal] tr Some
      by (simp add: changes_memory_def dispatch_def on_deltamem_def)
  next
    case w: False
    then show ?thesis
    proof (cases "target_of (dm_target op) sys")
      case (Inl c)
      then show ?thesis using stop_follows[OF dec st, of c] tr Some w
        by (auto simp: changes_memory_def dispatch_def on_deltamem_def)
    next
      case (Inr dev)
      show ?thesis
      proof (cases "span_of bufs (dm_data op) (dm_size op)")
        case None
        then show ?thesis using stop_follows[OF dec st, of Stop_InvalidDBuffer] tr Some w Inr
          by (auto simp: changes_memory_def dispatch_def on_deltamem_def)
      next
        case s: (Some data)
        then show ?thesis using attempt_follows[OF dec st _ Some, of "delta_access op data"] tr Some w Inr
          by (auto simp: changes_memory_def dispatch_def on_deltamem_def)
      qed
    qed
  qed
qed


lemma register_follows:
  assumes dec: "decode bufs (it_decoded i) (it_state i) = (D_DeltaReg op, st)"
    and st: "decoded (it_state i) n (rg_DP (regs (it_state i))) (rg_DS (regs (it_state i))) st"
    and tr: "fl_TR (csrs st)"
  shows "follows i n (step bufs i) (changes_register op (span_of bufs (dr_data op) (dr_size op)) (view_of i))"
proof -
  let ?S = "(it_backend i, st, it_system i)"
  consider (none) "it_system i = None"
    | (reg) sys where "it_system i = Some sys" "fst (resolve (dr_reg op) (sys_scan sys)) = None"
    | (span) sys reg where "it_system i = Some sys" "fst (resolve (dr_reg op) (sys_scan sys)) = Some reg"
        "span_of bufs (dr_data op) (dr_size op) = None"
    | (all) sys reg data where "it_system i = Some sys" "fst (resolve (dr_reg op) (sys_scan sys)) = Some reg"
        "span_of bufs (dr_data op) (dr_size op) = Some data"
    by (cases "it_system i"; force)
  then show ?thesis
  proof cases
    case none
    then show ?thesis using stop_follows[OF dec st, of Stop_MissingSystem] tr
      by (simp add: dispatch_def changes_register_def on_deltareg_def)
  next
    case reg
    then show ?thesis using stop_follows[OF dec st, of Stop_RegisterInvalid] tr
      by (simp add: dispatch_def changes_register_def on_deltareg_def)
  next
    case span
    then show ?thesis using stop_follows[OF dec st, of Stop_InvalidDBuffer] tr
      by (simp add: dispatch_def changes_register_def on_deltareg_def)
  next
    case all
    consider (w) "sr_byte_width reg = 0 \<or> sr_byte_width reg > 8"
      | (m) "\<not> (sr_byte_width reg = 0 \<or> sr_byte_width reg > 8)"
          "dr_kind op \<noteq> Delta_Add \<and> unat (sr_byte_width reg) \<noteq> unat (dr_size op)"
      | (s) "\<not> (sr_byte_width reg = 0 \<or> sr_byte_width reg > 8)"
          "\<not> (dr_kind op \<noteq> Delta_Add \<and> unat (sr_byte_width reg) \<noteq> unat (dr_size op))"
          "dr_kind op = Delta_Add \<and> dr_size op > 8"
      | (go) "\<not> (sr_byte_width reg = 0 \<or> sr_byte_width reg > 8)"
          "\<not> (dr_kind op \<noteq> Delta_Add \<and> unat (sr_byte_width reg) \<noteq> unat (dr_size op))"
          "\<not> (dr_kind op = Delta_Add \<and> dr_size op > 8)" by blast
    then show ?thesis
    proof cases
      case w
      then show ?thesis using stop_follows[OF dec st, of Stop_RegisterWidthIllegal] tr all
        by (simp add: dispatch_def changes_register_def on_deltareg_def)
    next
      case m
      then show ?thesis using stop_follows[OF dec st, of Stop_RegisterSizeMismatch] tr all
        by (simp add: dispatch_def changes_register_def on_deltareg_def)
    next
      case s
      then show ?thesis using stop_follows[OF dec st, of Stop_StepWidthIllegal] tr all
        by (simp add: dispatch_def changes_register_def on_deltareg_def)
    next
      case go
      have "dispatch bufs (D_DeltaReg op) ?S = attempt (delta_register op data) (\<lambda>ok. set_F (\<not> ok)) ?S"
        using tr all go by (auto simp: dispatch_def on_deltareg_def)
      from attempt_follows[OF dec st this all(1)] show ?thesis
        using all go by (auto simp: changes_register_def)
    qed
  qed
qed

lemma mmio_follows:
  assumes dec: "decode bufs (it_decoded i) (it_state i) = (D_MMIO op, st)"
    and st: "decoded (it_state i) n (rg_DP (regs (it_state i))) (rg_DS (regs (it_state i))) st"
    and tr: "\<not> fl_TR (csrs st)"
  shows "follows i n (step bufs i) (replays_mmio (mm_write op) (mm_target op) (mm_data op) (view_of i))"
proof -
  let ?S = "(it_backend i, st, it_system i)"
  have L: "fl_L (csrs st)" using st by (simp add: decoded_def)
  consider (none) "it_system i = None"
    | (target) sys c where "it_system i = Some sys" "target_of (mm_target op) sys = Inl c"
    | (fifo) sys r where "it_system i = Some sys" "target_of (mm_target op) sys = Inr (Dev_Fifo r)"
    | (other) sys dev where "it_system i = Some sys" "target_of (mm_target op) sys = Inr dev" "\<forall>r. dev \<noteq> Dev_Fifo r"
  proof (cases "it_system i")
    case (Some sys)
    then show ?thesis
    proof (cases "target_of (mm_target op) sys")
      case (Inr dev)
      then show ?thesis using Some fifo other by blast
    qed (use target in blast)
  qed (use none in blast)
  then show ?thesis
  proof cases
    case none
    then show ?thesis using stop_follows[OF dec st, of Stop_MissingSystem] tr by (simp add: dispatch_def replays_mmio_def on_mmio_def)
  next
    case target
    then show ?thesis using stop_follows[OF dec st, of c] tr by (simp add: dispatch_def replays_mmio_def on_mmio_def)
  next
    case fifo
    then have "dispatch bufs (D_MMIO op) ?S = (Inr (), (it_backend i, st, Some
        (sys\<lparr>sys_devices := (sys_devices sys)(mm_target op \<mapsto> Dev_Fifo (mmio_change (it_backend i) (mm_write op) (mm_data op) r))\<rparr>)))"
      using tr by (simp add: dispatch_def on_mmio_def)
    from step_dispatch[OF dec L this] show ?thesis using fifo st by (simp add: replays_mmio_def follow_defs)
  next
    case other
    then show ?thesis using stop_follows[OF dec st, of Stop_TargetNotFIFO] tr
      by (cases dev) (simp_all add: dispatch_def replays_mmio_def on_mmio_def)
  qed
qed

lemma data_follows:
  assumes dec: "decode bufs (it_decoded i) (it_state i) = (D_DPIncr incr ds, st)"
    and st: "decoded (it_state i) n (rg_DP (regs (it_state i))) (rg_DS (regs (it_state i))) st"
  shows "follows i n (step bufs i) (moves_data incr ds (view_of i))"
proof -
  let ?dp = "rg_DP (regs (it_state i))"
  have L: "fl_L (csrs st)" using st by (simp add: decoded_def)
  have w: "word_of_int (x + 65536) = (word_of_int x :: u16)" "word_of_int (x - 65536) = (word_of_int x :: u16)" for x
    by (simp_all add: word_of_int_eq_iff take_bit_eq_mod)
  have "fst (on_dpincr incr ds (it_backend i, st)) = it_backend i"
    by (auto simp: on_dpincr_def Let_def split: option.splits prod.splits)
  then obtain st' where run: "on_dpincr incr ds (it_backend i, st) = (it_backend i, st')" by (metis prod.collapse)
  then have "dispatch bufs (D_DPIncr incr ds) (it_backend i, st, it_system i) = (Inr (), (it_backend i, st', it_system i))"
    by (simp add: dispatch_def on_control_def)
  note S = step_dispatch[OF dec L this]
  show ?thesis
    using st run S
    by (cases "bk_trace (it_backend i)")
      (auto simp: follow_defs moves_data_def on_dpincr_def Let_def BUF_SIZE_def w put_DS_def put_DP_lo_def
        put_DP_hi_def hard_stop_def split: if_splits)
qed


text \<open>Where the bytes of a change come from does not matter to it.\<close>

lemma changes_memory_anywhere: "changes_memory (op\<lparr>dm_data := x\<rparr>) data v = changes_memory op data v"
proof -
  have "delta_access (op\<lparr>dm_data := x\<rparr>) bytes = delta_access op bytes" for bytes by (simp add: delta_access_def)
  then show ?thesis by (auto simp: changes_memory_def split: option.split sum.split)
qed

lemma changes_register_anywhere: "changes_register (op\<lparr>dr_data := x\<rparr>) data v = changes_register op data v"
proof -
  have "delta_register (op\<lparr>dr_data := x\<rparr>) bytes = delta_register op bytes" for bytes by (simp add: delta_register_def)
  then show ?thesis by (auto simp: changes_register_def split: option.split)
qed

text \<open>Packets that find their address in the data, when the data are there and when they are not.\<close>

lemma decode_setmemdx_any:
  fixes bufs st
  defines "dp \<equiv> rg_DP (regs st)" and "ds \<equiv> rg_DS (regs st)"
  assumes c: "code_here bufs st (e_setmemdx2 acc dev)"
  shows "\<exists>st' op. decode bufs prev st =
      (D_DeltaMem op, if (case bufs (s_hi dp) of None \<Rightarrow> True | Some span \<Rightarrow> unat (s_lo dp) + 4 + unat ds > length span)
                      then hard_stop Stop_InvalidDBuffer st' else st')
     \<and> rg_IP (regs st') = advanced 2 st \<and> same_calls st st' \<and> same_data st st' \<and> \<not> fl_TR (csrs st')
     \<and> (\<forall>span. bufs (s_hi dp) = Some span \<and> unat (s_lo dp) + 4 + unat ds \<le> length span \<longrightarrow>
          op = \<lparr>dm_kind = Delta_Xor, dm_access = operation_of_u16 acc, dm_target = ucast dev,
                dm_offset = address_at span (unat (s_lo dp)),
                dm_data = \<lparr>s_hi = s_hi dp, s_lo = s_lo dp + 4\<rparr>, dm_size = ds, dm_order = LittleEndian\<rparr>)"
proof -
  note c = c[unfolded e_setmemdx2_def]
  note r = operand_words[OF encoded_words[OF c], simplified]
  show ?thesis
    by (cases "bufs (s_hi dp)")
      (auto simp: dp_def ds_def decode_encoded[OF c, of 2] decode_setmemdx_def decoding r Let_def
        SETMEMDX_ADDRESS_BYTES_def put_offset_def address_at_def pair_as_u32_def)
qed

lemma decode_mmio_any:
  fixes bufs st
  defines "dp \<equiv> rg_DP (regs st)"
  assumes c: "code_here bufs st (e_mmio3 wr acc dev)"
  shows "\<exists>st' op. decode bufs prev st =
      (D_MMIO op, if (case bufs (s_hi dp) of None \<Rightarrow> True | Some span \<Rightarrow> unat (s_lo dp) + 5 > length span)
                      then hard_stop Stop_InvalidDBuffer st' else st')
     \<and> rg_IP (regs st') = advanced 3 st \<and> same_calls st st' \<and> same_data st st' \<and> \<not> fl_TR (csrs st')
     \<and> (\<forall>span. bufs (s_hi dp) = Some span \<and> unat (s_lo dp) + 5 \<le> length span \<longrightarrow>
          mm_write op = wr \<and> mm_target op = ucast dev \<and> mm_data op = span ! (unat (s_lo dp) + 4))"
proof -
  note c = c[unfolded e_mmio3_def]
  note r = operand_words[OF encoded_words[OF c], simplified]
  show ?thesis
    by (cases "bufs (s_hi dp)"; cases wr)
      (auto simp: dp_def decode_encoded[OF c, of 3] decode_mmio_def decoding r Let_def
        MMIO_PROLOGUE_BYTES_def put_offset_def)
qed


lemma goes_by_decoding:
  assumes "decode bufs (it_decoded i) (it_state i) = (d, st)" and "decoded (it_state i) n dp ds st"
    and "\<And>s. dispatch bufs d s = (Inr (), s)"
  shows "follows i n (step bufs i) (Goes ((view_of i)\<lparr>vw_DP := dp, vw_DS := ds\<rparr>))"
proof -
  have "fl_L (csrs st)" using assms(2) by (simp add: decoded_def)
  from step_dispatch[OF assms(1) this assms(3)] show ?thesis using assms(2) by (simp add: follow_defs)
qed

lemma lmr_DS: "lmr_loop (reg_mask_bit RM_DS) 0 (word_bytes_le v) st = put_DS v st"
proof -
  have "lmr_word (word_bytes_le v) 0 = v"
    unfolding lmr_word_def word_bytes_le_eq
    by (rule bit_word_eqI) (auto simp: bit_simps lo_byte_def hi_byte_def dest: bit_imp_le_length)
  moreover have "reg_mask_at (countr_zero (reg_mask_bit RM_DS)) = Some RM_DS" by code_simp
  moreover have "reg_mask_bit RM_DS \<noteq> 0 \<and> reg_mask_bit RM_DS AND (reg_mask_bit RM_DS - 1) = 0" by code_simp
  moreover have "lmr_word_count (word_bytes_le v) = 1" by (simp add: lmr_word_count_def word_bytes_le_eq)
  ultimately show ?thesis
    by (subst lmr_loop.simps) (simp add: lmr_assign_def, subst lmr_loop.simps, simp)
qed

theorem step_follows_packet:
  assumes c: "code_here bufs (it_state i) (packet_bytes p)" and ok: "packet_ok p" and L: "running i"
  shows "follows i (packet_words p) (step bufs i) (replay_packet bufs p (view_of i))"
proof (cases p)
  case (RP_SetMemX acc dev off)
  note D = decode_setmem4[OF c[unfolded RP_SetMemX packet_bytes.simps], of "it_decoded i"]
  then show ?thesis using memory_follows[of bufs i] L decodedI
    unfolding RP_SetMemX replay_packet_def Let_def by (fastforce simp: running_def)
next
  case (RP_SetMemDX acc dev)
  let ?dp = "rg_DP (regs (it_state i))" and ?ds = "rg_DS (regs (it_state i))"
  obtain st op where D: "decode bufs (it_decoded i) (it_state i) =
      (D_DeltaMem op, if (case bufs (s_hi ?dp) of None \<Rightarrow> True | Some span \<Rightarrow> unat (s_lo ?dp) + 4 + unat ?ds > length span)
                      then hard_stop Stop_InvalidDBuffer st else st)"
    "decoded (it_state i) 2 ?dp ?ds st" "\<not> fl_TR (csrs st)"
    "\<And>span. bufs (s_hi ?dp) = Some span \<Longrightarrow> unat (s_lo ?dp) + 4 + unat ?ds \<le> length span \<Longrightarrow>
          op = \<lparr>dm_kind = Delta_Xor, dm_access = operation_of_u16 acc, dm_target = ucast dev,
                dm_offset = address_at span (unat (s_lo ?dp)),
                dm_data = \<lparr>s_hi = s_hi ?dp, s_lo = s_lo ?dp + 4\<rparr>, dm_size = ?ds, dm_order = LittleEndian\<rparr>"
    using decode_setmemdx_any[OF c[unfolded RP_SetMemDX packet_bytes.simps], of "it_decoded i"] decodedI L
    unfolding running_def by blast
  show ?thesis
  proof (cases "case bufs (s_hi ?dp) of None \<Rightarrow> True | Some span \<Rightarrow> unat (s_lo ?dp) + 4 + unat ?ds > length span")
    case True
    then have "replay_packet bufs p (view_of i) = stops Stop_InvalidDBuffer (view_of i)"
      by (auto simp: RP_SetMemDX replay_packet_def Let_def split: option.splits)
    moreover have "step bufs i = (Inr (), i\<lparr>it_state := hard_stop Stop_InvalidDBuffer st, it_decoded := D_DeltaMem op\<rparr>)"
      by (rule step_stop) (use D(1) True in \<open>auto simp: hard_stop_def\<close>)
    ultimately show ?thesis using follows_hard_stop[OF _ D(2)] by (simp add: RP_SetMemDX)
  next
    case False
    then obtain span where span: "bufs (s_hi ?dp) = Some span" "unat (s_lo ?dp) + 4 + unat ?ds \<le> length span"
      by (auto split: option.splits)
    have "decode bufs (it_decoded i) (it_state i) = (D_DeltaMem op, st)" using D(1) False by auto
    from memory_follows[OF this D(2,3)] D(4)[OF span] span show ?thesis
      by (simp add: RP_SetMemDX replay_packet_def Let_def)
  qed
next
  case (RP_StepMem acc dev off ord bytes)
  have l: "length bytes < 480" using ok RP_StepMem by simp
  obtain st data where D: "decode bufs (it_decoded i) (it_state i) = (D_DeltaMem
      \<lparr>dm_kind = Delta_Add, dm_access = operation_of_u16 acc, dm_target = ucast dev, dm_offset = pair_as_u32 off,
       dm_data = data, dm_size = word_of_nat (length bytes), dm_order = decode_order ord\<rparr>, st)"
     "span_of bufs data (word_of_nat (length bytes)) = Some bytes"
     "decoded (it_state i) (packet_words p) (rg_DP (regs (it_state i))) (rg_DS (regs (it_state i))) st" "\<not> fl_TR (csrs st)"
    using decode_stepmem6[OF c[unfolded RP_StepMem packet_bytes.simps] l, of "it_decoded i"] decodedI L
    unfolding running_def RP_StepMem by fastforce
  show ?thesis
    using memory_follows[OF D(1,3,4)] D(2)
      changes_memory_anywhere[where x = null_pair and op = "\<lparr>dm_kind = Delta_Add, dm_access = operation_of_u16 acc, dm_target = ucast dev,
        dm_offset = pair_as_u32 off, dm_data = data, dm_size = word_of_nat (length bytes), dm_order = decode_order ord\<rparr>"]
    by (simp add: RP_StepMem replay_packet_def Let_def)
next
  case (RP_SetRegX acc reg field)
  note D = decode_setreg3[OF c[unfolded RP_SetRegX packet_bytes.simps], of "it_decoded i"]
  then show ?thesis using register_follows[of bufs i] L decodedI
    unfolding RP_SetRegX replay_packet_def Let_def by (fastforce simp: running_def)
next
  case (RP_StepReg acc reg field bytes)
  have l: "length bytes < 480" using ok RP_StepReg by simp
  obtain st data where D: "decode bufs (it_decoded i) (it_state i) = (D_DeltaReg
      \<lparr>dr_kind = Delta_Add, dr_reg = (reg, field), dr_data = data, dr_size = word_of_nat (length bytes)\<rparr>, st)"
     "span_of bufs data (word_of_nat (length bytes)) = Some bytes"
     "decoded (it_state i) (packet_words p) (rg_DP (regs (it_state i))) (rg_DS (regs (it_state i))) st" "fl_TR (csrs st)"
    using decode_stepreg4[OF c[unfolded RP_StepReg packet_bytes.simps] l, of "it_decoded i"] decodedI L
    unfolding running_def RP_StepReg by fastforce
  show ?thesis
    using register_follows[OF D(1,3,4)] D(2)
      changes_register_anywhere[where x = null_pair and op = "\<lparr>dr_kind = Delta_Add, dr_reg = (reg, field), dr_data = data,
        dr_size = word_of_nat (length bytes)\<rparr>"]
    by (simp add: RP_StepReg replay_packet_def Let_def)
next
  case (RP_MMIO wr acc dev)
  let ?dp = "rg_DP (regs (it_state i))" and ?ds = "rg_DS (regs (it_state i))"
  obtain st op where D: "decode bufs (it_decoded i) (it_state i) =
      (D_MMIO op, if (case bufs (s_hi ?dp) of None \<Rightarrow> True | Some span \<Rightarrow> unat (s_lo ?dp) + 5 > length span)
                      then hard_stop Stop_InvalidDBuffer st else st)"
    "decoded (it_state i) 3 ?dp ?ds st" "\<not> fl_TR (csrs st)"
    "\<And>span. bufs (s_hi ?dp) = Some span \<Longrightarrow> unat (s_lo ?dp) + 5 \<le> length span \<Longrightarrow>
          mm_write op = wr \<and> mm_target op = ucast dev \<and> mm_data op = span ! (unat (s_lo ?dp) + 4)"
    using decode_mmio_any[OF c[unfolded RP_MMIO packet_bytes.simps], of "it_decoded i"] decodedI L
    unfolding running_def by blast
  show ?thesis
  proof (cases "case bufs (s_hi ?dp) of None \<Rightarrow> True | Some span \<Rightarrow> unat (s_lo ?dp) + 5 > length span")
    case True
    then have "replay_packet bufs p (view_of i) = stops Stop_InvalidDBuffer (view_of i)"
      by (auto simp: RP_MMIO replay_packet_def Let_def split: option.splits)
    moreover have "step bufs i = (Inr (), i\<lparr>it_state := hard_stop Stop_InvalidDBuffer st, it_decoded := D_MMIO op\<rparr>)"
      by (rule step_stop) (use D(1) True in \<open>auto simp: hard_stop_def\<close>)
    ultimately show ?thesis using follows_hard_stop[OF _ D(2)] by (simp add: RP_MMIO)
  next
    case False
    then obtain span where span: "bufs (s_hi ?dp) = Some span" "unat (s_lo ?dp) + 5 \<le> length span"
      by (auto split: option.splits)
    have "decode bufs (it_decoded i) (it_state i) = (D_MMIO op, st)" using D(1) False by auto
    from mmio_follows[OF this D(2,3)] D(4)[OF span] span show ?thesis
      by (simp add: RP_MMIO replay_packet_def Let_def)
  qed
next
  case (RP_ISyn delta)
  obtain st where D: "decode bufs (it_decoded i) (it_state i) = (D_ISyn (scast delta), st)"
    "decoded (it_state i) 2 (rg_DP (regs (it_state i))) (rg_DS (regs (it_state i))) st"
    using decode_isyn1[OF c[unfolded RP_ISyn packet_bytes.simps], of "it_decoded i"] decodedI L unfolding running_def by blast
  show ?thesis using goes_by_decoding[OF D] by (simp add: RP_ISyn replay_packet_def dispatch_def) (simp add: view_of_def)
next
  case (RP_DS ds)
  obtain st where D: "decode bufs (it_decoded i) (it_state i) = (D_LMR (reg_mask_bit RM_DS) (word_bytes_le ds), st)"
    "decoded (it_state i) 2 (rg_DP (regs (it_state i))) (rg_DS (regs (it_state i))) st"
    using decode_ldr[OF c[unfolded RP_DS packet_bytes.simps], of "it_decoded i"] decodedI L unfolding running_def by blast
  have "dispatch bufs (D_LMR (reg_mask_bit RM_DS) (word_bytes_le ds)) (it_backend i, st, it_system i)
      = (Inr (), (it_backend i, put_DS ds st, it_system i))"
    by (simp add: dispatch_def on_control_def on_lmr_def lmr_DS)
  from step_dispatch[OF D(1) _ this] show ?thesis
    using D(2) by (simp add: RP_DS replay_packet_def follow_defs put_DS_def)
next
  case (RP_LDP dp ds)
  obtain st where D: "decode bufs (it_decoded i) (it_state i) = (D_LDP, st)" "decoded (it_state i) 3 dp ds st"
    using decode_ldp3[OF c[unfolded RP_LDP packet_bytes.simps], of "it_decoded i"] L
    by (auto simp: running_def decoded_def same_calls_def calls_def)
  show ?thesis using goes_by_decoding[OF D] by (simp add: RP_LDP replay_packet_def dispatch_def)
next
  case (RP_ACCDP ds)
  obtain st where D: "decode bufs (it_decoded i) (it_state i) = (D_DPIncr (rg_DS (regs (it_state i))) ds, st)"
    "decoded (it_state i) 1 (rg_DP (regs (it_state i))) (rg_DS (regs (it_state i))) st"
    using decode_accdp[OF c[unfolded RP_ACCDP packet_bytes.simps], of "it_decoded i"] decodedI L unfolding running_def by blast
  show ?thesis using data_follows[OF D] by (simp add: RP_ACCDP replay_packet_def)
next
  case (RP_INCDP incr ds)
  obtain st where D: "decode bufs (it_decoded i) (it_state i) = (D_DPIncr incr ds, st)"
    "decoded (it_state i) 2 (rg_DP (regs (it_state i))) (rg_DS (regs (it_state i))) st"
    using decode_incdp[OF c[unfolded RP_INCDP packet_bytes.simps], of "it_decoded i"] decodedI L unfolding running_def by blast
  show ?thesis using data_follows[OF D] by (simp add: RP_INCDP replay_packet_def)
qed


section \<open>Runs of packets\<close>

text \<open>The packet at the instruction pointer, with the pointer on a word boundary.\<close>

definition code_next :: "buffers \<Rightarrow> interp \<Rightarrow> u8 list \<Rightarrow> bool" where
  "code_next bufs i bytes \<longleftrightarrow> code_here bufs (it_state i) bytes \<and> even (unat (s_lo (rg_IP (regs (it_state i)))))"

lemma mask_even: "even (unat w) \<Longrightarrow> w AND 0xFFFE = w" for w :: u16
proof -
  assume "even (unat w)"
  then have "\<not> bit (unat w) 0" by (simp add: bit_0)
  then have "\<not> bit w 0" by (simp add: bit_unsigned_iff)
  have m: "(0xFFFE :: u16) = NOT 1" by simp
  show ?thesis unfolding m
    by (rule bit_word_eqI) (use \<open>\<not> bit w 0\<close> in \<open>auto simp: bit_simps bit_1_iff intro: ccontr\<close>)
qed

lemma code_next_advance:
  assumes c: "code_next bufs i (xs @ ys)" and n: "length xs = 2 * (n + 1)" and ys: "ys \<noteq> []"
    and ip: "rg_IP (regs (it_state i')) = advanced n (it_state i)"
  shows "code_next bufs i' ys"
proof -
  let ?lo = "s_lo (rg_IP (regs (it_state i)))"
  have e: "even (unat ?lo)" using c by (simp add: code_next_def)
  from c have at: "code_at bufs (s_hi (rg_IP (regs (it_state i)))) (unat ?lo) (xs @ ys)"
    by (simp add: code_next_def code_here_def)
  then have "unat ?lo + length (xs @ ys) \<le> 65536" by (auto simp: code_at_def split: option.splits)
  then have "unat ?lo + 2 * (n + 1) < 65536" using n ys by (cases ys) simp_all
  then have u: "unat (?lo + 2 + 2 * word_of_nat n) = unat ?lo + 2 * (n + 1)" by (simp add: unat_word_ariths unat_of_nat)
  then have "(?lo + 2 + 2 * word_of_nat n) AND 0xFFFE = ?lo + 2 + 2 * word_of_nat n" using e by (intro mask_even) simp
  then have "rg_IP (regs (it_state i')) = \<lparr>s_hi = s_hi (rg_IP (regs (it_state i))), s_lo = ?lo + 2 + 2 * word_of_nat n\<rparr>"
    by (simp add: ip advanced_def)
  then show ?thesis using code_at_append[OF at] e n u by (simp add: code_next_def code_here_def)
qed

lemma run_loop_stopped: "\<not> running i \<Longrightarrow> run_loop bufs i = Some (Inr (), i)"
  by (subst run_loop.simps) (simp add: running_def)

lemma run_loop_step:
  "running i \<Longrightarrow> step bufs i = (r, i') \<Longrightarrow>
   run_loop bufs i = (case r of Inl e \<Rightarrow> Some (Inl e, i') | Inr _ \<Rightarrow> run_loop bufs i')"
  by (subst run_loop.simps) (simp add: running_def split: sum.split)

text \<open>
  \<open>ends bufs i out next\<close>: running from \<open>i\<close> does \<open>out\<close>; where that goes on, the run goes on with a state
  that satisfies \<open>next\<close>.
\<close>

definition ends :: "buffers \<Rightarrow> interp \<Rightarrow> outcome \<Rightarrow> (interp \<Rightarrow> bool) \<Rightarrow> bool" where
  "ends bufs i out next \<longleftrightarrow>
     (case out of
        Goes v \<Rightarrow> \<exists>i'. run_loop bufs i = run_loop bufs i' \<and> running i' \<and> view_of i' = v \<and> next i'
      | Stops c v \<Rightarrow> \<exists>i'. run_loop bufs i = Some (Inr (), i') \<and> view_of i' = v \<and> \<not> running i'
                        \<and> rg_STOP_CAUSE (regs (it_state i')) = c
      | Throws e v \<Rightarrow> \<exists>i'. run_loop bufs i = Some (Inl e, i') \<and> view_of i' = v)"

lemma ends_follows:
  assumes "running i" and "follows i n (step bufs i) out"
    and "\<And>i' v. out = Goes v \<Longrightarrow> running i' \<Longrightarrow> view_of i' = v \<Longrightarrow> rg_IP (regs (it_state i')) = advanced n (it_state i)
           \<Longrightarrow> calls (it_state i') = calls (it_state i) \<Longrightarrow> next i'"
  shows "ends bufs i out next"
proof -
  obtain r i' where s: "step bufs i = (r, i')" by (cases "step bufs i")
  note R = run_loop_step[OF assms(1) s]
  show ?thesis
  proof (cases out)
    case (Goes v)
    then show ?thesis using assms(2,3) R s by (auto simp: follows_def ends_def)
  next
    case (Stops c v)
    then show ?thesis using assms(2) R s run_loop_stopped[of i' bufs] by (auto simp: follows_def ends_def)
  next
    case (Throws e v)
    then show ?thesis using assms(2) R s by (auto simp: follows_def ends_def)
  qed
qed

lemma ends_bind:
  assumes "ends bufs i out next"
    and "\<And>i' v. out = Goes v \<Longrightarrow> running i' \<Longrightarrow> view_of i' = v \<Longrightarrow> next i' \<Longrightarrow> ends bufs i' (f v) post"
  shows "ends bufs i (bind_outcome out f) post"
proof (cases out)
  case (Goes v)
  then obtain i' where i': "run_loop bufs i = run_loop bufs i'" "running i'" "view_of i' = v" "next i'"
    using assms(1) by (auto simp: ends_def)
  have "ends bufs i' (f v) post" by (rule assms(2)[OF Goes i'(2-4)])
  then show ?thesis using i'(1) Goes by (auto simp: ends_def split: outcome.splits)
qed (use assms(1) in \<open>simp_all add: ends_def\<close>)

lemma run_packets:
  assumes "code_next bufs i (packets_bytes ps @ rest)" and "running i" and "\<forall>p\<in>set ps. packet_ok p" and "rest \<noteq> []"
  shows "ends bufs i (replay bufs ps (view_of i))
    (\<lambda>i'. code_next bufs i' rest \<and> calls (it_state i') = calls (it_state i))"
  using assms
proof (induction ps arbitrary: i)
  case Nil
  then show ?case by (auto simp: ends_def packets_bytes_def)
next
  case (Cons p ps)
  let ?rest = "packets_bytes ps @ rest"
  have c: "code_next bufs i (packet_bytes p @ ?rest)" using Cons.prems(1) by (simp add: packets_bytes_def)
  then have here: "code_here bufs (it_state i) (packet_bytes p)"
    using code_at_append unfolding code_next_def code_here_def by blast
  have ok: "packet_ok p" and oks: "\<forall>p\<in>set ps. packet_ok p" using Cons.prems(3) by simp_all
  have first: "ends bufs i (replay_packet bufs p (view_of i))
      (\<lambda>i'. code_next bufs i' ?rest \<and> calls (it_state i') = calls (it_state i))"
  proof (rule ends_follows[OF Cons.prems(2) step_follows_packet[OF here ok Cons.prems(2)]])
    fix i' :: interp and v
    assume "rg_IP (regs (it_state i')) = advanced (packet_words p) (it_state i)"
      "calls (it_state i') = calls (it_state i)"
    then show "code_next bufs i' ?rest \<and> calls (it_state i') = calls (it_state i)"
      using code_next_advance[OF c length_packet_bytes] Cons.prems(4) by simp
  qed
  show ?case
    unfolding replay.simps
  proof (rule ends_bind[OF first])
    fix i' v
    assume "running i'" "view_of i' = v" "code_next bufs i' ?rest \<and> calls (it_state i') = calls (it_state i)"
    then show "ends bufs i' (replay bufs ps v) (\<lambda>i'. code_next bufs i' rest \<and> calls (it_state i') = calls (it_state i))"
      using Cons.IH[of i'] oks Cons.prems(4) by auto
  qed
qed


section \<open>The end of a program, and subroutines\<close>

definition halts :: "view \<Rightarrow> outcome" where
  "halts v = (if bk_depth (vw_backend v) \<noteq> bk_floor (vw_backend v) then stops Stop_UnbalancedInvCall v
              else Stops Stop_None (v\<lparr>vw_F := False\<rparr>))"

lemma halt_ends:
  assumes c: "code_next bufs i e_halt0" and L: "running i"
  shows "ends bufs i (halts (view_of i)) next"
proof -
  obtain st where D: "decode bufs (it_decoded i) (it_state i) = (D_Halt Stop_None, st)"
    "same_calls (it_state i) st" "same_data (it_state i) st"
    using decode_halt0 c unfolding code_next_def by blast
  let ?st = "if bk_depth (it_backend i) \<noteq> bk_floor (it_backend i) then hard_stop Stop_UnbalancedInvCall st else soft_stop Stop_None st"
  have "dispatch bufs (D_Halt Stop_None) (it_backend i, st, it_system i) = (Inr (), (it_backend i, ?st, it_system i))"
    by (simp add: dispatch_def on_control_def on_halt_def)
  from step_dispatch[OF D(1) _ this]
  have "follows i 0 (step bufs i) (halts (view_of i))"
    using D(2,3) L by (auto simp: follow_defs halts_def same_calls_def same_data_def hard_stop_def soft_stop_def)
  then show ?thesis by (rule ends_follows[OF L]) (auto simp: halts_def stops_def split: if_splits)
qed

text \<open>A call pushes the address of the packet behind it.\<close>

lemma call_ends:
  assumes c: "code_next bufs i (e_call2 t @ rest)" and rest: "rest \<noteq> []" and L: "running i"
    and ok: "stack_ok (it_state i)" "length (frames (it_state i)) < 64"
    and body: "code_at bufs (s_hi t) (unat (s_lo t)) code" "even (unat (s_lo t))"
  shows "ends bufs i (Goes (view_of i)) (\<lambda>i'. code_next bufs i' code \<and> stack_ok (it_state i')
    \<and> (\<exists>back. frames (it_state i') = frames (it_state i) @ [back]
         \<and> code_at bufs (s_hi back) (unat (s_lo back)) rest \<and> even (unat (s_lo back))))"
proof -
  have here: "code_here bufs (it_state i) (e_call2 t)"
    using code_at_append c unfolding code_next_def code_here_def by blast
  obtain st where D: "decode bufs (it_decoded i) (it_state i) = (D_Call t, st)"
    "rg_IP (regs st) = advanced 2 (it_state i)" "same_calls (it_state i) st" "same_data (it_state i) st"
    using decode_call2[OF here, of "it_decoded i"] by blast
  have st: "stack_ok st" "frames st = frames (it_state i)"
    using D(3) ok(1) by (simp_all add: same_calls_def stack_ok_def frames_def)
  then have room: "length (frames st) < 64" using ok(2) by simp
  note P = push_within[OF st(1) room, of "rg_IP (regs st)"]
  define st' where "st' = push_ip t st"
  have s': "csrs st' = csrs st" "regs st' = (regs st)\<lparr>rg_SP := rg_SP (regs st) + 4, rg_IP := t\<rparr>"
    "stack_ok st'" "frames st' = frames st @ [rg_IP (regs st)]"
    using P by (simp_all add: st'_def push_ip_def Let_def stack_ok_def frames_def)
  have "dispatch bufs (D_Call t) (it_backend i, st, it_system i) = (Inr (), (it_backend i, st', it_system i))"
    by (simp add: dispatch_def on_control_def on_call_def st'_def)
  note S = step_dispatch[OF D(1) _ this]
  define i1 where "i1 = i\<lparr>it_state := st', it_decoded := D_Call t, it_backend := it_backend i, it_system := it_system i\<rparr>"
  have run: "step bufs i = (Inr (), i1)" using S D(3) L by (simp add: i1_def running_def same_calls_def)
  have "run_loop bufs i = run_loop bufs i1" using run_loop_step[OF L run] by simp
  moreover have "running i1" "view_of i1 = view_of i"
    using L D(3,4) s' by (simp_all add: i1_def running_def view_of_def same_calls_def same_data_def)
  moreover have "code_next bufs i1 code" using body s' by (simp add: code_next_def code_here_def i1_def)
  moreover have "code_next bufs (i1\<lparr>it_state := st\<rparr>) rest"
    by (rule code_next_advance[OF c _ rest, of 2]) (simp_all add: e_call2_def D(2))
  ultimately show ?thesis
    using s'(3,4) st(2) by (auto simp: ends_def i1_def code_next_def code_here_def intro!: exI[of _ i1])
qed

lemma ret_ends:
  assumes c: "code_next bufs i e_ret" and L: "running i"
    and ok: "stack_ok (it_state i)" "frames (it_state i) = fs @ [back]"
    and there: "code_at bufs (s_hi back) (unat (s_lo back)) rest" "even (unat (s_lo back))"
  shows "ends bufs i (Goes (view_of i)) (\<lambda>i'. code_next bufs i' rest)"
proof -
  obtain st where D: "decode bufs (it_decoded i) (it_state i) = (D_Ret, st)"
    "same_calls (it_state i) st" "same_data (it_state i) st"
    using decode_ret0 c unfolding code_next_def by blast
  have st: "stack_ok st" "frames st = fs @ [back]"
    using D(2) ok by (simp_all add: same_calls_def stack_ok_def frames_def)
  note P = pop_within[OF st]
  define st' where "st' = pop_ip st"
  have s': "csrs st' = csrs st" "regs st' = (regs st)\<lparr>rg_SP := rg_SP (regs st) - 4, rg_IP := back\<rparr>"
    using P by (simp_all add: st'_def pop_ip_def case_prod_beta)
  have "dispatch bufs D_Ret (it_backend i, st, it_system i) = (Inr (), (it_backend i, st', it_system i))"
    by (simp add: dispatch_def on_control_def on_ret_def st'_def)
  note S = step_dispatch[OF D(1) _ this]
  define i1 where "i1 = i\<lparr>it_state := st', it_decoded := D_Ret, it_backend := it_backend i, it_system := it_system i\<rparr>"
  have run: "step bufs i = (Inr (), i1)" using S D(2) L by (simp add: i1_def running_def same_calls_def)
  have "run_loop bufs i = run_loop bufs i1" using run_loop_step[OF L run] by simp
  moreover have "running i1" "view_of i1 = view_of i"
    using L D(2,3) s' by (simp_all add: i1_def running_def view_of_def same_calls_def same_data_def)
  moreover have "code_next bufs i1 rest" using there s' by (simp add: code_next_def code_here_def i1_def)
  ultimately show ?thesis by (auto simp: ends_def intro!: exI[of _ i1])
qed


section \<open>Recorded programs\<close>

text \<open>
  What the trace buffer writes for a program: its three parts and a halt one after the other, or a call in the
  place of the middle part, which then stands elsewhere and returns.
\<close>

definition recorded_at :: "buffers \<Rightarrow> location \<Rightarrow> u8 list \<Rightarrow> u8 list \<Rightarrow> u8 list \<Rightarrow> bool" where
  "recorded_at bufs loc prefix body postfix \<longleftrightarrow>
     even (unat (loc_offset loc))
     \<and> (code_at bufs (loc_id loc) (unat (loc_offset loc)) (prefix @ body @ postfix @ e_halt0)
        \<or> (\<exists>t. code_at bufs (loc_id loc) (unat (loc_offset loc)) (prefix @ e_call2 t @ postfix @ e_halt0)
             \<and> code_at bufs (s_hi t) (unat (s_lo t)) (body @ e_ret) \<and> even (unat (s_lo t))))"

definition replay_program :: "buffers \<Rightarrow> replay_packet list \<Rightarrow> view \<Rightarrow> outcome" where
  "replay_program bufs ps v = bind_outcome (replay bufs ps v) halts"

lemma replay_append: "replay bufs (ps @ qs) v = bind_outcome (replay bufs ps v) (replay bufs qs)"
proof (induction ps arbitrary: v)
  case (Cons p ps)
  then have "replay bufs (ps @ qs) = (\<lambda>v. bind_outcome (replay bufs ps v) (replay bufs qs))" by (rule ext)
  then show ?case by (simp add: bind_outcome_assoc)
qed simp

lemma ends_weaken: "ends bufs i out next \<Longrightarrow> (\<And>i'. next i' \<Longrightarrow> post i') \<Longrightarrow> ends bufs i out post"
  by (auto simp: ends_def split: outcome.splits)

text \<open>The middle part, inline or called, takes the machine to what follows it.\<close>

lemma run_middle:
  assumes "code_next bufs i (packets_bytes body @ rest) \<or>
      (\<exists>t. code_next bufs i (e_call2 t @ rest) \<and> code_at bufs (s_hi t) (unat (s_lo t)) (packets_bytes body @ e_ret)
         \<and> even (unat (s_lo t)))"
    and L: "running i" and oks: "\<forall>p\<in>set body. packet_ok p" and rest: "rest \<noteq> []"
    and st: "stack_ok (it_state i)" "length (frames (it_state i)) < 64"
  shows "ends bufs i (replay bufs body (view_of i)) (\<lambda>i'. code_next bufs i' rest)"
  using assms(1)
proof (elim disjE exE conjE)
  assume "code_next bufs i (packets_bytes body @ rest)"
  from run_packets[OF this L oks rest] show ?thesis by (rule ends_weaken) simp
next
  fix t
  assume c: "code_next bufs i (e_call2 t @ rest)"
    and b: "code_at bufs (s_hi t) (unat (s_lo t)) (packets_bytes body @ e_ret)" "even (unat (s_lo t))"
  have ne: "e_ret \<noteq> []" by (simp add: e_ret_def encode_op_def word_bytes_le_eq)
  have "ends bufs i (bind_outcome (Goes (view_of i)) (replay bufs body)) (\<lambda>i'. code_next bufs i' rest)"
  proof (rule ends_bind[OF call_ends[OF c rest L st b]])
    fix i1 v
    assume v: "view_of i1 = v" and L1: "running i1" and i1: "code_next bufs i1 (packets_bytes body @ e_ret)
      \<and> stack_ok (it_state i1) \<and> (\<exists>back. frames (it_state i1) = frames (it_state i) @ [back]
         \<and> code_at bufs (s_hi back) (unat (s_lo back)) rest \<and> even (unat (s_lo back)))"
    then obtain b where b: "stack_ok (it_state i1)" "frames (it_state i1) = frames (it_state i) @ [b]"
      "code_at bufs (s_hi b) (unat (s_lo b)) rest" "even (unat (s_lo b))" by blast
    have "ends bufs i1 (bind_outcome (replay bufs body (view_of i1)) Goes) (\<lambda>i'. code_next bufs i' rest)"
    proof (rule ends_bind[OF run_packets[OF _ L1 oks ne]])
      show "code_next bufs i1 (packets_bytes body @ e_ret)" using i1 by blast
      fix i2 v2
      assume 2: "running i2" "view_of i2 = v2" "code_next bufs i2 e_ret \<and> calls (it_state i2) = calls (it_state i1)"
      then have "stack_ok (it_state i2)" "frames (it_state i2) = frames (it_state i) @ [b]"
        using b(1,2) by (simp_all add: calls_def stack_ok_def frames_def)
      from ret_ends[OF _ 2(1) this b(3,4)] show "ends bufs i2 (Goes v2) (\<lambda>i'. code_next bufs i' rest)"
        using 2 by simp
    qed
    then show "ends bufs i1 (replay bufs body v) (\<lambda>i'. code_next bufs i' rest)" by (simp add: v)
  qed
  then show ?thesis by simp
qed

lemma stack_start:
  assumes "stack_ok st" and "retain = Retain_All \<longrightarrow> length (frames st) < 64"
  shows "stack_ok (start_program loc retain st)" and "length (frames (start_program loc retain st)) < 64"
  using assms by (cases retain; simp add: start_program_def restart_def update_ip_def update_dp_def Let_def
      stack_ok_def frames_def default_regs_def)+

text \<open>
  Property C38.  A recorded program comes to an end, and what it does is what its packets do, one after the other:
  it returns exactly when they let it halt or stop it, and it throws what they throw.  This holds
  whether its middle part stands in the program or is called as a shared subroutine, so replacing a repeated
  part by a call never changes a replay.
\<close>

theorem recorded_program_replays:
  assumes "recorded_at bufs (pl_code loc) (packets_bytes prefix) (packets_bytes body) (packets_bytes postfix)"
    and "\<forall>p\<in>set (prefix @ body @ postfix). packet_ok p"
    and "stack_ok (it_state i)" and "retain = Retain_All \<longrightarrow> length (frames (it_state i)) < 64"
  shows "\<exists>r i'. run_program bufs loc retain i = Some (r, i')
    \<and> (case replay_program bufs (prefix @ body @ postfix) (view_of (i\<lparr>it_state := start_program loc retain (it_state i)\<rparr>)) of
         Goes v \<Rightarrow> False
       | Stops c v \<Rightarrow> r = Inr () \<and> view_of i' = v \<and> rg_STOP_CAUSE (regs (it_state i')) = c
       | Throws e v \<Rightarrow> r = Inl e \<and> view_of i' = v)"
proof -
  let ?i = "i\<lparr>it_state := start_program loc retain (it_state i)\<rparr>"
  let ?tail = "packets_bytes postfix @ e_halt0"
  have ne: "e_halt0 \<noteq> []" by (simp add: e_halt0_def encode_op_def word_bytes_le_eq)
  have call_ne: "e_call2 t @ ?tail \<noteq> []" for t using ne by simp
  have L: "running ?i"
    by (simp add: running_def start_program_def update_ip_def update_dp_def restart_def Let_def)
  note st = stack_start[OF assms(3,4), of loc]
  have ok: "\<forall>p\<in>set prefix. packet_ok p" "\<forall>p\<in>set body. packet_ok p" "\<forall>p\<in>set postfix. packet_ok p"
    using assms(2) by auto
  have ip: "rg_IP (regs (it_state ?i)) = \<lparr>s_hi = loc_id (pl_code loc), s_lo = loc_offset (pl_code loc)\<rparr>"
    using assms(1) by (simp add: start_program_def update_ip_def Let_def recorded_at_def mask_even)
  define middle where "middle = (\<lambda>i'. code_next bufs i' (packets_bytes body @ ?tail) \<or>
      (\<exists>t. code_next bufs i' (e_call2 t @ ?tail) \<and> code_at bufs (s_hi t) (unat (s_lo t)) (packets_bytes body @ e_ret)
         \<and> even (unat (s_lo t))))"
  have pre: "ends bufs ?i (replay bufs prefix (view_of ?i)) (\<lambda>i'. middle i' \<and> calls (it_state i') = calls (it_state ?i))"
  proof -
    consider "code_next bufs ?i (packets_bytes prefix @ packets_bytes body @ ?tail)"
      | t where "code_next bufs ?i (packets_bytes prefix @ e_call2 t @ ?tail)"
        "code_at bufs (s_hi t) (unat (s_lo t)) (packets_bytes body @ e_ret)" "even (unat (s_lo t))"
      using assms(1) ip by (auto simp: recorded_at_def code_next_def code_here_def)
    then show ?thesis
    proof cases
      case 1
      have "packets_bytes body @ ?tail \<noteq> []" using ne by simp
      from run_packets[OF 1 L ok(1) this] show ?thesis by (rule ends_weaken) (simp add: middle_def)
    next
      case 2
      from run_packets[OF 2(1) L ok(1) call_ne] show ?thesis by (rule ends_weaken) (use 2 in \<open>auto simp: middle_def\<close>)
    qed
  qed
  have "ends bufs ?i (bind_outcome (replay bufs prefix (view_of ?i)) (\<lambda>v. bind_outcome (replay bufs body v)
      (\<lambda>v. bind_outcome (replay bufs postfix v) halts))) (\<lambda>_. False)"
  proof (rule ends_bind[OF pre], goal_cases)
    case (1 i1 v1)
    then have st1: "stack_ok (it_state i1)" "length (frames (it_state i1)) < 64"
      using st by (simp_all add: calls_def stack_ok_def frames_def)
    have tail: "?tail \<noteq> []" using ne by simp
    have mid: "ends bufs i1 (replay bufs body v1) (\<lambda>i'. code_next bufs i' ?tail)"
      using run_middle[OF _ 1(2) ok(2) tail st1] 1(3,4) by (simp add: middle_def)
    show ?case
    proof (rule ends_bind[OF mid], goal_cases)
      case (1 i2 v2)
      from run_packets[OF 1(4,2) ok(3) ne] 1(3)
      have post: "ends bufs i2 (replay bufs postfix v2) (\<lambda>i'. code_next bufs i' e_halt0)" by (auto intro: ends_weaken)
      show ?case
      proof (rule ends_bind[OF post], goal_cases)
        case (1 i3 v3)
        then show ?case using halt_ends[of bufs i3] by simp
      qed
    qed
  qed
  then have "ends bufs ?i (replay_program bufs (prefix @ body @ postfix) (view_of ?i)) (\<lambda>_. False)"
    by (simp add: replay_program_def replay_append bind_outcome_assoc)
  then show ?thesis
    unfolding run_program_def by (auto simp: ends_def split: outcome.splits)
qed


definition called_program :: buffers where
  "called_program = [1 \<mapsto> e_call2 \<lparr>s_hi = 2, s_lo = 0\<rparr> @ e_halt0, 2 \<mapsto> packets_bytes [RP_ISyn 5, RP_DS 7] @ e_ret]"

theorem recorded_program_replays_witness:
  "\<exists>i'. run_program called_program \<lparr>pl_code = \<lparr>loc_id = 1, loc_offset = 0\<rparr>, pl_data = \<lparr>loc_id = 0, loc_offset = 0\<rparr>\<rparr>
       Retain_None (fresh_interp fresh_backend None) = Some (Inr (), i')
     \<and> vw_DS (view_of i') = 7 \<and> \<not> vw_F (view_of i')"
proof -
  let ?loc = "\<lparr>pl_code = \<lparr>loc_id = 1, loc_offset = 0\<rparr>, pl_data = \<lparr>loc_id = 0, loc_offset = 0\<rparr>\<rparr>"
  let ?i = "fresh_interp fresh_backend None"
  have p: "recorded_at called_program (pl_code ?loc) (packets_bytes []) (packets_bytes [RP_ISyn 5, RP_DS 7]) (packets_bytes [])"
    unfolding recorded_at_def called_program_def packets_bytes_def
    by (auto simp: code_at_def intro!: exI[of _ "\<lparr>s_hi = 2, s_lo = 0\<rparr> :: segment_pair"])
      (simp_all add: e_call2_def e_halt0_def e_ret_def encode_op_def word_bytes_le_eq e_syn1_words_def
        encode_immediate_words_def e_ldr_def)
  have st: "stack_ok (it_state ?i)" "Retain_None = Retain_All \<longrightarrow> length (frames (it_state ?i)) < 64"
    by (simp_all add: stack_ok_def fresh_interp_def fresh_tvm_def default_regs_def)
  have o: "replay_program called_program ([] @ [RP_ISyn 5, RP_DS 7] @ []) v = halts (v\<lparr>vw_DS := 7\<rparr>)" for v
    by (simp add: replay_program_def replay_packet_def Let_def)
  have "halts v = Stops Stop_None (v\<lparr>vw_F := False\<rparr>)" if "vw_backend v = fresh_backend" for v
    using that by (simp add: halts_def fresh_backend_def)
  then have h: "replay_program called_program ([] @ [RP_ISyn 5, RP_DS 7] @ [])
      (view_of (?i\<lparr>it_state := start_program ?loc Retain_None (it_state ?i)\<rparr>))
    = Stops Stop_None ((view_of (?i\<lparr>it_state := start_program ?loc Retain_None (it_state ?i)\<rparr>))\<lparr>vw_DS := 7, vw_F := False\<rparr>)"
    unfolding o by (simp add: fresh_interp_def)
  show ?thesis
    using recorded_program_replays[OF p _ st] unfolding h by (auto simp del: view_fields)
qed

end
