(* ===== verification/Trace_Ring.thy ===== *)
theory Trace_Ring
  imports Buffer_Chain Tvm_Replay Ascii_Text
begin

text \<open>
  The trace buffer down to its bytes, from \<^verbatim>\<open>sim/debugger/tvm_tracebuffer.hpp\<close> and
  \<^verbatim>\<open>tvm_tracebuffer.cpp\<close>: recordings in scratch buffers, the ring of slots with their code, data and location
  buffers, the sharing of repeated bodies, cursors, and the release of slots that were read.
  Sizes of the host (\<^verbatim>\<open>size_t\<close>) are natural numbers.  Watermark callbacks, of which none is registered here, and
  the memo of a recording's data chain are left out; assertions are those of a release build, that is, absent.
\<close>

section \<open>State\<close>

definition null_location :: location where
  "null_location = \<lparr>loc_id = 0, loc_offset = 0\<rparr>"

definition null_program :: program_location where
  "null_program = \<lparr>pl_code = null_location, pl_data = null_location\<rparr>"

record dp_anchor =
  an_set :: bool
  an_at :: location
  an_size :: u16
  an_stride :: u16

definition no_anchor :: dp_anchor where
  "no_anchor = \<lparr>an_set = False, an_at = null_location, an_size = 0, an_stride = 0\<rparr>"

record scratch =
  sc_prefix :: "u8 list"
  sc_body :: "u8 list"
  sc_postfix :: "u8 list"
  sc_id :: u8
  sc_active :: bool
  sc_dp :: dp_anchor
  sc_data_start :: location
  sc_slot :: nat
  sc_entry :: u16

text \<open>
  A node of the ring.  The location buffer is the number of its slot in the manager; \<open>nd_data\<close> has the data chain of
  each initiator that wrote here, in the order in which they were created.
\<close>

record trace_node =
  nd_slot :: "nat option"
  nd_locations :: "nat option"
  nd_code :: chain
  nd_data :: "(u8 \<times> chain) list"
  nd_count :: u16
  nd_open :: u16

text \<open>The bytes of a promoted body are a window of a buffer: its slot, the offset and the length.\<close>

record stencil =
  sn_location :: location
  sn_hits :: u32
  sn_body :: "nat \<times> nat \<times> nat"

record footprint =
  fp_code :: nat
  fp_code_if_inlined :: nat
  fp_stencils :: nat
  fp_data :: nat
  fp_programs :: nat

definition no_footprint :: footprint where
  "no_footprint = \<lparr>fp_code = 0, fp_code_if_inlined = 0, fp_stencils = 0, fp_data = 0, fp_programs = 0\<rparr>"

record trace_ring =
  tr_mgr :: manager
  tr_ring :: "trace_node list"
  tr_head :: nat
  tr_tail :: nat
  tr_recs :: "u8 \<Rightarrow> scratch option"
  tr_stencils :: chain
  tr_tombstone :: program_location
  tr_map :: "u32 \<Rightarrow> stencil option"
  tr_pending :: "u32 set"
  tr_traced :: "u8 \<Rightarrow> bool"
  tr_in_payload :: "u8 \<Rightarrow> bool"
  tr_foot :: footprint

definition PROMOTION_THRESHOLD :: nat where "PROMOTION_THRESHOLD = 8"
definition MAX_PENDING_HASHES :: nat where "MAX_PENDING_HASHES = 65536"
definition LOCATION_BYTES :: nat where "LOCATION_BYTES = 8"
definition MAX_ENTRIES :: nat where "MAX_ENTRIES = BUFFER_SIZE div LOCATION_BYTES"

type_synonym 'a ring_sm = "(trace_ring, sim_error, 'a) sm"

section \<open>Nodes and chains\<close>

definition node_index :: "nat \<Rightarrow> trace_ring \<Rightarrow> nat" where
  "node_index s t = s mod length (tr_ring t)"

definition node_of :: "nat \<Rightarrow> trace_ring \<Rightarrow> trace_node" where
  "node_of s t = tr_ring t ! node_index s t"

definition put_node :: "nat \<Rightarrow> trace_node \<Rightarrow> trace_ring \<Rightarrow> trace_ring" where
  "put_node s n t = t\<lparr>tr_ring := (tr_ring t)[node_index s t := n]\<rparr>"

text \<open>\<^verbatim>\<open>resident_node\<close> and \<^verbatim>\<open>count_at\<close>.\<close>

definition resident_node :: "nat \<Rightarrow> trace_ring \<Rightarrow> trace_node option" where
  "resident_node s t = (if nd_slot (node_of s t) = Some s then Some (node_of s t) else None)"

definition count_at :: "nat \<Rightarrow> trace_ring \<Rightarrow> u16" where
  "count_at s t = (case resident_node s t of None \<Rightarrow> 0 | Some n \<Rightarrow> nd_count n)"

definition on_manager :: "(manager, sim_error, 'a) sm \<Rightarrow> 'a ring_sm" where
  "on_manager op = zoom tr_mgr (\<lambda>m t. t\<lparr>tr_mgr := m\<rparr>) op"

definition on_code :: "nat \<Rightarrow> 'a chain_sm \<Rightarrow> 'a ring_sm" where
  "on_code s op = zoom (\<lambda>t. (tr_mgr t, nd_code (node_of s t)))
     (\<lambda>(m, c) t. put_node s ((node_of s t)\<lparr>nd_code := c\<rparr>) (t\<lparr>tr_mgr := m\<rparr>)) op"

definition on_stencils :: "'a chain_sm \<Rightarrow> 'a ring_sm" where
  "on_stencils op = zoom (\<lambda>t. (tr_mgr t, tr_stencils t)) (\<lambda>(m, c) t. t\<lparr>tr_mgr := m, tr_stencils := c\<rparr>) op"

text \<open>The data chain of an initiator in a node is created on its first use.\<close>

definition data_chain_of :: "u8 \<Rightarrow> trace_node \<Rightarrow> chain" where
  "data_chain_of i n = (case map_of (nd_data n) i of None \<Rightarrow> alloc_chain | Some c \<Rightarrow> c)"

definition put_data_chain :: "u8 \<Rightarrow> chain \<Rightarrow> trace_node \<Rightarrow> trace_node" where
  "put_data_chain i c n = n\<lparr>nd_data :=
     (if map_of (nd_data n) i = None then nd_data n @ [(i, c)]
      else map (\<lambda>(j, d). if j = i then (j, c) else (j, d)) (nd_data n))\<rparr>"

definition on_data :: "nat \<Rightarrow> u8 \<Rightarrow> 'a chain_sm \<Rightarrow> 'a ring_sm" where
  "on_data s i op = zoom (\<lambda>t. (tr_mgr t, data_chain_of i (node_of s t)))
     (\<lambda>(m, c) t. put_node s (put_data_chain i c (node_of s t)) (t\<lparr>tr_mgr := m\<rparr>)) op"

definition find_scratch :: "u8 \<Rightarrow> trace_ring \<Rightarrow> scratch option" where
  "find_scratch i t = (case tr_recs t i of None \<Rightarrow> None | Some r \<Rightarrow> if sc_active r then Some r else None)"

definition is_recording :: "u8 \<Rightarrow> trace_ring \<Rightarrow> bool" where
  "is_recording i t \<longleftrightarrow> (case tr_recs t i of None \<Rightarrow> False | Some r \<Rightarrow> sc_active r)"

definition put_scratch :: "u8 \<Rightarrow> scratch \<Rightarrow> trace_ring \<Rightarrow> trace_ring" where
  "put_scratch i r t = t\<lparr>tr_recs := (tr_recs t)(i \<mapsto> r)\<rparr>"

definition count_footprint :: "(footprint \<Rightarrow> footprint) \<Rightarrow> unit ring_sm" where
  "count_footprint f = modify (\<lambda>t. t\<lparr>tr_foot := f (tr_foot t)\<rparr>)"

section \<open>Location buffers\<close>

definition location_bytes :: "location \<Rightarrow> u8 list" where
  "location_bytes l = word_bytes_le (loc_id l) @ word_bytes_le (loc_offset l)"

definition program_location_bytes :: "program_location \<Rightarrow> u8 list" where
  "program_location_bytes p = location_bytes (pl_code p) @ location_bytes (pl_data p)"

definition location_of_bytes :: "u8 list \<Rightarrow> location" where
  "location_of_bytes bs = \<lparr>loc_id = join_bytes (bs ! 1) (bs ! 0), loc_offset = join_bytes (bs ! 3) (bs ! 2)\<rparr>"

definition program_location_of_bytes :: "u8 list \<Rightarrow> program_location" where
  "program_location_of_bytes bs = \<lparr>pl_code = location_of_bytes (take 4 bs), pl_data = location_of_bytes (drop 4 bs)\<rparr>"

definition entry_offset :: "u16 \<Rightarrow> nat" where
  "entry_offset entry = unat (entry * word_of_nat LOCATION_BYTES)"

definition slab_write_entry :: "u16 \<Rightarrow> program_location \<Rightarrow> (slab, sim_error, unit) sm" where
  "slab_write_entry entry p =
     (let offset = entry_offset entry; required = offset + LOCATION_BYTES
      in andthen (slab_write offset (program_location_bytes p)) (\<lambda>_.
         andthen (gets sb_used) (\<lambda>used.
         if used < required then andthen (slab_allocate_uninitialized (required - used)) (\<lambda>_. ret ()) else ret ())))"

definition write_location :: "nat \<Rightarrow> u16 \<Rightarrow> program_location \<Rightarrow> unit ring_sm" where
  "write_location s entry p = (\<lambda>t.
     (case nd_locations (node_of s t) of
        None \<Rightarrow> (Inl UndefinedBehaviour, t)
      | Some k \<Rightarrow> on_manager (on_slab k (slab_write_entry entry p)) t))"

definition read_location :: "trace_node \<Rightarrow> u16 \<Rightarrow> trace_ring \<Rightarrow> program_location" where
  "read_location n entry t =
     (case nd_locations n of
        None \<Rightarrow> null_program
      | Some k \<Rightarrow> program_location_of_bytes (take LOCATION_BYTES (drop (entry_offset entry) (sb_data (slab_of (tr_mgr t) k)))))"

section \<open>Opening a recording\<close>

definition advance :: "trace_ring \<Rightarrow> trace_ring" where
  "advance t = t\<lparr>tr_head := tr_head t + 1\<rparr>"

definition locations_ready :: "nat \<Rightarrow> unit ring_sm" where
  "locations_ready s = (\<lambda>t.
     (if nd_locations (node_of s t) = None
      then andthen (on_manager alloc_buffer) (\<lambda>k. modify (\<lambda>t. put_node s ((node_of s t)\<lparr>nd_locations := Some k\<rparr>) t)) t
      else (Inr (), t)))"

definition open_scratch :: "u8 \<Rightarrow> nat \<Rightarrow> u16 \<Rightarrow> scratch" where
  "open_scratch i s entry =
     \<lparr>sc_prefix = [], sc_body = [], sc_postfix = [], sc_id = i, sc_active = True, sc_dp = no_anchor,
      sc_data_start = null_location, sc_slot = s, sc_entry = entry\<rparr>"

definition ring_begin :: "u8 \<Rightarrow> unit ring_sm" where
  "ring_begin i = (\<lambda>t0.
     (let head = node_of (tr_head t0) t0;
          t = (if nd_slot head = Some (tr_head t0) \<and> unat (nd_count head) \<ge> MAX_ENTRIES then advance t0 else t0);
          s = tr_head t; node = node_of s t
      in if nd_slot node \<noteq> None \<and> nd_slot node \<noteq> Some s then (Inl (RingOverflow s), t)
         else andthen (locations_ready s) (\<lambda>_.
              andthen (gets (\<lambda>t. nd_count (node_of s t))) (\<lambda>entry.
              andthen (modify (\<lambda>t. put_scratch i (open_scratch i s entry)
                (put_node s ((node_of s t)\<lparr>nd_slot := Some s, nd_count := entry + 1,
                                            nd_open := nd_open (node_of s t) + 1\<rparr>) t))) (\<lambda>_.
              andthen (gets tr_tombstone) (write_location s entry)))) t))"

section \<open>Emitting\<close>

datatype part = Prefix | Body | Postfix

definition emit_part :: "part \<Rightarrow> u8 list \<Rightarrow> scratch \<Rightarrow> scratch" where
  "emit_part w bytes r =
     (case w of Prefix \<Rightarrow> r\<lparr>sc_prefix := sc_prefix r @ bytes\<rparr>
      | Body \<Rightarrow> r\<lparr>sc_body := sc_body r @ bytes\<rparr>
      | Postfix \<Rightarrow> r\<lparr>sc_postfix := sc_postfix r @ bytes\<rparr>)"

text \<open>The overloads that take an initiator dereference a null pointer when nothing is being recorded for it.\<close>

definition with_scratch :: "u8 \<Rightarrow> (scratch \<Rightarrow> 'a ring_sm) \<Rightarrow> 'a ring_sm" where
  "with_scratch i f = (\<lambda>t. case find_scratch i t of None \<Rightarrow> (Inl UndefinedBehaviour, t) | Some r \<Rightarrow> f r t)"

definition ring_emit :: "part \<Rightarrow> u8 \<Rightarrow> u8 list \<Rightarrow> unit ring_sm" where
  "ring_emit w i bytes = with_scratch i (\<lambda>r. modify (put_scratch i (emit_part w bytes r)))"

text \<open>The first payload of a recording is where replay points the data pointer.\<close>

definition note_data :: "u8 \<Rightarrow> location \<Rightarrow> nat \<Rightarrow> unit ring_sm" where
  "note_data i loc len =
     andthen (count_footprint (\<lambda>f. f\<lparr>fp_data := fp_data f + len\<rparr>)) (\<lambda>_.
     with_scratch i (\<lambda>r. modify (put_scratch i (if loc_id (sc_data_start r) = 0 then r\<lparr>sc_data_start := loc\<rparr> else r))))"

definition append_data :: "u8 \<Rightarrow> u8 list \<Rightarrow> location ring_sm" where
  "append_data i bytes = (\<lambda>t.
     (case find_scratch i t of
        None \<Rightarrow> (Inr null_location, t)
      | Some r \<Rightarrow> andthen (on_data (sc_slot r) (sc_id r) (chain_append bytes 0 0 0)) (\<lambda>loc.
                  andthen (note_data i loc (length bytes)) (\<lambda>_. ret loc)) t))"

text \<open>A \<^verbatim>\<open>DataSlot\<close> is a location with the buffer and the offset at which its bytes are written.\<close>

definition append_data_uninitialized :: "u8 \<Rightarrow> nat \<Rightarrow> (location \<times> nat \<times> nat) ring_sm" where
  "append_data_uninitialized i len = with_scratch i (\<lambda>r.
     andthen (on_data (sc_slot r) (sc_id r) (chain_reserve len)) (\<lambda>slot.
     andthen (note_data i (fst slot) len) (\<lambda>_. ret slot)))"

definition fill_data :: "location \<times> nat \<times> nat \<Rightarrow> u8 list \<Rightarrow> unit ring_sm" where
  "fill_data = (\<lambda>(loc, k, off) bytes. on_manager (on_slab k (slab_write off bytes)))"

definition dp_anchor_of :: "u8 \<Rightarrow> dp_anchor ring_sm" where
  "dp_anchor_of i = with_scratch i (\<lambda>r. ret (sc_dp r))"

definition set_dp_anchor :: "u8 \<Rightarrow> location \<Rightarrow> u16 \<Rightarrow> u16 \<Rightarrow> unit ring_sm" where
  "set_dp_anchor i there sz stride = with_scratch i (\<lambda>r. modify (put_scratch i
     (r\<lparr>sc_dp := \<lparr>an_set = True, an_at = there, an_size = sz, an_stride = stride\<rparr>\<rparr>)))"


section \<open>Shared bodies\<close>

text \<open>The hash of a body is cut to 32 bits.\<close>

definition fnv_1a_bytes :: "u8 list \<Rightarrow> u64" where
  "fnv_1a_bytes bs = foldl (\<lambda>h c. (h XOR ucast c) * FNV_prime) FNV_offset_basis bs"

definition body_hash :: "u8 list \<Rightarrow> u32" where
  "body_hash body = ucast (fnv_1a_bytes body)"

definition stencil_bytes :: "manager \<Rightarrow> stencil \<Rightarrow> u8 list" where
  "stencil_bytes m e = (case sn_body e of (k, off, n) \<Rightarrow> take n (drop off (sb_data (slab_of m k))))"

definition stencil_matches :: "manager \<Rightarrow> stencil \<Rightarrow> u8 list \<Rightarrow> bool" where
  "stencil_matches m e body \<longleftrightarrow> stencil_bytes m e = body"

definition promote :: "u32 \<Rightarrow> u8 list \<Rightarrow> (bool \<times> location) ring_sm" where
  "promote h body =
     andthen (on_stencils (ensure_capacity (length body + length e_ret))) (\<lambda>_.
     andthen (on_stencils (reserve_and_write body)) (\<lambda>(loc, k, off).
     andthen (on_stencils (chain_append e_ret 0 0 0)) (\<lambda>_.
     andthen (count_footprint (\<lambda>f. f\<lparr>fp_stencils := fp_stencils f + (length body + length e_ret)\<rparr>)) (\<lambda>_.
     andthen (modify (\<lambda>t. t\<lparr>tr_map := (tr_map t)(h \<mapsto> \<lparr>sn_location = loc, sn_hits = 2, sn_body = (k, off, length body)\<rparr>),
                             tr_pending := tr_pending t - {h}\<rparr>)) (\<lambda>_.
     ret (True, loc))))))"

definition resolve_body :: "u8 list \<Rightarrow> (bool \<times> location) ring_sm" where
  "resolve_body body = (\<lambda>t.
     (if body = [] then (Inr (False, null_location), t)
      else let h = body_hash body
           in case tr_map t h of
                Some e \<Rightarrow>
                  if stencil_matches (tr_mgr t) e body
                  then (Inr (True, sn_location e), t\<lparr>tr_map := (tr_map t)(h \<mapsto> e\<lparr>sn_hits := sn_hits e + 1\<rparr>)\<rparr>)
                  else (Inr (False, null_location), t)
              | None \<Rightarrow>
                  if h \<in> tr_pending t
                  then if length body \<ge> PROMOTION_THRESHOLD then promote h body t else (Inr (False, null_location), t)
                  else let pending = (if card (tr_pending t) \<ge> MAX_PENDING_HASHES then {} else tr_pending t)
                       in (Inr (False, null_location), t\<lparr>tr_pending := insert h pending\<rparr>)))"

section \<open>Committing\<close>

text \<open>The parts of a program go to the code chain one after the other; the program starts where the first went.\<close>

fun append_parts :: "nat \<Rightarrow> u8 list list \<Rightarrow> location ring_sm" where
  "append_parts s [] = ret null_location"
| "append_parts s (p # ps) =
     andthen (on_code s (chain_append p 0 0 0)) (\<lambda>loc. andthen (append_parts s ps) (\<lambda>_. ret loc))"

definition call_of :: "location \<Rightarrow> u8 list" where
  "call_of loc = e_call2 \<lparr>s_hi = loc_id loc, s_lo = loc_offset loc\<rparr>"

definition program_parts :: "scratch \<Rightarrow> bool \<times> location \<Rightarrow> u8 list list" where
  "program_parts r res =
     (if sc_prefix r \<noteq> [] then [sc_prefix r] else [])
     @ (if fst res then [call_of (snd res)] else if sc_body r \<noteq> [] then [sc_body r] else [])
     @ [sc_postfix r]"

definition flush_to_ring :: "scratch \<Rightarrow> bool \<times> location \<Rightarrow> program_location ring_sm" where
  "flush_to_ring r res =
     (let total = length (sc_prefix r) + length (sc_postfix r)
                  + (if fst res then length (call_of (snd res)) else length (sc_body r))
      in andthen (on_code (sc_slot r) (ensure_capacity total)) (\<lambda>_.
         andthen (append_parts (sc_slot r) (program_parts r res)) (\<lambda>start.
         andthen (count_footprint (\<lambda>f. f\<lparr>fp_code := fp_code f + total, fp_code_if_inlined := fp_code_if_inlined f
                    + (length (sc_prefix r) + length (sc_body r) + length (sc_postfix r))\<rparr>)) (\<lambda>_.
         (let program = \<lparr>pl_code = start, pl_data = sc_data_start r\<rparr>
          in andthen (write_location (sc_slot r) (sc_entry r) program) (\<lambda>_. ret program))))))"

text \<open>The reservation is released before anything that can fail; an entry whose program was not written keeps its tombstone.\<close>

definition release :: "u8 \<Rightarrow> scratch \<Rightarrow> trace_ring \<Rightarrow> trace_ring" where
  "release i r t = put_scratch i (r\<lparr>sc_active := False\<rparr>)
     (put_node (sc_slot r) ((node_of (sc_slot r) t)\<lparr>nd_open := nd_open (node_of (sc_slot r) t) - 1\<rparr>) t)"

definition ring_commit :: "u8 \<Rightarrow> program_location ring_sm" where
  "ring_commit i = (\<lambda>t.
     (case find_scratch i t of
        None \<Rightarrow> (Inr null_program, t)
      | Some r0 \<Rightarrow>
          (let r = emit_part Postfix e_halt0 r0
           in andthen (modify (release i r)) (\<lambda>_.
              andthen (resolve_body (sc_body r)) (\<lambda>res.
              andthen (flush_to_ring r res) (\<lambda>program.
              andthen (count_footprint (\<lambda>f. f\<lparr>fp_programs := fp_programs f + 1\<rparr>)) (\<lambda>_.
              andthen (modify (\<lambda>t. if sc_slot r = tr_head t \<and> unat (nd_count (node_of (sc_slot r) t)) \<ge> MAX_ENTRIES
                                        \<and> nd_open (node_of (sc_slot r) t) = 0 then advance t else t)) (\<lambda>_.
              ret program)))))) t))"

definition ring_abort :: "u8 \<Rightarrow> trace_ring \<Rightarrow> trace_ring" where
  "ring_abort i t =
     (case find_scratch i t of
        None \<Rightarrow> t
      | Some r \<Rightarrow> put_scratch i (r\<lparr>sc_prefix := [], sc_body := [], sc_postfix := [], sc_dp := no_anchor,
                                  sc_data_start := null_location, sc_active := False\<rparr>) (release i r t))"

section \<open>Releasing slots\<close>

text \<open>\<^verbatim>\<open>Node::reset\<close>: every buffer of the node goes back to the manager.\<close>

definition clear_chains :: "chain list \<Rightarrow> manager \<Rightarrow> manager" where
  "clear_chains cs m = fold (\<lambda>c m. fst (chain_clear (m, c))) cs m"

definition node_reset :: "nat \<Rightarrow> trace_ring \<Rightarrow> trace_ring" where
  "node_reset s t =
     (let n = node_of s t;
          m1 = clear_chains (nd_code n # map snd (nd_data n)) (tr_mgr t);
          m2 = (case nd_locations n of None \<Rightarrow> m1 | Some k \<Rightarrow> free_buffer (handle_of m1 k) m1)
      in put_node s (n\<lparr>nd_code := alloc_chain, nd_data := map (\<lambda>(i, _). (i, alloc_chain)) (nd_data n),
                       nd_locations := None, nd_count := 0, nd_slot := None\<rparr>) (t\<lparr>tr_mgr := m2\<rparr>))"

text \<open>Slots up to \<open>limit\<close> are released from the oldest on, up to one in which a recording is open.\<close>

function release_slots :: "nat \<Rightarrow> trace_ring \<Rightarrow> trace_ring" where
  "release_slots limit t =
     (if tr_tail t < limit \<and> nd_open (node_of (tr_tail t) t) = 0
      then release_slots limit ((node_reset (tr_tail t) t)\<lparr>tr_tail := tr_tail t + 1\<rparr>)
      else t)"
  by pat_completeness auto

termination
  by (relation "measure (\<lambda>(limit, t). limit - tr_tail t)") auto

declare release_slots.simps [simp del]

definition acknowledge :: "nat \<Rightarrow> trace_ring \<Rightarrow> trace_ring" where
  "acknowledge up_to t = release_slots (min up_to (tr_head t)) t"

section \<open>Starting over\<close>

definition all_initiators :: "u8 list" where
  "all_initiators = map word_of_nat [0..<256]"

definition ring_clear :: "unit ring_sm" where
  "ring_clear =
     andthen (modify (fold ring_abort all_initiators)) (\<lambda>_.
     andthen (modify (\<lambda>t. fold node_reset [0..<length (tr_ring t)] t)) (\<lambda>_.
     andthen (modify (\<lambda>t. t\<lparr>tr_head := 0, tr_tail := 0, tr_foot := no_footprint,
                             tr_map := (\<lambda>_. None), tr_pending := {}\<rparr>)) (\<lambda>_.
     andthen (modify (\<lambda>t. case chain_clear (tr_mgr t, tr_stencils t) of (m, c) \<Rightarrow> t\<lparr>tr_mgr := m, tr_stencils := c\<rparr>)) (\<lambda>_.
     andthen (on_stencils (chain_append e_halt0 0 0 0)) (\<lambda>loc.
     modify (\<lambda>t. t\<lparr>tr_tombstone := \<lparr>pl_code = loc, pl_data = null_location\<rparr>\<rparr>))))))"

definition empty_node :: trace_node where
  "empty_node = \<lparr>nd_slot = None, nd_locations = None, nd_code = alloc_chain, nd_data = [], nd_count = 0, nd_open = 0\<rparr>"

definition make_trace_ring :: "manager \<Rightarrow> nat \<Rightarrow> sim_error + trace_ring" where
  "make_trace_ring m ring_size =
     (if ring_size = 0 then Inl (LogicError ''TraceBuffer: ring_size must be at least 1'')
      else case ring_clear \<lparr>tr_mgr = m, tr_ring = replicate ring_size empty_node, tr_head = 0, tr_tail = 0,
             tr_recs = (\<lambda>_. None), tr_stencils = alloc_chain, tr_tombstone = null_program, tr_map = (\<lambda>_. None),
             tr_pending = {}, tr_traced = (\<lambda>_. False), tr_in_payload = (\<lambda>_. False), tr_foot = no_footprint\<rparr> of
             (Inl e, _) \<Rightarrow> Inl e
           | (Inr _, t) \<Rightarrow> Inr t)"

section \<open>Cursors\<close>

type_synonym cursor = "nat \<times> u16"

definition cursor :: "trace_ring \<Rightarrow> cursor" where
  "cursor t = (tr_head t, nd_count (node_of (tr_head t) t))"

definition cursor_less :: "cursor \<Rightarrow> cursor \<Rightarrow> bool" where
  "cursor_less a b \<longleftrightarrow> fst a < fst b \<or> fst a = fst b \<and> snd a < snd b"

definition earlier :: "scratch \<Rightarrow> cursor \<Rightarrow> cursor" where
  "earlier r c = (if sc_active r \<and> cursor_less (sc_slot r, sc_entry r) c then (sc_slot r, sc_entry r) else c)"

definition committed_cursor :: "trace_ring \<Rightarrow> cursor" where
  "committed_cursor t =
     fold (\<lambda>i c. case tr_recs t i of None \<Rightarrow> c | Some r \<Rightarrow> earlier r c) all_initiators (cursor t)"

definition cursor_deref :: "trace_ring \<Rightarrow> cursor \<Rightarrow> program_location" where
  "cursor_deref t c = (case resident_node (fst c) t of None \<Rightarrow> null_program | Some n \<Rightarrow> read_location n (snd c) t)"

definition cursor_next :: "trace_ring \<Rightarrow> cursor \<Rightarrow> cursor" where
  "cursor_next t c =
     (let entry = snd c + 1
      in if entry \<ge> count_at (fst c) t \<and> fst c < tr_head t then (fst c + 1, 0) else (fst c, entry))"

definition cursor_prev :: "trace_ring \<Rightarrow> cursor \<Rightarrow> cursor" where
  "cursor_prev t c =
     (if snd c > 0 then (fst c, snd c - 1)
      else if fst c = 0 then c
      else let count = count_at (fst c - 1) t in if count = 0 then c else (fst c - 1, count - 1))"

section \<open>Neighbours of data buffers, and figures\<close>

fun first_neighbour :: "(chain \<Rightarrow> u16) \<Rightarrow> chain list \<Rightarrow> u16" where
  "first_neighbour f [] = 0"
| "first_neighbour f (c # cs) = (if f c \<noteq> 0 then f c else first_neighbour f cs)"

definition data_chains :: "trace_ring \<Rightarrow> chain list" where
  "data_chains t = concat (map (\<lambda>n. map snd (nd_data n)) (tr_ring t))"

definition data_successor :: "u16 \<Rightarrow> trace_ring \<Rightarrow> u16" where
  "data_successor ident t = first_neighbour (successor ident) (data_chains t)"

definition data_predecessor :: "u16 \<Rightarrow> trace_ring \<Rightarrow> u16" where
  "data_predecessor ident t = first_neighbour (predecessor ident) (data_chains t)"

definition buffer_footprint :: "trace_ring \<Rightarrow> nat" where
  "buffer_footprint t =
     (sum_list (map (\<lambda>n. (if nd_locations n = None then 0 else 1) + unat (ch_count (nd_code n))
                        + sum_list (map (\<lambda>(_, c). unat (ch_count c)) (nd_data n))) (tr_ring t))
      + unat (ch_count (tr_stencils t))) * BUFFER_SIZE"

definition fp_locations :: "footprint \<Rightarrow> nat" where
  "fp_locations f = fp_programs f * LOCATION_BYTES"

definition fp_total :: "footprint \<Rightarrow> nat" where
  "fp_total f = fp_code f + fp_stencils f + fp_data f + fp_locations f"

definition fp_total_if_inlined :: "footprint \<Rightarrow> nat" where
  "fp_total_if_inlined f = fp_code_if_inlined f + fp_data f + fp_locations f"

definition reset_footprint :: "trace_ring \<Rightarrow> trace_ring" where
  "reset_footprint t = t\<lparr>tr_foot := no_footprint\<rparr>"

definition stencil_hits :: "u32 \<Rightarrow> trace_ring \<Rightarrow> u32" where
  "stencil_hits h t = (case tr_map t h of None \<Rightarrow> 0 | Some e \<Rightarrow> sn_hits e)"

definition stencil_size :: "u32 \<Rightarrow> trace_ring \<Rightarrow> u16" where
  "stencil_size h t = (case tr_map t h of None \<Rightarrow> 0 | Some e \<Rightarrow> word_of_nat (snd (snd (sn_body e))))"

definition is_stencil :: "u32 \<Rightarrow> trace_ring \<Rightarrow> bool" where
  "is_stencil h t \<longleftrightarrow> tr_map t h \<noteq> None"

definition is_pending :: "u32 \<Rightarrow> trace_ring \<Rightarrow> bool" where
  "is_pending h t \<longleftrightarrow> h \<in> tr_pending t"

definition set_trace :: "u8 \<Rightarrow> bool \<Rightarrow> trace_ring \<Rightarrow> trace_ring" where
  "set_trace dev b t = t\<lparr>tr_traced := (tr_traced t)(dev := b)\<rparr>"

definition set_in_payload :: "u8 \<Rightarrow> bool \<Rightarrow> trace_ring \<Rightarrow> trace_ring" where
  "set_in_payload dev b t = t\<lparr>tr_in_payload := (tr_in_payload t)(dev := b)\<rparr>"

end
