(* ===== verification/Trace_Store.thy ===== *)
theory Trace_Store
  imports Trace_Ring
begin

text \<open>
  Where the bytes of a trace buffer (theory Trace_Ring) lie.  A chain is named by what it holds: shared bodies, the code
  of a slot, or the data of one initiator in a slot.  The store is in order when every live buffer belongs to exactly
  one chain or is the location buffer of one slot, buffers of code fill in words of 16 bits, and the table of shared
  bodies points at bytes that stand.
\<close>

section \<open>Chain operations\<close>

text \<open>Operations that only grow memory, and those that leave the fill of every buffer of their chain even.\<close>

definition tame :: "'a chain_sm \<Rightarrow> bool" where
  "tame op \<longleftrightarrow> (\<forall>s. chain_ok s \<longrightarrow> grown s (final op s))"

definition evens :: "manager \<Rightarrow> nat list \<Rightarrow> bool" where
  "evens m ks \<longleftrightarrow> (\<forall>k\<in>set ks. even (sb_used (slab_of m k)))"

definition fills_evenly :: "'a chain_sm \<Rightarrow> bool" where
  "fills_evenly op \<longleftrightarrow> (\<forall>s. chain_ok s \<longrightarrow> evens (fst s) (ch_bufs (snd s)) \<longrightarrow>
     evens (fst (final op s)) (ch_bufs (snd (final op s))))"

lemma final_pair: "op s = (r, s') \<Longrightarrow> final op s = s'"
  by (simp add: final_def)

lemma tame_append: "tame (append_placed bytes align pad v)"
  unfolding tame_def chain_ops_step
  by (intro allI impI grown_then_pure step_grows slab_append_extends) (simp_all add: at_offset_def split: prod.split)

lemma tame_chain_append: "tame (chain_append bytes align pad v)"
  using do_chain_op_grows[of _ "C_Append bytes align pad v"] by (simp add: tame_def)

lemma tame_ensure: "tame (ensure_capacity n)"
  by (simp add: tame_def ensure_grows)

lemma tame_reserve_write: "tame (reserve_and_write bytes)"
proof -
  have "final (reserve_and_write bytes) s = final (append_placed bytes 0 0 0) s" if "chain_ok s" for s
    by (simp add: final_def reserve_then_write[OF that, of bytes 0])
  then show ?thesis using tame_append unfolding tame_def by metis
qed

lemma evens_fresh:
  assumes "only_fresh m m'" and "grown (m, ch) (m', ch')" and "chain_ok (m, ch)" and "evens m (ch_bufs ch)"
  shows "evens m' (ch_bufs ch')"
  unfolding evens_def
proof
  fix k assume k: "k \<in> set (ch_bufs ch')"
  then have live: "k \<in> live_slots m'" using grown_ok[OF assms(2)] by (auto simp: chain_ok_def)
  obtain new where new: "ch_bufs ch' = ch_bufs ch @ new" "set new \<inter> live_slots m = {}"
    using assms(2) by (auto simp: grown_def)
  show "even (sb_used (slab_of m' k))"
  proof (cases "k \<in> live_slots m")
    case True
    then have "k \<in> set (ch_bufs ch)" using k new by auto
    then show ?thesis using assms(1,4) True by (simp add: only_fresh_def evens_def)
  next
    case False
    then show ?thesis using assms(1) live by (simp add: only_fresh_def)
  qed
qed

lemma fills_ensure: "fills_evenly (ensure_capacity n)"
  unfolding fills_evenly_def
proof (intro allI impI)
  fix s assume ok: "chain_ok s" and e: "evens (fst s) (ch_bufs (snd s))"
  obtain m ch where s: "s = (m, ch)" by (cases s)
  show "evens (fst (final (ensure_capacity n) s)) (ch_bufs (snd (final (ensure_capacity n) s)))"
    by (rule ensure_capacity_cases[OF ok[unfolded s], of n])
      (use evens_fresh ok e in \<open>auto simp: s final_def\<close>)
qed

lemma fills_append:
  assumes "even (length bytes)"
  shows "fills_evenly (append_placed bytes 0 0 v)"
  unfolding fills_evenly_def
proof (intro allI impI)
  fix s assume ok: "chain_ok s" and e: "evens (fst s) (ch_bufs (snd s))"
  obtain m ch where s: "s = (m, ch)" by (cases s)
  show "evens (fst (final (append_placed bytes 0 0 v) s)) (ch_bufs (snd (final (append_placed bytes 0 0 v) s)))"
  proof (cases rule: tail_with_cases[OF ok[unfolded s], of "can_fit_bytes bytes 0 0"])
    case (1 m1 ch1)
    have "append_placed bytes 0 0 v s = (Inl out_of_buffers, (m1, ch1))"
      by (simp add: append_placed_def s andthen_def 1(1))
    then show ?thesis using evens_fresh[OF 1(4,2)] ok e by (simp add: s final_def)
  next
    case (2 k m1 ch1)
    have ok1: "chain_ok (m1, ch1)" "manager_ok m1" "k \<in> live_slots m1"
      using grown_ok[OF 2(2)] 2(3) by (auto simp: chain_ok_def)
    have e1: "evens m1 (ch_bufs ch1)" using evens_fresh[OF 2(6,2)] ok e by (simp add: s)
    let ?sl = "slab_of m1 k"
    have sl: "slab_ok ?sl" by (rule live_slab(1)[OF ok1(2,3)])
    obtain r s' where r: "slab_append bytes 0 0 v ?sl = (r, s')" by fastforce
    have ev: "even (sb_used s')"
    proof (cases "length bytes \<le> remaining_capacity ?sl")
      case True
      show ?thesis by (rule slab_append_packed[OF sl True, of v])
          (use r assms e1 2(3) in \<open>auto simp: evens_def\<close>)
    next
      case False
      then have "s' = ?sl" using r by (simp add: slab_append_def padded_size_def Let_def)
      then show ?thesis using e1 2(3) by (simp add: evens_def)
    qed
    have ext: "slab_extends ?sl s'" using slab_append_extends[OF sl, of bytes 0 0 v] r by simp
    from on_slab_run[of m1 k "slab_append bytes 0 0 v", OF ok1(2,3) r ext]
    obtain m2 where m2: "on_slab k (slab_append bytes 0 0 v) m1 = (r, m2)" "slab_of m2 k = s'"
      "\<And>j. j \<noteq> k \<Longrightarrow> slab_of m2 j = slab_of m1 j" by metis
    have "even (sb_used (slab_of m2 j))" if "j \<in> set (ch_bufs ch1)" for j
      using that e1 ev m2(2) m2(3)[of j] by (cases "j = k") (auto simp: evens_def)
    then have e2: "evens m2 (ch_bufs ch1)" by (simp add: evens_def)
    have "final (append_placed bytes 0 0 v) s = (m2, ch1)"
      using m2(1) by (cases r)
        (simp_all add: final_def append_placed_def s andthen_def 2(1) on_buffer_def zoom_def at_offset_def)
    then show ?thesis using e2 by simp
  qed
qed

lemma fills_chain_append: "even (length bytes) \<Longrightarrow> fills_evenly (chain_append bytes 0 0 v)"
proof -
  have "final (chain_append bytes 0 0 v) = final (append_placed bytes 0 0 v)"
    unfolding chain_append_placed by (rule ext, rule final_andthen_keeps) (simp split: prod.split)
  then show "even (length bytes) \<Longrightarrow> fills_evenly (chain_append bytes 0 0 v)"
    using fills_append by (simp add: fills_evenly_def)
qed

lemma fills_reserve_write: "even (length bytes) \<Longrightarrow> fills_evenly (reserve_and_write bytes)"
proof -
  assume "even (length bytes)"
  moreover have "final (reserve_and_write bytes) s = final (append_placed bytes 0 0 0) s" if "chain_ok s" for s
    by (simp add: final_def reserve_then_write[OF that, of bytes 0])
  ultimately show ?thesis using fills_append[of bytes 0] unfolding fills_evenly_def by simp
qed


section \<open>The chains of a trace buffer\<close>

datatype chain_key = K_Stencils | K_Code nat | K_Data nat u8

fun chain_at :: "chain_key \<Rightarrow> trace_ring \<Rightarrow> chain" where
  "chain_at K_Stencils t = tr_stencils t"
| "chain_at (K_Code k) t = (if k < length (tr_ring t) then nd_code (tr_ring t ! k) else alloc_chain)"
| "chain_at (K_Data k i) t = (if k < length (tr_ring t) then data_chain_of i (tr_ring t ! k) else alloc_chain)"

fun put_chain :: "chain_key \<Rightarrow> chain \<Rightarrow> trace_ring \<Rightarrow> trace_ring" where
  "put_chain K_Stencils c t = t\<lparr>tr_stencils := c\<rparr>"
| "put_chain (K_Code k) c t = t\<lparr>tr_ring := (tr_ring t)[k := (tr_ring t ! k)\<lparr>nd_code := c\<rparr>]\<rparr>"
| "put_chain (K_Data k i) c t = t\<lparr>tr_ring := (tr_ring t)[k := put_data_chain i c (tr_ring t ! k)]\<rparr>"

fun is_data :: "chain_key \<Rightarrow> bool" where
  "is_data K_Stencils \<longleftrightarrow> False"
| "is_data (K_Code k) \<longleftrightarrow> False"
| "is_data (K_Data k i) \<longleftrightarrow> True"

fun key_in :: "chain_key \<Rightarrow> trace_ring \<Rightarrow> bool" where
  "key_in K_Stencils t \<longleftrightarrow> True"
| "key_in (K_Code k) t \<longleftrightarrow> k < length (tr_ring t)"
| "key_in (K_Data k i) t \<longleftrightarrow> k < length (tr_ring t)"

definition bufs_at :: "chain_key \<Rightarrow> trace_ring \<Rightarrow> nat list" where
  "bufs_at q t = ch_bufs (chain_at q t)"

definition loc_at :: "nat \<Rightarrow> trace_ring \<Rightarrow> nat option" where
  "loc_at k t = (if k < length (tr_ring t) then nd_locations (tr_ring t ! k) else None)"

definition on_chain :: "chain_key \<Rightarrow> 'a chain_sm \<Rightarrow> 'a ring_sm" where
  "on_chain q op = zoom (\<lambda>t. (tr_mgr t, chain_at q t)) (\<lambda>(m, c) t. put_chain q c (t\<lparr>tr_mgr := m\<rparr>)) op"

lemma node_index_less: "tr_ring t \<noteq> [] \<Longrightarrow> node_index s t < length (tr_ring t)"
  by (simp add: node_index_def)

lemma chain_at_manager [simp]: "chain_at q (t\<lparr>tr_mgr := m\<rparr>) = chain_at q t"
  by (cases q) simp_all

lemma data_chain_of_put:
  "data_chain_of j (put_data_chain i c n) = (if j = i then c else data_chain_of j n)"
proof -
  have "map_of (map (\<lambda>(j, d). if j = i then (j, c) else (j, d)) xs) j
      = (if j = i then map_option (\<lambda>_. c) (map_of xs j) else map_of xs j)" for xs :: "(u8 \<times> chain) list"
    by (induction xs) auto
  then show ?thesis by (auto simp: put_data_chain_def data_chain_of_def map_add_def split: option.splits)
qed

lemma data_chain_of_code [simp]: "data_chain_of i (n\<lparr>nd_code := c\<rparr>) = data_chain_of i n"
  by (simp add: data_chain_of_def)

lemma put_data_fields [simp]:
  "nd_slot (put_data_chain i c n) = nd_slot n" "nd_locations (put_data_chain i c n) = nd_locations n"
  "nd_code (put_data_chain i c n) = nd_code n" "nd_count (put_data_chain i c n) = nd_count n"
  "nd_open (put_data_chain i c n) = nd_open n"
  by (simp_all add: put_data_chain_def)

lemma chain_at_put:
  "key_in q t \<Longrightarrow> chain_at q' (put_chain q c t) = (if q' = q then c else chain_at q' t)"
  by (cases q; cases q') (auto simp: nth_list_update data_chain_of_put)

lemma nth_update_same: "f n = f (xs ! i) \<Longrightarrow> f (xs[i := n] ! k) = f (xs ! k)"
  by (cases "i < length xs"; cases "i = k") (auto simp: list_update_beyond)

lemma put_chain_fields [simp]:
  "tr_mgr (put_chain q c t) = tr_mgr t" "tr_head (put_chain q c t) = tr_head t"
  "tr_tail (put_chain q c t) = tr_tail t" "tr_recs (put_chain q c t) = tr_recs t"
  "tr_map (put_chain q c t) = tr_map t" "tr_pending (put_chain q c t) = tr_pending t"
  "tr_tombstone (put_chain q c t) = tr_tombstone t" "tr_foot (put_chain q c t) = tr_foot t"
  "length (tr_ring (put_chain q c t)) = length (tr_ring t)"
  by (cases q; simp)+

lemma loc_at_put [simp]: "loc_at k (put_chain q c t) = loc_at k t"
  by (cases q) (simp_all add: loc_at_def nth_update_same[where f = nd_locations])

text \<open>What concerns slots and entries, and not chains.\<close>

definition frame_of :: "trace_node \<Rightarrow> nat option \<times> nat option \<times> u16 \<times> u16" where
  "frame_of n = (nd_slot n, nd_locations n, nd_count n, nd_open n)"

lemma frame_chains [simp]:
  "frame_of (put_data_chain i c n) = frame_of n" "frame_of (n\<lparr>nd_code := c\<rparr>) = frame_of n"
  by (simp_all add: frame_of_def)

lemma frame_put_chain [simp]: "frame_of (node_of s (put_chain q c t)) = frame_of (node_of s t)"
  by (cases q) (simp_all add: node_of_def node_index_def nth_update_same[where f = frame_of])

lemma on_code_chain: "on_code s op t = on_chain (K_Code (node_index s t)) op t" if "tr_ring t \<noteq> []"
  using node_index_less[OF that, of s]
  by (simp add: on_code_def on_chain_def zoom_def node_of_def put_node_def node_index_def split: prod.split)

lemma on_stencils_chain: "on_stencils op = on_chain K_Stencils op"
  by (simp add: on_stencils_def on_chain_def zoom_def fun_eq_iff split: prod.split)

lemma on_data_chain: "on_data s i op t = on_chain (K_Data (node_index s t) i) op t" if "tr_ring t \<noteq> []"
  using node_index_less[OF that, of s]
  by (simp add: on_data_def on_chain_def zoom_def node_of_def put_node_def node_index_def split: prod.split)

section \<open>The store\<close>

text \<open>Bytes that stand in a buffer of a list of buffers, in the part that is in use.\<close>

definition placed :: "manager \<Rightarrow> nat list \<Rightarrow> location \<Rightarrow> u8 list \<Rightarrow> bool" where
  "placed m ks loc bytes \<longleftrightarrow>
     (\<exists>k\<in>set ks. handle_of m k = loc_id loc \<and> unat (loc_offset loc) + length bytes \<le> sb_used (slab_of m k)
        \<and> take (length bytes) (drop (unat (loc_offset loc)) (in_use m k)) = bytes)"

definition even_location :: "location \<Rightarrow> bool" where
  "even_location loc \<longleftrightarrow> even (unat (loc_offset loc))"

definition keeps_chain :: "manager \<Rightarrow> nat list \<Rightarrow> manager \<Rightarrow> nat list \<Rightarrow> bool" where
  "keeps_chain m ks m' ks' \<longleftrightarrow> set ks \<subseteq> set ks'
     \<and> (\<forall>k\<in>set ks. handle_of m' k = handle_of m k \<and> (\<exists>new. in_use m' k = in_use m k @ new))"

definition stencil_ok :: "trace_ring \<Rightarrow> stencil \<Rightarrow> bool" where
  "stencil_ok t e \<longleftrightarrow>
     (case sn_body e of (k, off, n) \<Rightarrow>
        k \<in> set (bufs_at K_Stencils t) \<and> handle_of (tr_mgr t) k = loc_id (sn_location e)
        \<and> off = unat (loc_offset (sn_location e)) \<and> even off \<and> off + n \<le> sb_used (slab_of (tr_mgr t) k)
        \<and> (n + length e_ret \<le> BUFFER_SIZE \<longrightarrow> off + n + length e_ret \<le> sb_used (slab_of (tr_mgr t) k)
             \<and> take (length e_ret) (drop (off + n) (in_use (tr_mgr t) k)) = e_ret))"

definition store_ok :: "trace_ring \<Rightarrow> bool" where
  "store_ok t \<longleftrightarrow>
     manager_ok (tr_mgr t)
     \<and> (\<forall>q. set (bufs_at q t) \<subseteq> live_slots (tr_mgr t) \<and> distinct (bufs_at q t))
     \<and> (\<forall>a b. a \<noteq> b \<longrightarrow> set (bufs_at a t) \<inter> set (bufs_at b t) = {})
     \<and> (\<forall>k b. loc_at k t = Some b \<longrightarrow> b \<in> live_slots (tr_mgr t) \<and> (\<forall>q. b \<notin> set (bufs_at q t)))
     \<and> (\<forall>k j b. loc_at k t = Some b \<longrightarrow> loc_at j t = Some b \<longrightarrow> k = j)
     \<and> (\<forall>n\<in>set (tr_ring t). distinct (map fst (nd_data n)))
     \<and> evens (tr_mgr t) (bufs_at K_Stencils t) \<and> (\<forall>k. evens (tr_mgr t) (bufs_at (K_Code k) t))
     \<and> (\<forall>h e. tr_map t h = Some e \<longrightarrow> stencil_ok t e)
     \<and> placed (tr_mgr t) (bufs_at K_Stencils t) (pl_code (tr_tombstone t)) e_halt0
     \<and> even_location (pl_code (tr_tombstone t))"

lemma store_okD:
  assumes "store_ok t"
  shows "manager_ok (tr_mgr t)" and "\<And>q. set (bufs_at q t) \<subseteq> live_slots (tr_mgr t)" and "\<And>q. distinct (bufs_at q t)"
    and "\<And>a b. a \<noteq> b \<Longrightarrow> set (bufs_at a t) \<inter> set (bufs_at b t) = {}"
    and "\<And>k b. loc_at k t = Some b \<Longrightarrow> b \<in> live_slots (tr_mgr t)"
    and "\<And>k b q. loc_at k t = Some b \<Longrightarrow> b \<notin> set (bufs_at q t)"
    and "\<And>k j b. loc_at k t = Some b \<Longrightarrow> loc_at j t = Some b \<Longrightarrow> k = j"
    and "\<And>n. n \<in> set (tr_ring t) \<Longrightarrow> distinct (map fst (nd_data n))"
    and "evens (tr_mgr t) (bufs_at K_Stencils t)" and "\<And>k. evens (tr_mgr t) (bufs_at (K_Code k) t)"
    and "\<And>h e. tr_map t h = Some e \<Longrightarrow> stencil_ok t e"
    and "placed (tr_mgr t) (bufs_at K_Stencils t) (pl_code (tr_tombstone t)) e_halt0"
    and "even_location (pl_code (tr_tombstone t))"
  using assms unfolding store_ok_def by blast+

lemma keeps_chain_refl [simp]: "keeps_chain m ks m ks"
  by (simp add: keeps_chain_def)

lemma keeps_chain_trans: "keeps_chain a x b y \<Longrightarrow> keeps_chain b y c z \<Longrightarrow> keeps_chain a x c z"
  unfolding keeps_chain_def by (metis append_assoc subset_iff)

lemma extends_keeps_chain: "extends_memory m m' \<Longrightarrow> set ks \<subseteq> live_slots m \<Longrightarrow> set ks \<subseteq> set ks' \<Longrightarrow> keeps_chain m ks m' ks'"
  unfolding keeps_chain_def extends_memory_def by blast

lemma in_use_length: "manager_ok m \<Longrightarrow> k \<in> live_slots m \<Longrightarrow> length (in_use m k) = sb_used (slab_of m k)"
  using live_slab(1)[of m k] by (simp add: in_use_def slab_ok_def slab_capacity_def)

lemma window_kept:
  assumes "in_use m' k = in_use m k @ new" and "off + n \<le> length (in_use m k)"
  shows "take n (drop off (in_use m' k)) = take n (drop off (in_use m k))"
  using assms by simp

lemma placed_keeps:
  assumes "placed m ks loc bytes" and "keeps_chain m ks m' ks'"
    and "manager_ok m" "set ks \<subseteq> live_slots m" "manager_ok m'" "set ks' \<subseteq> live_slots m'"
  shows "placed m' ks' loc bytes"
proof -
  obtain k where k: "k \<in> set ks" "handle_of m k = loc_id loc" "unat (loc_offset loc) + length bytes \<le> sb_used (slab_of m k)"
    "take (length bytes) (drop (unat (loc_offset loc)) (in_use m k)) = bytes" using assms(1) by (auto simp: placed_def)
  obtain new where n: "in_use m' k = in_use m k @ new" "handle_of m' k = handle_of m k" "k \<in> set ks'"
    using assms(2) k(1) by (auto simp: keeps_chain_def)
  have u: "length (in_use m k) = sb_used (slab_of m k)" "length (in_use m' k) = sb_used (slab_of m' k)"
    using in_use_length assms(3-6) k(1) n(3) by auto
  have "sb_used (slab_of m k) \<le> sb_used (slab_of m' k)" unfolding u[symmetric] n(1) by simp
  then show ?thesis
    unfolding placed_def using k n window_kept[OF n(1), of "unat (loc_offset loc)" "length bytes"] u(1) by (intro bexI[of _ k]) simp_all
qed

lemma placed_code_at:
  assumes "placed m ks loc bytes" and "manager_ok m" and "set ks \<subseteq> live_slots m"
  shows "code_at (buffers_of m) (loc_id loc) (unat (loc_offset loc)) bytes"
  by (rule stored_code_at[OF assms(2)]) (use assms(1,3) in \<open>auto simp: placed_def Buffer_Chain.stored_def\<close>)


lemma stencil_ok_keeps:
  assumes "stencil_ok t e" and "keeps_chain (tr_mgr t) (bufs_at K_Stencils t) (tr_mgr t') (bufs_at K_Stencils t')"
    and "manager_ok (tr_mgr t)" "set (bufs_at K_Stencils t) \<subseteq> live_slots (tr_mgr t)"
    and "manager_ok (tr_mgr t')" "set (bufs_at K_Stencils t') \<subseteq> live_slots (tr_mgr t')"
  shows "stencil_ok t' e"
proof -
  obtain k off n where b: "sn_body e = (k, off, n)" by (cases "sn_body e")
  note S = assms(1)[unfolded stencil_ok_def b, simplified]
  obtain new where n: "in_use (tr_mgr t') k = in_use (tr_mgr t) k @ new" "handle_of (tr_mgr t') k = handle_of (tr_mgr t) k"
    "k \<in> set (bufs_at K_Stencils t')"
    using assms(2) S by (auto simp: keeps_chain_def)
  have u: "length (in_use (tr_mgr t) k) = sb_used (slab_of (tr_mgr t) k)"
    "length (in_use (tr_mgr t') k) = sb_used (slab_of (tr_mgr t') k)"
    using in_use_length assms(3-6) S n(3) by auto
  have le: "sb_used (slab_of (tr_mgr t) k) \<le> sb_used (slab_of (tr_mgr t') k)" unfolding u[symmetric] n(1) by simp
  then show ?thesis
    using S n(2,3) u(1) window_kept[OF n(1), of "off + n" "length e_ret"] by (auto simp: stencil_ok_def b)
qed

lemma key_in_manager [simp]: "key_in q (t\<lparr>tr_mgr := m\<rparr>) = key_in q t"
  by (cases q) simp_all

lemma loc_at_manager [simp]: "loc_at k (t\<lparr>tr_mgr := m\<rparr>) = loc_at k t"
  by (simp add: loc_at_def)

lemma keys_put_data:
  "map fst (nd_data (put_data_chain i c n)) =
     (if map_of (nd_data n) i = None then map fst (nd_data n) @ [i] else map fst (nd_data n))"
  by (simp add: put_data_chain_def split: prod.split)

lemma distinct_put_data: "distinct (map fst (nd_data n)) \<Longrightarrow> distinct (map fst (nd_data (put_data_chain i c n)))"
  unfolding keys_put_data by (simp add: map_of_eq_None_iff)

lemma put_chain_data:
  assumes "\<And>n. n \<in> set (tr_ring t) \<Longrightarrow> distinct (map fst (nd_data n))" and "key_in q t"
    and "n \<in> set (tr_ring (put_chain q c t))"
  shows "distinct (map fst (nd_data n))"
  using assms by (cases q) (auto dest!: set_update_subset_insert[THEN subsetD] simp: distinct_put_data)

text \<open>An operation on one chain keeps the store, and every chain with it.\<close>

lemma store_chain:
  assumes st: "store_ok t" and q: "key_in q t" and g: "grown (tr_mgr t, chain_at q t) (m, c)"
    and ev: "\<not> is_data q \<Longrightarrow> evens m (ch_bufs c)"
  defines "t' \<equiv> put_chain q c (t\<lparr>tr_mgr := m\<rparr>)"
  shows "store_ok t'" and "keeps_chain (tr_mgr t) (bufs_at p t) (tr_mgr t') (bufs_at p t')"
    and "loc_at k t = Some b \<Longrightarrow> slab_of (tr_mgr t') b = slab_of (tr_mgr t) b"
proof -
  note S = store_okD[OF st]
  have m': "tr_mgr t' = m" by (simp add: t'_def)
  have at': "bufs_at p t' = (if p = q then ch_bufs c else bufs_at p t)" for p
    using chain_at_put[of q "t\<lparr>tr_mgr := m\<rparr>" p c] q by (simp add: t'_def bufs_at_def)
  have loc': "loc_at k t' = loc_at k t" for k by (simp add: t'_def)
  obtain new where new: "ch_bufs c = bufs_at q t @ new" "distinct new" "set new \<inter> live_slots (tr_mgr t) = {}"
    "live_slots m = live_slots (tr_mgr t) \<union> set new" using g by (auto simp: grown_def bufs_at_def)
  have ok: "manager_ok m" "set (ch_bufs c) \<subseteq> live_slots m" using grown_ok[OF g] by (auto simp: chain_ok_def)
  have ext: "extends_memory (tr_mgr t) m" using g by (simp add: grown_def)
  have same: "slab_of m j = slab_of (tr_mgr t) j" if "j \<in> live_slots (tr_mgr t)" "j \<notin> set (bufs_at q t)" for j
    using g that by (simp add: grown_def bufs_at_def)
  show keeps: "keeps_chain (tr_mgr t) (bufs_at p t) (tr_mgr t') (bufs_at p t')" for p
    unfolding m' by (rule extends_keeps_chain[OF ext S(2)]) (auto simp: at' new(1))
  show locs: "loc_at k t = Some b \<Longrightarrow> slab_of (tr_mgr t') b = slab_of (tr_mgr t) b" for k b
    using same[of b] S(5,6)[of k b] by (auto simp: m')
  have live: "set (bufs_at p t') \<subseteq> live_slots m" for p
    using S(2)[of p] ok(2) new(4) by (auto simp: at')
  have dis: "distinct (bufs_at p t')" for p
    using S(2,3)[of p] new by (auto simp: at')
  have apart: "set (bufs_at x t') \<inter> set (bufs_at y t') = {}" if "x \<noteq> y" for x y
    using S(4)[OF that] S(2)[of x] S(2)[of y] new(1,3) that by (auto simp: at' split: if_splits)
  have lo: "b \<in> live_slots m \<and> (\<forall>p. b \<notin> set (bufs_at p t'))" if "loc_at k t = Some b" for k b
    using S(5)[OF that] S(6)[OF that] new(1,3,4) by (auto simp: at')
  have evp: "evens m (bufs_at p t')" if "evens (tr_mgr t) (bufs_at p t)" "p = K_Stencils \<or> (\<exists>k. p = K_Code k)" for p
  proof (cases "p = q")
    case True
    then show ?thesis using ev that(2) by (auto simp: at')
  next
    case False
    have "slab_of m j = slab_of (tr_mgr t) j" if "j \<in> set (bufs_at p t)" for j
      using same[of j] S(2)[of p] S(4)[OF False] that by blast
    then show ?thesis using that(1) False by (simp add: evens_def at')
  qed
  have fields: "tr_map t' = tr_map t" "tr_tombstone t' = tr_tombstone t" by (simp_all add: t'_def)
  show "store_ok t'"
    unfolding store_ok_def fields m'
  proof (intro conjI allI impI ballI)
    show "manager_ok m" by (rule ok)
    show "set (bufs_at p t') \<subseteq> live_slots m" "distinct (bufs_at p t')" for p by (fact live, fact dis)
    show "x \<noteq> y \<Longrightarrow> set (bufs_at x t') \<inter> set (bufs_at y t') = {}" for x y by (rule apart)
    show "loc_at k t' = Some b \<Longrightarrow> b \<in> live_slots m" "loc_at k t' = Some b \<Longrightarrow> b \<notin> set (bufs_at p t')" for k b p
      using lo by (auto simp: loc')
    show "loc_at k t' = Some b \<Longrightarrow> loc_at j t' = Some b \<Longrightarrow> k = j" for k j b using S(7) by (simp add: loc')
    show "n \<in> set (tr_ring t') \<Longrightarrow> distinct (map fst (nd_data n))" for n
      unfolding t'_def by (rule put_chain_data[of "t\<lparr>tr_mgr := m\<rparr>"]) (use S(8) q in auto)
    show "evens m (bufs_at K_Stencils t')" "evens m (bufs_at (K_Code k) t')" for k
      using evp S(9,10) by auto
    show "tr_map t h = Some e \<Longrightarrow> stencil_ok t' e" for h e
      using stencil_ok_keeps[OF S(11)] keeps S(1,2) ok(1) live m' by auto
    show "placed m (bufs_at K_Stencils t') (pl_code (tr_tombstone t)) e_halt0"
      using placed_keeps[OF S(12) keeps[of K_Stencils, unfolded m'] S(1,2) ok(1) live] .
    show "even_location (pl_code (tr_tombstone t))" by (rule S)
  qed
qed

end
