(* ===== verification/Trace_Steps.thy ===== *)
theory Trace_Steps
  imports Trace_Store
begin

text \<open>
  The invariant of a trace buffer, slots and entries on top of the store, and the relation between two of its
  states: buffers that stay where they are, entries that keep their locations until their slot is released.  One lemma
  per step of the code: buffers of locations, nodes, opening and closing a recording, releasing a slot.
\<close>

section \<open>Slots and entries\<close>

definition resident :: "nat \<Rightarrow> trace_ring \<Rightarrow> bool" where
  "resident s t \<longleftrightarrow> nd_slot (node_of s t) = Some s"

definition open_entries :: "trace_ring \<Rightarrow> cursor set" where
  "open_entries t = {c. \<exists>i r. find_scratch i t = Some r \<and> c = (sc_slot r, sc_entry r)}"

definition closed_entry :: "trace_ring \<Rightarrow> cursor \<Rightarrow> bool" where
  "closed_entry t c \<longleftrightarrow> resident (fst c) t \<and> snd c < nd_count (node_of (fst c) t) \<and> c \<notin> open_entries t"

definition openers :: "nat \<Rightarrow> trace_ring \<Rightarrow> u8 set" where
  "openers s t = {i. \<exists>r. find_scratch i t = Some r \<and> sc_slot r = s}"

definition scratch_even :: "scratch \<Rightarrow> bool" where
  "scratch_even r \<longleftrightarrow> even (length (sc_prefix r)) \<and> even (length (sc_body r)) \<and> even (length (sc_postfix r))"

definition node_shape :: "nat \<Rightarrow> trace_ring \<Rightarrow> bool" where
  "node_shape s t \<longleftrightarrow>
     (case nd_slot (node_of s t) of
        None \<Rightarrow> nd_count (node_of s t) = 0
      | Some u \<Rightarrow> node_index u t = node_index s t \<and> tr_tail t \<le> u \<and> u \<le> tr_head t \<and> nd_locations (node_of s t) \<noteq> None)
     \<and> unat (nd_open (node_of s t)) \<le> unat (nd_count (node_of s t)) \<and> unat (nd_count (node_of s t)) \<le> MAX_ENTRIES"

definition scratch_shape :: "u8 \<Rightarrow> scratch \<Rightarrow> trace_ring \<Rightarrow> bool" where
  "scratch_shape i r t \<longleftrightarrow> sc_id r = i \<and> resident (sc_slot r) t \<and> sc_entry r < nd_count (node_of (sc_slot r) t)
     \<and> scratch_even r"

definition shape_ok :: "trace_ring \<Rightarrow> bool" where
  "shape_ok t \<longleftrightarrow> tr_ring t \<noteq> [] \<and> tr_tail t \<le> tr_head t
     \<and> (\<forall>s. tr_tail t \<le> s \<longrightarrow> s < tr_head t \<longrightarrow> resident s t)
     \<and> (\<forall>s. node_shape s t)
     \<and> (\<forall>i r. find_scratch i t = Some r \<longrightarrow> scratch_shape i r t)
     \<and> (\<forall>i j r r'. find_scratch i t = Some r \<longrightarrow> find_scratch j t = Some r' \<longrightarrow> i \<noteq> j
          \<longrightarrow> (sc_slot r, sc_entry r) \<noteq> (sc_slot r', sc_entry r'))
     \<and> (\<forall>s. card (openers s t) \<le> unat (nd_open (node_of s t)))"

lemma shape_okD:
  assumes "shape_ok t"
  shows "tr_ring t \<noteq> []" and "tr_tail t \<le> tr_head t" and "\<And>s. tr_tail t \<le> s \<Longrightarrow> s < tr_head t \<Longrightarrow> resident s t"
    and "\<And>s. node_shape s t" and "\<And>i r. find_scratch i t = Some r \<Longrightarrow> scratch_shape i r t"
    and "\<And>i j r r'. find_scratch i t = Some r \<Longrightarrow> find_scratch j t = Some r' \<Longrightarrow> i \<noteq> j
          \<Longrightarrow> (sc_slot r, sc_entry r) \<noteq> (sc_slot r', sc_entry r')"
    and "\<And>s. card (openers s t) \<le> unat (nd_open (node_of s t))"
  using assms unfolding shape_ok_def by blast+

lemma shape_residentD:
  assumes "shape_ok t" and "resident s t"
  obtains k where "nd_locations (node_of s t) = Some k" "tr_tail t \<le> s" "s \<le> tr_head t" "loc_at (node_index s t) t = Some k"
proof -
  have "nd_locations (node_of s t) \<noteq> None" "tr_tail t \<le> s" "s \<le> tr_head t"
    using shape_okD(4)[OF assms(1), of s] assms(2) by (auto simp: node_shape_def resident_def)
  moreover have "loc_at (node_index s t) t = nd_locations (node_of s t)"
    using node_index_less[OF shape_okD(1)[OF assms(1)], of s] by (simp add: loc_at_def node_of_def)
  ultimately show ?thesis using that by auto
qed

definition ring_ok :: "trace_ring \<Rightarrow> bool" where
  "ring_ok t \<longleftrightarrow> shape_ok t \<and> store_ok t"

fun key_node :: "chain_key \<Rightarrow> nat option" where
  "key_node K_Stencils = None"
| "key_node (K_Code k) = Some k"
| "key_node (K_Data k i) = Some k"

definition keeps_key :: "chain_key \<Rightarrow> trace_ring \<Rightarrow> trace_ring \<Rightarrow> bool" where
  "keeps_key q t t' \<longleftrightarrow> keeps_chain (tr_mgr t) (bufs_at q t) (tr_mgr t') (bufs_at q t')"

text \<open>
  What a step may do to the history: slots are released from the oldest on, and in the others the entries that are
  not being recorded stay as they are, \<open>E\<close> apart, and the chains keep what they hold.
\<close>

definition after :: "cursor set \<Rightarrow> trace_ring \<Rightarrow> trace_ring \<Rightarrow> bool" where
  "after E t t' \<longleftrightarrow> length (tr_ring t') = length (tr_ring t) \<and> tr_tail t \<le> tr_tail t' \<and> keeps_key K_Stencils t t'
     \<and> (\<forall>s. resident s t \<longrightarrow> tr_tail t' \<le> s \<longrightarrow> resident s t'
          \<and> (\<forall>q. key_node q = Some (node_index s t) \<longrightarrow> keeps_key q t t')
          \<and> (\<forall>e. closed_entry t (s, e) \<longrightarrow> (s, e) \<notin> E \<longrightarrow>
               closed_entry t' (s, e) \<and> cursor_deref t' (s, e) = cursor_deref t (s, e)))"

lemma node_index_length: "length (tr_ring t') = length (tr_ring t) \<Longrightarrow> node_index s t' = node_index s t"
  by (simp add: node_index_def)

lemma after_refl [simp]: "after E t t"
  by (simp add: after_def keeps_key_def)

lemma after_trans:
  assumes "after E a b" and "after E b c"
  shows "after E a c"
proof -
  have kt: "keeps_key q a b \<Longrightarrow> keeps_key q b c \<Longrightarrow> keeps_key q a c" for q
    unfolding keeps_key_def by (rule keeps_chain_trans)
  have len: "length (tr_ring b) = length (tr_ring a)" and tl: "tr_tail b \<le> tr_tail c" using assms by (simp_all add: after_def)
  have ix: "node_index s b = node_index s a" for s by (rule node_index_length[OF len])
  show ?thesis
    unfolding after_def
  proof (intro conjI allI impI)
    show "length (tr_ring c) = length (tr_ring a)" "tr_tail a \<le> tr_tail c" "keeps_key K_Stencils a c"
      using assms kt by (auto simp: after_def)
    fix s assume s: "resident s a" "tr_tail c \<le> s"
    then have sb: "resident s b" "\<And>q. key_node q = Some (node_index s a) \<Longrightarrow> keeps_key q a b"
      using assms(1) tl by (auto simp: after_def)
    then show "resident s c" using assms(2) s(2) by (auto simp: after_def)
    show "key_node q = Some (node_index s a) \<Longrightarrow> keeps_key q a c" for q
      using kt[of q] sb assms(2) s(2) ix by (auto simp: after_def)
    fix e assume e: "closed_entry a (s, e)" "(s, e) \<notin> E"
    then have b: "closed_entry b (s, e)" "cursor_deref b (s, e) = cursor_deref a (s, e)"
      using assms(1) s tl by (auto simp: after_def)
    then show "closed_entry c (s, e)" "cursor_deref c (s, e) = cursor_deref a (s, e)"
      using assms(2) s sb(1) e(2) by (auto simp: after_def)
  qed
qed

lemma after_closed:
  assumes "after E t t'" and "\<And>c. c \<in> E \<Longrightarrow> \<not> closed_entry t c"
  shows "after {} t t'"
  using assms unfolding after_def by fastforce

section \<open>Steps that leave slots and entries alone\<close>

definition same_frames :: "trace_ring \<Rightarrow> trace_ring \<Rightarrow> bool" where
  "same_frames t t' \<longleftrightarrow> length (tr_ring t') = length (tr_ring t) \<and> (\<forall>s. frame_of (node_of s t') = frame_of (node_of s t))
     \<and> tr_head t' = tr_head t \<and> tr_tail t' = tr_tail t \<and> tr_recs t' = tr_recs t"

lemma same_framesD:
  assumes "same_frames t t'"
  shows "nd_slot (node_of s t') = nd_slot (node_of s t)" "nd_locations (node_of s t') = nd_locations (node_of s t)"
    "nd_count (node_of s t') = nd_count (node_of s t)" "nd_open (node_of s t') = nd_open (node_of s t)"
    "find_scratch i t' = find_scratch i t" "node_index s t' = node_index s t"
    "tr_head t' = tr_head t" "tr_tail t' = tr_tail t" "tr_ring t' = [] \<longleftrightarrow> tr_ring t = []"
proof -
  have "frame_of (node_of s t') = frame_of (node_of s t)" using assms by (simp add: same_frames_def)
  then show "nd_slot (node_of s t') = nd_slot (node_of s t)" "nd_locations (node_of s t') = nd_locations (node_of s t)"
    "nd_count (node_of s t') = nd_count (node_of s t)" "nd_open (node_of s t') = nd_open (node_of s t)"
    by (simp_all add: frame_of_def)
  have len: "length (tr_ring t') = length (tr_ring t)" using assms by (simp add: same_frames_def)
  then show "tr_ring t' = [] \<longleftrightarrow> tr_ring t = []" by auto
  show "node_index s t' = node_index s t" by (rule node_index_length[OF len])
  show "find_scratch i t' = find_scratch i t" "tr_head t' = tr_head t" "tr_tail t' = tr_tail t"
    using assms by (simp_all add: same_frames_def find_scratch_def)
qed

lemma same_frames_shape:
  assumes "same_frames t t'"
  shows "shape_ok t' = shape_ok t" "resident s t' = resident s t" "closed_entry t' c = closed_entry t c"
  by (simp_all add: shape_ok_def resident_def closed_entry_def open_entries_def node_shape_def scratch_shape_def
      openers_def same_framesD[OF assms] cong: option.case_cong)

lemma same_frames_after:
  assumes f: "same_frames t t'" and ok: "shape_ok t" and k: "\<And>q. keeps_key q t t'"
    and loc: "\<And>k b. loc_at k t = Some b \<Longrightarrow> sb_data (slab_of (tr_mgr t') b) = sb_data (slab_of (tr_mgr t) b)"
  shows "after E t t'"
proof -
  have "cursor_deref t' (s, e) = cursor_deref t (s, e)" if res: "resident s t" for s e
  proof -
    obtain b where b: "nd_locations (node_of s t) = Some b" "loc_at (node_index s t) t = Some b"
      using shape_residentD[OF ok res] by metis
    show ?thesis
      using res b(1) loc[OF b(2)]
      by (simp add: cursor_deref_def resident_node_def read_location_def same_framesD[OF f] resident_def)
  qed
  then show ?thesis
    using k f by (auto simp: after_def same_frames_shape[OF f] same_frames_def)
qed


lemma frames_on_chain: "same_frames t (put_chain q c (t\<lparr>tr_mgr := m\<rparr>))"
proof -
  have "frame_of (node_of s (t\<lparr>tr_mgr := m\<rparr>)) = frame_of (node_of s t)" for s
    by (simp add: node_of_def node_index_def)
  then show ?thesis by (simp add: same_frames_def)
qed

text \<open>What follows from a step on the store alone.\<close>

definition quiet :: "trace_ring \<Rightarrow> trace_ring \<Rightarrow> bool" where
  "quiet t t' \<longleftrightarrow> ring_ok t' \<and> same_frames t t' \<and> (\<forall>E. after E t t') \<and> (\<forall>q. keeps_key q t t')"

lemma quiet_refl: "ring_ok t \<Longrightarrow> quiet t t"
  by (simp add: quiet_def same_frames_def keeps_key_def)

lemma quiet_trans: "quiet a b \<Longrightarrow> quiet b c \<Longrightarrow> quiet a c"
  unfolding quiet_def by (auto simp: same_frames_def keeps_key_def intro: after_trans keeps_chain_trans)

lemma chain_quiet:
  assumes ok: "ring_ok t" and q: "key_in q t" and g: "grown (tr_mgr t, chain_at q t) (m, c)"
    and ev: "\<not> is_data q \<Longrightarrow> evens m (ch_bufs c)"
  shows "quiet t (put_chain q c (t\<lparr>tr_mgr := m\<rparr>))"
proof -
  let ?t = "put_chain q c (t\<lparr>tr_mgr := m\<rparr>)"
  have st: "store_ok t" "shape_ok t" using ok by (simp_all add: ring_ok_def)
  note S = store_chain[OF st(1) q g ev]
  have f: "same_frames t ?t" by (rule frames_on_chain)
  have k: "keeps_key p t ?t" for p unfolding keeps_key_def by (rule S(2))
  have "after E t ?t" for E by (rule same_frames_after[OF f st(2) k], rule arg_cong[of _ _ sb_data], rule S(3))
  then show ?thesis using S(1) st(2) f k same_frames_shape(1)[OF f] by (simp add: quiet_def ring_ok_def)
qed

lemma on_chain_final:
  "final (on_chain q op) t = (case final op (tr_mgr t, chain_at q t) of (m, c) \<Rightarrow> put_chain q c (t\<lparr>tr_mgr := m\<rparr>))"
  by (simp add: final_def on_chain_def zoom_def split: prod.split)

lemma store_chain_ok: "store_ok t \<Longrightarrow> chain_ok (tr_mgr t, chain_at q t)"
  using store_okD(1,2)[of t] by (simp add: chain_ok_def bufs_at_def)

lemma on_chain_quiet:
  assumes ok: "ring_ok t" and q: "key_in q t" and op: "tame op" and ev: "\<not> is_data q \<Longrightarrow> fills_evenly op"
  shows "quiet t (final (on_chain q op) t)"
proof -
  have st: "store_ok t" using ok by (simp add: ring_ok_def)
  note c = store_chain_ok[OF st, of q]
  obtain m d where f: "final op (tr_mgr t, chain_at q t) = (m, d)" by fastforce
  have g: "grown (tr_mgr t, chain_at q t) (m, d)" using op c f unfolding tame_def by metis
  have "evens m (ch_bufs d)" if "\<not> is_data q"
  proof -
    have "evens (tr_mgr t) (bufs_at q t)" using store_okD(9,10)[OF st] that by (cases q) auto
    then show ?thesis using ev[OF that] c f unfolding fills_evenly_def bufs_at_def by (metis fst_conv snd_conv)
  qed
  then show ?thesis using chain_quiet[OF ok q g] by (simp add: on_chain_final f)
qed

text \<open>Fields that the store and the slots do not depend on.\<close>

lemma store_cong:
  assumes "store_ok t" and "tr_mgr t' = tr_mgr t" and "\<And>q. chain_at q t' = chain_at q t" and "\<And>k. loc_at k t' = loc_at k t"
    and "\<And>n. n \<in> set (tr_ring t') \<Longrightarrow> distinct (map fst (nd_data n))" and "tr_tombstone t' = tr_tombstone t"
    and "\<And>h e. tr_map t' h = Some e \<Longrightarrow> stencil_ok t e"
  shows "store_ok t'"
proof -
  have b: "bufs_at q t' = bufs_at q t" for q by (simp add: bufs_at_def assms(3))
  have "stencil_ok t' e = stencil_ok t e" for e by (simp add: stencil_ok_def b assms(2))
  then show ?thesis using assms(1,5,7) unfolding store_ok_def b assms(2,4,6) by blast
qed

lemma chain_at_same: "tr_ring t' = tr_ring t \<Longrightarrow> tr_stencils t' = tr_stencils t \<Longrightarrow> chain_at q t' = chain_at q t"
  by (cases q) simp_all

lemma store_same:
  assumes "store_ok t" and "tr_mgr t' = tr_mgr t" "tr_ring t' = tr_ring t" "tr_stencils t' = tr_stencils t"
    "tr_tombstone t' = tr_tombstone t" "\<And>h e. tr_map t' h = Some e \<Longrightarrow> stencil_ok t e"
  shows "store_ok t'"
proof (rule store_cong[OF assms(1,2)])
  show "chain_at q t' = chain_at q t" for q by (rule chain_at_same[OF assms(3,4)])
  show "loc_at k t' = loc_at k t" for k by (simp add: loc_at_def assms(3))
  show "n \<in> set (tr_ring t') \<Longrightarrow> distinct (map fst (nd_data n))" for n
    unfolding assms(3) by (rule store_okD(8)[OF assms(1)])
qed (fact assms)+

lemma keeps_key_same:
  "tr_mgr t' = tr_mgr t \<Longrightarrow> (\<And>q. chain_at q t' = chain_at q t) \<Longrightarrow> keeps_key q t t'"
  by (simp add: keeps_key_def bufs_at_def)

lemma fields_quiet:
  assumes ok: "ring_ok t" and "tr_mgr t' = tr_mgr t" "tr_ring t' = tr_ring t" "tr_stencils t' = tr_stencils t"
    "tr_tombstone t' = tr_tombstone t" "\<And>h e. tr_map t' h = Some e \<Longrightarrow> stencil_ok t e"
    and "tr_head t' = tr_head t" "tr_tail t' = tr_tail t" "tr_recs t' = tr_recs t"
  shows "quiet t t'"
proof -
  have st: "store_ok t" "shape_ok t" using ok by (simp_all add: ring_ok_def)
  have f: "same_frames t t'" by (simp add: assms same_frames_def node_of_def node_index_def)
  have k: "keeps_key q t t'" for q by (rule keeps_key_same[OF assms(2) chain_at_same[OF assms(3,4)]])
  have "store_ok t'" by (rule store_same[OF st(1) assms(2-6)])
  moreover have "after E t t'" for E by (rule same_frames_after[OF f st(2) k]) (simp add: assms(2))
  ultimately show ?thesis
    using ok f k same_frames_shape(1)[OF f] by (simp add: quiet_def ring_ok_def)
qed

lemma count_footprint_quiet: "ring_ok t \<Longrightarrow> quiet t (final (count_footprint f) t)"
  by (rule fields_quiet) (simp_all add: final_def count_footprint_def modify_def ring_ok_def store_okD(11))


section \<open>Steps on location buffers\<close>

lemma store_shrink:
  assumes st: "store_ok t" and ok: "manager_ok (tr_mgr t')"
    and ch: "\<And>q. bufs_at q t' = bufs_at q t \<or> bufs_at q t' = []" "bufs_at K_Stencils t' = bufs_at K_Stencils t"
    and keep: "\<And>q k. k \<in> set (bufs_at q t') \<Longrightarrow> k \<in> live_slots (tr_mgr t') \<and> handle_of (tr_mgr t') k = handle_of (tr_mgr t) k
       \<and> slab_of (tr_mgr t') k = slab_of (tr_mgr t) k"
    and locs: "\<And>k b. loc_at k t' = Some b \<Longrightarrow> b \<in> live_slots (tr_mgr t') \<and> (loc_at k t = Some b \<or> b \<notin> live_slots (tr_mgr t))"
    and inj: "\<And>k j b. loc_at k t' = Some b \<Longrightarrow> loc_at j t' = Some b \<Longrightarrow> k = j"
    and dat: "\<And>n. n \<in> set (tr_ring t') \<Longrightarrow> distinct (map fst (nd_data n))"
    and fields: "tr_tombstone t' = tr_tombstone t" "tr_map t' = tr_map t"
  shows "store_ok t'" and "bufs_at q t' = bufs_at q t \<Longrightarrow> keeps_key q t t'"
proof -
  note S = store_okD[OF st]
  have sub: "set (bufs_at q t') \<subseteq> set (bufs_at q t)" for q using ch(1)[of q] by auto
  show kept: "bufs_at q t' = bufs_at q t \<Longrightarrow> keeps_key q t t'" for q
    using keep[of _ q] by (auto simp: keeps_key_def keeps_chain_def in_use_def)
  have live: "set (bufs_at q t') \<subseteq> live_slots (tr_mgr t')" for q using keep by blast
  have ev: "evens (tr_mgr t) (bufs_at q t) \<Longrightarrow> evens (tr_mgr t') (bufs_at q t')" for q
    using sub[of q] keep[of _ q] unfolding evens_def by (metis subsetD)
  note ks = kept[OF ch(2)] note ks' = ks[unfolded keeps_key_def]
  show "store_ok t'"
    unfolding store_ok_def fields
  proof (intro conjI allI impI ballI)
    show "distinct (bufs_at q t')" for q using S(3)[of q] ch(1)[of q] by auto
    show "x \<noteq> y \<Longrightarrow> set (bufs_at x t') \<inter> set (bufs_at y t') = {}" for x y using S(4)[of x y] sub by blast
    show "loc_at k t' = Some b \<Longrightarrow> b \<in> live_slots (tr_mgr t')" for k b using locs by blast
    show "loc_at k t' = Some b \<Longrightarrow> b \<notin> set (bufs_at q t')" for k b q
      using locs[of k b] S(6)[of k b q] S(2)[of q] sub[of q] by blast
    show "evens (tr_mgr t') (bufs_at K_Stencils t')" "evens (tr_mgr t') (bufs_at (K_Code k) t')" for k
      by (rule ev, rule S)+
    show "tr_map t h = Some e \<Longrightarrow> stencil_ok t' e" for h e
      by (rule stencil_ok_keeps[OF S(11) ks' S(1,2) ok live])
    show "placed (tr_mgr t') (bufs_at K_Stencils t') (pl_code (tr_tombstone t)) e_halt0"
      by (rule placed_keeps[OF S(12) ks' S(1,2) ok live])
    show "even_location (pl_code (tr_tombstone t))" by (rule S)
  qed (fact ok live inj dat)+
qed

text \<open>Bytes of an entry.\<close>

lemma length_location_bytes [simp]: "length (location_bytes l) = 4" "length (program_location_bytes p) = 8"
  by (simp_all add: location_bytes_def program_location_bytes_def word_bytes_le_eq)

lemma location_of_location_bytes: "location_of_bytes (location_bytes l) = l"
proof -
  have "join_bytes (ucast (drop_bit 8 x)) (ucast x) = x" for x :: u16
    by (rule bit_word_eqI) (auto simp: join_bytes_def bit_simps)
  then show ?thesis by (simp add: location_of_bytes_def location_bytes_def word_bytes_le_eq)
qed

lemma program_of_program_bytes: "program_location_of_bytes (program_location_bytes p) = p"
  by (simp add: program_location_of_bytes_def program_location_bytes_def location_of_location_bytes)

lemma entry_offset_eq: "unat entry < MAX_ENTRIES \<Longrightarrow> entry_offset entry = 8 * unat entry"
  by (simp add: entry_offset_def LOCATION_BYTES_def MAX_ENTRIES_def BUFFER_SIZE_def unat_word_ariths mult.commute)

lemma slab_write_entry_effect:
  assumes "slab_ok sl" and "slab_capacity sl = BUFFER_SIZE" and "unat entry < MAX_ENTRIES"
  obtains sl' where "slab_write_entry entry p sl = (Inr (), sl')" "slab_ok sl'" "slab_capacity sl' = slab_capacity sl"
    "sb_data sl' = patch (sb_data sl) (8 * unat entry) (program_location_bytes p)"
proof -
  let ?off = "8 * unat entry"
  define d where "d = patch (sb_data sl) ?off (program_location_bytes p)"
  have fit: "?off + 8 \<le> BUFFER_SIZE" using assms(3) by (simp add: MAX_ENTRIES_def BUFFER_SIZE_def LOCATION_BYTES_def)
  have len: "length d = length (sb_data sl)" using fit assms(2) by (simp add: d_def slab_capacity_def)
  define sl' where "sl' = sl\<lparr>sb_data := d, sb_used := max (sb_used sl) (?off + 8)\<rparr>"
  have cap: "slab_capacity sl' = BUFFER_SIZE" "slab_ok sl'"
    using assms(1,2) fit len by (simp_all add: sl'_def slab_capacity_def slab_ok_def)
  have "slab_write_entry entry p sl = (Inr (), sl')"
    using fit len assms(2)
    by (simp add: slab_write_entry_def entry_offset_eq[OF assms(3)] slab_write_def andthen_def Let_def modify_def gets_def
        slab_allocate_uninitialized_def remaining_capacity_def slab_capacity_def LOCATION_BYTES_def ret_def sl'_def d_def)
      arith
  then show ?thesis using that cap assms(2) by (simp add: sl'_def d_def)
qed

lemma take_drop_patch_same: "i + length ys \<le> length xs \<Longrightarrow> take (length ys) (drop i (patch xs i ys)) = ys"
  by (simp add: patch_def)

lemma take_drop_patch_other:
  assumes "i + length ys \<le> length xs" and "j + n \<le> i \<or> i + length ys \<le> j" and "j + n \<le> length xs"
  shows "take n (drop j (patch xs i ys)) = take n (drop j xs)"
  by (rule nth_equalityI) (use assms in \<open>auto simp: nth_patch\<close>)


text \<open>Writing an entry of a resident slot.\<close>

lemma write_location_step:
  assumes ok: "ring_ok t" and res: "resident s t" and e: "unat entry < MAX_ENTRIES"
  obtains t' where "write_location s entry p t = (Inr (), t')" "ring_ok t'" "same_frames t t'"
    "\<And>E. (s, entry) \<in> E \<Longrightarrow> after E t t'" "\<And>q. keeps_key q t t'" "cursor_deref t' (s, entry) = p"
    "live_slots (tr_mgr t') = live_slots (tr_mgr t)" "tr_map t' = tr_map t" "tr_pending t' = tr_pending t"
proof -
  have sh: "shape_ok t" and st: "store_ok t" using ok by (simp_all add: ring_ok_def)
  note S = store_okD[OF st]
  obtain k where k: "nd_locations (node_of s t) = Some k" "loc_at (node_index s t) t = Some k"
    using shape_residentD[OF sh res] by metis
  have kl: "k \<in> live_slots (tr_mgr t)" by (rule S(5)[OF k(2)])
  note L = live_slab[OF S(1) kl]
  obtain sl where sl: "slab_write_entry entry p (slab_of (tr_mgr t) k) = (Inr (), sl)" "slab_ok sl"
    "slab_capacity sl = slab_capacity (slab_of (tr_mgr t) k)"
    "sb_data sl = patch (sb_data (slab_of (tr_mgr t) k)) (8 * unat entry) (program_location_bytes p)"
    by (rule slab_write_entry_effect[OF L(1,2) e])
  from on_slab_changes[of "tr_mgr t" k "slab_write_entry entry p", OF S(1) kl sl(1-3)]
  obtain m where m: "on_slab k (slab_write_entry entry p) (tr_mgr t) = (Inr (), m)" "manager_ok m"
    "live_slots m = live_slots (tr_mgr t)" "slab_of m k = sl" "\<And>j. j \<noteq> k \<Longrightarrow> slab_of m j = slab_of (tr_mgr t) j"
    "\<And>j. handle_of m j = handle_of (tr_mgr t) j" by metis
  define t' where "t' = t\<lparr>tr_mgr := m\<rparr>"
  have run: "write_location s entry p t = (Inr (), t')"
    using k(1) m(1) by (simp add: write_location_def on_manager_def zoom_def t'_def)
  have f: "same_frames t t'" by (simp add: t'_def same_frames_def node_of_def node_index_def)
  have b: "bufs_at q t' = bufs_at q t" for q by (simp add: t'_def bufs_at_def)
  have ts: "store_ok t'" "keeps_key q t t'" for q
  proof -
    have "slab_of m j = slab_of (tr_mgr t) j" if "j \<in> set (bufs_at q t)" for j q
      using S(6)[OF k(2)] that m(5) by metis
    moreover have "k \<in> live_slots (tr_mgr t)" if "k \<in> set (bufs_at q t)" for q k using S(2)[of q] that by blast
    ultimately show "store_ok t'" "keeps_key q t t'"
      using store_shrink[OF st, of t'] b m(2,3,6) S(5,7,8) by (auto simp: t'_def)
  qed
  have len: "8 * unat entry + 8 \<le> length (sb_data (slab_of (tr_mgr t) k))"
    using e L(2) by (simp add: MAX_ENTRIES_def BUFFER_SIZE_def LOCATION_BYTES_def slab_capacity_def)
  have fr: "resident u t' = resident u t" "nd_locations (node_of u t') = nd_locations (node_of u t)" for u
    by (simp_all add: same_frames_shape[OF f] same_framesD[OF f])
  have read: "cursor_deref t' (u, x) = (if nd_locations (node_of u t) = Some k
      then program_location_of_bytes (take 8 (drop (8 * unat x) (sb_data sl))) else cursor_deref t (u, x))"
    if r: "resident u t" and x: "unat x < MAX_ENTRIES" for u x
  proof -
    obtain j where "nd_locations (node_of u t) = Some j" using shape_residentD[OF sh r] by metis
    then show ?thesis
      using r fr[of u] m(4) m(5)[of j] x
      by (auto simp: cursor_deref_def resident_node_def resident_def read_location_def t'_def entry_offset_eq LOCATION_BYTES_def)
  qed
  have mine: "cursor_deref t' (s, entry) = p"
    using take_drop_patch_same[of "8 * unat entry" "program_location_bytes p"] len
    by (simp add: read[OF res e] k(1) sl(4) program_of_program_bytes)
  have other: "cursor_deref t' (u, x) = cursor_deref t (u, x)" if c: "closed_entry t (u, x)" "(u, x) \<noteq> (s, entry)" for u x
  proof -
    have r: "resident u t" and x: "unat x < MAX_ENTRIES"
      using c(1) shape_okD(4)[OF sh, of u] by (auto simp: closed_entry_def node_shape_def word_less_nat_alt)
    show ?thesis
    proof (cases "nd_locations (node_of u t) = Some k")
      case True
      have "loc_at (node_index u t) t = Some k" using shape_residentD[OF sh r] True by metis
      then have "node_index u t = node_index s t" using S(7) k(2) by blast
      then have "u = s" using r res by (simp add: resident_def node_of_def)
      with c(2) have ne: "unat x \<noteq> unat entry" by (simp add: word_unat_eq_iff)
      have "take 8 (drop (8 * unat x) (sb_data sl)) = take 8 (drop (8 * unat x) (sb_data (slab_of (tr_mgr t) k)))"
        unfolding sl(4) by (rule take_drop_patch_other) (use ne len x L(2) in
          \<open>auto simp: MAX_ENTRIES_def BUFFER_SIZE_def LOCATION_BYTES_def slab_capacity_def\<close>)
      moreover have "cursor_deref t (u, x) =
          program_location_of_bytes (take 8 (drop (8 * unat x) (sb_data (slab_of (tr_mgr t) k))))"
        using True r x by (simp add: cursor_deref_def resident_node_def resident_def read_location_def
            entry_offset_eq LOCATION_BYTES_def)
      ultimately show ?thesis by (simp add: read[OF r x] True)
    qed (simp add: read[OF r x])
  qed
  have "after E t t'" if "(s, entry) \<in> E" for E
    using that other ts(2) f by (auto simp: after_def same_frames_shape[OF f] same_frames_def)
  moreover have "ring_ok t'" using ts(1) sh same_frames_shape(1)[OF f] by (simp add: ring_ok_def)
  ultimately show ?thesis using that[OF run _ f _ ts(2) mine] m(3) by (simp add: t'_def)
qed


section \<open>Steps on nodes\<close>

lemma node_of_put: "tr_ring t \<noteq> [] \<Longrightarrow> node_of u (put_node s n t) = (if node_index u t = node_index s t then n else node_of u t)"
  using node_index_less[of t s] by (auto simp: node_of_def put_node_def node_index_def nth_list_update)

lemma put_node_fields [simp]:
  "tr_mgr (put_node s n t) = tr_mgr t" "tr_head (put_node s n t) = tr_head t" "tr_tail (put_node s n t) = tr_tail t"
  "tr_recs (put_node s n t) = tr_recs t" "tr_map (put_node s n t) = tr_map t" "tr_tombstone (put_node s n t) = tr_tombstone t"
  "tr_stencils (put_node s n t) = tr_stencils t" "length (tr_ring (put_node s n t)) = length (tr_ring t)"
  "node_index u (put_node s n t) = node_index u t" "find_scratch i (put_node s n t) = find_scratch i t"
  by (simp_all add: put_node_def node_index_def find_scratch_def)

lemma node_in_ring: "tr_ring t \<noteq> [] \<Longrightarrow> node_of s t \<in> set (tr_ring t)"
  using node_index_less[of t s] by (simp add: node_of_def)

lemma loc_at_put_node:
  "tr_ring t \<noteq> [] \<Longrightarrow> loc_at k (put_node s n t) = (if k = node_index s t then nd_locations n else loc_at k t)"
  using node_index_less[of t s] by (auto simp: loc_at_def put_node_def nth_list_update)

lemma chain_at_put_node:
  assumes "nd_code n = nd_code (node_of s t)" and "nd_data n = nd_data (node_of s t)"
  shows "chain_at q (put_node s n t) = chain_at q t"
  using assms
  by (cases q) (simp_all add: put_node_def node_of_def data_chain_of_def nth_update_same[where f = nd_code]
      nth_update_same[where f = nd_data])

lemma store_node:
  assumes st: "store_ok t" and ne: "tr_ring t \<noteq> []"
    and n: "nd_code n = nd_code (node_of s t)" "nd_data n = nd_data (node_of s t)" "nd_locations n = nd_locations (node_of s t)"
  shows "store_ok (put_node s n t)" and "keeps_key q t (put_node s n t)"
proof -
  have loc: "loc_at k (put_node s n t) = loc_at k t" for k
    unfolding loc_at_put_node[OF ne] using n(3) node_index_less[OF ne, of s] by (auto simp: loc_at_def node_of_def)
  show "store_ok (put_node s n t)"
  proof (rule store_cong[OF st])
    fix x assume "x \<in> set (tr_ring (put_node s n t))"
    then have "x \<in> insert n (set (tr_ring t))" using set_update_subset_insert by (fastforce simp: put_node_def)
    then show "distinct (map fst (nd_data x))"
      using store_okD(8)[OF st] node_in_ring[OF ne, of s] n(2) by auto
  qed (simp_all add: chain_at_put_node[OF n(1,2)] loc store_okD(11)[OF st])
  show "keeps_key q t (put_node s n t)" by (rule keeps_key_same) (simp_all add: chain_at_put_node[OF n(1,2)])
qed

text \<open>Slots, counts and openings that stay; a location buffer may have been added.\<close>

definition same_slots :: "trace_ring \<Rightarrow> trace_ring \<Rightarrow> bool" where
  "same_slots t t' \<longleftrightarrow> length (tr_ring t') = length (tr_ring t) \<and> tr_head t' = tr_head t \<and> tr_tail t' = tr_tail t
     \<and> tr_recs t' = tr_recs t
     \<and> (\<forall>s. nd_slot (node_of s t') = nd_slot (node_of s t) \<and> nd_count (node_of s t') = nd_count (node_of s t)
          \<and> nd_open (node_of s t') = nd_open (node_of s t)
          \<and> (nd_locations (node_of s t) \<noteq> None \<longrightarrow> nd_locations (node_of s t') = nd_locations (node_of s t)))"

lemma same_slotsD:
  assumes "same_slots t t'"
  shows "nd_slot (node_of s t') = nd_slot (node_of s t)" "nd_count (node_of s t') = nd_count (node_of s t)"
    "nd_open (node_of s t') = nd_open (node_of s t)" "find_scratch i t' = find_scratch i t" "node_index s t' = node_index s t"
    "tr_head t' = tr_head t" "tr_tail t' = tr_tail t" "tr_ring t' = [] \<longleftrightarrow> tr_ring t = []"
  using assms by (auto simp: same_slots_def find_scratch_def node_index_def)

lemma same_slots_shape:
  assumes f: "same_slots t t'"
  shows "shape_ok t \<Longrightarrow> shape_ok t'" "resident s t' = resident s t" "closed_entry t' c = closed_entry t c"
proof -
  show "resident s t' = resident s t" "closed_entry t' c = closed_entry t c"
    by (simp_all add: resident_def closed_entry_def open_entries_def same_slotsD[OF f])
  have "node_shape s t \<Longrightarrow> node_shape s t'" for s
    using f by (auto simp: node_shape_def same_slotsD[OF f] same_slots_def split: option.splits)
  then show "shape_ok t \<Longrightarrow> shape_ok t'"
    by (simp add: shape_ok_def resident_def scratch_shape_def openers_def same_slotsD[OF f])
qed

text \<open>At most one buffer is taken, and no body is looked at.\<close>

definition spare :: "trace_ring \<Rightarrow> trace_ring \<Rightarrow> bool" where
  "spare t t' \<longleftrightarrow> card (live_slots (tr_mgr t')) \<le> card (live_slots (tr_mgr t)) + 1
     \<and> tr_map t' = tr_map t \<and> tr_pending t' = tr_pending t"

lemma locations_ready_step:
  assumes ok: "ring_ok t"
  obtains (full) "locations_ready s t = (Inl out_of_buffers, t)" "\<not> card (live_slots (tr_mgr t)) < 4095"
      "nd_locations (node_of s t) = None"
  | (ready) t' where "locations_ready s t = (Inr (), t')" "ring_ok t'" "same_slots t t'" "\<And>E. after E t t'"
      "nd_locations (node_of s t') \<noteq> None" "spare t t'"
proof (cases "nd_locations (node_of s t) = None")
  case False
  then show ?thesis using ready[of t] ok by (simp add: locations_ready_def same_slots_def spare_def)
next
  case none: True
  have sh: "shape_ok t" and st: "store_ok t" using ok by (simp_all add: ring_ok_def)
  note S = store_okD[OF st] and ne = shape_okD(1)[OF sh]
  show ?thesis
  proof (cases "card (live_slots (tr_mgr t)) < 4095")
    case False
    then show ?thesis
      using full none alloc_full[OF S(1) False]
      by (simp add: locations_ready_def andthen_def on_manager_def zoom_def)
  next
    case True
    obtain k m where a: "alloc_buffer (tr_mgr t) = (Inr k, m)" by (rule buffer_available[OF S(1) True])
    note A = alloc_extends[OF S(1) a]
    define n where "n = (node_of s t)\<lparr>nd_locations := Some k\<rparr>"
    define t' where "t' = put_node s n (t\<lparr>tr_mgr := m\<rparr>)"
    have nm: "node_of u (t\<lparr>tr_mgr := m\<rparr>) = node_of u t" "node_index u (t\<lparr>tr_mgr := m\<rparr>) = node_index u t" for u
      by (simp_all add: node_of_def node_index_def)
    have run: "locations_ready s t = (Inr (), t')"
      using none a nm by (simp add: locations_ready_def andthen_def on_manager_def zoom_def modify_def t'_def n_def)
    have node: "node_of u t' = (if node_index u t = node_index s t then n else node_of u t)" for u
      using node_of_put[of "t\<lparr>tr_mgr := m\<rparr>" u s n] ne by (simp add: t'_def nm)
    have same: "node_index u t = node_index s t \<Longrightarrow> node_of u t = node_of s t" for u by (simp add: node_of_def)
    have fr: "nd_slot (node_of u t') = nd_slot (node_of u t)" "nd_count (node_of u t') = nd_count (node_of u t)"
      "nd_open (node_of u t') = nd_open (node_of u t)"
      "nd_locations (node_of u t) \<noteq> None \<Longrightarrow> nd_locations (node_of u t') = nd_locations (node_of u t)" for u
      using same[of u] none by (auto simp: node n_def)
    have f: "same_slots t t'"
      unfolding same_slots_def using fr by (simp add: t'_def find_scratch_def)
    have loc: "loc_at j t' = (if j = node_index s t then Some k else loc_at j t)" for j
      using loc_at_put_node[of "t\<lparr>tr_mgr := m\<rparr>" j s n] ne by (simp add: t'_def nm n_def)
    have b: "bufs_at q t' = bufs_at q t" for q
      using chain_at_put_node[of n s "t\<lparr>tr_mgr := m\<rparr>" q] by (simp add: bufs_at_def t'_def n_def nm)
    have inch: "x \<in> live_slots (tr_mgr t)" if "x \<in> set (bufs_at q t)" for x q using S(2)[of q] that by blast
    have hd: "handle_of m x = handle_of (tr_mgr t) x" if "x \<in> live_slots (tr_mgr t)" for x
      using A(2) that by (simp add: extends_memory_def)
    have tm: "tr_mgr t' = m" by (simp add: t'_def)
    have ts: "store_ok t'" "keeps_key q t t'" for q
    proof -
      have dd: "distinct (map fst (nd_data x))" if "x \<in> set (tr_ring t')" for x
      proof -
        have "x \<in> insert n (set (tr_ring t))"
          using that set_update_subset_insert by (fastforce simp: t'_def put_node_def)
        then show ?thesis using S(8) node_in_ring[OF ne, of s] by (auto simp: n_def)
      qed
      have li: "j = j'" if "loc_at j t' = Some x" "loc_at j' t' = Some x" for j j' x
        using that S(5)[of _ x] S(7)[of j x j'] A(4) by (auto simp: loc split: if_splits)
      have ll: "x \<in> live_slots m \<and> (loc_at j t = Some x \<or> x \<notin> live_slots (tr_mgr t))" if "loc_at j t' = Some x" for j x
        using that S(5)[of j x] A(3,4,5) by (auto simp: loc split: if_splits)
      have kp: "x \<in> live_slots m \<and> handle_of m x = handle_of (tr_mgr t) x \<and> slab_of m x = slab_of (tr_mgr t) x"
        if "x \<in> set (bufs_at q t)" for x q using inch[OF that] hd A(5,7) by simp
      show "store_ok t'"
      proof (rule store_shrink(1)[OF st])
        show "loc_at j t' = Some x \<Longrightarrow> loc_at j' t' = Some x \<Longrightarrow> j = j'" for j j' x by (rule li)
        show "x \<in> set (tr_ring t') \<Longrightarrow> distinct (map fst (nd_data x))" for x by (rule dd)
      qed (use kp ll A(1) in \<open>simp_all add: b tm, simp_all add: t'_def\<close>)
      show "keeps_key q t t'" unfolding keeps_key_def b tm by (rule extends_keeps_chain[OF A(2) S(2)]) simp
    qed
    have rl: "cursor_deref t' (u, x) = cursor_deref t (u, x)" if r: "resident u t" for u x
    proof -
      obtain j where j: "nd_locations (node_of u t) = Some j" "loc_at (node_index u t) t = Some j"
        using shape_residentD[OF sh r] by metis
      have "node_of u t' = node_of u t" using j(1) none same[of u] by (auto simp: node)
      moreover have "slab_of m j = slab_of (tr_mgr t) j" by (rule A(7)[OF S(5)[OF j(2)]])
      ultimately show ?thesis
        using j(1) by (simp add: cursor_deref_def resident_node_def read_location_def tm)
    qed
    have "after E t t'" for E
      using ts(2) rl f by (auto simp: after_def same_slots_shape[OF f] same_slots_def)
    moreover have "spare t t'" using A(5) by (simp add: spare_def tm card_insert_if) (simp add: t'_def put_node_def)
    ultimately show ?thesis
      using ready[OF run _ f] ts(1) same_slots_shape(1)[OF f sh] by (simp add: ring_ok_def node n_def)
  qed
qed


section \<open>Opening and closing recordings\<close>

lemma slots_step:
  assumes ok: "ring_ok t" and sh': "shape_ok t'" and m: "tr_mgr t' = tr_mgr t" and c: "\<And>q. chain_at q t' = chain_at q t"
    and loc: "\<And>k. loc_at k t' = loc_at k t" and dat: "\<And>n. n \<in> set (tr_ring t') \<Longrightarrow> distinct (map fst (nd_data n))"
    and fields: "tr_tombstone t' = tr_tombstone t" "tr_map t' = tr_map t" "length (tr_ring t') = length (tr_ring t)"
      "tr_tail t' = tr_tail t"
    and res: "\<And>s. resident s t \<Longrightarrow> resident s t'" and cl: "\<And>c. closed_entry t c \<Longrightarrow> closed_entry t' c"
  shows "ring_ok t'" and "after E t t'"
proof -
  have sh: "shape_ok t" and st: "store_ok t" using ok by (simp_all add: ring_ok_def)
  have "store_ok t'"
    by (rule store_cong[OF st m c loc dat fields(1)]) (auto simp: fields(2) intro: store_okD(11)[OF st])
  then show "ring_ok t'" using sh' by (simp add: ring_ok_def)
  have ks: "keeps_key q t t'" for q by (rule keeps_key_same[OF m c])
  have "cursor_deref t' (s, e) = cursor_deref t (s, e)" if r: "resident s t" for s e
  proof -
    have ix: "node_index s t' = node_index s t" by (rule node_index_length[OF fields(3)])
    have "nd_locations (node_of s t') = nd_locations (node_of s t)"
      using shape_residentD[OF sh r] shape_residentD[OF sh' res[OF r]] loc ix by metis
    then show ?thesis
      using r res[OF r] by (simp add: cursor_deref_def resident_node_def resident_def read_location_def m split: option.split)
  qed
  then show "after E t t'" using ks res cl fields by (auto simp: after_def closed_entry_def)
qed

lemma put_scratch_fields [simp]:
  "tr_mgr (put_scratch i r t) = tr_mgr t" "tr_head (put_scratch i r t) = tr_head t" "tr_tail (put_scratch i r t) = tr_tail t"
  "tr_map (put_scratch i r t) = tr_map t" "tr_tombstone (put_scratch i r t) = tr_tombstone t"
  "tr_ring (put_scratch i r t) = tr_ring t" "node_of s (put_scratch i r t) = node_of s t"
  "node_index s (put_scratch i r t) = node_index s t" "loc_at k (put_scratch i r t) = loc_at k t"
  "put_scratch i r (put_scratch i r' t) = put_scratch i r t"
  by (simp_all add: put_scratch_def node_of_def node_index_def loc_at_def)

lemma chain_at_put_scratch [simp]: "chain_at q (put_scratch i r t) = chain_at q t"
  by (rule chain_at_same) (simp_all add: put_scratch_def)

lemma find_put_scratch [simp]:
  "find_scratch j (put_scratch i r t) = (if j = i then if sc_active r then Some r else None else find_scratch j t)"
  by (simp add: find_scratch_def put_scratch_def)

lemma resident_put_scratch [simp]: "resident s (put_scratch i r t) = resident s t"
  by (simp add: resident_def)

lemma put_node_frame:
  assumes ne: "tr_ring t \<noteq> []" and st: "store_ok t"
    and n: "nd_code n = nd_code (node_of s t)" "nd_data n = nd_data (node_of s t)" "nd_locations n = nd_locations (node_of s t)"
  shows "loc_at k (put_node s n t) = loc_at k t" and "x \<in> set (tr_ring (put_node s n t)) \<Longrightarrow> distinct (map fst (nd_data x))"
proof -
  show "loc_at k (put_node s n t) = loc_at k t"
    unfolding loc_at_put_node[OF ne] using n(3) node_index_less[OF ne, of s] by (auto simp: loc_at_def node_of_def)
  show "x \<in> set (tr_ring (put_node s n t)) \<Longrightarrow> distinct (map fst (nd_data x))"
    by (rule store_okD(8)[OF store_node(1)[OF st ne n]])
qed

lemma openers_finite [simp]: "finite (openers s t)"
  by simp

lemma same_node: "node_index u t = node_index s t \<Longrightarrow> node_of u t = node_of s t"
  by (simp add: node_of_def)

lemma open_step:
  fixes i :: u8
  assumes ok: "ring_ok t" and s: "s = tr_head t" and slot: "nd_slot (node_of s t) = None \<or> nd_slot (node_of s t) = Some s"
    and cnt: "unat (nd_count (node_of s t)) < MAX_ENTRIES" and loc: "nd_locations (node_of s t) \<noteq> None"
  defines "n \<equiv> node_of s t"
  defines "t' \<equiv> put_scratch i (open_scratch i s (nd_count n))
    (put_node s (n\<lparr>nd_slot := Some s, nd_count := nd_count n + 1, nd_open := nd_open n + 1\<rparr>) t)"
  shows "ring_ok t'" and "after E t t'" and "resident s t'" and "find_scratch i t' = Some (open_scratch i s (nd_count n))"
proof -
  let ?r = "open_scratch i s (nd_count n)"
  let ?n = "n\<lparr>nd_slot := Some s, nd_count := nd_count n + 1, nd_open := nd_open n + 1\<rparr>"
  have sh: "shape_ok t" and st: "store_ok t" using ok by (simp_all add: ring_ok_def)
  note D = shape_okD[OF sh]
  have node: "node_of u t' = (if node_index u t = node_index s t then ?n else node_of u t)" for u
    using node_of_put[OF D(1), of u s ?n] by (simp add: t'_def)
  have ix: "node_index u t' = node_index u t" for u by (simp add: t'_def)
  have find: "find_scratch j t' = (if j = i then Some ?r else find_scratch j t)" for j
    by (simp add: t'_def open_scratch_def)
  show "find_scratch i t' = Some ?r" by (simp add: find)
  have fields: "tr_head t' = tr_head t" "tr_tail t' = tr_tail t" "length (tr_ring t') = length (tr_ring t)"
    by (simp_all add: t'_def)
  have le: "unat (nd_open n) \<le> unat (nd_count n)" using D(4)[of s] by (simp add: node_shape_def n_def)
  have cnt': "unat (nd_count n) < 8192"
    using cnt by (simp add: n_def MAX_ENTRIES_def BUFFER_SIZE_def LOCATION_BYTES_def)
  have up: "unat (nd_count n + 1) = unat (nd_count n) + 1" "unat (nd_open n + 1) = unat (nd_open n) + 1"
    using le cnt' by (simp_all add: unat_word_ariths)
  have here: "u = s" if "resident u t" "node_index u t = node_index s t" for u
    using that slot same_node[OF that(2)] by (auto simp: resident_def)
  have away: "node_of u t' = node_of u t" if "resident u t" "u \<noteq> s" for u
    using here[OF that(1)] that(2) by (auto simp: node)
  show rs: "resident s t'" by (simp add: resident_def node)
  have res: "resident u t'" if "resident u t" for u
    using rs away[OF that] that by (cases "u = s") (simp_all add: resident_def)
  have more: "nd_count (node_of u t) \<le> nd_count (node_of u t')" if "resident u t" for u
    using away[OF that] up(1) by (cases "u = s") (simp_all add: node n_def word_le_nat_alt)
  have grow: "nd_count n < nd_count n + 1" using up(1) by (simp add: word_less_nat_alt)
  have other: "j \<noteq> i \<Longrightarrow> find_scratch j t' = Some x \<Longrightarrow> find_scratch j t = Some x" for j x by (simp add: find)
  have new: "(sc_slot x, sc_entry x) \<noteq> (s, nd_count n)" if "find_scratch j t = Some x" for j x
    using D(5)[OF that] by (auto simp: scratch_shape_def n_def)
  have op: "card (openers u t') \<le> unat (nd_open (node_of u t'))" for u
  proof (cases "u = s")
    case True
    have "openers s t' \<subseteq> insert i (openers s t)" by (auto simp: openers_def find)
    then have "card (openers s t') \<le> card (insert i (openers s t))" by (intro card_mono) simp_all
    also have "\<dots> \<le> card (openers s t) + 1" by (simp add: card_insert_if)
    finally show ?thesis using D(7)[of s] up(2) True by (simp add: node n_def)
  next
    case False
    have sub: "openers u t' \<subseteq> openers u t" using False by (auto simp: openers_def find open_scratch_def)
    show ?thesis
    proof (cases "node_index u t = node_index s t")
      case True
      have "openers u t = {}"
        using here[OF _ True] False D(5) by (auto simp: openers_def scratch_shape_def)
      then show ?thesis using sub by simp
    next
      case ne: False
      have "card (openers u t') \<le> card (openers u t)" by (rule card_mono[OF openers_finite sub])
      then show ?thesis using D(7)[of u] ne by (simp add: node)
    qed
  qed
  have shp: "node_shape u t'" for u
    using D(4)[of u] D(2) s loc le cnt' up
    by (auto simp: node_shape_def node fields ix n_def MAX_ENTRIES_def BUFFER_SIZE_def LOCATION_BYTES_def split: option.split)
  have scr: "scratch_shape j x t'" if "find_scratch j t' = Some x" for j x
  proof (cases "j = i")
    case True
    then show ?thesis using that rs grow by (auto simp: find scratch_shape_def open_scratch_def node scratch_even_def)
  next
    case False
    then have x: "scratch_shape j x t" using D(5) other[OF False that] by blast
    then have "sc_entry x < nd_count (node_of (sc_slot x) t')"
      using more[of "sc_slot x"] by (auto simp: scratch_shape_def)
    then show ?thesis using x res by (simp add: scratch_shape_def)
  qed
  have dist: "(sc_slot x, sc_entry x) \<noteq> (sc_slot y, sc_entry y)"
    if "find_scratch j t' = Some x" "find_scratch k t' = Some y" "j \<noteq> k" for j k x y
    using that new[of j x] new[of k y] D(6)[of j x k y] by (auto simp: find open_scratch_def split: if_splits)
  have sh': "shape_ok t'"
    unfolding shape_ok_def fields
  proof (intro conjI allI impI)
    show "tr_ring t' \<noteq> []" using D(1) fields(3) by auto
    show "resident u t'" if "tr_tail t \<le> u" "u < tr_head t" for u by (rule res[OF D(3)[OF that]])
  qed (use D(2) shp scr dist op in auto)
  have cl: "closed_entry t' c" if "closed_entry t c" for c
  proof -
    have "snd c < nd_count (node_of (fst c) t')" using that more[of "fst c"] by (auto simp: closed_entry_def)
    moreover have "c \<noteq> (s, nd_count n)" using that by (auto simp: closed_entry_def n_def)
    then have "c \<notin> open_entries t'" using that by (auto simp: open_entries_def closed_entry_def find open_scratch_def split: if_splits)
    ultimately show ?thesis using that res by (simp add: closed_entry_def)
  qed
  note F = put_node_frame[OF D(1) st, of ?n s]
  note G = slots_step[OF ok sh' _ _ _ _ _ _ _ _ res cl]
  have "ring_ok t' \<and> after E t t'" for E
    by (intro conjI G; use F chain_at_put_node[of ?n s t] in \<open>simp add: t'_def n_def\<close>)
  then show "ring_ok t'" "after E t t'" by blast+
qed


lemma open_entries_iff:
  "c \<in> open_entries t \<longleftrightarrow> (\<exists>j x. find_scratch j t = Some x \<and> sc_slot x = fst c \<and> sc_entry x = snd c)"
  by (cases c) (auto simp: open_entries_def)

text \<open>Changing an open recording but not its entry, and closing it.\<close>

lemma scratch_step:
  assumes ok: "ring_ok t" and r: "find_scratch i t = Some r"
    and r': "sc_active r'" "sc_id r' = i" "sc_slot r' = sc_slot r" "sc_entry r' = sc_entry r" "scratch_even r'"
  shows "ring_ok (put_scratch i r' t)" and "after E t (put_scratch i r' t)"
proof -
  let ?t = "put_scratch i r' t"
  have sh: "shape_ok t" and st: "store_ok t" using ok by (simp_all add: ring_ok_def)
  have find: "find_scratch j ?t = (if j = i then Some r' else find_scratch j t)" for j by (simp add: r'(1))
  have key: "(\<exists>x. find_scratch j ?t = Some x \<and> sc_slot x = u \<and> sc_entry x = e) \<longleftrightarrow>
      (\<exists>x. find_scratch j t = Some x \<and> sc_slot x = u \<and> sc_entry x = e)" for j u e
    using r r'(1,3,4) by auto
  have "c \<in> open_entries ?t \<longleftrightarrow> c \<in> open_entries t" for c
    by (simp only: open_entries_iff key)
  then have cl: "closed_entry ?t c = closed_entry t c" for c by (simp add: closed_entry_def)
  have op: "openers u ?t = openers u t" for u using r r'(1,3) by (auto simp: openers_def)
  have shp: "node_shape u ?t = node_shape u t" for u by (simp add: node_shape_def cong: option.case_cong)
  have scr: "scratch_shape j x ?t = scratch_shape j x t" for j x by (simp add: scratch_shape_def)
  have mine: "scratch_shape i r' t" using shape_okD(5)[OF sh r] r' by (simp add: scratch_shape_def)
  have "shape_ok ?t"
    unfolding shape_ok_def op shp scr
  proof (intro conjI allI impI)
    show "scratch_shape j x t" if "find_scratch j ?t = Some x" for j x
      using that mine shape_okD(5)[OF sh] r'(1) by (auto split: if_splits)
    show "(sc_slot x, sc_entry x) \<noteq> (sc_slot y, sc_entry y)"
      if "find_scratch j ?t = Some x" "find_scratch k ?t = Some y" "j \<noteq> k" for j k x y
      using that shape_okD(6)[OF sh, of j _ k] r r'(1,3,4) by (fastforce split: if_splits)
  qed (use shape_okD[OF sh] in auto)
  note G = slots_step[OF ok this _ _ _ _ _ _ _ _ _ cl[THEN iffD2]]
  have "ring_ok ?t \<and> after E t ?t" by (intro conjI G) (simp_all add: store_okD(8)[OF st])
  then show "ring_ok ?t" "after E t ?t" by blast+
qed

lemma close_step:
  assumes ok: "ring_ok t" and r: "find_scratch i t = Some r" and s: "s = sc_slot r" and r': "\<not> sc_active r'"
  defines "n \<equiv> node_of s t"
  defines "t' \<equiv> put_scratch i r' (put_node s (n\<lparr>nd_open := nd_open n - 1\<rparr>) t)"
  shows "ring_ok t'" and "after E t t'" and "resident s t'" and "find_scratch i t' = None"
proof -
  let ?n = "n\<lparr>nd_open := nd_open n - 1\<rparr>"
  have sh: "shape_ok t" and st: "store_ok t" using ok by (simp_all add: ring_ok_def)
  note D = shape_okD[OF sh]
  have node: "node_of u t' = (if node_index u t = node_index s t then ?n else node_of u t)" for u
    using node_of_put[OF D(1), of u s ?n] by (simp add: t'_def)
  have fr: "nd_slot (node_of u t') = nd_slot (node_of u t)" "nd_count (node_of u t') = nd_count (node_of u t)"
    "nd_locations (node_of u t') = nd_locations (node_of u t)" for u
    using same_node[of u t s] by (simp_all add: node n_def)
  have ix: "node_index u t' = node_index u t" for u by (simp add: t'_def)
  have find: "find_scratch j t' = (if j = i then None else find_scratch j t)" for j by (simp add: t'_def r')
  then show "find_scratch i t' = None" by simp
  have res: "resident u t' = resident u t" for u by (simp add: resident_def fr)
  have mine: "resident s t" using D(5)[OF r] s by (simp add: scratch_shape_def)
  then show "resident s t'" by (simp add: res)
  have fields: "tr_head t' = tr_head t" "tr_tail t' = tr_tail t" "length (tr_ring t') = length (tr_ring t)"
    by (simp_all add: t'_def)
  have "i \<in> openers s t" using r s by (auto simp: openers_def)
  then have c1: "card (openers s t - {i}) + 1 = card (openers s t)"
    by (metis card_Suc_Diff1 openers_finite Suc_eq_plus1)
  then have pos: "unat (nd_open n) \<ge> 1" using D(7)[of s] by (simp add: n_def)
  then have "nd_open n \<noteq> 0" by auto
  then have dn: "unat (nd_open n - 1) = unat (nd_open n) - 1" by (simp add: unat_minus_one)
  have op: "card (openers u t') \<le> unat (nd_open (node_of u t'))" for u
  proof (cases "u = s")
    case True
    have "openers s t' = openers s t - {i}" by (auto simp: openers_def find split: if_splits)
    then show ?thesis using True c1 D(7)[of s] dn by (simp add: node n_def)
  next
    case False
    have sub: "openers u t' \<subseteq> openers u t" by (auto simp: openers_def find split: if_splits)
    show ?thesis
    proof (cases "node_index u t = node_index s t")
      case True
      have "\<not> resident u t" using mine False same_node[OF True] by (auto simp: resident_def)
      then have "openers u t = {}" using D(5) by (auto simp: openers_def scratch_shape_def)
      then show ?thesis using sub by simp
    next
      case ne: False
      have "card (openers u t') \<le> card (openers u t)" by (rule card_mono[OF openers_finite sub])
      then show ?thesis using D(7)[of u] ne by (simp add: node)
    qed
  qed
  have shp: "node_shape u t'" for u
    using D(4)[of u] D(4)[of s] dn by (auto simp: node_shape_def fr fields ix node n_def split: option.splits)
  have scr: "scratch_shape j x t'" if "find_scratch j t' = Some x" for j x
    using that D(5)[of j x] by (auto simp: find scratch_shape_def res fr split: if_splits)
  have dist: "(sc_slot x, sc_entry x) \<noteq> (sc_slot y, sc_entry y)"
    if "find_scratch j t' = Some x" "find_scratch k t' = Some y" "j \<noteq> k" for j k x y
    using that D(6)[of j x k y] by (auto simp: find split: if_splits)
  have sh': "shape_ok t'"
    unfolding shape_ok_def fields res
  proof (intro conjI allI impI)
    show "tr_ring t' \<noteq> []" using D(1) fields(3) by auto
  qed (use D(2,3) shp scr dist op in auto)
  have cl: "closed_entry t' c" if "closed_entry t c" for c
    using that by (auto simp: closed_entry_def res fr open_entries_def find split: if_splits)
  note F = put_node_frame[OF D(1) st, of ?n s]
  note G = slots_step[OF ok sh' _ _ _ _ _ _ _ _ _ cl]
  have "ring_ok t' \<and> after E t t'" for E
    by (intro conjI G; use F chain_at_put_node[of ?n s t] res in \<open>simp add: t'_def n_def\<close>)
  then show "ring_ok t'" "after E t t'" by blast+
qed

lemma advance_step:
  assumes ok: "ring_ok t" and res: "resident (tr_head t) t"
  shows "ring_ok (advance t)" and "after E t (advance t)"
proof -
  have sh: "shape_ok t" and st: "store_ok t" using ok by (simp_all add: ring_ok_def)
  note D = shape_okD[OF sh]
  have node: "node_of u (advance t) = node_of u t" "node_index u (advance t) = node_index u t" for u
    by (simp_all add: advance_def node_of_def node_index_def)
  have find: "find_scratch j (advance t) = find_scratch j t" for j by (simp add: advance_def find_scratch_def)
  have r: "resident u (advance t) = resident u t" for u by (simp add: resident_def node)
  have f: "tr_head (advance t) = tr_head t + 1" "tr_tail (advance t) = tr_tail t" "tr_ring (advance t) = tr_ring t"
    by (simp_all add: advance_def)
  have shp: "node_shape u (advance t)" for u
    using D(4)[of u] by (auto simp: node_shape_def node f split: option.splits)
  have "resident u t" if "tr_tail t \<le> u" "u < tr_head t + 1" for u
    using D(3)[OF that(1)] that(2) res by (cases "u = tr_head t") auto
  then have "shape_ok (advance t)"
    using D shp unfolding shape_ok_def f r by (auto simp: find scratch_shape_def r node openers_def)
  moreover have "chain_at q (advance t) = chain_at q t" "loc_at k (advance t) = loc_at k t" for q k
    by (rule chain_at_same; simp add: advance_def) (simp add: loc_at_def f)
  moreover have "closed_entry (advance t) c = closed_entry t c" for c
    by (simp add: closed_entry_def r node open_entries_def find)
  ultimately have "ring_ok (advance t) \<and> after E t (advance t)"
    using slots_step[OF ok, of "advance t"] r store_okD(8)[OF st] by (simp add: advance_def)
  then show "ring_ok (advance t)" "after E t (advance t)" by blast+
qed


section \<open>Releasing slots\<close>

lemma clear_chains_as_one:
  "clear_chains cs m = fst (chain_clear (m, alloc_chain\<lparr>ch_bufs := concat (map ch_bufs cs)\<rparr>))"
  by (induction cs arbitrary: m) (simp_all add: clear_chains_def chain_clear_def)

lemma distinct_chains:
  assumes "distinct (map fst xs)" and "\<And>i c. (i, c) \<in> set xs \<Longrightarrow> distinct (ch_bufs c)"
    and "\<And>i c j d. (i, c) \<in> set xs \<Longrightarrow> (j, d) \<in> set xs \<Longrightarrow> i \<noteq> j \<Longrightarrow> set (ch_bufs c) \<inter> set (ch_bufs d) = {}"
  shows "distinct (concat (map (ch_bufs \<circ> snd) xs))"
  using assms
proof (induction xs)
  case (Cons x xs)
  obtain i c where x: "x = (i, c)" by (cases x)
  have "distinct (concat (map (ch_bufs \<circ> snd) xs))"
    by (rule Cons.IH) (use Cons.prems in \<open>auto, blast+\<close>)
  moreover have "set (ch_bufs c) \<inter> set (ch_bufs d) = {}" if "(j, d) \<in> set xs" for j d
  proof -
    have "j \<noteq> i" using Cons.prems(1) that by (force simp: x)
    then show ?thesis using Cons.prems(3)[of i c j d] that by (simp add: x)
  qed
  then have "set (ch_bufs c) \<inter> set (concat (map (ch_bufs \<circ> snd) xs)) = {}" by fastforce
  moreover have "distinct (ch_bufs c)" using Cons.prems(2)[of i c] by (simp add: x)
  ultimately show ?case by (simp add: x comp_def)
qed simp

text \<open>The buffers of the chains of a node are pairwise different, and in use.\<close>

definition node_bufs :: "trace_node \<Rightarrow> nat list" where
  "node_bufs n = concat (map ch_bufs (nd_code n # map snd (nd_data n)))"

lemma node_bufs:
  fixes s :: nat
  assumes st: "store_ok t" and ne: "tr_ring t \<noteq> []"
  defines "n \<equiv> node_of s t" and "x \<equiv> node_index s t"
  shows "distinct (node_bufs n)" and "set (node_bufs n) = (\<Union>q\<in>{q. key_node q = Some x}. set (bufs_at q t))"
    and "set (node_bufs n) \<subseteq> live_slots (tr_mgr t)"
proof -
  note S = store_okD[OF st]
  have less: "x < length (tr_ring t)" unfolding x_def by (rule node_index_less[OF ne])
  have code: "bufs_at (K_Code x) t = ch_bufs (nd_code n)" using less by (simp add: bufs_at_def n_def x_def node_of_def)
  have keys: "distinct (map fst (nd_data n))" unfolding n_def by (rule S(8)[OF node_in_ring[OF ne]])
  have data: "bufs_at (K_Data x i) t = ch_bufs c" if "(i, c) \<in> set (nd_data n)" for i c
    using less map_of_is_SomeI[OF keys that] by (simp add: bufs_at_def data_chain_of_def n_def x_def node_of_def)
  have other: "bufs_at (K_Data x i) t = []" if "map_of (nd_data n) i = None" for i
    using less that by (simp add: bufs_at_def data_chain_of_def n_def x_def node_of_def alloc_chain_def)
  have "distinct (concat (map (ch_bufs \<circ> snd) (nd_data n)))"
  proof (rule distinct_chains[OF keys])
    show "distinct (ch_bufs c)" if "(i, c) \<in> set (nd_data n)" for i c
      using S(3)[of "K_Data x i"] data[OF that] by simp
    show "set (ch_bufs c) \<inter> set (ch_bufs d) = {}"
      if "(i, c) \<in> set (nd_data n)" "(j, d) \<in> set (nd_data n)" "i \<noteq> j" for i c j d
      using S(4)[of "K_Data x i" "K_Data x j"] data[OF that(1)] data[OF that(2)] that(3) by simp
  qed
  moreover have apart: "set (ch_bufs (nd_code n)) \<inter> set (ch_bufs c) = {}" if "(i, c) \<in> set (nd_data n)" for i c
    using S(4)[of "K_Code x" "K_Data x i"] code data[OF that] by simp
  moreover from apart have "set (ch_bufs (nd_code n)) \<inter> set (concat (map (ch_bufs \<circ> snd) (nd_data n))) = {}" by fastforce
  ultimately show "distinct (node_bufs n)"
    using S(3)[of "K_Code x"] code by (simp add: node_bufs_def comp_def)
  have q: "{q. key_node q = Some x} = insert (K_Code x) (range (K_Data x))"
  proof (rule set_eqI)
    fix q show "q \<in> {q. key_node q = Some x} \<longleftrightarrow> q \<in> insert (K_Code x) (range (K_Data x))" by (cases q) auto
  qed
  have d: "(\<Union>i. set (bufs_at (K_Data x i) t)) = (\<Union>c\<in>snd ` set (nd_data n). set (ch_bufs c))"
  proof (intro equalityI subsetI)
    fix k assume "k \<in> (\<Union>i. set (bufs_at (K_Data x i) t))"
    then obtain i where i: "k \<in> set (bufs_at (K_Data x i) t)" by auto
    then obtain c where c: "map_of (nd_data n) i = Some c" using other[of i] by (cases "map_of (nd_data n) i") auto
    then have m: "(i, c) \<in> set (nd_data n)" by (rule map_of_SomeD)
    then have "c \<in> snd ` set (nd_data n)" by (rule image_eqI[rotated]) simp
    then show "k \<in> (\<Union>c\<in>snd ` set (nd_data n). set (ch_bufs c))" using i data[OF m] by auto
  next
    fix k assume "k \<in> (\<Union>c\<in>snd ` set (nd_data n). set (ch_bufs c))"
    then obtain i c where m: "(i, c) \<in> set (nd_data n)" "k \<in> set (ch_bufs c)" by auto
    then show "k \<in> (\<Union>i. set (bufs_at (K_Data x i) t))" using m(2) data[OF m(1)] by (intro UN_I[of i]) simp_all
  qed
  show eq: "set (node_bufs n) = (\<Union>q\<in>{q. key_node q = Some x}. set (bufs_at q t))"
    unfolding q by (simp add: node_bufs_def code d)
  show "set (node_bufs n) \<subseteq> live_slots (tr_mgr t)" unfolding eq using S(2) by blast
qed

text \<open>What is left in the manager when a node has given its buffers back.\<close>

lemma node_freed:
  assumes st: "store_ok t" and ne: "tr_ring t \<noteq> []" and k: "nd_locations (node_of s t) = Some k"
    and kl: "loc_at (node_index s t) t = Some k"
  defines "n \<equiv> node_of s t"
  defines "m1 \<equiv> clear_chains (nd_code n # map snd (nd_data n)) (tr_mgr t)"
  defines "m2 \<equiv> free_buffer (handle_of m1 k) m1"
  shows "manager_ok m2" and "live_slots m2 = live_slots (tr_mgr t) - insert k (set (node_bufs n))"
    and "j \<in> live_slots m2 \<Longrightarrow> slab_of m2 j = slab_of (tr_mgr t) j \<and> handle_of m2 j = handle_of (tr_mgr t) j"
proof -
  note S = store_okD[OF st]
  note B = node_bufs[OF st ne, of s, folded n_def]
  let ?c = "alloc_chain\<lparr>ch_bufs := node_bufs n\<rparr>"
  have c: "chain_ok (tr_mgr t, ?c)" "distinct (ch_bufs ?c)" using S(1) B(1,3) by (simp_all add: chain_ok_def)
  have m1: "m1 = fst (chain_clear (tr_mgr t, ?c))" unfolding m1_def clear_chains_as_one node_bufs_def ..
  note C = chain_clear_effect[OF c, folded m1]
  have live1: "live_slots m1 = live_slots (tr_mgr t) - set (node_bufs n)" using C(3) by simp
  have "k \<notin> set (node_bufs n)" unfolding B(2) using S(6)[OF kl] by auto
  then have kin: "k \<in> live_slots m1" using S(5)[OF kl] live1 by simp
  note F = free_effect[OF C(1) handle_of_live(2)[OF C(1) kin], folded m2_def]
  show "manager_ok m2" by (rule F(1))
  show live2: "live_slots m2 = live_slots (tr_mgr t) - insert k (set (node_bufs n))" using F(3) live1 by auto
  assume j: "j \<in> live_slots m2"
  then have j1: "j \<in> live_slots m1" "j \<noteq> k" "j \<in> live_slots (tr_mgr t)" "j \<notin> set (node_bufs n)"
    using F(3) live2 by auto
  have "0 < j" "j < length (mg_slots m1)" using manager_okD(2)[OF C(1)] j1(1) by auto
  then have "st_storage (mg_slots m2 ! j) = st_storage (mg_slots m1 ! j)" using F(4) j1(2) by (simp add: others_kept_def)
  moreover have "st_storage (mg_slots m1 ! j) = st_storage (mg_slots (tr_mgr t) ! j)" using C(4)[of j] j1(3,4) by simp
  ultimately show "slab_of m2 j = slab_of (tr_mgr t) j \<and> handle_of m2 j = handle_of (tr_mgr t) j"
    by (simp add: slab_of_def handle_of_def)
qed


lemma release_step:
  assumes ok: "ring_ok t" and lt: "tr_tail t < tr_head t" and op: "nd_open (node_of (tr_tail t) t) = 0"
  defines "t' \<equiv> (node_reset (tr_tail t) t)\<lparr>tr_tail := tr_tail t + 1\<rparr>"
  shows "ring_ok t'" and "after E t t'" and "tr_head t' = tr_head t" and "tr_recs t' = tr_recs t"
proof -
  define s where "s = tr_tail t"
  define n where "n = node_of s t"
  have sh: "shape_ok t" and st: "store_ok t" using ok by (simp_all add: ring_ok_def)
  note D = shape_okD[OF sh] and S = store_okD[OF st] and ne = shape_okD(1)[OF sh]
  have rs: "resident s t" using D(3)[of s] lt by (simp add: s_def)
  obtain k where k: "nd_locations n = Some k" "loc_at (node_index s t) t = Some k"
    unfolding n_def using shape_residentD[OF sh rs] by metis
  define m1 where "m1 = clear_chains (nd_code n # map snd (nd_data n)) (tr_mgr t)"
  define m2 where "m2 = free_buffer (handle_of m1 k) m1"
  note F = node_freed[OF st ne k(1)[unfolded n_def] k(2), folded n_def, folded m1_def, folded m2_def]
  define n' where "n' = n\<lparr>nd_code := alloc_chain, nd_data := map (\<lambda>(i, _). (i, alloc_chain)) (nd_data n),
      nd_locations := None, nd_count := 0, nd_slot := None\<rparr>"
  have t': "t' = (put_node s n' (t\<lparr>tr_mgr := m2\<rparr>))\<lparr>tr_tail := s + 1\<rparr>"
    by (simp add: t'_def node_reset_def Let_def s_def n_def k(1)[unfolded n_def s_def] m2_def m1_def n'_def)
  have nm: "node_of u (t\<lparr>tr_mgr := m2\<rparr>) = node_of u t" "node_index u (t\<lparr>tr_mgr := m2\<rparr>) = node_index u t" for u
    by (simp_all add: node_of_def node_index_def)
  have len: "length (tr_ring t') = length (tr_ring t)" by (simp add: t')
  then have ix: "node_index u t' = node_index u t" for u by (rule node_index_length)
  have node: "node_of u t' = (if node_index u t = node_index s t then n' else node_of u t)" for u
    using node_index_less[OF ne, of s] by (auto simp: t' node_of_def node_index_def put_node_def nth_list_update)
  have fields: "tr_mgr t' = m2" "tr_head t' = tr_head t" "tr_tail t' = s + 1" "tr_tombstone t' = tr_tombstone t"
    "tr_map t' = tr_map t" by (simp_all add: t')
  show "tr_head t' = tr_head t" "tr_recs t' = tr_recs t" by (simp_all add: t')
  have find: "find_scratch i t' = find_scratch i t" for i by (simp add: find_scratch_def t')
  have loc: "loc_at j t' = (if j = node_index s t then None else loc_at j t)" for j
    using node_index_less[OF ne, of s] by (auto simp: t' loc_at_def nm put_node_def nth_list_update n'_def)
  have map_alloc: "map_of (map (\<lambda>(i, _). (i, alloc_chain)) xs) i = map_option (\<lambda>_. alloc_chain) (map_of xs i)"
    for xs :: "(u8 \<times> chain) list" and i by (induction xs) auto
  have b: "bufs_at q t' = (if key_node q = Some (node_index s t) then [] else bufs_at q t)" for q
  proof -
    have "chain_at q t' = (if key_node q = Some (node_index s t) then alloc_chain else chain_at q t)"
      using node_index_less[OF ne, of s]
      by (cases q) (auto simp: t' put_node_def nm nth_list_update n'_def data_chain_of_def map_alloc split: option.split)
    then show ?thesis by (simp add: bufs_at_def alloc_chain_def)
  qed
  have kept: "x \<in> live_slots m2 \<and> handle_of m2 x = handle_of (tr_mgr t) x \<and> slab_of m2 x = slab_of (tr_mgr t) x"
    if "x \<in> set (bufs_at q t)" "key_node q \<noteq> Some (node_index s t)" for x q
  proof -
    have "x \<notin> set (node_bufs n)"
    proof
      assume "x \<in> set (node_bufs n)"
      then obtain p where p: "key_node p = Some (node_index s t)" "x \<in> set (bufs_at p t)"
        unfolding n_def node_bufs(2)[OF st ne] by auto
      then have "p \<noteq> q" using that(2) by auto
      then show False using S(4) p(2) that(1) by blast
    qed
    moreover have "x \<noteq> k" using S(6)[OF k(2)] that(1) by blast
    ultimately have "x \<in> live_slots m2" using F(2) S(2)[of q] that(1) by blast
    then show ?thesis using F(3) by blast
  qed
  have lkept: "x \<in> live_slots m2" if "loc_at j t = Some x" "j \<noteq> node_index s t" for j x
  proof -
    have "x \<noteq> k" using S(7)[OF that(1)] k(2) that(2) by blast
    moreover have "x \<notin> set (node_bufs n)" unfolding n_def node_bufs(2)[OF st ne] using S(6)[OF that(1)] by auto
    ultimately show ?thesis using S(5)[OF that(1)] F(2) by blast
  qed
  have store: "store_ok t'"
  proof (rule store_shrink(1)[OF st])
    show "loc_at j t' = Some x \<Longrightarrow> loc_at j' t' = Some x \<Longrightarrow> j = j'" for j j' x
      using S(7) by (auto simp: loc split: if_splits)
    show "x \<in> live_slots (tr_mgr t') \<and> (loc_at j t = Some x \<or> x \<notin> live_slots (tr_mgr t))" if "loc_at j t' = Some x" for j x
      using that lkept[of j x] by (auto simp: loc fields split: if_splits)
    show "distinct (map fst (nd_data x))" if "x \<in> set (tr_ring t')" for x
    proof -
      have "x \<in> insert n' (set (tr_ring t))"
        using that set_update_subset_insert by (fastforce simp: t' put_node_def)
      moreover have "map fst (nd_data n') = map fst (nd_data n)" by (simp add: n'_def split: prod.split)
      ultimately show ?thesis using S(8) node_in_ring[OF ne, of s] by (auto simp: n_def)
    qed
    show "y \<in> live_slots (tr_mgr t') \<and> handle_of (tr_mgr t') y = handle_of (tr_mgr t) y
        \<and> slab_of (tr_mgr t') y = slab_of (tr_mgr t) y" if "y \<in> set (bufs_at q t')" for q y
      using that kept[of y q] by (auto simp: b fields split: if_splits)
  qed (use F(1) in \<open>auto simp: b fields\<close>)
  have here: "u = s" if "resident u t" "node_index u t = node_index s t" for u
    using that rs same_node[OF that(2)] by (simp add: resident_def)
  have res: "resident u t' \<longleftrightarrow> resident u t \<and> u \<noteq> s" for u
    using here[of u] by (cases "node_index u t = node_index s t") (auto simp: resident_def node n'_def)
  have away: "node_of u t' = node_of u t" if "resident u t" "u \<noteq> s" for u
    using here[OF that(1)] that(2) by (auto simp: node)
  have opn: "openers s t = {}"
    using D(7)[of s] op by (simp add: s_def)
  then have ns: "sc_slot r \<noteq> s" if "find_scratch i t = Some r" for i r using that by (auto simp: openers_def)
  have op': "openers u t' = openers u t" for u by (simp add: openers_def find)
  have ocard: "card (openers u t) \<le> unat (nd_open (node_of u t'))" for u
  proof (cases "node_index u t = node_index s t")
    case True
    have "openers u t = {}"
      using here[OF _ True] ns D(5) by (fastforce simp: openers_def scratch_shape_def)
    then show ?thesis by simp
  next
    case False
    then show ?thesis using D(7)[of u] by (simp add: node)
  qed
  have shp: "node_shape u t'" for u
  proof (cases "node_index u t = node_index s t")
    case True
    then show ?thesis using op by (simp add: node_shape_def node n'_def n_def s_def)
  next
    case False
    then have "x \<noteq> s" if "nd_slot (node_of u t) = Some x" for x
      using that D(4)[of u] by (auto simp: node_shape_def)
    moreover have "s \<le> x" if "nd_slot (node_of u t) = Some x" for x
      using that D(4)[of u] by (simp add: node_shape_def s_def)
    ultimately have "s + 1 \<le> x" if "nd_slot (node_of u t) = Some x" for x
      using that by (metis Suc_eq_plus1 le_neq_implies_less Suc_leI)
    then show ?thesis using False D(4)[of u] by (auto simp: node_shape_def node ix fields split: option.splits)
  qed
  have "shape_ok t'"
    unfolding shape_ok_def fields op'
  proof (intro conjI allI impI)
    show "tr_ring t' \<noteq> []" using ne len by auto
    show "s + 1 \<le> tr_head t" using lt by (simp add: s_def)
    show "resident u t'" if "s + 1 \<le> u" "u < tr_head t" for u using D(3)[of u] that by (simp add: res s_def)
    show "scratch_shape i r t'" if "find_scratch i t' = Some r" for i r
      using D(5)[of i r] ns[of i r] away[of "sc_slot r"] that by (simp add: find scratch_shape_def res)
  qed (use D(6) shp ocard in \<open>auto simp: find\<close>)
  with store show "ring_ok t'" by (simp add: ring_ok_def)
  have keyb: "keeps_key q t t'" if "key_node q \<noteq> Some (node_index s t)" for q
    unfolding keeps_key_def keeps_chain_def b using that kept by (auto simp: fields in_use_def)
  have rd: "cursor_deref t' (u, e) = cursor_deref t (u, e)" if r: "resident u t" "u \<noteq> s" for u e
  proof -
    obtain j where j: "nd_locations (node_of u t) = Some j" "loc_at (node_index u t) t = Some j"
      using shape_residentD[OF sh r(1)] by metis
    have "node_index u t \<noteq> node_index s t" using here[OF r(1)] r(2) by blast
    then have "slab_of m2 j = slab_of (tr_mgr t) j" using F(3)[OF lkept[OF j(2)]] by blast
    then show ?thesis
      using r away[OF r] j(1) by (simp add: cursor_deref_def resident_node_def read_location_def fields)
  qed
  have cl: "closed_entry t' c" if "closed_entry t c" "fst c \<noteq> s" for c
    using that away[of "fst c"] by (simp add: closed_entry_def res open_entries_iff find)
  have idx: "node_index u t \<noteq> node_index s t" if "resident u t" "u \<noteq> s" for u using here[OF that(1)] that(2) by blast
  show "after E t t'"
    unfolding after_def
  proof (intro conjI allI impI)
    fix u assume u: "resident u t" "tr_tail t' \<le> u"
    then have us: "u \<noteq> s" by (simp add: fields)
    show "resident u t'" using u us by (simp add: res)
    show "keeps_key q t t'" if "key_node q = Some (node_index u t)" for q
      by (rule keyb) (use that idx[OF u(1) us] in simp)
    fix e assume "closed_entry t (u, e)"
    then show "closed_entry t' (u, e)" "cursor_deref t' (u, e) = cursor_deref t (u, e)"
      using cl[of "(u, e)"] us rd[OF u(1) us] by simp_all
  qed (use len keyb[of K_Stencils] in \<open>simp_all add: fields s_def\<close>)
qed

lemma release_slots_steps:
  assumes "ring_ok t" and "limit \<le> tr_head t"
  shows "ring_ok (release_slots limit t) \<and> after E t (release_slots limit t)
    \<and> tr_head (release_slots limit t) = tr_head t \<and> tr_recs (release_slots limit t) = tr_recs t"
  using assms
proof (induction limit t rule: release_slots.induct)
  case (1 limit t)
  show ?case
  proof (cases "tr_tail t < limit \<and> nd_open (node_of (tr_tail t) t) = 0")
    case True
    let ?t = "(node_reset (tr_tail t) t)\<lparr>tr_tail := tr_tail t + 1\<rparr>"
    have lt: "tr_tail t < tr_head t" using True "1.prems"(2) by simp
    note R = release_step[OF "1.prems"(1) lt conjunct2[OF True]]
    have "limit \<le> tr_head ?t" using R(3) "1.prems"(2) by simp
    from "1.IH"[OF True R(1) this] show ?thesis
      using True R(2)[of E] R(3,4) after_trans by (subst (1 2 3 4) release_slots.simps) auto
  next
    case False
    then show ?thesis using "1.prems" by (subst (1 2 3 4) release_slots.simps) auto
  qed
qed

end
