(* ===== verification/Trace_History.thy ===== *)
theory Trace_History
  imports Trace_Steps
begin

text \<open>
  What a trace buffer keeps.  Bodies resolved or promoted, a program flushed into its slot, every operation of the
  interface, and the state after any sequence of them: a committed program stays under its entry, with its bytes in
  place, until its slot is released, and releasing makes room again.
\<close>

section \<open>Code in place\<close>

lemma length_codes [simp]: "length e_ret = 2" "length e_halt0 = 2" "length (call_of loc) = 6"
  by (simp_all add: e_ret_def e_halt0_def call_of_def e_call2_def encode_op_def word_bytes_le_eq)

lemma on_chain_andthen_pure:
  assumes "\<And>a s. snd (f a s) = s" and "on_chain q op t = (Inr a, t')" and "key_in q t"
  shows "on_chain q (andthen op f) t = (fst (f a (tr_mgr t', chain_at q t')), t')"
proof -
  obtain r m c where o: "op (tr_mgr t, chain_at q t) = (r, (m, c))" by (metis prod.exhaust)
  then have a: "r = Inr a" "t' = put_chain q c (t\<lparr>tr_mgr := m\<rparr>)" using assms(2) by (simp_all add: on_chain_def zoom_def)
  have c: "tr_mgr t' = m" "chain_at q t' = c" using chain_at_put[of q "t\<lparr>tr_mgr := m\<rparr>"] assms(3) by (simp_all add: a(2))
  show ?thesis
    using o a assms(1)[of a "(m, c)"] unfolding c
    by (auto simp: on_chain_def zoom_def andthen_def split: prod.split)
qed

lemma append_in_place:
  assumes ok: "ring_ok t" and q: "key_in q t" "\<not> is_data q" and ne: "bufs_at q t \<noteq> []" and k: "k = last (bufs_at q t)"
    and ev: "even (length p)" and fit: "length p \<le> remaining_capacity (slab_of (tr_mgr t) k)"
  obtains t' where "on_chain q (append_placed p 0 0 0) t =
      (Inr (\<lparr>loc_id = handle_of (tr_mgr t) k, loc_offset = word_of_nat (sb_used (slab_of (tr_mgr t) k))\<rparr>, k,
        sb_used (slab_of (tr_mgr t) k)), t')"
    "on_chain q (chain_append p 0 0 0) t =
      (Inr \<lparr>loc_id = handle_of (tr_mgr t) k, loc_offset = word_of_nat (sb_used (slab_of (tr_mgr t) k))\<rparr>, t')"
    "quiet t t'" "bufs_at q t' = bufs_at q t" "in_use (tr_mgr t') k = in_use (tr_mgr t) k @ p"
    "sb_used (slab_of (tr_mgr t') k) = sb_used (slab_of (tr_mgr t) k) + length p"
    "handle_of (tr_mgr t') k = handle_of (tr_mgr t) k" "tr_map t' = tr_map t"
    "remaining_capacity (slab_of (tr_mgr t') k) = remaining_capacity (slab_of (tr_mgr t) k) - length p"
proof -
  let ?c = "chain_at q t" and ?m = "tr_mgr t"
  have st: "store_ok t" using ok by (simp add: ring_ok_def)
  note S = store_okD[OF st]
  from append_on_tail[of ?m ?c k p 0, OF store_chain_ok[OF st] ne[unfolded bufs_at_def] k[unfolded bufs_at_def] fit]
  obtain m' where a: "append_placed p 0 0 0 (?m, ?c) =
      (Inr (\<lparr>loc_id = handle_of ?m k, loc_offset = word_of_nat (sb_used (slab_of ?m k))\<rparr>, k, sb_used (slab_of ?m k)), (m', ?c))"
    "grown (?m, ?c) (m', ?c)" "in_use m' k = in_use ?m k @ p"
    "sb_used (slab_of m' k) = sb_used (slab_of ?m k) + length p" "slab_capacity (slab_of m' k) = slab_capacity (slab_of ?m k)"
    "\<And>j. j \<noteq> k \<Longrightarrow> slab_of m' j = slab_of ?m j" "\<And>j. handle_of m' j = handle_of ?m j" by metis
  define t' where "t' = put_chain q ?c (t\<lparr>tr_mgr := m'\<rparr>)"
  have m: "tr_mgr t' = m'" "tr_map t' = tr_map t" by (simp_all add: t'_def)
  have b: "bufs_at q t' = bufs_at q t"
    using chain_at_put[of q "t\<lparr>tr_mgr := m'\<rparr>" q ?c] q(1) by (simp add: t'_def bufs_at_def)
  have e: "evens ?m (bufs_at q t)" using S(9,10) q(2) by (cases q) auto
  have "even (sb_used (slab_of m' j))" if "j \<in> set (ch_bufs ?c)" for j
    using e that ev a(4) a(6)[of j] by (cases "j = k") (auto simp: evens_def bufs_at_def)
  then have "evens m' (ch_bufs ?c)" by (simp add: evens_def)
  then have qu: "quiet t t'" unfolding t'_def by (intro chain_quiet[OF ok q(1) a(2)])
  have run: "on_chain q (append_placed p 0 0 0) t =
      (Inr (\<lparr>loc_id = handle_of ?m k, loc_offset = word_of_nat (sb_used (slab_of ?m k))\<rparr>, k, sb_used (slab_of ?m k)), t')"
    by (simp add: on_chain_def zoom_def a(1) t'_def)
  have run': "on_chain q (chain_append p 0 0 0) t =
      (Inr \<lparr>loc_id = handle_of ?m k, loc_offset = word_of_nat (sb_used (slab_of ?m k))\<rparr>, t')"
    unfolding chain_append_placed by (subst on_chain_andthen_pure[OF _ run q(1)]) (simp_all split: prod.split)
  show ?thesis
    by (rule that[OF run run' qu b]) (use a m in \<open>simp_all add: remaining_capacity_def\<close>)
qed

text \<open>Room at the end of a chain.\<close>

lemma ensure_in_place:
  assumes ok: "ring_ok t" and q: "key_in q t"
  obtains (full) t' where "on_chain q (ensure_capacity n) t = (Inl out_of_buffers, t')" "quiet t t'" "tr_map t' = tr_map t"
  | (room) t' where "on_chain q (ensure_capacity n) t = (Inr (), t')" "quiet t t'" "tr_map t' = tr_map t" "bufs_at q t' \<noteq> []"
      "n \<le> BUFFER_SIZE \<Longrightarrow> n \<le> remaining_capacity (slab_of (tr_mgr t') (last (bufs_at q t')))"
      "n > BUFFER_SIZE \<Longrightarrow> remaining_capacity (slab_of (tr_mgr t') (last (bufs_at q t'))) = BUFFER_SIZE"
proof -
  let ?c = "chain_at q t" and ?m = "tr_mgr t"
  have st: "store_ok t" using ok by (simp add: ring_ok_def)
  define t' where "t' = final (on_chain q (ensure_capacity n)) t"
  have qu: "quiet t t'" unfolding t'_def by (rule on_chain_quiet[OF ok q tame_ensure]) (rule fills_ensure)
  have map: "tr_map t' = tr_map t" unfolding t'_def on_chain_final by (simp split: prod.split)
  show ?thesis
  proof (cases rule: ensure_capacity_cases[OF store_chain_ok[OF st, of q], of n])
    case (1 m c)
    then show ?thesis using full[of t'] qu map by (simp add: t'_def final_def on_chain_def zoom_def)
  next
    case (2 m c)
    have run: "on_chain q (ensure_capacity n) t = (Inr (), t')" "tr_mgr t' = m"
      using 2(1) by (simp_all add: t'_def final_def on_chain_def zoom_def)
    have "t' = put_chain q c (t\<lparr>tr_mgr := m\<rparr>)" using 2(1) by (simp add: t'_def final_def on_chain_def zoom_def)
    then have b: "bufs_at q t' = ch_bufs c" using chain_at_put[of q "t\<lparr>tr_mgr := m\<rparr>" q c] q by (simp add: bufs_at_def)
    let ?k = "last (ch_bufs c)"
    have "manager_ok m" "?k \<in> live_slots m" using grown_ok[OF 2(2)] 2(3) by (auto simp: chain_ok_def)
    then have cap: "slab_capacity (slab_of m ?k) = BUFFER_SIZE" by (rule live_slab(2))
    show ?thesis
      by (rule room[OF run(1) qu map])
        (use 2(3,4) cap in \<open>auto simp: b run(2) can_fit_def remaining_capacity_def\<close>)
  qed
qed


lemma quietD:
  assumes "quiet t t'"
  shows "ring_ok t'" "same_frames t t'" "after E t t'" "keeps_key q t t'" "node_index s t' = node_index s t"
  using assms same_framesD(6) by (auto simp: quiet_def)

lemma ring_not_empty: "ring_ok t \<Longrightarrow> tr_ring t \<noteq> []"
  using shape_okD(1) by (simp add: ring_ok_def)

lemma key_in_code: "ring_ok t \<Longrightarrow> key_in (K_Code (node_index s t)) t"
  using node_index_less[OF ring_not_empty] by simp

lemma on_code_key: "ring_ok t \<Longrightarrow> on_code s op t = on_chain (K_Code (node_index s t)) op t"
  by (rule on_code_chain[OF ring_not_empty])

lemma append_parts_in_place:
  assumes "ring_ok t" and "\<forall>p\<in>set ps. even (length p)" and "bufs_at (K_Code (node_index s t)) t \<noteq> []"
    and "k = last (bufs_at (K_Code (node_index s t)) t)" and "length (concat ps) \<le> remaining_capacity (slab_of (tr_mgr t) k)"
  shows "\<exists>t' loc. append_parts s ps t = (Inr loc, t') \<and> quiet t t' \<and> tr_map t' = tr_map t
    \<and> bufs_at (K_Code (node_index s t)) t' = bufs_at (K_Code (node_index s t)) t
    \<and> in_use (tr_mgr t') k = in_use (tr_mgr t) k @ concat ps \<and> handle_of (tr_mgr t') k = handle_of (tr_mgr t) k
    \<and> (ps \<noteq> [] \<longrightarrow> loc = \<lparr>loc_id = handle_of (tr_mgr t) k, loc_offset = word_of_nat (sb_used (slab_of (tr_mgr t) k))\<rparr>)"
  using assms
proof (induction ps arbitrary: t)
  case Nil
  then show ?case by (simp add: quiet_refl ret_def)
next
  case (Cons p ps)
  let ?q = "K_Code (node_index s t)"
  have p: "even (length p)" "length p \<le> remaining_capacity (slab_of (tr_mgr t) k)" using Cons.prems by auto
  from append_in_place[of t ?q k p, OF Cons.prems(1) key_in_code[OF Cons.prems(1)] _ Cons.prems(3,4) p]
  obtain t1 where t1: "on_chain ?q (chain_append p 0 0 0) t =
      (Inr \<lparr>loc_id = handle_of (tr_mgr t) k, loc_offset = word_of_nat (sb_used (slab_of (tr_mgr t) k))\<rparr>, t1)"
    "quiet t t1" "bufs_at ?q t1 = bufs_at ?q t" "in_use (tr_mgr t1) k = in_use (tr_mgr t) k @ p"
    "handle_of (tr_mgr t1) k = handle_of (tr_mgr t) k" "tr_map t1 = tr_map t"
    "remaining_capacity (slab_of (tr_mgr t1) k) = remaining_capacity (slab_of (tr_mgr t) k) - length p"
    by (metis is_data.simps(2))
  note Q = quietD[OF t1(2)]
  have "length (concat ps) \<le> remaining_capacity (slab_of (tr_mgr t1) k)" using Cons.prems(5) t1(7) by simp
  then obtain t2 loc where t2: "append_parts s ps t1 = (Inr loc, t2)" "quiet t1 t2" "tr_map t2 = tr_map t1"
    "bufs_at ?q t2 = bufs_at ?q t1" "in_use (tr_mgr t2) k = in_use (tr_mgr t1) k @ concat ps"
    "handle_of (tr_mgr t2) k = handle_of (tr_mgr t1) k"
    using Cons.IH[OF Q(1)] Cons.prems(2-4) t1(3) unfolding Q(5) by auto
  show ?case
    using t1 t2 quiet_trans[OF t1(2) t2(2)] by (simp add: andthen_def on_code_key[OF Cons.prems(1)] ret_def)
qed

lemma window_append: "take a (drop i xs) = ys \<Longrightarrow> take b (drop (i + a) xs) = zs \<Longrightarrow> take (a + b) (drop i xs) = ys @ zs"
  by (simp add: take_add add.commute)

lemma word_of_offset: "x < BUFFER_SIZE \<Longrightarrow> unat (word_of_nat x :: u16) = x"
  by (simp add: BUFFER_SIZE_def unat_of_nat)

lemma placed_at_tail:
  assumes "k \<in> set ks" and "in_use m k = old @ bytes" and "length old < BUFFER_SIZE" and "loc_id loc = handle_of m k"
    and "loc_offset loc = word_of_nat (length old)" and "manager_ok m" and "k \<in> live_slots m"
  shows "placed m ks loc bytes"
proof -
  have "sb_used (slab_of m k) = length old + length bytes"
    using in_use_length[OF assms(6,7)] assms(2) by simp
  then show ?thesis
    unfolding placed_def using assms by (intro bexI[of _ k]) (simp_all add: word_of_offset)
qed

text \<open>Looking up or promoting a body.\<close>

definition resolves :: "trace_ring \<Rightarrow> u8 list \<Rightarrow> (sim_error + bool \<times> location) \<times> trace_ring \<Rightarrow> bool" where
  "resolves t body = (\<lambda>(res, t'). quiet t t'
     \<and> (\<forall>loc. res = Inr (True, loc) \<longrightarrow> length body + 2 \<le> BUFFER_SIZE \<longrightarrow>
          even_location loc \<and> placed (tr_mgr t') (bufs_at K_Stencils t') loc (body @ e_ret)))"

lemma resolve_known:
  assumes ok: "ring_ok t" and e: "stencil_ok t e" and m: "stencil_matches (tr_mgr t) e body"
    and len: "length body + 2 \<le> BUFFER_SIZE"
  shows "even_location (sn_location e)" and "placed (tr_mgr t) (bufs_at K_Stencils t) (sn_location e) (body @ e_ret)"
proof -
  obtain k off n where b: "sn_body e = (k, off, n)" by (cases "sn_body e")
  note E = e[unfolded stencil_ok_def b, simplified]
  have st: "store_ok t" using ok by (simp add: ring_ok_def)
  have live: "k \<in> live_slots (tr_mgr t)" using store_okD(2)[OF st] E by blast
  have u: "sb_used (slab_of (tr_mgr t) k) \<le> length (sb_data (slab_of (tr_mgr t) k))"
    using live_slab(1)[OF store_okD(1)[OF st] live] by (simp add: slab_ok_def slab_capacity_def)
  have w: "take n (drop off (sb_data (slab_of (tr_mgr t) k))) = body"
    using m by (simp add: stencil_matches_def stencil_bytes_def b)
  then have n: "n = length body" using E u by auto
  have "take n (drop off (in_use (tr_mgr t) k)) = body"
    using w E by (simp add: in_use_def window_in_use)
  moreover have r: "take 2 (drop (off + n) (in_use (tr_mgr t) k)) = e_ret" "off + n + 2 \<le> sb_used (slab_of (tr_mgr t) k)"
    using E n len by auto
  ultimately have "take (n + 2) (drop off (in_use (tr_mgr t) k)) = body @ e_ret" using window_append by blast
  then show "placed (tr_mgr t) (bufs_at K_Stencils t) (sn_location e) (body @ e_ret)"
    unfolding placed_def using E n r(2) by (intro bexI[of _ k]) simp_all
  show "even_location (sn_location e)" using E by (auto simp: even_location_def)
qed


lemma long_append_fails:
  assumes "chain_ok (m, c)" and "length p > BUFFER_SIZE"
  shows "\<exists>e s'. append_placed p 0 0 0 (m, c) = (Inl e, s')"
proof (cases rule: append_placed_cases[OF assms(1), of p 0 0 0])
  case (2 k off m' c')
  have ok: "manager_ok m'" using grown_ok[OF 2(2)] by (simp add: chain_ok_def)
  have "off + length p \<le> sb_used (slab_of m' k')" "k' \<in> live_slots m'" if "handle_of m' k' = handle_of m' k"
    "k' \<in> live_slots m'" "off + length p \<le> sb_used (slab_of m' k')" for k' using that by auto
  moreover have "sb_used (slab_of m' j) \<le> BUFFER_SIZE" if "j \<in> live_slots m'" for j
    using live_slab(1,2)[OF ok that] by (simp add: slab_ok_def)
  ultimately have False using 2(5) assms(2) unfolding Buffer_Chain.stored_def by fastforce
  then show ?thesis ..
qed auto

text \<open>What a body and its return look like once they are in the stencil chain.\<close>

lemma new_stencil_ok:
  assumes st: "store_ok t" and k: "k \<in> set (bufs_at K_Stencils t)"
    and i: "in_use (tr_mgr t) k = old @ body @ new" and ev: "even (length old)" and small: "length old < BUFFER_SIZE"
    and ret: "length body + 2 \<le> BUFFER_SIZE \<Longrightarrow> new = e_ret"
    and loc: "loc = \<lparr>loc_id = handle_of (tr_mgr t) k, loc_offset = word_of_nat (length old)\<rparr>"
  shows "stencil_ok t \<lparr>sn_location = loc, sn_hits = x, sn_body = (k, length old, length body)\<rparr>"
    and "length body + 2 \<le> BUFFER_SIZE \<Longrightarrow>
      even_location loc \<and> placed (tr_mgr t) (bufs_at K_Stencils t) loc (body @ e_ret)"
proof -
  have live: "k \<in> live_slots (tr_mgr t)" using store_okD(2)[OF st] k by blast
  note u = in_use_length[OF store_okD(1)[OF st] live, unfolded i]
  show "stencil_ok t \<lparr>sn_location = loc, sn_hits = x, sn_body = (k, length old, length body)\<rparr>"
    using k i ev ret u[symmetric] by (simp add: stencil_ok_def loc word_of_offset[OF small])
  assume len: "length body + 2 \<le> BUFFER_SIZE"
  have "placed (tr_mgr t) (bufs_at K_Stencils t) loc (body @ e_ret)"
    by (rule placed_at_tail[OF k _ small]) (use i ret[OF len] live store_okD(1)[OF st] in \<open>simp_all add: loc\<close>)
  then show "even_location loc \<and> placed (tr_mgr t) (bufs_at K_Stencils t) loc (body @ e_ret)"
    using ev by (simp add: even_location_def loc word_of_offset[OF small])
qed

lemma fields_step:
  assumes "ring_ok t"
  shows "quiet t (t\<lparr>tr_foot := f\<rparr>)" and "quiet t (t\<lparr>tr_pending := p\<rparr>)"
    and "(\<And>k e. mp k = Some e \<Longrightarrow> stencil_ok t e) \<Longrightarrow> quiet t (t\<lparr>tr_map := mp, tr_pending := p\<rparr>)"
    and "(\<And>k e. mp k = Some e \<Longrightarrow> stencil_ok t e) \<Longrightarrow> quiet t (t\<lparr>tr_map := mp\<rparr>)"
    and "quiet t (t\<lparr>tr_traced := g\<rparr>)" and "quiet t (t\<lparr>tr_in_payload := g\<rparr>)"
  using store_okD(11) assms by (auto intro!: fields_quiet[OF assms] simp: ring_ok_def)

lemma append_quiet:
  assumes "ring_ok t" and "even (length p)" and "key_in q t"
  shows "quiet t (final (on_chain q (append_placed p 0 0 0)) t)" and "quiet t (final (on_chain q (chain_append p 0 0 0)) t)"
  by (rule on_chain_quiet[OF assms(1,3)]; simp add: tame_append tame_chain_append fills_append fills_chain_append assms(2))+

lemma on_chain_reserve:
  "ring_ok t \<Longrightarrow> on_chain q (reserve_and_write p) t = on_chain q (append_placed p 0 0 0) t"
  by (simp add: on_chain_def zoom_def reserve_then_write[OF store_chain_ok, where v = 0] ring_ok_def)


lemma promote_step:
  assumes ok: "ring_ok t" and ev: "even (length body)" and ne: "body \<noteq> []"
  shows "resolves t body (promote h body t)"
proof -
  let ?q = K_Stencils
  have st: "on_stencils op = on_chain ?q op" for op :: "'x chain_sm" by (rule on_stencils_chain)
  show ?thesis
  proof (cases rule: ensure_in_place[OF ok, of ?q "length body + length e_ret"])
    case 1 then show ?case by simp
  next
    case (2 t')
    then show ?thesis by (simp add: promote_def st andthen_def resolves_def)
  next
    case (3 t1)
    note Q1 = quietD[OF 3(2)]
    show ?thesis
    proof (cases "length body \<le> BUFFER_SIZE")
      case False
      have c: "chain_ok (tr_mgr t1, chain_at ?q t1)" by (rule store_chain_ok) (use Q1(1) in \<open>simp add: ring_ok_def\<close>)
      obtain e t2 where e: "on_chain ?q (append_placed body 0 0 0) t1 = (Inl e, t2)"
        using long_append_fails[OF c, of body] False by (auto simp: on_chain_def zoom_def)
      have "quiet t1 t2" using append_quiet(1)[OF Q1(1) ev, of ?q] e by (simp add: final_def)
      then show ?thesis
        using 3(1) e quiet_trans[OF 3(2)]
        by (simp add: promote_def st andthen_def resolves_def on_chain_reserve[OF Q1(1)])
    next
      case True
      let ?k = "last (bufs_at ?q t1)"
      let ?old = "in_use (tr_mgr t1) ?k"
      have so1: "store_ok t1" using Q1(1) by (simp add: ring_ok_def)
      have k1: "?k \<in> set (bufs_at ?q t1)" using 3(4) by simp
      have live1: "?k \<in> live_slots (tr_mgr t1)" using store_okD(2)[OF so1] k1 by blast
      note sb = live_slab(1,2)[OF store_okD(1)[OF so1] live1]
      have u: "length ?old = sb_used (slab_of (tr_mgr t1) ?k)" by (rule in_use_length[OF store_okD(1)[OF so1] live1])
      have evo: "even (length ?old)" using store_okD(9)[OF so1] k1 by (simp add: evens_def u)
      have fit: "length body \<le> remaining_capacity (slab_of (tr_mgr t1) ?k)"
        using 3(5,6) True by (cases "length body + length e_ret \<le> BUFFER_SIZE") simp_all
      then have small: "length ?old < BUFFER_SIZE"
        using ne sb by (cases body) (auto simp: u remaining_capacity_def)
      let ?loc = "\<lparr>loc_id = handle_of (tr_mgr t1) ?k, loc_offset = word_of_nat (length ?old)\<rparr>"
      from append_in_place[of t1 ?q ?k body, OF Q1(1) _ _ 3(4) refl ev fit]
      obtain t2 where t2: "on_chain ?q (append_placed body 0 0 0) t1 = (Inr (?loc, ?k, length ?old), t2)" "quiet t1 t2"
        "bufs_at ?q t2 = bufs_at ?q t1" "in_use (tr_mgr t2) ?k = ?old @ body" "handle_of (tr_mgr t2) ?k = handle_of (tr_mgr t1) ?k"
        "tr_map t2 = tr_map t1"
        "remaining_capacity (slab_of (tr_mgr t2) ?k) = remaining_capacity (slab_of (tr_mgr t1) ?k) - length body"
        unfolding u by (metis is_data.simps(1) key_in.simps(1))
      note Q2 = quietD[OF t2(2)]
      obtain r t3 where t3: "on_chain ?q (chain_append e_ret 0 0 0) t2 = (r, t3)" by fastforce
      have q3: "quiet t2 t3" using append_quiet(2)[OF Q2(1), of e_ret ?q] t3 by (simp add: final_def)
      note Q3 = quietD[OF q3]
      have map3: "tr_map t3 = tr_map t2"
        using t3 by (auto simp: on_chain_def zoom_def split: prod.splits)
      have q03: "quiet t t3" by (rule quiet_trans[OF 3(2) quiet_trans[OF t2(2) q3]])
      have kk: "?k \<in> set (bufs_at ?q t3) \<and> handle_of (tr_mgr t3) ?k = handle_of (tr_mgr t1) ?k
          \<and> (\<exists>new. in_use (tr_mgr t3) ?k = ?old @ body @ new)"
        using Q3(4)[of ?q] k1 t2(3-5) by (auto simp: keeps_key_def keeps_chain_def)
      then obtain new where new: "in_use (tr_mgr t3) ?k = ?old @ body @ new" by blast
      have ret: "new = e_ret" if len: "length body + 2 \<le> BUFFER_SIZE"
      proof -
        have "length e_ret \<le> remaining_capacity (slab_of (tr_mgr t2) ?k)" using 3(5) len t2(7) by simp
        then obtain x t' where "on_chain ?q (chain_append e_ret 0 0 0) t2 = (Inr x, t')"
          "in_use (tr_mgr t') ?k = in_use (tr_mgr t2) ?k @ e_ret"
          by (rule_tac append_in_place[of t2 ?q ?k e_ret]) (use Q2(1) 3(4) t2(3) in auto)
        then show ?thesis using new t2(4) t3 by simp
      qed
      have so3: "store_ok t3" using Q3(1) by (simp add: ring_ok_def)
      let ?e = "\<lparr>sn_location = ?loc, sn_hits = 2, sn_body = (?k, length ?old, length body)\<rparr>"
      have loc: "?loc = \<lparr>loc_id = handle_of (tr_mgr t3) ?k, loc_offset = word_of_nat (length ?old)\<rparr>" using kk by simp
      note N = new_stencil_ok[OF so3 conjunct1[OF kk] new evo small ret loc]
      have run: "promote h body t = (case r of Inl e \<Rightarrow> (Inl e, t3) | Inr _ \<Rightarrow>
          (Inr (True, ?loc), t3\<lparr>tr_foot := (tr_foot t3)\<lparr>fp_stencils := fp_stencils (tr_foot t3) + (length body + length e_ret)\<rparr>,
             tr_map := (tr_map t3)(h \<mapsto> ?e), tr_pending := tr_pending t3 - {h}\<rparr>))"
        using 3(1) t2(1) t3
        by (cases r) (simp_all add: promote_def st andthen_def on_chain_reserve[OF Q1(1)] count_footprint_def modify_def ret_def)
      show ?thesis
      proof (cases r)
        case (Inl e)
        then show ?thesis using run q03 by (simp add: resolves_def)
      next
        case (Inr x)
        define t4 where "t4 = t3\<lparr>tr_foot := (tr_foot t3)\<lparr>fp_stencils := fp_stencils (tr_foot t3) + (length body + length e_ret)\<rparr>\<rparr>"
        have q4: "quiet t3 t4" unfolding t4_def by (rule fields_step(1)[OF Q3(1)])
        have "stencil_ok t4 e = stencil_ok t3 e" for e
          unfolding stencil_ok_def t4_def bufs_at_def by simp
        then have "quiet t4 (t4\<lparr>tr_map := (tr_map t4)(h \<mapsto> ?e), tr_pending := tr_pending t4 - {h}\<rparr>)"
          using N(1) store_okD(11)[OF so3] by (intro fields_step(3) quietD(1)[OF q4]) (auto simp: t4_def split: if_splits)
        then have "quiet t (t4\<lparr>tr_map := (tr_map t4)(h \<mapsto> ?e), tr_pending := tr_pending t4 - {h}\<rparr>)"
          using quiet_trans q03 q4 by blast
        then show ?thesis
          using run Inr N(2) by (simp add: resolves_def t4_def bufs_at_def)
      qed
    qed
  qed
qed

lemma resolve_step:
  assumes ok: "ring_ok t" and ev: "even (length body)"
  shows "resolves t body (resolve_body body t)"
proof -
  have q: "quiet t t" by (rule quiet_refl[OF ok])
  have so: "store_ok t" using ok by (simp add: ring_ok_def)
  show ?thesis
  proof (cases "body = []")
    case True
    then show ?thesis using q by (simp add: resolve_body_def resolves_def)
  next
    case ne: False
    show ?thesis
    proof (cases "tr_map t (body_hash body)")
      case (Some e)
      have e: "stencil_ok t e" by (rule store_okD(11)[OF so Some])
      have "stencil_ok t (e\<lparr>sn_hits := sn_hits e + 1\<rparr>)" using e by (simp add: stencil_ok_def)
      then have q': "quiet t (t\<lparr>tr_map := (tr_map t)(body_hash body \<mapsto> e\<lparr>sn_hits := sn_hits e + 1\<rparr>)\<rparr>)"
        using store_okD(11)[OF so] by (intro fields_step(4)[OF ok]) (auto split: if_splits)
      show ?thesis
        using ne Some q q' resolve_known[OF ok e] by (simp add: resolve_body_def resolves_def Let_def bufs_at_def)
    next
      case None
      have p: "quiet t (t\<lparr>tr_pending := p\<rparr>)" for p by (rule fields_step(2)[OF ok])
      show ?thesis
        using ne None q p promote_step[OF ok ev ne] by (simp add: resolve_body_def resolves_def Let_def)
    qed
  qed
qed


section \<open>Committing\<close>

lemma append_parts_quiet:
  "ring_ok t \<Longrightarrow> \<forall>p\<in>set ps. even (length p) \<Longrightarrow> quiet t (final (append_parts s ps) t)"
proof (induction ps arbitrary: t)
  case (Cons p ps)
  let ?q = "K_Code (node_index s t)"
  obtain r t1 where t1: "on_chain ?q (chain_append p 0 0 0) t = (r, t1)" by fastforce
  have q1: "quiet t t1"
    using append_quiet(2)[OF Cons.prems(1) _ key_in_code[OF Cons.prems(1)], of p s] Cons.prems(2) t1 by (simp add: final_def)
  show ?case
  proof (cases r)
    case (Inl e)
    then show ?thesis using t1 q1 by (simp add: final_def andthen_def on_code_key[OF Cons.prems(1)])
  next
    case (Inr a)
    have "quiet t1 (final (append_parts s ps) t1)" using Cons.IH[OF quietD(1)[OF q1]] Cons.prems(2) by simp
    moreover have "final (append_parts s (p # ps)) t = final (append_parts s ps) t1"
      using t1 Inr by (simp add: final_def andthen_def on_code_key[OF Cons.prems(1)] ret_def split: prod.split sum.split)
    ultimately show ?thesis using quiet_trans[OF q1] by simp
  qed
qed (simp add: final_def quiet_refl ret_def)

definition program_total :: "scratch \<Rightarrow> bool \<times> location \<Rightarrow> nat" where
  "program_total r res = length (sc_prefix r) + length (sc_postfix r)
     + (if fst res then length (call_of (snd res)) else length (sc_body r))"

lemma program_parts_length: "length (concat (program_parts r res)) = program_total r res"
  by (simp add: program_parts_def program_total_def)

lemma program_parts_even: "scratch_even r \<Longrightarrow> \<forall>p\<in>set (program_parts r res). even (length p)"
  by (auto simp: program_parts_def scratch_even_def)

text \<open>Writing a program and its entry.\<close>

definition flushed :: "trace_ring \<Rightarrow> scratch \<Rightarrow> bool \<times> location \<Rightarrow> (sim_error + program_location) \<times> trace_ring \<Rightarrow> bool" where
  "flushed t r res = (\<lambda>(out, t'). ring_ok t' \<and> same_frames t t' \<and> after {(sc_slot r, sc_entry r)} t t'
     \<and> (\<forall>q. keeps_key q t t')
     \<and> (\<forall>p. out = Inr p \<longrightarrow> program_total r res \<le> BUFFER_SIZE \<longrightarrow>
          cursor_deref t' (sc_slot r, sc_entry r) = p \<and> even_location (pl_code p)
          \<and> placed (tr_mgr t') (bufs_at (K_Code (node_index (sc_slot r) t)) t') (pl_code p) (concat (program_parts r res))))"

lemma keeps_key_trans: "keeps_key q a b \<Longrightarrow> keeps_key q b c \<Longrightarrow> keeps_key q a c"
  unfolding keeps_key_def by (rule keeps_chain_trans)

lemma placed_keeps_key:
  assumes "placed (tr_mgr t) (bufs_at q t) loc bytes" and "keeps_key q t t'" and "ring_ok t" and "ring_ok t'"
  shows "placed (tr_mgr t') (bufs_at q t') loc bytes"
  using placed_keeps[OF assms(1) assms(2)[unfolded keeps_key_def]] assms(3,4) store_okD(1,2) by (auto simp: ring_ok_def)

lemma flush_step:
  assumes ok: "ring_ok t" and res: "resident (sc_slot r) t" and e: "unat (sc_entry r) < MAX_ENTRIES"
    and ev: "scratch_even r" and post: "sc_postfix r \<noteq> []"
  shows "flushed t r res (flush_to_ring r res t)"
proof -
  let ?s = "sc_slot r" and ?ps = "program_parts r res"
  let ?q = "K_Code (node_index ?s t)"
  have stop: "flushed t r res (Inl x, t')" if "quiet t t'" for x t'
    using that by (simp add: flushed_def quiet_def)
  have ps: "\<forall>p\<in>set ?ps. even (length p)" by (rule program_parts_even[OF ev])
  have ne: "?ps \<noteq> []" "concat ?ps \<noteq> []" using post by (simp_all add: program_parts_def)
  show ?thesis
  proof (cases rule: ensure_in_place[OF ok key_in_code[OF ok, of ?s], of "program_total r res"])
    case (1 t')
    then show ?thesis
      using stop by (simp add: flush_to_ring_def Let_def andthen_def on_code_key[OF ok] program_total_def[symmetric])
  next
    case (2 t1)
    note Q1 = quietD[OF 2(2)]
    obtain out t2 where t2: "append_parts ?s ?ps t1 = (out, t2)" by fastforce
    have q2: "quiet t1 t2" using append_parts_quiet[OF Q1(1) ps, of ?s] t2 by (simp add: final_def)
    note Q2 = quietD[OF q2]
    have q02: "quiet t t2" by (rule quiet_trans[OF 2(2) q2])
    show ?thesis
    proof (cases out)
      case (Inl x)
      then show ?thesis
        using 2(1) t2 stop[OF q02]
        by (simp add: flush_to_ring_def Let_def andthen_def on_code_key[OF ok] program_total_def[symmetric])
    next
      case (Inr loc)
      define t3 where "t3 = t2\<lparr>tr_foot := (tr_foot t2)\<lparr>fp_code := fp_code (tr_foot t2) + program_total r res,
        fp_code_if_inlined := fp_code_if_inlined (tr_foot t2)
          + (length (sc_prefix r) + length (sc_body r) + length (sc_postfix r))\<rparr>\<rparr>"
      have q3: "quiet t2 t3" unfolding t3_def by (rule fields_step(1)[OF Q2(1)])
      have q03: "quiet t t3" by (rule quiet_trans[OF q02 q3])
      note Q3 = quietD[OF q03]
      have res3: "resident ?s t3" using res same_frames_shape(2)[OF Q3(2)] by simp
      let ?p = "\<lparr>pl_code = loc, pl_data = sc_data_start r\<rparr>"
      obtain t4 where t4: "write_location ?s (sc_entry r) ?p t3 = (Inr (), t4)" "ring_ok t4" "same_frames t3 t4"
        "\<And>E. (?s, sc_entry r) \<in> E \<Longrightarrow> after E t3 t4" "\<And>q. keeps_key q t3 t4" "cursor_deref t4 (?s, sc_entry r) = ?p"
        by (rule write_location_step[OF Q3(1) res3 e]) blast
      have run: "flush_to_ring r res t = (Inr ?p, t4)"
        using 2(1) t2 Inr t4(1)
        by (simp add: flush_to_ring_def Let_def andthen_def on_code_key[OF ok] program_total_def[symmetric]
            count_footprint_def modify_def ret_def t3_def)
      have f: "same_frames t t4" using Q3(2) t4(3) by (simp add: same_frames_def)
      have a: "after {(?s, sc_entry r)} t t4" by (rule after_trans[OF Q3(3) t4(4)]) simp
      have ks: "keeps_key q t t4" for q by (rule keeps_key_trans[OF Q3(4) t4(5)])
      have "even_location loc \<and> placed (tr_mgr t4) (bufs_at ?q t4) loc (concat ?ps)" if len: "program_total r res \<le> BUFFER_SIZE"
      proof -
        let ?k = "last (bufs_at ?q t1)"
        let ?old = "in_use (tr_mgr t1) ?k"
        have ix: "node_index ?s t1 = node_index ?s t" by (rule Q1(5))
        have so1: "store_ok t1" using Q1(1) by (simp add: ring_ok_def)
        have k1: "?k \<in> set (bufs_at ?q t1)" using 2(4) by simp
        have live1: "?k \<in> live_slots (tr_mgr t1)" using store_okD(2)[OF so1] k1 by blast
        note sb = live_slab(1,2)[OF store_okD(1)[OF so1] live1]
        have u: "length ?old = sb_used (slab_of (tr_mgr t1) ?k)" by (rule in_use_length[OF store_okD(1)[OF so1] live1])
        have fit: "length (concat ?ps) \<le> remaining_capacity (slab_of (tr_mgr t1) ?k)"
          using 2(5) len unfolding program_parts_length by simp
        have small: "length ?old < BUFFER_SIZE"
          using fit ne(2) sb by (cases "concat ?ps") (auto simp: u remaining_capacity_def)
        from append_parts_in_place[of t1 ?ps ?s ?k, unfolded ix, OF Q1(1) ps 2(4) refl fit]
        have g: "bufs_at ?q t2 = bufs_at ?q t1" "in_use (tr_mgr t2) ?k = ?old @ concat ?ps"
          "handle_of (tr_mgr t2) ?k = handle_of (tr_mgr t1) ?k"
          "loc = \<lparr>loc_id = handle_of (tr_mgr t1) ?k, loc_offset = word_of_nat (length ?old)\<rparr>"
          using t2 Inr ne(1) by (auto simp: u)
        have so2: "store_ok t2" using Q2(1) by (simp add: ring_ok_def)
        have live2: "?k \<in> live_slots (tr_mgr t2)" using store_okD(2)[OF so2, of ?q] k1 g(1) by auto
        have "placed (tr_mgr t2) (bufs_at ?q t2) loc (concat ?ps)"
          by (rule placed_at_tail[OF _ g(2) small])
            (use g k1 live2 store_okD(1)[OF so2] in \<open>auto simp: g(4)\<close>)
        then have "placed (tr_mgr t4) (bufs_at ?q t4) loc (concat ?ps)"
          by (rule placed_keeps_key[OF _ keeps_key_trans[OF quietD(4)[OF q3] t4(5)] Q2(1) t4(2)])
        moreover have "even (length ?old)" using store_okD(10)[OF so1] k1 by (simp add: evens_def u)
        ultimately show ?thesis by (simp add: even_location_def g(4) word_of_offset[OF small])
      qed
      then show ?thesis unfolding run using t4(2,6) f a ks by (simp add: flushed_def)
    qed
  qed
qed


text \<open>A program that stands under its entry: inline, or with a call of its body.\<close>

definition committed :: "trace_ring \<Rightarrow> cursor \<Rightarrow> program_location \<Rightarrow> u8 list \<Rightarrow> u8 list \<Rightarrow> u8 list \<Rightarrow> bool" where
  "committed t c p prefix body postfix \<longleftrightarrow>
     closed_entry t c \<and> cursor_deref t c = p \<and> even_location (pl_code p)
     \<and> (placed (tr_mgr t) (bufs_at (K_Code (node_index (fst c) t)) t) (pl_code p) (prefix @ body @ postfix @ e_halt0)
        \<or> (\<exists>loc. even_location loc \<and> placed (tr_mgr t) (bufs_at K_Stencils t) loc (body @ e_ret)
             \<and> placed (tr_mgr t) (bufs_at (K_Code (node_index (fst c) t)) t) (pl_code p) (prefix @ call_of loc @ postfix @ e_halt0)))"

lemma committed_lasts:
  assumes c: "committed t c p prefix body postfix" and ok: "ring_ok t" "ring_ok t'" and a: "after {} t t'"
    and tl: "tr_tail t' \<le> fst c"
  shows "committed t' c p prefix body postfix"
proof -
  let ?q = "K_Code (node_index (fst c) t)"
  have cl: "closed_entry t c" "resident (fst c) t" using c by (simp_all add: committed_def closed_entry_def)
  have A: "resident (fst c) t'" "keeps_key ?q t t'" "keeps_key K_Stencils t t'" "closed_entry t' c"
    "cursor_deref t' c = cursor_deref t c" "node_index (fst c) t' = node_index (fst c) t"
    using a cl tl node_index_length[of t' t] by (cases c; auto simp: after_def)+
  note P = placed_keeps_key[OF _ A(2) ok] placed_keeps_key[OF _ A(3) ok]
  show ?thesis using c A(4,5) P unfolding committed_def A(6) by (metis (no_types, lifting))
qed

lemma committed_recorded:
  assumes c: "committed t c p prefix body postfix" and ok: "ring_ok t"
  shows "recorded_at (buffers_of (tr_mgr t)) (pl_code p) prefix body postfix"
proof -
  have so: "store_ok t" using ok by (simp add: ring_ok_def)
  note at = placed_code_at[OF _ store_okD(1,2)[OF so]]
  let ?q = "K_Code (node_index (fst c) t)"
  show ?thesis
  proof (cases "placed (tr_mgr t) (bufs_at ?q t) (pl_code p) (prefix @ body @ postfix @ e_halt0)")
    case True
    then show ?thesis using c at by (auto simp: committed_def recorded_at_def even_location_def)
  next
    case False
    then obtain loc where "even_location loc" "placed (tr_mgr t) (bufs_at K_Stencils t) loc (body @ e_ret)"
      "placed (tr_mgr t) (bufs_at ?q t) (pl_code p) (prefix @ call_of loc @ postfix @ e_halt0)"
      using c by (auto simp: committed_def)
    then show ?thesis
      using c at[where loc = loc] at[where loc = "pl_code p"]
      by (auto simp: committed_def recorded_at_def even_location_def call_of_def
          intro!: exI[of _ "\<lparr>s_hi = loc_id loc, s_lo = loc_offset loc\<rparr>"])
  qed
qed

text \<open>The recording with its halt, closed.\<close>

lemma recording_closed:
  assumes ok: "ring_ok t" and r0: "find_scratch i t = Some r0"
  defines "r \<equiv> emit_part Postfix e_halt0 r0"
  defines "t1 \<equiv> release i r t"
  shows "sc_slot r = sc_slot r0" and "sc_entry r = sc_entry r0" and "sc_prefix r = sc_prefix r0" and "sc_body r = sc_body r0"
    and "sc_postfix r = sc_postfix r0 @ e_halt0" and "scratch_even r" and "unat (sc_entry r) < MAX_ENTRIES"
    and "ring_ok t1" and "after E t t1" and "resident (sc_slot r0) t1" and "closed_entry t1 (sc_slot r0, sc_entry r0)"
proof -
  have sh: "shape_ok t" using ok by (simp add: ring_ok_def)
  show r: "sc_slot r = sc_slot r0" "sc_entry r = sc_entry r0" "sc_prefix r = sc_prefix r0" "sc_body r = sc_body r0"
    "sc_postfix r = sc_postfix r0 @ e_halt0" by (simp_all add: r_def emit_part_def)
  have R0: "scratch_shape i r0 t" by (rule shape_okD(5)[OF sh r0])
  show "scratch_even r" using R0 by (simp add: scratch_shape_def scratch_even_def r)
  show "unat (sc_entry r) < MAX_ENTRIES"
    using R0 shape_okD(4)[OF sh, of "sc_slot r0"] by (auto simp: scratch_shape_def node_shape_def r word_less_nat_alt)
  have t1: "ring_ok t1" "after E t t1" "resident (sc_slot r0) t1" "find_scratch i t1 = None"
    "nd_count (node_of (sc_slot r0) t1) = nd_count (node_of (sc_slot r0) t)"
    using close_step[OF ok r0 refl, of "r\<lparr>sc_active := False\<rparr>"] node_of_put[OF shape_okD(1)[OF sh]]
    by (simp_all add: t1_def release_def r)
  then show "ring_ok t1" "after E t t1" "resident (sc_slot r0) t1" by blast+
  have "(sc_slot r0, sc_entry r0) \<notin> open_entries t1"
  proof
    assume "(sc_slot r0, sc_entry r0) \<in> open_entries t1"
    then obtain j x where j: "find_scratch j t1 = Some x" "sc_slot x = sc_slot r0" "sc_entry x = sc_entry r0"
      by (auto simp: open_entries_iff)
    then have "j \<noteq> i" using t1(4) by auto
    then have "find_scratch j t = Some x" using j(1) by (simp add: t1_def release_def)
    then show False using shape_okD(6)[OF sh _ r0 \<open>j \<noteq> i\<close>] j(2,3) by auto
  qed
  then show "closed_entry t1 (sc_slot r0, sc_entry r0)" using t1(3,5) R0 by (simp add: closed_entry_def scratch_shape_def)
qed

lemma flushed_committed:
  assumes res: "resolves t1 (sc_body r) (Inr rs, t2)" and fl: "flushed t2 r rs (Inr p, t3)"
    and len: "length (sc_prefix r) + length (sc_body r) + length (sc_postfix r) + 6 \<le> BUFFER_SIZE"
    and post: "sc_postfix r = postfix @ e_halt0" and cl: "closed_entry t3 (sc_slot r, sc_entry r)"
  shows "committed t3 (sc_slot r, sc_entry r) p (sc_prefix r) (sc_body r) postfix"
proof -
  let ?q = "K_Code (node_index (sc_slot r) t3)"
  have ok: "ring_ok t2" "ring_ok t3" and ks: "keeps_key q t2 t3" for q
    using res fl by (simp_all add: resolves_def quiet_def flushed_def)
  have "program_total r rs \<le> BUFFER_SIZE" using len by (simp add: program_total_def)
  then have p: "cursor_deref t3 (sc_slot r, sc_entry r) = p" "even_location (pl_code p)"
    "placed (tr_mgr t3) (bufs_at ?q t3) (pl_code p) (concat (program_parts r rs))"
    using fl same_framesD(6)[of t2 t3] by (simp_all add: flushed_def)
  show ?thesis
  proof (cases "fst rs")
    case True
    have s2: "even_location (snd rs)" "placed (tr_mgr t2) (bufs_at K_Stencils t2) (snd rs) (sc_body r @ e_ret)"
      using res True len post by (cases rs; simp add: resolves_def)+
    have "concat (program_parts r rs) = sc_prefix r @ call_of (snd rs) @ postfix @ e_halt0"
      using True by (simp add: program_parts_def post)
    then show ?thesis using cl p s2(1) placed_keeps_key[OF s2(2) ks ok] by (auto simp: committed_def)
  next
    case False
    then have "concat (program_parts r rs) = sc_prefix r @ sc_body r @ postfix @ e_halt0"
      by (simp add: program_parts_def post)
    then show ?thesis using cl p by (simp add: committed_def)
  qed
qed

text \<open>A commit, step by step.\<close>

lemma commit_cases:
  assumes r0: "find_scratch i t = Some r0"
  defines "r \<equiv> emit_part Postfix e_halt0 r0"
  obtains (resolving) x t2 where "resolve_body (sc_body r) (release i r t) = (Inl x, t2)" "ring_commit i t = (Inl x, t2)"
  | (flushing) rs t2 x t3 where "resolve_body (sc_body r) (release i r t) = (Inr rs, t2)"
      "flush_to_ring r rs t2 = (Inl x, t3)" "ring_commit i t = (Inl x, t3)"
  | (committing) rs t2 p t3 where "resolve_body (sc_body r) (release i r t) = (Inr rs, t2)"
      "flush_to_ring r rs t2 = (Inr p, t3)"
      "ring_commit i t = (Inr p, let t4 = t3\<lparr>tr_foot := (tr_foot t3)\<lparr>fp_programs := fp_programs (tr_foot t3) + 1\<rparr>\<rparr>
         in if sc_slot r = tr_head t4 \<and> unat (nd_count (node_of (sc_slot r) t4)) \<ge> MAX_ENTRIES
              \<and> nd_open (node_of (sc_slot r) t4) = 0 then advance t4 else t4)"
proof -
  have e: "ring_commit i t = andthen (resolve_body (sc_body r)) (\<lambda>res. andthen (flush_to_ring r res) (\<lambda>program.
      andthen (count_footprint (\<lambda>f. f\<lparr>fp_programs := fp_programs f + 1\<rparr>)) (\<lambda>_.
      andthen (modify (\<lambda>t. if sc_slot r = tr_head t \<and> unat (nd_count (node_of (sc_slot r) t)) \<ge> MAX_ENTRIES
                 \<and> nd_open (node_of (sc_slot r) t) = 0 then advance t else t)) (\<lambda>_. ret program)))) (release i r t)"
    by (simp add: ring_commit_def r0 r_def Let_def andthen_def modify_def)
  obtain res t2 where t2: "resolve_body (sc_body r) (release i r t) = (res, t2)" by fastforce
  show ?thesis
  proof (cases res)
    case (Inl x)
    then show ?thesis using resolving[of x t2] t2 by (simp add: e andthen_def)
  next
    case (Inr rs)
    obtain fo t3 where t3: "flush_to_ring r rs t2 = (fo, t3)" by fastforce
    show ?thesis
    proof (cases fo)
      case (Inl x)
      then show ?thesis using flushing[of rs t2 x t3] t2 Inr t3 by (simp add: e andthen_def)
    next
      case (Inr p)
      then show ?thesis
        using committing[of rs t2 p t3] t2 \<open>res = Inr rs\<close> t3
        by (simp add: e andthen_def modify_def count_footprint_def ret_def Let_def)
    qed
  qed
qed

lemma commit_step:
  assumes ok: "ring_ok t" and r0: "find_scratch i t = Some r0" and run: "ring_commit i t = (out, t')"
  shows "ring_ok t'" and "after {} t t'"
    and "out = Inr p \<Longrightarrow> length (sc_prefix r0) + length (sc_body r0) + length (sc_postfix r0) + 8 \<le> BUFFER_SIZE
      \<Longrightarrow> committed t' (sc_slot r0, sc_entry r0) p (sc_prefix r0) (sc_body r0) (sc_postfix r0)"
proof -
  define r where "r = emit_part Postfix e_halt0 r0"
  define t1 where "t1 = release i r t"
  let ?c = "(sc_slot r0, sc_entry r0)"
  note C = recording_closed[OF ok r0, folded r_def, folded t1_def]
  have ev: "even (length (sc_body r))" using C(6) by (simp add: scratch_even_def)
  have opn: "?c \<in> open_entries t" using r0 by (auto simp: open_entries_iff)
  have fin: "after {} t x" if "after {?c} t x" for x
    by (rule after_closed[OF that]) (use opn in \<open>auto simp: closed_entry_def\<close>)
  have res: "resolves t1 (sc_body r) (resolve_body (sc_body r) t1)" by (rule resolve_step[OF C(8) ev])
  have flush: "flushed t2 r rs (flush_to_ring r rs t2)" if q: "quiet t1 t2" for rs t2
    by (rule flush_step) (use quietD(1)[OF q] same_frames_shape(2)[OF quietD(2)[OF q]] C(1,5-7,10) in \<open>simp_all add: e_halt0_def encode_op_def word_bytes_le_eq\<close>)
  have "ring_ok t' \<and> after {} t t' \<and> (out = Inr p \<longrightarrow>
      length (sc_prefix r0) + length (sc_body r0) + length (sc_postfix r0) + 8 \<le> BUFFER_SIZE \<longrightarrow>
      committed t' ?c p (sc_prefix r0) (sc_body r0) (sc_postfix r0))"
  proof (cases rule: commit_cases[OF r0, folded r_def, folded t1_def])
    case (1 x t2)
    then have "quiet t1 t2" using res by (simp add: resolves_def)
    then show ?thesis using 1(2) run fin[OF after_trans[OF C(9)]] quietD(1,3) by auto
  next
    case (2 rs t2 x t3)
    then have q: "quiet t1 t2" using res by (simp add: resolves_def)
    have "flushed t2 r rs (Inl x, t3)" using flush[OF q, of rs] 2(2) by simp
    then show ?thesis
      using 2(3) run fin[OF after_trans[OF C(9) after_trans[OF quietD(3)[OF q]]]] by (simp add: flushed_def C(1,2))
  next
    case (3 rs t2 pr t3)
    then have q: "quiet t1 t2" using res by (simp add: resolves_def)
    have fl: "flushed t2 r rs (Inr pr, t3)" using flush[OF q, of rs] 3(2) by simp
    then have F: "ring_ok t3" "same_frames t2 t3" "after {?c} t2 t3" by (simp_all add: flushed_def C(1,2))
    define t4 where "t4 = t3\<lparr>tr_foot := (tr_foot t3)\<lparr>fp_programs := fp_programs (tr_foot t3) + 1\<rparr>\<rparr>"
    have q4: "quiet t3 t4" unfolding t4_def by (rule fields_step(1)[OF F(1)])
    have out: "out = Inr pr" "t' = t4 \<or> t' = advance t4 \<and> sc_slot r = tr_head t4"
      using run 3(3)[unfolded Let_def, folded t4_def] by (auto split: if_splits)
    have cl3: "closed_entry t3 ?c"
      using C(11) same_frames_shape(3)[OF F(2)] same_frames_shape(3)[OF quietD(2)[OF q]] by simp
    have res4: "resident (sc_slot r0) t4"
      using cl3 same_frames_shape(2)[OF quietD(2)[OF q4]] by (simp add: closed_entry_def)
    have ok4: "ring_ok t4" by (rule quietD(1)[OF q4])
    have tail4: "tr_tail t4 \<le> sc_slot r0" by (rule shape_residentD(1)[OF _ res4]) (use ok4 in \<open>simp add: ring_ok_def\<close>)
    have last: "ring_ok t'" "after E t4 t'" "tr_tail t' \<le> sc_slot r0" for E
    proof -
      have "ring_ok t' \<and> after E t4 t' \<and> tr_tail t' \<le> sc_slot r0"
        using out(2)
      proof
        assume "t' = t4"
        then show ?thesis using ok4 tail4 after_refl[of E t4] by simp
      next
        assume a: "t' = advance t4 \<and> sc_slot r = tr_head t4"
        then have "resident (tr_head t4) t4" using res4 C(1) by simp
        from advance_step[OF ok4 this] a tail4 show ?thesis by (simp add: advance_def)
      qed
      then show "ring_ok t'" "after E t4 t'" "tr_tail t' \<le> sc_slot r0" by blast+
    qed
    have "after {?c} t t'"
      by (rule after_trans[OF C(9) after_trans[OF quietD(3)[OF q] after_trans[OF F(3) after_trans[OF quietD(3)[OF q4] last(2)]]]])
    moreover have "committed t' ?c pr (sc_prefix r0) (sc_body r0) (sc_postfix r0)"
      if len: "length (sc_prefix r0) + length (sc_body r0) + length (sc_postfix r0) + 8 \<le> BUFFER_SIZE"
    proof -
      have "committed t3 ?c pr (sc_prefix r0) (sc_body r0) (sc_postfix r0)"
        using flushed_committed[OF _ fl _ C(5)] res 3(1) cl3 len by (simp add: C(1-5))
      then show ?thesis by (rule committed_lasts[OF _ F(1) last(1) after_trans[OF quietD(3)[OF q4] last(2)]]) (simp add: last(3))
    qed
    ultimately show ?thesis using last(1) fin out(1) by auto
  qed
  then show "ring_ok t'" "after {} t t'"
    "out = Inr p \<Longrightarrow> length (sc_prefix r0) + length (sc_body r0) + length (sc_postfix r0) + 8 \<le> BUFFER_SIZE
      \<Longrightarrow> committed t' ?c p (sc_prefix r0) (sc_body r0) (sc_postfix r0)"
    by blast+
qed

section \<open>Every operation\<close>

lemma with_scratch_step:
  assumes ok: "ring_ok t" and step: "\<And>r. find_scratch i t = Some r \<Longrightarrow> ring_ok (final (f r) t) \<and> after {} t (final (f r) t)"
  shows "ring_ok (final (with_scratch i f) t) \<and> after {} t (final (with_scratch i f) t)"
proof (cases "find_scratch i t")
  case None
  then show ?thesis using ok by (simp add: with_scratch_def final_def)
next
  case (Some r)
  then show ?thesis using step[OF Some] by (simp add: with_scratch_def final_def)
qed

lemma put_scratch_open:
  assumes "ring_ok t" and "find_scratch i t = Some r"
    and "sc_active r'" "sc_id r' = sc_id r" "sc_slot r' = sc_slot r" "sc_entry r' = sc_entry r" "scratch_even r \<Longrightarrow> scratch_even r'"
  shows "ring_ok (put_scratch i r' t) \<and> after {} t (put_scratch i r' t)"
proof -
  have "scratch_shape i r t" using shape_okD(5) assms(1,2) by (simp add: ring_ok_def)
  then have "sc_id r' = i" "scratch_even r'" using assms(4,7) by (simp_all add: scratch_shape_def)
  then show ?thesis using scratch_step[OF assms(1,2,3) _ assms(5,6)] by blast
qed

lemma find_scratch_active: "find_scratch i t = Some r \<Longrightarrow> sc_active r"
  by (auto simp: find_scratch_def split: option.splits if_splits)

lemma ring_emit_step:
  assumes "ring_ok t" and "even (length bytes)"
  shows "ring_ok (final (ring_emit w i bytes) t) \<and> after {} t (final (ring_emit w i bytes) t)"
  unfolding ring_emit_def
proof (rule with_scratch_step[OF assms(1)])
  fix r assume r: "find_scratch i t = Some r"
  have "ring_ok (put_scratch i (emit_part w bytes r) t) \<and> after {} t (put_scratch i (emit_part w bytes r) t)"
    by (rule put_scratch_open[OF assms(1) r]; use find_scratch_active[OF r] assms(2) in \<open>cases w; simp add: emit_part_def scratch_even_def\<close>)
  then show "ring_ok (final (modify (put_scratch i (emit_part w bytes r))) t)
      \<and> after {} t (final (modify (put_scratch i (emit_part w bytes r))) t)"
    by (simp add: final_def modify_def)
qed

lemma anchor_step:
  assumes "ring_ok t"
  shows "ring_ok (final (set_dp_anchor i there sz stride) t) \<and> after {} t (final (set_dp_anchor i there sz stride) t)"
  unfolding set_dp_anchor_def
proof (rule with_scratch_step[OF assms])
  fix r assume r: "find_scratch i t = Some r"
  let ?r = "r\<lparr>sc_dp := \<lparr>an_set = True, an_at = there, an_size = sz, an_stride = stride\<rparr>\<rparr>"
  have "ring_ok (put_scratch i ?r t) \<and> after {} t (put_scratch i ?r t)"
    by (rule put_scratch_open[OF assms r]) (use find_scratch_active[OF r] in \<open>simp_all add: scratch_even_def\<close>)
  then show "ring_ok (final (modify (put_scratch i ?r)) t) \<and> after {} t (final (modify (put_scratch i ?r)) t)"
    by (simp add: final_def modify_def)
qed

lemma note_data_step:
  assumes ok: "ring_ok t"
  shows "ring_ok (final (note_data i loc n) t) \<and> after {} t (final (note_data i loc n) t)"
proof -
  define t1 where "t1 = t\<lparr>tr_foot := (tr_foot t)\<lparr>fp_data := fp_data (tr_foot t) + n\<rparr>\<rparr>"
  have q: "quiet t t1" unfolding t1_def by (rule fields_step(1)[OF ok])
  note Q = quietD[OF q]
  let ?f = "\<lambda>r. modify (put_scratch i (if loc_id (sc_data_start r) = 0 then r\<lparr>sc_data_start := loc\<rparr> else r))"
  have "ring_ok (final (with_scratch i ?f) t1) \<and> after {} t1 (final (with_scratch i ?f) t1)"
  proof (rule with_scratch_step[OF Q(1)])
    fix r assume r: "find_scratch i t1 = Some r"
    show "ring_ok (final (?f r) t1) \<and> after {} t1 (final (?f r) t1)"
      unfolding final_def modify_def snd_conv
      by (rule put_scratch_open[OF Q(1) r]) (use find_scratch_active[OF r] in \<open>simp_all add: scratch_even_def\<close>)
  qed
  moreover have "final (note_data i loc n) t = final (with_scratch i ?f) t1"
    by (simp add: note_data_def count_footprint_def andthen_def final_def modify_def t1_def)
  ultimately show ?thesis using after_trans[OF Q(3)] by simp
qed

lemma key_in_data: "ring_ok t \<Longrightarrow> key_in (K_Data (node_index s t) i) t"
  using node_index_less[OF ring_not_empty] by simp

lemma data_quiet:
  assumes "ring_ok t" and "tame op"
  shows "quiet t (final (on_data s i op) t)"
proof -
  have "final (on_data s i op) t = final (on_chain (K_Data (node_index s t) i) op) t"
    by (simp add: final_def on_data_chain[OF ring_not_empty[OF assms(1)]])
  then show ?thesis using on_chain_quiet[OF assms(1) key_in_data[OF assms(1)] assms(2)] by simp
qed

lemma append_data_step:
  assumes ok: "ring_ok t"
  shows "ring_ok (final (append_data i bytes) t) \<and> after {} t (final (append_data i bytes) t)"
proof (cases "find_scratch i t")
  case None
  then show ?thesis using ok by (simp add: append_data_def final_def)
next
  case (Some r)
  obtain x t1 where o: "on_data (sc_slot r) (sc_id r) (chain_append bytes 0 0 0) t = (x, t1)" by fastforce
  have q: "quiet t t1" using data_quiet[OF ok tame_chain_append, of "sc_slot r" "sc_id r" bytes 0 0 0] o by (simp add: final_def)
  show ?thesis
  proof (cases x)
    case (Inl e)
    then show ?thesis using Some o quietD(1,3)[OF q] by (simp add: append_data_def andthen_def final_def)
  next
    case (Inr loc)
    have "final (append_data i bytes) t = final (note_data i loc (length bytes)) t1"
      using Some o Inr by (simp add: append_data_def andthen_def final_def ret_def split: prod.split sum.split)
    then show ?thesis using note_data_step[OF quietD(1)[OF q]] after_trans[OF quietD(3)[OF q]] by metis
  qed
qed


text \<open>The recorder reserves room for a payload and copies it in at once.\<close>

definition record_data :: "u8 \<Rightarrow> u8 list \<Rightarrow> unit ring_sm" where
  "record_data i bytes = andthen (append_data_uninitialized i (length bytes)) (\<lambda>slot. fill_data slot bytes)"

lemma tame_reserve: "tame (chain_reserve n)"
  using do_chain_op_grows[of _ "C_Reserve n"] by (simp add: tame_def)

lemma note_data_manager:
  "find_scratch i t = Some r \<Longrightarrow>
   note_data i loc n (t\<lparr>tr_mgr := m\<rparr>) = (case note_data i loc n t of (x, t') \<Rightarrow> (x, t'\<lparr>tr_mgr := m\<rparr>))"
  "find_scratch i t = Some r \<Longrightarrow> fst (note_data i loc n t) = Inr () \<and> tr_mgr (snd (note_data i loc n t)) = tr_mgr t"
  by (simp_all add: note_data_def count_footprint_def andthen_def modify_def with_scratch_def find_scratch_def
      put_scratch_def split: option.splits)

lemma put_chain_manager: "(put_chain q c (t\<lparr>tr_mgr := m\<rparr>))\<lparr>tr_mgr := m'\<rparr> = put_chain q c (t\<lparr>tr_mgr := m'\<rparr>)"
  by (cases q) simp_all

lemma record_data_step:
  assumes ok: "ring_ok t"
  shows "ring_ok (final (record_data i bytes) t) \<and> after {} t (final (record_data i bytes) t)"
proof (cases "find_scratch i t")
  case None
  then show ?thesis using ok by (simp add: record_data_def append_data_uninitialized_def with_scratch_def andthen_def final_def)
next
  case (Some r)
  define dq where "dq = K_Data (node_index (sc_slot r) t) (sc_id r)"
  have od: "on_data (sc_slot r) (sc_id r) op t = on_chain dq op t" for op :: "'x chain_sm"
    unfolding dq_def by (rule on_data_chain[OF ring_not_empty[OF ok]])
  obtain x m c where o: "chain_reserve (length bytes) (tr_mgr t, chain_at dq t) = (x, (m, c))" by (metis prod.exhaust)
  define t1 where "t1 = put_chain dq c (t\<lparr>tr_mgr := m\<rparr>)"
  have on1: "on_chain dq (chain_reserve (length bytes)) t = (x, t1)" by (simp add: on_chain_def zoom_def o t1_def)
  have q: "quiet t t1" using data_quiet[OF ok tame_reserve, of "sc_slot r" "sc_id r" "length bytes"] on1 by (simp add: final_def od)
  show ?thesis
  proof (cases x)
    case (Inl e)
    then show ?thesis using Some on1 quietD(1,3)[OF q]
      by (simp add: record_data_def append_data_uninitialized_def with_scratch_def andthen_def final_def od)
  next
    case (Inr slot)
    obtain loc k off where slot: "slot = (loc, k, off)" by (cases slot)
    obtain y m' where w: "on_slab k (slab_write off bytes) m = (y, m')" by fastforce
    define t2 where "t2 = put_chain dq c (t\<lparr>tr_mgr := m'\<rparr>)"
    have "on_chain dq (reserve_and_write bytes) t = ((case y of Inl e \<Rightarrow> Inl e | Inr _ \<Rightarrow> Inr slot), t2)"
      by (simp add: on_chain_def zoom_def reserve_and_write_def o Inr slot andthen_def on_buffer_def w t2_def ret_def split: sum.split)
    then have q2: "quiet t t2"
      using data_quiet[OF ok tame_reserve_write, of "sc_slot r" "sc_id r" bytes] by (simp add: final_def od)
    have t12: "t2 = t1\<lparr>tr_mgr := m'\<rparr>" by (simp add: t1_def t2_def put_chain_manager)
    have r1: "find_scratch i t1 = Some r" using same_framesD(5)[OF quietD(2)[OF q]] Some by simp
    obtain t3 where t3: "note_data i loc (length bytes) t1 = (Inr (), t3)" "tr_mgr t3 = m"
      using note_data_manager(2)[OF r1, of loc "length bytes"]
      by (cases "note_data i loc (length bytes) t1") (simp add: t1_def)
    have "final (record_data i bytes) t = t3\<lparr>tr_mgr := m'\<rparr>"
      using Some on1 Inr slot t3 w
      by (simp add: record_data_def append_data_uninitialized_def with_scratch_def andthen_def final_def od ret_def fill_data_def
          on_manager_def zoom_def)
    also have "\<dots> = final (note_data i loc (length bytes)) t2"
      using note_data_manager(1)[OF r1, of loc "length bytes" m'] t3 by (simp add: t12 final_def)
    finally show ?thesis using note_data_step[OF quietD(1)[OF q2]] after_trans[OF quietD(3)[OF q2]] by metis
  qed
qed

lemma abort_step:
  assumes ok: "ring_ok t"
  shows "ring_ok (ring_abort i t) \<and> after {} t (ring_abort i t)"
proof (cases "find_scratch i t")
  case None
  then show ?thesis using ok by (simp add: ring_abort_def)
next
  case (Some r)
  then show ?thesis using close_step(1,2)[OF ok Some refl] by (simp add: ring_abort_def release_def)
qed

lemma begin_ready:
  assumes ok: "ring_ok t"
  defines "t1 \<equiv> (if nd_slot (node_of (tr_head t) t) = Some (tr_head t) \<and> unat (nd_count (node_of (tr_head t) t)) \<ge> MAX_ENTRIES
    then advance t else t)"
  shows "ring_ok t1" and "after {} t t1"
    and "nd_slot (node_of (tr_head t1) t1) = None \<or> nd_slot (node_of (tr_head t1) t1) = Some (tr_head t1) \<Longrightarrow>
      unat (nd_count (node_of (tr_head t1) t1)) < MAX_ENTRIES"
proof -
  have sh: "shape_ok t" using ok by (simp add: ring_ok_def)
  show "ring_ok t1" "after {} t t1" using ok advance_step[OF ok] by (auto simp: t1_def resident_def)
  have pos: "0 < MAX_ENTRIES" by (simp add: MAX_ENTRIES_def BUFFER_SIZE_def LOCATION_BYTES_def)
  have zero: "nd_count (node_of s t) = 0" if "nd_slot (node_of s t) = None" for s
    using that shape_okD(4)[OF sh, of s] by (simp add: node_shape_def)
  have node: "node_of s (advance t) = node_of s t" for s by (simp add: advance_def node_of_def node_index_def)
  have new: "nd_slot (node_of s t) \<noteq> Some (tr_head t + 1)" for s
    using shape_okD(4)[OF sh, of s] by (auto simp: node_shape_def)
  assume "nd_slot (node_of (tr_head t1) t1) = None \<or> nd_slot (node_of (tr_head t1) t1) = Some (tr_head t1)"
  then show "unat (nd_count (node_of (tr_head t1) t1)) < MAX_ENTRIES"
    using zero pos new node by (auto simp: t1_def advance_def split: if_splits)
qed

lemma begin_step:
  assumes ok: "ring_ok t"
  shows "ring_ok (final (ring_begin i) t) \<and> after {} t (final (ring_begin i) t)"
    and "\<exists>e t'. ring_begin i t = (Inl e, t') \<Longrightarrow> (\<exists>t'. (t' = t \<or> t' = advance t) \<and> ring_begin i t = (Inl (RingOverflow (tr_head t')), t')
          \<and> nd_slot (node_of (tr_head t') t') \<noteq> None \<and> nd_slot (node_of (tr_head t') t') \<noteq> Some (tr_head t'))
        \<or> (\<exists>t'. ring_begin i t = (Inl out_of_buffers, t') \<and> \<not> card (live_slots (tr_mgr t')) < 4095
          \<and> tr_mgr t' = tr_mgr t)"
    and "ring_begin i t = (Inr (), t') \<Longrightarrow> (\<exists>s e. find_scratch i t' = Some (open_scratch i s e)) \<and> spare t t'"
    and "tr_tail (final (ring_begin i) t) = tr_tail t"
proof -
  define t1 where "t1 = (if nd_slot (node_of (tr_head t) t) = Some (tr_head t) \<and> unat (nd_count (node_of (tr_head t) t)) \<ge> MAX_ENTRIES
    then advance t else t)"
  note B = begin_ready[OF ok, folded t1_def]
  let ?s = "tr_head t1"
  have t1: "tr_tail t1 = tr_tail t" "tr_mgr t1 = tr_mgr t" "tr_map t1 = tr_map t" "tr_pending t1 = tr_pending t"
    by (simp_all add: t1_def advance_def)
  define rest where "rest = (\<lambda>_::unit. andthen (gets (\<lambda>t. nd_count (node_of ?s t))) (\<lambda>entry.
      andthen (modify (\<lambda>t. put_scratch i (open_scratch i ?s entry)
        (put_node ?s ((node_of ?s t)\<lparr>nd_slot := Some ?s, nd_count := entry + 1, nd_open := nd_open (node_of ?s t) + 1\<rparr>) t))) (\<lambda>_.
      andthen (gets tr_tombstone) (write_location ?s entry))))"
  have run: "ring_begin i t = (if nd_slot (node_of ?s t1) \<noteq> None \<and> nd_slot (node_of ?s t1) \<noteq> Some ?s
      then (Inl (RingOverflow ?s), t1) else andthen (locations_ready ?s) rest t1)"
    by (simp add: ring_begin_def Let_def t1_def rest_def)
  have main: "(ring_ok (final (ring_begin i) t) \<and> after {} t (final (ring_begin i) t))
    \<and> ((\<exists>e t'. ring_begin i t = (Inl e, t')) \<longrightarrow> (\<exists>t'. (t' = t \<or> t' = advance t) \<and> ring_begin i t = (Inl (RingOverflow (tr_head t')), t')
          \<and> nd_slot (node_of (tr_head t') t') \<noteq> None \<and> nd_slot (node_of (tr_head t') t') \<noteq> Some (tr_head t'))
        \<or> (\<exists>t'. ring_begin i t = (Inl out_of_buffers, t') \<and> \<not> card (live_slots (tr_mgr t')) < 4095
          \<and> tr_mgr t' = tr_mgr t))
    \<and> (\<forall>t'. ring_begin i t = (Inr (), t') \<longrightarrow> (\<exists>s e. find_scratch i t' = Some (open_scratch i s e)) \<and> spare t t')
    \<and> tr_tail (final (ring_begin i) t) = tr_tail t"
  proof (cases "nd_slot (node_of ?s t1) \<noteq> None \<and> nd_slot (node_of ?s t1) \<noteq> Some ?s")
    case True
    then have "ring_begin i t = (Inl (RingOverflow ?s), t1)" using run by simp
    moreover have "t1 = t \<or> t1 = advance t" by (simp add: t1_def)
    ultimately show ?thesis using B(1,2) True t1(1) by (auto simp: final_def)
  next
    case slot: False
    have cnt: "unat (nd_count (node_of ?s t1)) < MAX_ENTRIES" by (rule B(3)) (use slot in auto)
    have run': "ring_begin i t = andthen (locations_ready ?s) rest t1" using run slot by auto
    show ?thesis
    proof (cases rule: locations_ready_step[OF B(1), of ?s])
      case 1
      then have "ring_begin i t = (Inl out_of_buffers, t1)" by (simp add: run' andthen_def)
      then show ?thesis using B(1,2) 1(2) t1(1,2) by (auto simp: final_def)
    next
      case (2 t2)
      note sd = same_slotsD[OF 2(3)]
      let ?n = "node_of ?s t2"
      define t3 where "t3 = put_scratch i (open_scratch i ?s (nd_count ?n))
        (put_node ?s (?n\<lparr>nd_slot := Some ?s, nd_count := nd_count ?n + 1, nd_open := nd_open ?n + 1\<rparr>) t2)"
      have O: "ring_ok t3" "after {(?s, nd_count ?n)} t2 t3" "resident ?s t3"
        "find_scratch i t3 = Some (open_scratch i ?s (nd_count ?n))"
        using open_step[OF 2(2), of ?s, where i = i] slot cnt 2(5) by (simp_all add: sd t3_def)
      have e: "unat (nd_count ?n) < MAX_ENTRIES" using cnt by (simp add: sd)
      obtain t4 where t4: "write_location ?s (nd_count ?n) (tr_tombstone t3) t3 = (Inr (), t4)" "ring_ok t4" "same_frames t3 t4"
        "\<And>E. (?s, nd_count ?n) \<in> E \<Longrightarrow> after E t3 t4" "live_slots (tr_mgr t4) = live_slots (tr_mgr t3)"
        "tr_map t4 = tr_map t3" "tr_pending t4 = tr_pending t3"
        by (rule write_location_step[OF O(1,3) e]) blast
      have r: "ring_begin i t = (Inr (), t4)"
        using 2(1) t4(1) by (simp add: run' andthen_def rest_def gets_def modify_def t3_def)
      have "after {(?s, nd_count ?n)} t2 t4" by (rule after_trans[OF O(2) t4(4)]) simp
      then have "after {} t2 t4" by (rule after_closed) (simp add: closed_entry_def)
      then have "after {} t t4" using after_trans[OF B(2) after_trans[OF 2(4)]] by blast
      moreover have "spare t t4"
        using 2(6) t4(5-7) t1 by (simp add: spare_def t3_def) (simp add: put_scratch_def put_node_def)
      moreover have "tr_tail t4 = tr_tail t"
        using same_framesD(8)[OF t4(3)] t1(1) by (simp add: t3_def sd)
      ultimately show ?thesis using t4(2) r O(4) same_framesD(5)[OF t4(3)] by (auto simp: final_def)
    qed
  qed
  then show "ring_ok (final (ring_begin i) t) \<and> after {} t (final (ring_begin i) t)"
    "\<exists>e t'. ring_begin i t = (Inl e, t') \<Longrightarrow> (\<exists>t'. (t' = t \<or> t' = advance t) \<and> ring_begin i t = (Inl (RingOverflow (tr_head t')), t')
          \<and> nd_slot (node_of (tr_head t') t') \<noteq> None \<and> nd_slot (node_of (tr_head t') t') \<noteq> Some (tr_head t'))
        \<or> (\<exists>t'. ring_begin i t = (Inl out_of_buffers, t') \<and> \<not> card (live_slots (tr_mgr t')) < 4095
          \<and> tr_mgr t' = tr_mgr t)"
    "ring_begin i t = (Inr (), t') \<Longrightarrow> (\<exists>s e. find_scratch i t' = Some (open_scratch i s e)) \<and> spare t t'"
    "tr_tail (final (ring_begin i) t) = tr_tail t"
    by blast+
qed

datatype ring_op =
  Begin u8 | Emit part u8 "u8 list" | Append u8 "u8 list" | Record u8 "u8 list" | Anchor u8 location u16 u16
| Commit u8 | Abort u8 | Acknowledge nat | Set_Trace u8 bool | Set_In_Payload u8 bool | Reset_Footprint

fun do_ring_op :: "ring_op \<Rightarrow> trace_ring \<Rightarrow> trace_ring" where
  "do_ring_op (Begin i) = final (ring_begin i)"
| "do_ring_op (Emit w i bytes) = final (ring_emit w i bytes)"
| "do_ring_op (Append i bytes) = final (append_data i bytes)"
| "do_ring_op (Record i bytes) = final (record_data i bytes)"
| "do_ring_op (Anchor i there sz stride) = final (set_dp_anchor i there sz stride)"
| "do_ring_op (Commit i) = final (ring_commit i)"
| "do_ring_op (Abort i) = ring_abort i"
| "do_ring_op (Acknowledge up_to) = acknowledge up_to"
| "do_ring_op (Set_Trace dev b) = set_trace dev b"
| "do_ring_op (Set_In_Payload dev b) = set_in_payload dev b"
| "do_ring_op Reset_Footprint = reset_footprint"

text \<open>Code is emitted in words of 16 bits.\<close>

fun op_even :: "ring_op \<Rightarrow> bool" where
  "op_even (Emit w i bytes) \<longleftrightarrow> even (length bytes)"
| "op_even _ \<longleftrightarrow> True"

lemma ring_op_step:
  assumes ok: "ring_ok t" and ev: "op_even op"
  shows "ring_ok (do_ring_op op t) \<and> after {} t (do_ring_op op t)"
proof (cases op)
  case (Commit i)
  show ?thesis
  proof (cases "find_scratch i t")
    case None
    then show ?thesis using ok Commit by (simp add: ring_commit_def final_def)
  next
    case (Some r)
    obtain out t' where "ring_commit i t = (out, t')" by fastforce
    then show ?thesis using commit_step(1,2)[OF ok Some] Commit by (simp add: final_def)
  qed
next
  case (Acknowledge u)
  then show ?thesis using release_slots_steps[OF ok, of "min u (tr_head t)"] by (simp add: acknowledge_def)
next
  case (Set_Trace dev b)
  then show ?thesis using quietD(1,3)[OF fields_step(5)[OF ok]] by (simp add: set_trace_def)
next
  case (Set_In_Payload dev b)
  then show ?thesis using quietD(1,3)[OF fields_step(6)[OF ok]] by (simp add: set_in_payload_def)
next
  case Reset_Footprint
  then show ?thesis using quietD(1,3)[OF fields_step(1)[OF ok]] by (simp add: reset_footprint_def)
qed (use begin_step(1)[OF ok] ring_emit_step[OF ok] append_data_step[OF ok] record_data_step[OF ok] anchor_step[OF ok]
      abort_step[OF ok] ev in simp_all)

lemma ring_ops_steps:
  "ring_ok t \<Longrightarrow> \<forall>op\<in>set ops. op_even op \<Longrightarrow> ring_ok (fold do_ring_op ops t) \<and> after {} t (fold do_ring_op ops t)"
proof (induction ops arbitrary: t)
  case (Cons op ops)
  have s: "ring_ok (do_ring_op op t)" "after {} t (do_ring_op op t)" using ring_op_step[OF Cons.prems(1)] Cons.prems(2) by simp_all
  show ?case using Cons.IH[OF s(1)] Cons.prems(2) after_trans[OF s(2)] by simp
qed simp


section \<open>The initial state\<close>

lemma alloc_chain_bufs [simp]: "ch_bufs alloc_chain = []"
  by (simp add: alloc_chain_def)

lemma first_in_chain:
  assumes "append_buffer (m, c) = (Inr (), (m1, c1))" and "ch_bufs c = []" and "ch_bufs c1 \<noteq> []"
  shows "append_placed p 0 0 v (m, c) = append_placed p 0 0 v (m1, c1)"
  using assms by (simp add: append_placed_def tail_with_def chain_tail_def andthen_def)

lemma tombstone_placed:
  assumes m: "manager_ok m" and c: "ch_bufs c = []" and run: "chain_append e_halt0 0 0 0 (m, c) = (Inr loc, (m', c'))"
  shows "grown (m, c) (m', c')" and "evens m' (ch_bufs c')" and "even_location loc" and "placed m' (ch_bufs c') loc e_halt0"
    and "\<exists>k. ch_bufs c' = [k]"
proof -
  have ok: "chain_ok (m, c)" by (simp add: chain_ok_def m c)
  show "grown (m, c) (m', c')" using tame_chain_append[of e_halt0 0 0 0] ok run by (metis final_pair tame_def)
  show "evens m' (ch_bufs c')"
    using fills_chain_append[of e_halt0 0, unfolded fills_evenly_def, rule_format, of "(m, c)"] ok run
    by (simp add: evens_def c final_def)
  have "\<exists>k. handle_of m' k = loc_id loc \<and> k \<in> set (ch_bufs c') \<and> loc_offset loc = word_of_nat 0 \<and> in_use m' k = [] @ e_halt0
      \<and> manager_ok m' \<and> k \<in> live_slots m' \<and> ch_bufs c' = [k]"
  proof (cases rule: append_buffer_cases[OF ok])
    case 1
    then show ?thesis
      using run by (simp add: chain_append_def tail_with_def chain_tail_def andthen_def c)
  next
    case (2 k m1 c1)
    have ok1: "chain_ok (m1, c1)" using grown_ok[OF 2(2)] .
    have ne: "ch_bufs c1 \<noteq> []" using 2 by auto
    let ?k = "last (ch_bufs c1)"
    have l1: "manager_ok m1" "?k \<in> live_slots m1" using ok1 ne by (auto simp: chain_ok_def)
    have new: "?k \<notin> live_slots m"
      using 2(2) last_in_set[OF ne] by (auto simp: grown_def c)
    then have z: "sb_used (slab_of m1 ?k) = 0" using 2 l1(2) by (auto simp: only_fresh_def)
    have fit: "length e_halt0 \<le> remaining_capacity (slab_of m1 ?k)"
      using live_slab(2)[OF l1] z by (simp add: remaining_capacity_def BUFFER_SIZE_def)
    from append_on_tail[of m1 c1 ?k e_halt0 0, OF ok1 ne refl fit]
    obtain m2 where m2: "append_placed e_halt0 0 0 0 (m1, c1) =
        (Inr (\<lparr>loc_id = handle_of m1 ?k, loc_offset = word_of_nat (sb_used (slab_of m1 ?k))\<rparr>, ?k, sb_used (slab_of m1 ?k)), (m2, c1))"
      "grown (m1, c1) (m2, c1)" "in_use m2 ?k = in_use m1 ?k @ e_halt0" "handle_of m2 ?k = handle_of m1 ?k" by metis
    have "append_placed e_halt0 0 0 0 (m, c) = append_placed e_halt0 0 0 0 (m1, c1)"
      by (rule first_in_chain) (use 2(1) c ne in auto)
    then have e: "m' = m2" "c' = c1" "loc = \<lparr>loc_id = handle_of m1 ?k, loc_offset = word_of_nat 0\<rparr>"
      using run m2(1) z by (auto simp: chain_append_placed andthen_def ret_def)
    have "in_use m1 ?k = []" using z by (simp add: in_use_def)
    then show ?thesis
      using m2 e ne 2(3) grown_ok[OF m2(2)] by (intro exI[of _ ?k]) (auto simp: chain_ok_def c)
  qed
  then obtain k where k: "handle_of m' k = loc_id loc" "k \<in> set (ch_bufs c')" "loc_offset loc = word_of_nat 0"
    "in_use m' k = [] @ e_halt0" "manager_ok m'" "k \<in> live_slots m'" "ch_bufs c' = [k]" by blast
  then show "\<exists>k. ch_bufs c' = [k]" by blast
  show "even_location loc" by (simp add: even_location_def k(3))
  show "placed m' (ch_bufs c') loc e_halt0"
    by (rule placed_at_tail[OF k(2,4)]) (use k in \<open>simp_all add: BUFFER_SIZE_def\<close>)
qed

definition blank_ring :: "manager \<Rightarrow> nat \<Rightarrow> trace_ring" where
  "blank_ring m n = \<lparr>tr_mgr = m, tr_ring = replicate n empty_node, tr_head = 0, tr_tail = 0,
     tr_recs = (\<lambda>_. None), tr_stencils = alloc_chain, tr_tombstone = null_program, tr_map = (\<lambda>_. None),
     tr_pending = {}, tr_traced = (\<lambda>_. False), tr_in_payload = (\<lambda>_. False), tr_foot = no_footprint\<rparr>"

lemma blank_reset:
  assumes "n \<noteq> 0"
  shows "node_reset s (blank_ring m n) = blank_ring m n"
proof -
  have "node_of s (blank_ring m n) = empty_node" using assms by (simp add: node_of_def node_index_def blank_ring_def)
  moreover have "(replicate n empty_node)[k := empty_node] = replicate n empty_node" for k
    by (cases "k < n") (simp_all add: list_update_same_conv list_update_beyond)
  ultimately show ?thesis
    by (simp add: node_reset_def Let_def empty_node_def clear_chains_def chain_clear_def put_node_def)
      (simp add: blank_ring_def empty_node_def)
qed

lemma blank_clear:
  assumes "n \<noteq> 0"
  shows "ring_clear (blank_ring m n) = (case chain_append e_halt0 0 0 0 (m, alloc_chain) of
      (Inl e, (m', c)) \<Rightarrow> (Inl e, (blank_ring m' n)\<lparr>tr_stencils := c\<rparr>)
    | (Inr loc, (m', c)) \<Rightarrow> (Inr (), (blank_ring m' n)\<lparr>tr_stencils := c, tr_tombstone := \<lparr>pl_code = loc, pl_data = null_location\<rparr>\<rparr>))"
proof -
  have "ring_abort i (blank_ring m n) = blank_ring m n" for i by (simp add: ring_abort_def find_scratch_def blank_ring_def)
  then have a: "fold ring_abort is (blank_ring m n) = blank_ring m n" for "is" by (induction "is") simp_all
  have r: "fold node_reset ks (blank_ring m n) = blank_ring m n" for ks
    by (induction ks) (simp_all add: blank_reset[OF assms])
  show ?thesis
    by (simp add: ring_clear_def andthen_def modify_def a r on_stencils_def zoom_def)
      (simp add: blank_ring_def chain_clear_def split: prod.split sum.split)
qed

lemma make_ring_ok:
  assumes "make_trace_ring (fresh_manager heap) n = Inr t"
  shows "ring_ok t" and "length (tr_ring t) = n" and "card (live_slots (tr_mgr t)) = 1" and "tr_map t = (\<lambda>_. None)"
    and "tr_pending t = {}" and "nd_open (node_of s t) = 0" and "tr_tail t = 0" and "tr_head t = 0" and "nd_slot (node_of s t) = None"
proof -
  let ?m = "fresh_manager heap"
  have n: "n \<noteq> 0" and c: "case ring_clear (blank_ring ?m n) of (Inl e, _) \<Rightarrow> False | (Inr _, t') \<Rightarrow> t' = t"
    using assms by (auto simp: make_trace_ring_def blank_ring_def split: if_splits prod.splits sum.splits)
  obtain loc m c where run: "chain_append e_halt0 0 0 0 (?m, alloc_chain) = (Inr loc, (m, c))"
    and t: "t = (blank_ring m n)\<lparr>tr_stencils := c, tr_tombstone := \<lparr>pl_code = loc, pl_data = null_location\<rparr>\<rparr>"
    using c unfolding blank_clear[OF n] by (auto split: prod.splits sum.splits)
  note T = tombstone_placed[OF fresh_manager_ok alloc_chain_bufs run]
  have node: "node_of s t = empty_node" for s using n by (simp add: t node_of_def node_index_def blank_ring_def)
  have b: "bufs_at q t = (if q = K_Stencils then ch_bufs c else [])" for q
    by (cases q) (auto simp: bufs_at_def t blank_ring_def empty_node_def data_chain_of_def)
  have l: "loc_at k t = None" for k by (simp add: loc_at_def t blank_ring_def empty_node_def)
  have f: "find_scratch i t = None" for i by (simp add: find_scratch_def t blank_ring_def)
  have fields: "tr_mgr t = m" "tr_map t = (\<lambda>_. None)" "tr_head t = 0" "tr_tail t = 0" "tr_ring t = replicate n empty_node"
    "tr_tombstone t = \<lparr>pl_code = loc, pl_data = null_location\<rparr>" by (simp_all add: t blank_ring_def)
  have "distinct (ch_bufs c)" "manager_ok m" "set (ch_bufs c) \<subseteq> live_slots m"
    using T(1) by (auto simp: grown_def chain_ok_def)
  then have "store_ok t" using T(2-4) by (auto simp: store_ok_def b l fields evens_def empty_node_def)
  moreover have "shape_ok t"
    using n by (auto simp: shape_ok_def fields f node_shape_def node empty_node_def openers_def)
  ultimately show "ring_ok t" by (simp add: ring_ok_def)
  show "length (tr_ring t) = n" by (simp add: fields)
  have "live_slots ?m = {}" by (simp add: live_slots_def fresh_manager_def)
  then have "live_slots m = set (ch_bufs c)" using T(1) by (auto simp: grown_def)
  then show "card (live_slots (tr_mgr t)) = 1" using T(5) by (auto simp: fields)
  show "tr_map t = (\<lambda>_. None)" "tr_tail t = 0" "tr_head t = 0" by (simp_all add: fields)
  show "tr_pending t = {}" by (simp add: t blank_ring_def)
  show "nd_open (node_of s t) = 0" "nd_slot (node_of s t) = None" by (simp_all add: node empty_node_def)
qed


section \<open>The history\<close>

lemma data_in_place:
  assumes ok: "ring_ok t" "ring_ok t'" and a: "after {} t t'" and r: "resident s t" and tl: "tr_tail t' \<le> s"
    and p: "placed (tr_mgr t) (ch_bufs (data_chain_of i (node_of s t))) loc bytes"
  shows "code_at (buffers_of (tr_mgr t')) (loc_id loc) (unat (loc_offset loc)) bytes"
proof -
  let ?q = "K_Data (node_index s t) i"
  have b: "bufs_at ?q t = ch_bufs (data_chain_of i (node_of s t))"
    using node_index_less[OF ring_not_empty[OF ok(1)], of s] by (simp add: bufs_at_def node_of_def)
  have "keeps_key ?q t t'" using a r tl by (simp add: after_def)
  from placed_keeps_key[OF p[folded b] this ok] have "placed (tr_mgr t') (bufs_at ?q t') loc bytes" .
  then show ?thesis by (rule placed_code_at) (use ok(2) store_okD(1,2) in \<open>auto simp: ring_ok_def\<close>)
qed


text \<open>With buffers to spare, a first recording can be opened and committed.\<close>

lemma ensure_succeeds:
  assumes ok: "chain_ok (m, c)" and room: "card (live_slots m) < 4095" and n: "n \<le> BUFFER_SIZE"
  shows "fst (ensure_capacity n (m, c)) = Inr ()"
proof (cases "ch_bufs c = []")
  case True
  show ?thesis
  proof (cases rule: append_buffer_cases[OF ok])
    case (2 k m1 c1)
    have "k \<in> live_slots m1" "manager_ok m1" using grown_ok[OF 2(2)] 2(3) by (auto simp: chain_ok_def)
    then have "can_fit n (slab_of m1 k)" using live_slab(2) 2(5) n by (simp add: can_fit_def remaining_capacity_def)
    then show ?thesis using True 2(1,3) by (simp add: ensure_capacity_def chain_tail_def andthen_def)
  qed (use room in simp)
next
  case False
  then show ?thesis
    by (cases rule: append_buffer_cases[OF ok])
      (use room in \<open>simp_all add: ensure_capacity_def chain_tail_def andthen_def\<close>)
qed

lemma first_commit:
  assumes ok: "ring_ok t" and r0: "find_scratch i t = Some r0" and new: "tr_map t = (\<lambda>_. None)" "tr_pending t = {}"
    and room: "card (live_slots (tr_mgr t)) < 4095"
    and len: "length (sc_prefix r0) + length (sc_body r0) + length (sc_postfix r0) + 8 \<le> BUFFER_SIZE"
  obtains p t' where "ring_commit i t = (Inr p, t')"
proof -
  define r where "r = emit_part Postfix e_halt0 r0"
  define t1 where "t1 = release i r t"
  note C = recording_closed[OF ok r0, folded r_def, folded t1_def]
  note r = C(1-5) and ev = C(6) and ent = C(7)
  have t1: "ring_ok t1" "resident (sc_slot r) t1" using C(8,10) r(1) by simp_all
  have same: "tr_map t1 = (\<lambda>_. None)" "tr_pending t1 = {}" "tr_mgr t1 = tr_mgr t"
    using new by (simp_all add: t1_def release_def) (simp add: put_scratch_def put_node_def)
  have "\<exists>t2. resolve_body (sc_body r) t1 = (Inr (False, null_location), t2) \<and> tr_mgr t2 = tr_mgr t1"
    by (cases "sc_body r = []") (simp_all add: resolve_body_def Let_def same MAX_PENDING_HASHES_def)
  then obtain t2 where t2: "resolve_body (sc_body r) t1 = (Inr (False, null_location), t2)" "tr_mgr t2 = tr_mgr t1" by blast
  have q2: "quiet t1 t2"
    using resolve_step[OF t1(1), of "sc_body r"] ev t2(1) by (simp add: resolves_def scratch_even_def)
  note Q2 = quietD[OF q2]
  have res2: "resident (sc_slot r) t2" using t1(2) same_frames_shape(2)[OF Q2(2)] by simp
  let ?q = "K_Code (node_index (sc_slot r) t2)" and ?rs = "(False, null_location)"
  have tot: "program_total r ?rs \<le> BUFFER_SIZE" using len by (simp add: program_total_def r)
  have ch: "chain_ok (tr_mgr t2, chain_at ?q t2)" by (rule store_chain_ok) (use Q2(1) in \<open>simp add: ring_ok_def\<close>)
  have room2: "card (live_slots (tr_mgr t2)) < 4095" using room t2(2) same(3) by simp
  obtain t3 where t3: "on_chain ?q (ensure_capacity (program_total r ?rs)) t2 = (Inr (), t3)" "quiet t2 t3"
    "bufs_at ?q t3 \<noteq> []" "program_total r ?rs \<le> remaining_capacity (slab_of (tr_mgr t3) (last (bufs_at ?q t3)))"
  proof (cases rule: ensure_in_place[OF Q2(1) key_in_code[OF Q2(1), of "sc_slot r"], of "program_total r ?rs"])
    case (1 t')
    then show ?thesis
      using ensure_succeeds[OF ch room2 tot] by (auto simp: on_chain_def zoom_def split: prod.splits)
  next
    case (2 t')
    then show ?thesis using that tot by blast
  qed
  note Q3 = quietD[OF t3(2)]
  have fit: "length (concat (program_parts r ?rs)) \<le> remaining_capacity (slab_of (tr_mgr t3) (last (bufs_at ?q t3)))"
    using t3(4) by (simp only: program_parts_length)
  from append_parts_in_place[of t3 "program_parts r ?rs" "sc_slot r", unfolded Q3(5), OF Q3(1) program_parts_even[OF ev] t3(3) refl fit]
  obtain t4 loc where t4: "append_parts (sc_slot r) (program_parts r ?rs) t3 = (Inr loc, t4)" "quiet t3 t4" by blast
  define t5 where "t5 = t4\<lparr>tr_foot := (tr_foot t4)\<lparr>fp_code := fp_code (tr_foot t4) + program_total r ?rs,
        fp_code_if_inlined := fp_code_if_inlined (tr_foot t4)
          + (length (sc_prefix r) + length (sc_body r) + length (sc_postfix r))\<rparr>\<rparr>"
  have q5: "quiet t2 t5"
    unfolding t5_def using quiet_trans[OF t3(2) quiet_trans[OF t4(2) fields_step(1)[OF quietD(1)[OF t4(2)]]]] by simp
  have res5: "resident (sc_slot r) t5" using res2 same_frames_shape(2)[OF quietD(2)[OF q5]] by simp
  let ?p = "\<lparr>pl_code = loc, pl_data = sc_data_start r\<rparr>"
  obtain t6 where t6: "write_location (sc_slot r) (sc_entry r) ?p t5 = (Inr (), t6)"
    by (rule write_location_step[OF quietD(1)[OF q5] res5 ent]) blast
  have fl: "flush_to_ring r ?rs t2 = (Inr ?p, t6)"
    using t3(1) t4(1) t6
    by (simp add: flush_to_ring_def Let_def andthen_def on_code_key[OF Q2(1)] program_total_def[symmetric]
        program_total_def[of r ?rs, simplified, symmetric] count_footprint_def modify_def ret_def t5_def)
  show ?thesis
    using t2(1) fl that
    by (simp add: ring_commit_def r0 r_def[symmetric] Let_def andthen_def modify_def t1_def[symmetric] count_footprint_def ret_def)
qed

text \<open>Releasing everything, with nothing open, lets the tail reach the head.\<close>

lemma release_all:
  assumes "ring_ok t" and "limit \<le> tr_head t" and "tr_tail t \<le> limit" and "\<forall>s. nd_open (node_of s t) = 0"
  shows "tr_tail (release_slots limit t) = limit"
  using assms
proof (induction limit t rule: release_slots.induct)
  case (1 limit t)
  show ?case
  proof (cases "tr_tail t < limit")
    case True
    let ?t = "(node_reset (tr_tail t) t)\<lparr>tr_tail := tr_tail t + 1\<rparr>"
    have op: "nd_open (node_of (tr_tail t) t) = 0" using "1.prems"(4) by blast
    have R: "ring_ok ?t" "tr_head ?t = tr_head t"
      using release_step(1,3)[OF "1.prems"(1) _ op] True "1.prems"(2) by simp_all
    have ne: "tr_ring t \<noteq> []" by (rule ring_not_empty[OF "1.prems"(1)])
    have "nd_open (node_of s ?t) = 0" for s
      using "1.prems"(4) node_index_less[OF ne, of "tr_tail t"]
      by (auto simp: node_reset_def Let_def put_node_def node_of_def node_index_def nth_list_update)
    then have "tr_tail (release_slots limit ?t) = limit"
      using "1.IH"[OF conjI[OF True op] R(1)] R(2) "1.prems"(2) True by simp
    then show ?thesis using True op by (subst release_slots.simps) simp
  qed (use "1.prems"(3) in \<open>subst release_slots.simps, simp\<close>)
qed



text \<open>A history in which the hypotheses hold: a program is recorded and committed, and then another recording is aborted.\<close>

lemma make_small_ring: "\<exists>t0. make_trace_ring (fresh_manager (\<lambda>_. (0, \<lambda>_. 0))) 2 = Inr t0"
proof -
  let ?m = "fresh_manager (\<lambda>_. (0, \<lambda>_. 0))"
  obtain sl where sl: "make_slab 0 (\<lambda>_. 0) BUFFER_SIZE = Inr sl" "sb_used sl = 0" "slab_capacity sl = BUFFER_SIZE"
    using make_buffer_slab by blast
  then have "\<exists>loc s. chain_append e_halt0 0 0 0 (?m, alloc_chain) = (Inr loc, s)"
    by (simp add: chain_append_def tail_with_def chain_tail_def andthen_def append_buffer_def alloc_buffer_def
        fresh_manager_def alloc_chain_def slab_of_def reserve_fits can_fit_def remaining_capacity_def BUFFER_SIZE_def
        on_buffer_def zoom_def on_slab_def slot_at_def empty_slot_def slab_append_def padded_size_def Let_def at_offset_def)
  then obtain loc m c where "chain_append e_halt0 0 0 0 (?m, alloc_chain) = (Inr loc, (m, c))" by auto
  then show ?thesis by (simp add: make_trace_ring_def blank_ring_def[symmetric] blank_clear)
qed

definition small_recording :: "ring_op list" where
  "small_recording = [Begin 1, Emit Body 1 (packets_bytes [RP_DS 7])]"

lemma small_recording:
  assumes t0: "make_trace_ring (fresh_manager (\<lambda>_. (0, \<lambda>_. 0))) 2 = Inr t0"
  defines "t \<equiv> fold do_ring_op small_recording t0"
  shows "\<exists>r p t1. find_scratch 1 t = Some r \<and> sc_prefix r = [] \<and> sc_body r = packets_bytes [RP_DS 7] \<and> sc_postfix r = []
    \<and> ring_commit 1 t = (Inr p, t1) \<and> tr_tail t1 \<le> sc_slot r"
proof -
  note M = make_ring_ok[OF t0]
  have even7: "even (length (packets_bytes [RP_DS 7]))" "length (packets_bytes [RP_DS 7]) \<le> 100"
    by (simp_all add: packets_bytes_def e_ldr_def encode_op_def word_bytes_le_eq encode_immediate_words_def)
  have ok: "ring_ok t" using ring_ops_steps[OF M(1), of small_recording] even7 by (simp add: t_def small_recording_def)
  obtain tb where tb: "ring_begin 1 t0 = (Inr (), tb)"
  proof (cases "ring_begin 1 t0")
    case (Pair x t')
    have "nd_slot (node_of s (advance t0)) = None" for s using M(9) by (simp add: advance_def node_of_def node_index_def)
    then have "False" if "x = Inl e" for e using begin_step(2)[OF M(1), of 1] Pair that M(3,9) by auto
    then show ?thesis using that Pair by (cases x) auto
  qed
  obtain sl e where r: "find_scratch 1 tb = Some (open_scratch 1 sl e)" and sp: "spare t0 tb"
    using begin_step(3)[OF M(1) tb] by blast
  let ?r = "emit_part Body (packets_bytes [RP_DS 7]) (open_scratch 1 sl e)"
  have t: "t = put_scratch 1 ?r tb"
    using tb r by (simp add: t_def small_recording_def final_def ring_emit_def with_scratch_def modify_def)
  have f: "find_scratch 1 t = Some ?r" by (simp add: t emit_part_def open_scratch_def)
  have parts: "sc_prefix ?r = []" "sc_body ?r = packets_bytes [RP_DS 7]" "sc_postfix ?r = []"
    by (simp_all add: emit_part_def open_scratch_def)
  have sp': "card (live_slots (tr_mgr t)) < 4095" "tr_map t = (\<lambda>_. None)" "tr_pending t = {}"
    using sp M(3-5) by (simp_all add: spare_def t) (simp add: put_scratch_def)
  have len: "length (sc_prefix ?r) + length (sc_body ?r) + length (sc_postfix ?r) + 8 \<le> BUFFER_SIZE"
    using even7(2) by (simp add: parts BUFFER_SIZE_def)
  obtain p t1 where c: "ring_commit 1 t = (Inr p, t1)" by (rule first_commit[OF ok f sp'(2,3,1) len])
  note C = commit_step[OF ok f c]
  have "resident (sc_slot ?r) t1" using C(3)[OF refl len] by (simp add: committed_def closed_entry_def)
  then have "tr_tail t1 \<le> sc_slot ?r" using shape_residentD C(1) by (metis ring_ok_def)
  then show ?thesis using f parts c by blast
qed



end
