(* ===== verification/Address_Map.thy ===== *)
theory Address_Map
  imports Sim_Api
begin

text \<open>
  The address map of the bus, \<^verbatim>\<open>AddressTranslationMap\<close> of \<^verbatim>\<open>sim/memory/bus/simplebus.hpp\<close>: a sorted vector
  of regions that translates addresses of the bus to addresses of its devices.  A new region is meant to take its
  addresses from the regions that were there before.
\<close>

section \<open>Regions\<close>

record 'a bus_node =
  bn_id :: u8
  bn_from :: interval
  bn_to :: interval
  bn_data :: 'a

type_synonym 'a regions = "'a bus_node list"

definition erase_contained :: "interval \<Rightarrow> 'a regions \<Rightarrow> 'a regions" where
  "erase_contained from es = filter (\<lambda>n. \<not> contains from (bn_from n)) es"

text \<open>\<^verbatim>\<open>std::lower_bound\<close> and \<^verbatim>\<open>std::upper_bound\<close> on a sorted vector, as indices.\<close>

definition lower_bound_from :: "interval \<Rightarrow> 'a regions \<Rightarrow> nat" where
  "lower_bound_from iv es = length (takeWhile (\<lambda>n. interval_cmp (bn_from n) iv < 0) es)"

definition lower_bound_key :: "u32 \<Rightarrow> 'a regions \<Rightarrow> nat" where
  "lower_bound_key v es = length (takeWhile (\<lambda>n. lower (bn_from n) < v) es)"

definition upper_bound_from :: "interval \<Rightarrow> 'a regions \<Rightarrow> nat" where
  "upper_bound_from iv es = length (takeWhile (\<lambda>n. \<not> interval_cmp iv (bn_from n) < 0) es)"

definition cut_above :: "interval \<Rightarrow> 'a bus_node \<Rightarrow> 'a bus_node" where
  "cut_above from n =
     (let f = ival (lower (bn_from n)) (lower from)
      in n\<lparr>bn_from := f,
           bn_to := ival (lower (bn_to n)) (ucast (ucast (lower (bn_to n)) + size_exclusive f))\<rparr>)"

definition cut_below :: "interval \<Rightarrow> 'a bus_node \<Rightarrow> 'a bus_node" where
  "cut_below from n =
     (let f = ival (upper from) (upper (bn_from n))
      in n\<lparr>bn_from := f,
           bn_to := ival (ucast (ucast (upper (bn_to n)) - size_inclusive f)) (upper (bn_to n))\<rparr>)"

definition shrink_previous :: "interval \<Rightarrow> 'a regions \<Rightarrow> 'a regions" where
  "shrink_previous from es =
     (let lb = lower_bound_from from es
      in if lb \<noteq> length es \<and> lb \<noteq> 0 \<and> intersects from (bn_from (es ! (lb - 1)))
         then es[lb - 1 := cut_above from (es ! (lb - 1))] else es)"

definition shrink_next :: "interval \<Rightarrow> 'a regions \<Rightarrow> 'a regions" where
  "shrink_next from es =
     (let ub = upper_bound_from from es
      in if ub \<noteq> length es \<and> intersects from (bn_from (es ! ub))
         then es[ub := cut_below from (es ! ub)] else es)"

text \<open>\<^verbatim>\<open>std::sort\<close> by the comparison of nodes.\<close>

definition insert_node :: "'a bus_node \<Rightarrow> 'a regions \<Rightarrow> 'a regions" where
  "insert_node n es =
     takeWhile (\<lambda>e. \<not> interval_cmp (bn_from n) (bn_from e) < 0) es @ n #
     dropWhile (\<lambda>e. \<not> interval_cmp (bn_from n) (bn_from e) < 0) es"

definition sort_nodes :: "'a regions \<Rightarrow> 'a regions" where
  "sort_nodes es = fold insert_node es []"

definition insert_or_overwrite :: "interval \<Rightarrow> interval \<Rightarrow> u8 \<Rightarrow> 'a \<Rightarrow> 'a regions \<Rightarrow> 'a regions" where
  "insert_or_overwrite from to device data es =
     sort_nodes (shrink_next from (shrink_previous from (erase_contained from es))
       @ [\<lparr>bn_id = device, bn_from = from, bn_to = to, bn_data = data\<rparr>])"

text \<open>The lookup steps back from the first element of the vector when the key lies below it.\<close>

definition region_at :: "u32 \<Rightarrow> 'a regions \<Rightarrow> sim_error + 'a bus_node option" where
  "region_at v es =
     (if es = [] then Inr None
      else let lb = lower_bound_key v es
           in if lb \<noteq> length es
                 \<and> (lb = 0 \<and> contains_point (bn_from (es ! lb)) v \<or> lower (bn_from (es ! lb)) \<le> v)
              then Inr (Some (es ! lb))
              else if lb = 0 then Inl UndefinedBehaviour
              else if contains_point (bn_from (es ! (lb - 1))) v then Inr (Some (es ! (lb - 1)))
              else Inr None)"

definition translate :: "u32 \<Rightarrow> 'a regions \<Rightarrow> sim_error + (bool \<times> u8 \<times> u32)" where
  "translate v es =
     (case region_at v es of
        Inl e \<Rightarrow> Inl e
      | Inr (Some r) \<Rightarrow> Inr (True, bn_id r, offset_map v (bn_from r) (bn_to r))
      | Inr None \<Rightarrow> Inr (False, 0, 0))"

section \<open>The region that holds an address\<close>

text \<open>The latest of the regions that contain an address; regions that share an end point overlap there.\<close>

fun lookup_region :: "'a regions \<Rightarrow> u32 \<Rightarrow> 'a bus_node option" where
  "lookup_region [] v = None"
| "lookup_region (n # es) v =
     (case lookup_region es v of
        None \<Rightarrow> if contains_point (bn_from n) v then Some n else None
      | Some m \<Rightarrow> Some m)"

definition regions_sorted :: "'a regions \<Rightarrow> bool" where
  "regions_sorted es \<longleftrightarrow> (\<forall>n\<in>set es. ivalid (bn_from n)) \<and>
     sorted_wrt (\<lambda>a b. lower (bn_from a) < lower (bn_from b) \<and> upper (bn_from a) \<le> lower (bn_from b)) es"

definition regions_apart :: "'a regions \<Rightarrow> bool" where
  "regions_apart es \<longleftrightarrow> (\<forall>n\<in>set es. ivalid (bn_from n)) \<and>
     sorted_wrt (\<lambda>a b. upper (bn_from a) < lower (bn_from b)) es"

lemma contains_point_iff: "contains_point i v \<longleftrightarrow> lower i \<le> v \<and> v \<le> upper i"
  by (auto simp: contains_point_def ivalid_def)

lemma apart_sorted: "regions_apart es \<Longrightarrow> regions_sorted es"
  unfolding regions_apart_def regions_sorted_def
  by (auto intro!: sorted_wrt_mono_rel[of es "\<lambda>a b. upper (bn_from a) < lower (bn_from b)"] simp: ivalid_def)

lemma lookup_append: "lookup_region (xs @ ys) v = (case lookup_region ys v of None \<Rightarrow> lookup_region xs v | Some n \<Rightarrow> Some n)"
  by (induction xs) (auto split: option.split)

lemma lookup_None: "lookup_region es v = None \<longleftrightarrow> (\<forall>n\<in>set es. \<not> contains_point (bn_from n) v)"
  by (induction es) (auto split: option.split)

lemma lookup_Some: "lookup_region es v = Some n \<Longrightarrow> n \<in> set es \<and> contains_point (bn_from n) v"
  by (induction es) (auto split: option.splits if_splits)

lemma region_at_lookup:
  assumes so: "regions_sorted es" and ne: "es \<noteq> []"
  shows "region_at v es = (if v < lower (bn_from (hd es)) then Inl UndefinedBehaviour else Inr (lookup_region es v))"
proof -
  define xs where "xs = takeWhile (\<lambda>n. lower (bn_from n) < v) es"
  define ys where "ys = dropWhile (\<lambda>n. lower (bn_from n) < v) es"
  have es: "es = xs @ ys" by (simp add: xs_def ys_def)
  have lb: "lower_bound_key v es = length xs" by (simp add: lower_bound_key_def xs_def)
  have xs: "lower (bn_from n) < v" if "n \<in> set xs" for n using set_takeWhileD[OF that[unfolded xs_def]] by blast
  have hd: "v \<le> lower (bn_from (hd ys))" if "ys \<noteq> []" using hd_dropWhile[OF that[unfolded ys_def]] by (simp add: ys_def)
  have va: "ivalid (bn_from n)" if "n \<in> set es" for n using so that by (simp add: regions_sorted_def)
  have ys: "\<not> contains_point (bn_from n) v" if "n \<in> set ys" "v < lower (bn_from (hd ys))" for n
  proof (cases ys)
    case (Cons y zs)
    have "sorted_wrt (\<lambda>a b. lower (bn_from a) < lower (bn_from b) \<and> upper (bn_from a) \<le> lower (bn_from b)) (y # zs)"
      using so by (simp add: regions_sorted_def es Cons sorted_wrt_append)
    moreover have "n = y \<or> n \<in> set zs" using that(1) Cons by simp
    ultimately have "lower (bn_from y) \<le> lower (bn_from n)" by (elim disjE) (simp_all add: less_imp_le)
    then have "v < lower (bn_from n)" using that(2) Cons by (simp add: order_less_le_trans)
    then show ?thesis by (simp add: contains_point_iff not_le)
  qed (use that in simp)
  show ?thesis
  proof (cases "ys \<noteq> [] \<and> lower (bn_from (hd ys)) \<le> v")
    case True
    then obtain y zs where y: "ys = y # zs" "lower (bn_from y) = v" using hd by (cases ys) auto
    have "\<not> contains_point (bn_from n) v" if "n \<in> set zs" for n
      using so that y by (auto simp: regions_sorted_def es sorted_wrt_append contains_point_iff)
    then have "lookup_region zs v = None" by (simp add: lookup_None)
    moreover have "contains_point (bn_from y) v" using va[of y] y by (simp add: es contains_point_iff ivalid_def)
    ultimately have l: "lookup_region es v = Some y" by (simp add: es y(1) lookup_append)
    have "\<not> v < lower (bn_from (hd es))" using xs[of "hd xs"] y by (cases xs) (auto simp: es)
    then show ?thesis using ne y l by (simp add: region_at_def Let_def lb) (simp add: es)
  next
    case False
    then have "lookup_region ys v = None" using ys hd by (auto simp: lookup_None) 
    then have l: "lookup_region es v = lookup_region xs v" by (simp add: es lookup_append)
    have no: "\<not> (length xs \<noteq> length es \<and> (length xs = 0 \<and> contains_point (bn_from (es ! length xs)) v
        \<or> lower (bn_from (es ! length xs)) \<le> v))"
      using False by (cases ys) (auto simp: es contains_point_iff)
    show ?thesis
    proof (cases xs rule: rev_cases)
      case Nil
      then have "v < lower (bn_from (hd es))" using False ne by (auto simp: es)
      then show ?thesis using ne no Nil by (simp add: region_at_def Let_def lb)
    next
      case (snoc ws x)
      have "\<not> contains_point (bn_from n) v" if "n \<in> set ws" for n
        using so that xs[of x] by (auto simp: regions_sorted_def es snoc sorted_wrt_append contains_point_iff)
      then have "lookup_region ws v = None" by (simp add: lookup_None)
      then have "lookup_region xs v = (if contains_point (bn_from x) v then Some x else None)"
        by (simp add: snoc lookup_append)
      moreover have "\<not> v < lower (bn_from (hd es))" using xs[of "hd xs"] snoc by (cases ws) (auto simp: es)
      moreover have "es ! (length xs - 1) = x" by (simp add: es snoc nth_append)
      ultimately show ?thesis using ne no l snoc by (auto simp: region_at_def Let_def lb)
    qed
  qed
qed

lemma region_at_found:
  assumes so: "regions_sorted es" and r: "lookup_region es v = Some r"
  shows "region_at v es = Inr (Some r)"
proof (cases es)
  case (Cons n ns)
  have "r \<in> set es" "lower (bn_from r) \<le> v" using lookup_Some[OF r] by (simp_all add: contains_point_iff)
  then have "lower (bn_from n) \<le> v" using so Cons by (auto simp: regions_sorted_def)
  then show ?thesis using region_at_lookup[OF so, of v] r Cons by simp
qed (use r in simp)

lemma lookup_apart:
  assumes ap: "regions_apart es" and r: "r \<in> set es" and c: "contains_point (bn_from r) v"
  shows "lookup_region es v = Some r"
proof -
  obtain xs ys where es: "es = xs @ r # ys" using split_list[OF r] by blast
  have "\<not> contains_point (bn_from n) v" if "n \<in> set ys" for n
    using ap that c by (auto simp: regions_apart_def es sorted_wrt_append contains_point_iff)
  then show ?thesis using c by (simp add: es lookup_append lookup_None[THEN iffD2])
qed

section \<open>Adding a region\<close>

lemma cmp_valid:
  assumes "ivalid a" and "ivalid b"
  shows "interval_cmp a b < 0 \<longleftrightarrow> lower a < lower b \<or> lower a = lower b \<and> upper a < upper b"
  using assms by (auto simp: interval_cmp_def word_cmp_def)

lemma cmp_lower:
  assumes "ivalid a" and "ivalid b" and "lower a < lower b"
  shows "interval_cmp a b < 0 \<and> \<not> interval_cmp b a < 0"
  using assms by (auto simp: cmp_valid)

lemma insert_at_end:
  assumes "\<And>e. e \<in> set es \<Longrightarrow> \<not> interval_cmp (bn_from n) (bn_from e) < 0"
  shows "insert_node n es = es @ [n]"
  using assms by (simp add: insert_node_def)

lemma insert_between:
  assumes "\<And>e. e \<in> set xs \<Longrightarrow> \<not> interval_cmp (bn_from n) (bn_from e) < 0"
    and "\<And>e. e \<in> set ys \<Longrightarrow> interval_cmp (bn_from n) (bn_from e) < 0"
  shows "insert_node n (xs @ ys) = xs @ n # ys"
proof -
  have "takeWhile (\<lambda>e. \<not> interval_cmp (bn_from n) (bn_from e) < 0) (xs @ ys) = xs"
    using assms by (subst takeWhile_append2) (simp, cases ys, simp_all)
  moreover have "dropWhile (\<lambda>e. \<not> interval_cmp (bn_from n) (bn_from e) < 0) (xs @ ys) = ys"
    using assms by (subst dropWhile_append2) (simp, cases ys, simp_all)
  ultimately show ?thesis by (simp add: insert_node_def)
qed

lemma sort_sorted: "regions_sorted es \<Longrightarrow> sort_nodes es = es"
proof (induction es rule: rev_induct)
  case (snoc n es)
  have "insert_node n es = es @ [n]"
  proof (rule insert_at_end)
    fix e
    assume "e \<in> set es"
    then have "lower (bn_from e) < lower (bn_from n)" "ivalid (bn_from e)" "ivalid (bn_from n)"
      using snoc.prems by (auto simp: regions_sorted_def sorted_wrt_append)
    then show "\<not> interval_cmp (bn_from n) (bn_from e) < 0" by (auto simp: cmp_valid)
  qed
  moreover have "regions_sorted es" using snoc.prems by (simp add: regions_sorted_def sorted_wrt_append)
  ultimately show ?case using snoc.IH by (simp add: sort_nodes_def)
qed (simp add: sort_nodes_def)

lemma sort_snoc: "regions_sorted es \<Longrightarrow> sort_nodes (es @ [n]) = insert_node n es"
  using sort_sorted[of es] by (simp add: sort_nodes_def)

text \<open>A region apart from all others falls between those below it and those above it.\<close>

lemma split_at_gap:
  assumes ap: "regions_apart es" and no: "\<And>n. n \<in> set es \<Longrightarrow> \<not> intersects from (bn_from n)" and va: "ivalid from"
  obtains xs ys where "es = xs @ ys" "\<And>n. n \<in> set xs \<Longrightarrow> upper (bn_from n) < lower from"
    "\<And>n. n \<in> set ys \<Longrightarrow> upper from < lower (bn_from n)"
proof -
  define xs where "xs = takeWhile (\<lambda>n. upper (bn_from n) < lower from) es"
  define ys where "ys = dropWhile (\<lambda>n. upper (bn_from n) < lower from) es"
  have es: "es = xs @ ys" by (simp add: xs_def ys_def)
  have xs: "upper (bn_from n) < lower from" if "n \<in> set xs" for n using set_takeWhileD[OF that[unfolded xs_def]] by blast
  have hd: "\<not> upper (bn_from (hd ys)) < lower from" if "ys \<noteq> []" using hd_dropWhile[OF that[unfolded ys_def]] by (simp add: ys_def)
  have ys: "upper from < lower (bn_from n)" if mem: "n \<in> set ys" for n
  proof -
    obtain y zs where y: "ys = y # zs" using mem by (cases ys) auto
    have s: "sorted_wrt (\<lambda>a b. upper (bn_from a) < lower (bn_from b)) (y # zs)" and v: "ivalid (bn_from y)" "ivalid (bn_from n)"
      using ap mem y by (auto simp: regions_apart_def es sorted_wrt_append)
    have "n = y \<or> n \<in> set zs" using mem y by simp
    then have "\<not> upper (bn_from n) < lower from"
    proof
      assume "n \<in> set zs"
      then have "upper (bn_from y) < lower (bn_from n)" using s by simp
      moreover have "lower from \<le> upper (bn_from y)" using hd y by (simp add: not_less)
      ultimately show ?thesis using v(2) by (simp add: ivalid_def not_less)
    qed (use hd y in simp)
    then show ?thesis using no[of n] mem v(2) va by (simp add: intersects_def es not_less not_le)
  qed
  show ?thesis using that es xs ys by blast
qed

lemma lower_bound_gap:
  assumes "regions_apart (xs @ ys)" and "ivalid from" "\<And>n. n \<in> set xs \<Longrightarrow> upper (bn_from n) < lower from"
    "\<And>n. n \<in> set ys \<Longrightarrow> upper from < lower (bn_from n)"
  shows "\<And>e. e \<in> set xs \<Longrightarrow> interval_cmp (bn_from e) from < 0 \<and> \<not> interval_cmp from (bn_from e) < 0"
    and "\<And>e. e \<in> set ys \<Longrightarrow> interval_cmp from (bn_from e) < 0 \<and> \<not> interval_cmp (bn_from e) from < 0"
proof -
  have v: "ivalid (bn_from e)" if "e \<in> set (xs @ ys)" for e using assms(1) that by (simp add: regions_apart_def)
  show "interval_cmp (bn_from e) from < 0 \<and> \<not> interval_cmp from (bn_from e) < 0" if "e \<in> set xs" for e
  proof -
    have "lower (bn_from e) < lower from" using assms(3)[OF that] v[of e] that by (simp add: ivalid_def)
    then show ?thesis using v[of e] that assms(2) by (auto simp: cmp_valid)
  qed
  show "interval_cmp from (bn_from e) < 0 \<and> \<not> interval_cmp (bn_from e) from < 0" if "e \<in> set ys" for e
  proof -
    have "lower from < lower (bn_from e)" using assms(4)[OF that] assms(2) by (simp add: ivalid_def)
    then show ?thesis using v[of e] that assms(2) by (auto simp: cmp_valid)
  qed
qed

text \<open>When nothing is cut in two, the new region is added to those it does not contain.\<close>

lemma insert_apart:
  assumes ap: "regions_apart es" and va: "ivalid from"
    and whole: "\<forall>n\<in>set es. contains from (bn_from n) \<or> \<not> intersects from (bn_from n)"
  obtains xs ys where "erase_contained from es = xs @ ys"
    "insert_or_overwrite from to dev data es = xs @ \<lparr>bn_id = dev, bn_from = from, bn_to = to, bn_data = data\<rparr> # ys"
    "regions_apart (insert_or_overwrite from to dev data es)"
proof -
  define es1 where "es1 = erase_contained from es"
  let ?n = "\<lparr>bn_id = dev, bn_from = from, bn_to = to, bn_data = data\<rparr>"
  have no: "\<not> intersects from (bn_from n)" if "n \<in> set es1" for n
    using whole that by (auto simp: es1_def erase_contained_def)
  have ap1: "regions_apart es1"
    using ap by (auto simp: regions_apart_def es1_def erase_contained_def sorted_wrt_filter)
  obtain xs ys where g: "es1 = xs @ ys" "\<And>n. n \<in> set xs \<Longrightarrow> upper (bn_from n) < lower from"
    "\<And>n. n \<in> set ys \<Longrightarrow> upper from < lower (bn_from n)"
    using split_at_gap[OF ap1 no va] by metis
  note cmp = lower_bound_gap[OF ap1[unfolded g(1)] va g(2,3)]
  have "shrink_previous from es1 = es1"
  proof -
    have "lower_bound_from from es1 \<le> length es1" by (simp add: lower_bound_from_def length_takeWhile_le)
    then have "es1 ! (lower_bound_from from es1 - 1) \<in> set es1" if "lower_bound_from from es1 \<noteq> 0"
      using that by (intro nth_mem) simp
    then show ?thesis using no by (auto simp: shrink_previous_def Let_def)
  qed
  moreover have "shrink_next from es1 = es1"
  proof -
    have "upper_bound_from from es1 \<le> length es1" by (simp add: upper_bound_from_def length_takeWhile_le)
    then have "es1 ! upper_bound_from from es1 \<in> set es1" if "upper_bound_from from es1 \<noteq> length es1"
      using that by (intro nth_mem) simp
    then show ?thesis using no by (auto simp: shrink_next_def Let_def)
  qed
  moreover have "insert_node ?n es1 = xs @ ?n # ys"
    unfolding g(1) by (rule insert_between) (use cmp in simp_all)
  ultimately have r: "insert_or_overwrite from to dev data es = xs @ ?n # ys"
    using sort_snoc[OF apart_sorted[OF ap1]] by (simp add: insert_or_overwrite_def es1_def)
  have "regions_apart (xs @ ?n # ys)"
    using ap1 g va by (auto simp: regions_apart_def sorted_wrt_append)
  then show ?thesis using that g(1) r by (simp add: es1_def)
qed

lemma lookup_filter:
  "(\<And>n. n \<in> set es \<Longrightarrow> \<not> P n \<Longrightarrow> \<not> contains_point (bn_from n) v) \<Longrightarrow> lookup_region (filter P es) v = lookup_region es v"
  by (induction es) (auto split: option.split)

lemma mod_of_diff: "m dvd k \<Longrightarrow> (x mod k - y mod k) mod m = (x - y) mod (m :: int)"
  by (metis mod_diff_eq mod_mod_cancel)

lemma mod_of_sum: "m dvd k \<Longrightarrow> (x mod k + y mod k) mod m = (x + y) mod (m :: int)"
  by (metis mod_add_eq mod_mod_cancel)

lemma narrow_diff: "(ucast (x - y :: u64) :: u32) = ucast x - ucast y"
  by transfer (simp add: take_bit_eq_mod mod_mod_cancel mod_of_diff)

lemma narrow_add: "(ucast (x + y :: u64) :: u32) = ucast x + ucast y"
  by transfer (simp add: take_bit_eq_mod mod_mod_cancel mod_of_sum)

lemma narrow_widen: "(ucast (ucast (x :: u32) :: u64) :: u32) = x"
  by transfer simp

section \<open>Properties\<close>

text \<open>
  Property C36.  The map of regions is a partial function from addresses to regions.  Adding a region that cuts
  no other in two makes it the region of its own addresses and leaves the region of every other address as it was;
  the binary search finds the region of an address, except below the first region, where it reads before the vector.
\<close>

theorem region_map_refines:
  assumes "regions_apart es" and "ivalid from"
    and "\<forall>n\<in>set es. contains from (bn_from n) \<or> \<not> intersects from (bn_from n)"
  shows "let es' = insert_or_overwrite from to dev data es; n = \<lparr>bn_id = dev, bn_from = from, bn_to = to, bn_data = data\<rparr>
    in regions_apart es'
      \<and> (\<forall>v. lookup_region es' v = (if contains_point from v then Some n else lookup_region es v))
      \<and> (\<forall>v. region_at v es' =
            (if v < lower (bn_from (hd es')) then Inl UndefinedBehaviour else Inr (lookup_region es' v)))"
proof -
  let ?n = "\<lparr>bn_id = dev, bn_from = from, bn_to = to, bn_data = data\<rparr>"
  obtain xs ys where g: "erase_contained from es = xs @ ys" "insert_or_overwrite from to dev data es = xs @ ?n # ys"
    "regions_apart (insert_or_overwrite from to dev data es)" by (rule insert_apart[OF assms, of to dev data])
  have ap: "regions_apart (xs @ ?n # ys)" using g(2,3) by simp
  have "lookup_region (xs @ ?n # ys) v = (if contains_point from v then Some ?n else lookup_region es v)" for v
  proof (cases "contains_point from v")
    case True
    have "lookup_region ys v = None"
      using ap True by (auto simp: lookup_None regions_apart_def sorted_wrt_append contains_point_iff)
    then show ?thesis using True by (simp add: lookup_append)
  next
    case False
    have "lookup_region (xs @ ys) v = lookup_region es v"
      unfolding g(1)[symmetric] erase_contained_def
    proof (rule lookup_filter)
      fix n
      assume "\<not> \<not> contains from (bn_from n)"
      then show "\<not> contains_point (bn_from n) v"
        using False by (auto simp: contains_def contains_point_iff split: if_splits)
    qed
    moreover have "lookup_region (xs @ ?n # ys) v = lookup_region (xs @ ys) v"
      using False by (simp add: lookup_append split: option.split)
    ultimately show ?thesis using False by simp
  qed
  moreover have "region_at v (xs @ ?n # ys) = (if v < lower (bn_from (hd (xs @ ?n # ys))) then Inl UndefinedBehaviour
      else Inr (lookup_region (xs @ ?n # ys) v))" for v
    by (rule region_at_lookup[OF apart_sorted[OF ap]]) simp
  ultimately show ?thesis using ap by (simp add: Let_def g(2))
qed

text \<open>Two adjacent regions, and a third that replaces the second.\<close>

theorem region_map_refines_witness:
  "let es = [\<lparr>bn_id = 1, bn_from = ival 0 9, bn_to = ival 100 109, bn_data = ()\<rparr>,
             \<lparr>bn_id = 2, bn_from = ival 12 15, bn_to = ival 0 3, bn_data = ()\<rparr>];
       es' = insert_or_overwrite (ival 10 19) (ival 50 59) 3 () es
   in region_at 13 es' = Inr (Some \<lparr>bn_id = 3, bn_from = ival 10 19, bn_to = ival 50 59, bn_data = ()\<rparr>)
      \<and> lookup_region es' 9 = lookup_region es 9"
proof -
  let ?es = "[\<lparr>bn_id = 1 :: u8, bn_from = ival 0 9, bn_to = ival 100 109, bn_data = ()\<rparr>,
    \<lparr>bn_id = 2, bn_from = ival 12 15, bn_to = ival 0 3, bn_data = ()\<rparr>]"
  have "regions_apart ?es" "ivalid (ival 10 19)"
    "\<forall>n\<in>set ?es. contains (ival 10 19) (bn_from n) \<or> \<not> intersects (ival 10 19) (bn_from n)" by code_simp+
  note R = region_map_refines[OF this, of "ival 50 59" 3 "()", unfolded Let_def]
  have hd: "lower (bn_from (hd (insert_or_overwrite (ival 10 19) (ival 50 59) 3 () ?es))) = 0" by code_simp
  have c: "contains_point (ival 10 19) 13" "\<not> contains_point (ival 10 19) 9" by code_simp+
  show ?thesis unfolding Let_def using R c hd by simp
qed

text \<open>
  Property C37.  A new region that covers the beginning of an old one moves the rest of the old one: what is left
  of it begins at the last address of the new region, which therefore still belongs to the old device, and every
  address of it is translated to the one below its own.
\<close>

theorem overlapped_region_shifts:
  assumes "regions_apart (xs @ r # ys)" and "\<forall>n\<in>set xs. upper (bn_from n) < lower from" and "lower from < upper from"
    and "lower from \<le> lower (bn_from r)" and "lower (bn_from r) \<le> upper from" and "upper from < upper (bn_from r)"
    and "upper (bn_to r) = lower (bn_to r) + (upper (bn_from r) - lower (bn_from r))"
    and "upper from \<le> v" and "v \<le> upper (bn_from r)"
  shows "translate v (xs @ r # ys) = Inr (True, bn_id r, offset_map v (bn_from r) (bn_to r))
    \<and> translate v (insert_or_overwrite from to dev data (xs @ r # ys))
        = Inr (True, bn_id r, offset_map v (bn_from r) (bn_to r) - 1)"
proof -
  let ?n = "\<lparr>bn_id = dev, bn_from = from, bn_to = to, bn_data = data\<rparr>" and ?c = "cut_below from r"
  have so: "regions_sorted (xs @ r # ys)" by (rule apart_sorted[OF assms(1)])
  have va: "ivalid from" "ivalid (bn_from r)" using assms(1,3) by (simp_all add: ivalid_def regions_apart_def)
  have above: "upper (bn_from r) < lower (bn_from n)" "ivalid (bn_from n)" if "n \<in> set ys" for n
    using assms(1) that by (auto simp: regions_apart_def sorted_wrt_append)
  have below: "lower (bn_from n) \<le> upper (bn_from n)" "ivalid (bn_from n)" "upper (bn_from n) < lower from" if "n \<in> set xs" for n
    using assms(1,2) that by (auto simp: regions_apart_def ivalid_def)
  have cf: "lower (bn_from ?c) = upper from" "upper (bn_from ?c) = upper (bn_from r)" "bn_id ?c = bn_id r"
    by (simp_all add: cut_below_def ival_def Let_def)
  have era: "erase_contained from (xs @ r # ys) = xs @ r # ys"
  proof -
    have "\<not> contains from (bn_from n)" if "n \<in> set (xs @ r # ys)" for n
      using that above[of n] below[of n] assms(3,6) by (auto simp: contains_def ivalid_def)
    then show ?thesis by (simp add: erase_contained_def filter_id_conv)
  qed
  have "interval_cmp (bn_from n) from < 0 \<and> \<not> interval_cmp from (bn_from n) < 0" if "n \<in> set xs" for n
    using below[OF that] va by (auto simp: cmp_valid)
  moreover have r: "interval_cmp from (bn_from r) < 0 \<and> \<not> interval_cmp (bn_from r) from < 0"
    using assms(4,6) va by (auto simp: cmp_valid)
  ultimately have b: "lower_bound_from from (xs @ r # ys) = length xs" "upper_bound_from from (xs @ r # ys) = length xs"
    by (simp_all add: lower_bound_from_def upper_bound_from_def takeWhile_tail)
  have "\<not> intersects from (bn_from (last xs))" if "xs \<noteq> []"
    using below(3)[of "last xs"] that by (auto simp: intersects_def)
  then have prv: "shrink_previous from (xs @ r # ys) = xs @ r # ys"
    unfolding shrink_previous_def b Let_def by (cases "xs = []") (simp_all add: nth_append last_conv_nth)
  have "intersects from (bn_from r)" using va assms(4-6) by (auto simp: intersects_def ivalid_def)
  then have nxt: "shrink_next from (xs @ r # ys) = xs @ ?c # ys"
    by (simp add: shrink_next_def b Let_def)
  have so1: "regions_sorted (xs @ ?c # ys)"
    using so assms(3-6) cf below above
    by (auto simp: regions_sorted_def sorted_wrt_append ivalid_def)
  have "insert_node ?n (xs @ ?c # ys) = xs @ ?n # ?c # ys"
  proof (rule insert_between)
    fix e
    show "\<not> interval_cmp (bn_from ?n) (bn_from e) < 0" if "e \<in> set xs"
      using cmp_lower[of "bn_from e" "from"] below[OF that] va by simp
    show "interval_cmp (bn_from ?n) (bn_from e) < 0" if e: "e \<in> set (?c # ys)"
    proof -
      have "ivalid (bn_from e)" using e so1 by (auto simp: regions_sorted_def)
      moreover have "lower from < lower (bn_from e)"
      proof (cases "e = ?c")
        case False
        then have "upper (bn_from r) < lower (bn_from e)" using e above by simp
        then show ?thesis using assms(3,6) by simp
      qed (use cf assms(3) in simp)
      ultimately have "ivalid (bn_from e)" "lower from < lower (bn_from e)" by simp_all
      then show ?thesis using cmp_lower[of "from" "bn_from e"] va by simp
    qed
  qed
  then have res: "insert_or_overwrite from to dev data (xs @ r # ys) = xs @ ?n # ?c # ys"
    using sort_snoc[OF so1] by (simp add: insert_or_overwrite_def era prv nxt)
  have "lower (bn_from n) < lower from" "upper (bn_from n) \<le> lower from" if "n \<in> set xs" for n
    using below[OF that] by simp_all
  moreover have "lower from < lower (bn_from n)" "upper from \<le> lower (bn_from n)" if "n \<in> set ys" for n
    using above(1)[OF that] assms(3,6) by simp_all
  ultimately have so2: "regions_sorted (xs @ ?n # ?c # ys)"
    using so1 assms(3) va cf(1) by (auto simp: regions_sorted_def sorted_wrt_append)
  have at: "region_at v L = Inr (Some n)"
    if L: "regions_sorted L" "L = us @ n # ys" "contains_point (bn_from n) v" "lower (bn_from (hd L)) \<le> v" for L us n
  proof -
    have "\<not> contains_point (bn_from m) v" if "m \<in> set ys" for m
      using order_le_less_trans[OF assms(9) above(1)[OF that]] by (simp add: contains_point_iff not_le)
    then have "lookup_region ys v = None" by (simp add: lookup_None)
    then have "lookup_region L v = Some n" using L(3) by (simp add: L(2) lookup_append)
    then show ?thesis using region_at_lookup[OF L(1), of v] L(2,4) by simp
  qed
  have v: "lower (bn_from r) \<le> v" "lower from \<le> v" using assms(3,5,8) by simp_all
  have hd: "lower (bn_from (hd (xs @ ms))) \<le> v" if "lower (bn_from (hd ms)) \<le> v" for ms
    using below(1,3)[of "hd xs"] v(2) that by (cases xs) auto
  have old: "region_at v (xs @ r # ys) = Inr (Some r)"
    by (rule at[OF so refl]) (use v assms(9) hd in \<open>simp_all add: contains_point_iff\<close>)
  have new: "region_at v (xs @ ?n # ?c # ys) = Inr (Some ?c)"
    by (rule at[OF so2, of "xs @ [?n]"]) (use v assms(8,9) hd in \<open>simp_all add: contains_point_iff cf\<close>)
  have "lower (bn_to ?c) = upper (bn_to r) - (upper (bn_from r) - upper from + 1)"
    using less_imp_le[OF assms(6)] by (simp add: cut_below_def Let_def ival_def size_inclusive_def size_of_def ivalid_def narrow_diff narrow_add narrow_widen)
  then have "offset_map v (bn_from ?c) (bn_to ?c) = offset_map v (bn_from r) (bn_to r) - 1"
    using assms(7) by (simp add: offset_map_def cf)
  then show ?thesis by (simp add: translate_def old new res cf)
qed

theorem overlapped_region_shifts_witness:
  "let es = [\<lparr>bn_id = 1, bn_from = ival 10 19, bn_to = ival 100 109, bn_data = ()\<rparr>];
       es' = insert_or_overwrite (ival 5 12) (ival 0 7) 2 () es
   in translate 12 es' = Inr (True, 1, 101) \<and> translate 15 es = Inr (True, 1, 105) \<and> translate 15 es' = Inr (True, 1, 104)"
proof -
  let ?r = "\<lparr>bn_id = 1 :: u8, bn_from = ival 10 19, bn_to = ival 100 109, bn_data = ()\<rparr>"
  have a: "regions_apart ([] @ ?r # [])" "\<forall>n\<in>set []. upper (bn_from n) < lower (ival 5 12)"
    "lower (ival 5 12) < upper (ival 5 12)" "lower (ival 5 12) \<le> lower (bn_from ?r)" "lower (bn_from ?r) \<le> upper (ival 5 12)"
    "upper (ival 5 12) < upper (bn_from ?r)"
    "upper (bn_to ?r) = lower (bn_to ?r) + (upper (bn_from ?r) - lower (bn_from ?r))"
    "upper (ival 5 12) \<le> 12" "12 \<le> upper (bn_from ?r)" "upper (ival 5 12) \<le> 15" "15 \<le> upper (bn_from ?r)" by code_simp+
  have m: "offset_map 12 (bn_from ?r) (bn_to ?r) = 102" "offset_map 15 (bn_from ?r) (bn_to ?r) = 105" by code_simp+
  show ?thesis
    using overlapped_region_shifts[OF a(1-9), of "ival 0 7" 2 "()"]
      overlapped_region_shifts[OF a(1-7,10,11), of "ival 0 7" 2 "()"] m by (simp add: Let_def)
qed

end
