(* ===== verification/Simple_Bus.thy ===== *)
theory Simple_Bus
  imports Address_Map Tvm_Memory Ascii_Text "HOL-Library.AList"
begin

text \<open>
  The bus of \<^verbatim>\<open>sim/memory/bus/simplebus\<close>, which forwards accesses to its devices region by region.  Seen
  through the locale \<open>memory_system\<close>, several byte memories in one state, a bus is a memory whose bytes are
  those of the devices behind it, for accesses that stay within one region.
\<close>

section \<open>Access rights\<close>

definition Access_None :: u8 where "Access_None = 0"
definition Access_Read :: u8 where "Access_Read = push_bit 0 1"
definition Access_Write :: u8 where "Access_Write = push_bit 1 1"
definition Access_Execute :: u8 where "Access_Execute = push_bit 2 1"

text \<open>What a device-tree node says of a mapping, and how it is written back.\<close>

definition parse_access :: "string option \<Rightarrow> u8" where
  "parse_access text =
     (case text of
        None \<Rightarrow> Access_Read OR Access_Write OR Access_Execute
      | Some s \<Rightarrow>
          (let access = to_lower s
           in (if CHR ''r'' \<notin> set access then Access_Read else Access_None)
              OR (if CHR ''w'' \<notin> set access then Access_Write else Access_None)
              OR (if CHR ''x'' \<notin> set access then Access_Execute else Access_None)))"

definition serialize_access :: "u8 \<Rightarrow> string" where
  "serialize_access a =
     (if a AND Access_Read \<noteq> 0 then ''r'' else '''')
     @ (if a AND Access_Write \<noteq> 0 then ''w'' else '''')
     @ (if a AND Access_Execute \<noteq> 0 then ''x'' else '''')"

section \<open>The bus\<close>

record mapping =
  mp_target :: string
  mp_access :: u8
  mp_source :: interval
  mp_offset :: u32

text \<open>
  A device is a target with its \<^verbatim>\<open>clear\<close>; the states of all devices are one state, which the bus does not
  own.
\<close>

record 'd bus_device =
  bt_target :: "'d target_ops"
  bt_clear :: "u8 \<Rightarrow> 'd \<Rightarrow> 'd"

record 'd simple_bus =
  bu_span :: interval
  bu_policy :: fail_policy
  bu_mappings :: "mapping list"
  bu_addrs :: "u8 regions"
  bu_devices :: "(u8 \<times> 'd bus_device) list"
  bu_trace :: recorder

definition make_bus :: "interval \<Rightarrow> fail_policy \<Rightarrow> mapping list \<Rightarrow> 'd simple_bus" where
  "make_bus span policy ms =
     \<lparr>bu_span = span, bu_policy = policy, bu_mappings = ms, bu_addrs = [], bu_devices = [],
      bu_trace = \<lparr>bound = False, emitter = 0\<rparr>\<rparr>"

text \<open>
  \<^verbatim>\<open>initialize\<close>, over the lookup of a device by name: a name may be that of no device, or of a device that
  is not a target.
\<close>

definition add_mapping :: "mapping \<Rightarrow> u8 \<Rightarrow> 'd bus_device \<Rightarrow> 'd simple_bus \<Rightarrow> 'd simple_bus" where
  "add_mapping m i dev b =
     (let target_span = from_point_size (mp_offset m) (size_exclusive (mp_source m))
      in b\<lparr>bu_addrs := insert_or_overwrite (mp_source m) target_span i (mp_access m) (bu_addrs b),
           bu_devices := AList.update i dev (bu_devices b)\<rparr>)"

fun add_mappings ::
  "(string \<Rightarrow> (u8 \<times> 'd bus_device option) option) \<Rightarrow> mapping list \<Rightarrow> ('d simple_bus, sim_error, unit) sm" where
  "add_mappings look [] = ret ()"
| "add_mappings look (m # ms) =
     (case look (mp_target m) of
        None \<Rightarrow> throw (LogicError (''SimpleBus::initialize: mapping target not found: '' @ mp_target m))
      | Some (i, None) \<Rightarrow> throw (LogicError (''SimpleBus::initialize: mapping target is not a Target: '' @ mp_target m))
      | Some (i, Some dev) \<Rightarrow> andthen (modify (add_mapping m i dev)) (\<lambda>_. add_mappings look ms))"

definition bus_initialize :: "(string \<Rightarrow> (u8 \<times> 'd bus_device option) option) \<Rightarrow> ('d simple_bus, sim_error, unit) sm" where
  "bus_initialize look = andthen (gets bu_mappings) (add_mappings look)"

definition bus_device_of :: "u8 \<Rightarrow> 'd simple_bus \<Rightarrow> 'd bus_device option" where
  "bus_device_of i b = map_of (bu_devices b) i"

definition bus_clear :: "u8 \<Rightarrow> 'd simple_bus \<Rightarrow> 'd \<Rightarrow> 'd" where
  "bus_clear fill b d = fold (\<lambda>(_, dev). bt_clear dev fill) (bu_devices b) d"

definition bus_dump :: "(sim_error + u8 list)" where
  "bus_dump = Inl (LogicError ''SimpleBus::dump not implemented'')"

definition bus_set_recorder :: "recorder \<Rightarrow> 'd simple_bus \<Rightarrow> 'd simple_bus" where
  "bus_set_recorder r b = b\<lparr>bu_trace := r\<rparr>"

definition bus_trace :: "bool \<Rightarrow> 'd simple_bus \<Rightarrow> trace_buffer \<Rightarrow> trace_buffer" where
  "bus_trace enabled b = set_traced (bu_trace b) enabled"

definition bus_traced :: "'d simple_bus \<Rightarrow> trace_buffer \<Rightarrow> bool" where
  "bus_traced b = traced (bu_trace b)"

text \<open>One round of the loops: the region, its device, how many bytes it is given, and where they lie in the device.\<close>

definition bus_step :: "'d simple_bus \<Rightarrow> u32 \<Rightarrow> nat \<Rightarrow> 'd \<Rightarrow> sim_error + ('d bus_device \<times> nat \<times> u32)" where
  "bus_step b address len d =
     (case region_at address (bu_addrs b) of
        Inl e \<Rightarrow> Inl e
      | Inr None \<Rightarrow> Inl (MemError Unmapped address)
      | Inr (Some r) \<Rightarrow>
          (case bus_device_of (bn_id r) b of
             None \<Rightarrow> Inl UndefinedBehaviour
           | Some dev \<Rightarrow>
               Inr (dev, min len (unat (size_inclusive (t_span (bt_target dev) d))), offset_map address (bn_from r) (bn_to r))))"

text \<open>
  The loops.  A device with an empty span is given no bytes, and a round that makes no progress may be repeated for
  ever: the result is then \<open>None\<close>.
\<close>

partial_function (option) bus_read_loop ::
  "'d simple_bus \<Rightarrow> u32 \<Rightarrow> u32 \<Rightarrow> nat \<Rightarrow> operation \<Rightarrow> u8 list \<Rightarrow> 'd \<Rightarrow> ((sim_error + u8 list) \<times> 'd) option" where
  "bus_read_loop b address offset len p dest d =
     (if len = 0 then Some (Inr dest, d)
      else case bus_step b (address + offset) len d of
        Inl e \<Rightarrow> Some (Inl e, d)
      | Inr (dev, usable, src) \<Rightarrow>
          (case t_read (bt_target dev) src (take usable (drop (unat offset) dest)) p d of
             (Inl e, d') \<Rightarrow> Some (Inl e, d')
           | (Inr bs, d') \<Rightarrow>
               bus_read_loop b address (offset + word_of_nat usable) (len - usable) p (patch dest (unat offset) bs) d'))"

partial_function (option) bus_write_loop ::
  "'d simple_bus \<Rightarrow> u32 \<Rightarrow> u32 \<Rightarrow> nat \<Rightarrow> operation \<Rightarrow> u8 list \<Rightarrow> 'd \<Rightarrow> ((sim_error + unit) \<times> 'd) option" where
  "bus_write_loop b address offset len p src d =
     (if len = 0 then Some (Inr (), d)
      else case bus_step b (address + offset) len d of
        Inl e \<Rightarrow> Some (Inl e, d)
      | Inr (dev, usable, dst) \<Rightarrow>
          (case t_write (bt_target dev) dst (take usable (drop (unat offset) src)) p d of
             (Inl e, d') \<Rightarrow> Some (Inl e, d')
           | (Inr _, d') \<Rightarrow> bus_write_loop b address (offset + word_of_nat usable) (len - usable) p src d'))"

definition bus_read :: "'d simple_bus \<Rightarrow> u32 \<Rightarrow> u8 list \<Rightarrow> operation \<Rightarrow> 'd \<Rightarrow> ((sim_error + u8 list) \<times> 'd) option" where
  "bus_read b address dest p d =
     (if out_of_bounds (bu_span b) address (length dest) then Some (Inl (MemError OOBAccess address), d)
      else bus_read_loop b address 0 (length dest) p dest d)"

definition bus_write :: "'d simple_bus \<Rightarrow> u32 \<Rightarrow> u8 list \<Rightarrow> operation \<Rightarrow> 'd \<Rightarrow> ((sim_error + unit) \<times> 'd) option" where
  "bus_write b address src p d =
     (if out_of_bounds (bu_span b) address (length src) then Some (Inl (MemError OOBAccess address), d)
      else bus_write_loop b address 0 (length src) p src d)"

section \<open>Several memories in one state\<close>

locale memory_system =
  fixes ops :: "u8 \<Rightarrow> 'd target_ops"
    and good :: "u8 \<Rightarrow> 'd \<Rightarrow> bool"
    and bytes :: "u8 \<Rightarrow> 'd \<Rightarrow> nat \<Rightarrow> u8"
  assumes memory: "byte_memory (ops i) (good i) (bytes i)"
    and read_elsewhere: "good i d \<Longrightarrow> good j d \<Longrightarrow> j \<noteq> i \<Longrightarrow> t_read (ops i) a dest p d = (r, d') \<Longrightarrow>
      good j d' \<and> bytes j d' = bytes j d \<and> t_span (ops j) d' = t_span (ops j) d"
    and write_elsewhere: "good i d \<Longrightarrow> good j d \<Longrightarrow> j \<noteq> i \<Longrightarrow> t_write (ops i) a src p d = (u, d') \<Longrightarrow>
      good j d' \<and> bytes j d' = bytes j d \<and> t_span (ops j) d' = t_span (ops j) d"

begin

text \<open>An access to one memory, seen from all of them.\<close>

lemma read_one:
  assumes "good i d" and "within (t_span (ops i) d) a (length dest)"
  obtains d' where "t_read (ops i) a dest p d = (Inr (get_bytes (bytes i d) (unat a) (length dest)), d')"
    "\<And>j. good j d \<Longrightarrow> good j d' \<and> bytes j d' = bytes j d \<and> t_span (ops j) d' = t_span (ops j) d"
proof -
  obtain d' where r: "t_read (ops i) a dest p d = (Inr (get_bytes (bytes i d) (unat a) (length dest)), d')"
    "good i d'" "bytes i d' = bytes i d" "t_span (ops i) d' = t_span (ops i) d"
    using byte_memory.read_within[OF memory assms] by blast
  then show ?thesis using that[OF r(1)] read_elsewhere[OF assms(1) _ _ r(1)] by metis
qed

lemma write_one:
  assumes "good i d" and "within (t_span (ops i) d) a (length src)"
  obtains d' where "t_write (ops i) a src p d = (Inr (), d')"
    "\<And>j. good j d \<Longrightarrow> good j d' \<and> t_span (ops j) d' = t_span (ops j) d
        \<and> bytes j d' = (if j = i then put_bytes (bytes i d) (unat a) src else bytes j d)"
proof -
  obtain d' where r: "t_write (ops i) a src p d = (Inr (), d')"
    "good i d'" "bytes i d' = put_bytes (bytes i d) (unat a) src" "t_span (ops i) d' = t_span (ops i) d"
    using byte_memory.write_within[OF memory assms] by blast
  then show ?thesis using that[OF r(1)] write_elsewhere[OF assms(1) _ _ r(1)] by metis
qed

end

section \<open>A bus over memories\<close>

definition region_fits :: "interval \<Rightarrow> 'a bus_node \<Rightarrow> bool" where
  "region_fits span r \<longleftrightarrow> ivalid (bn_to r) \<and> lower span \<le> lower (bn_to r) \<and> upper (bn_to r) \<le> upper span
     \<and> unat (upper (bn_to r)) - unat (lower (bn_to r)) = unat (upper (bn_from r)) - unat (lower (bn_from r))"

text \<open>
  A bus that is set up well: its regions are apart, each maps into a memory, and no two show the same bytes.
\<close>

definition bus_wired :: "(u8 \<Rightarrow> 'd target_ops) \<Rightarrow> (u8 \<Rightarrow> 'd \<Rightarrow> bool) \<Rightarrow> 'd simple_bus \<Rightarrow> 'd \<Rightarrow> bool" where
  "bus_wired ops good b d \<longleftrightarrow> regions_apart (bu_addrs b)
     \<and> (\<forall>r\<in>set (bu_addrs b). good (bn_id r) d \<and> region_fits (t_span (ops (bn_id r)) d) r
          \<and> map_option bt_target (bus_device_of (bn_id r) b) = Some (ops (bn_id r)))
     \<and> (\<forall>r\<in>set (bu_addrs b). \<forall>r'\<in>set (bu_addrs b).
          bn_id r = bn_id r' \<longrightarrow> r = r' \<or> \<not> intersects (bn_to r) (bn_to r'))"

definition bus_byte :: "(u8 \<Rightarrow> 'd \<Rightarrow> nat \<Rightarrow> u8) \<Rightarrow> 'd simple_bus \<Rightarrow> 'd \<Rightarrow> u32 \<Rightarrow> u8" where
  "bus_byte bytes b d v =
     (case lookup_region (bu_addrs b) v of
        None \<Rightarrow> 0
      | Some r \<Rightarrow> bytes (bn_id r) d (unat (offset_map v (bn_from r) (bn_to r))))"

definition one_region :: "'d simple_bus \<Rightarrow> u32 \<Rightarrow> nat \<Rightarrow> bool" where
  "one_region b a n \<longleftrightarrow> 0 < n \<and> n < 2 ^ 32 \<and> \<not> out_of_bounds (bu_span b) a n
     \<and> (case lookup_region (bu_addrs b) a of
          None \<Rightarrow> False
        | Some r \<Rightarrow> unat a + n \<le> unat (upper (bn_from r)) + 1)"

lemma offset_in_region:
  assumes "region_fits span r" and "contains_point (bn_from r) v"
  shows "unat (offset_map v (bn_from r) (bn_to r)) = unat (lower (bn_to r)) + (unat v - unat (lower (bn_from r)))"
    and "unat (offset_map v (bn_from r) (bn_to r)) + (unat (upper (bn_from r)) - unat v) = unat (upper (bn_to r))"
proof -
  have le: "lower (bn_from r) \<le> v" "v \<le> upper (bn_from r)" "lower (bn_to r) \<le> upper (bn_to r)"
    using assms by (simp_all add: contains_point_iff region_fits_def ivalid_def)
  then have n: "unat (lower (bn_from r)) \<le> unat v" "unat v \<le> unat (upper (bn_from r))"
    "unat (lower (bn_to r)) \<le> unat (upper (bn_to r))" by (simp_all add: word_le_nat_alt)
  have d: "unat (v - lower (bn_from r)) = unat v - unat (lower (bn_from r))" by (rule unat_sub[OF le(1)])
  have s: "unat (upper (bn_to r)) - unat (lower (bn_to r)) = unat (upper (bn_from r)) - unat (lower (bn_from r))"
    using assms(1) by (simp add: region_fits_def)
  have "unat (lower (bn_to r)) + unat (v - lower (bn_from r)) \<le> unat (upper (bn_to r))" using d n s by linarith
  then have "unat (lower (bn_to r)) + unat (v - lower (bn_from r)) < 2 ^ 32"
    using unsigned_less[of "upper (bn_to r)", where 'a = nat] by simp
  then have "unat (offset_map v (bn_from r) (bn_to r)) = unat (lower (bn_to r)) + unat (v - lower (bn_from r))"
    by (simp add: offset_map_def unat_word_ariths(1))
  then show "unat (offset_map v (bn_from r) (bn_to r)) = unat (lower (bn_to r)) + (unat v - unat (lower (bn_from r)))"
    and "unat (offset_map v (bn_from r) (bn_to r)) + (unat (upper (bn_from r)) - unat v) = unat (upper (bn_to r))"
    using d n s by linarith+
qed

lemma one_regionD:
  assumes w: "bus_wired ops good b d" and o: "one_region b a n"
  obtains r dev where "lookup_region (bu_addrs b) a = Some r" "r \<in> set (bu_addrs b)" "contains_point (bn_from r) a"
    "bt_target dev = ops (bn_id r)" "good (bn_id r) d" "region_fits (t_span (ops (bn_id r)) d) r"
    "unat a + n \<le> unat (upper (bn_from r)) + 1" "within (t_span (ops (bn_id r)) d) (offset_map a (bn_from r) (bn_to r)) n"
    "bus_step b a n d = Inr (dev, n, offset_map a (bn_from r) (bn_to r))"
proof -
  obtain r where r: "lookup_region (bu_addrs b) a = Some r" "unat a + n \<le> unat (upper (bn_from r)) + 1" "0 < n" "n < 2 ^ 32"
    using o by (auto simp: one_region_def split: option.splits)
  have m: "r \<in> set (bu_addrs b)" "contains_point (bn_from r) a" using lookup_Some[OF r(1)] by simp_all
  have f: "good (bn_id r) d" "region_fits (t_span (ops (bn_id r)) d) r"
    "map_option bt_target (bus_device_of (bn_id r) b) = Some (ops (bn_id r))" using w m(1) by (simp_all add: bus_wired_def)
  then obtain dev where dev: "bus_device_of (bn_id r) b = Some dev" "bt_target dev = ops (bn_id r)" by auto
  have ra: "region_at a (bu_addrs b) = Inr (Some r)"
    by (rule region_at_found[OF _ r(1)]) (rule apart_sorted, use w in \<open>simp add: bus_wired_def\<close>)
  let ?src = "offset_map a (bn_from r) (bn_to r)" and ?sp = "t_span (ops (bn_id r)) d"
  note off = offset_in_region[OF f(2) m(2)]
  have sp: "unat (lower ?sp) \<le> unat (lower (bn_to r))" "unat (upper (bn_to r)) \<le> unat (upper ?sp)" "ivalid (bn_to r)"
    using f(2) by (simp_all add: region_fits_def word_le_nat_alt)
  have a: "unat a \<le> unat (upper (bn_from r))" using m(2) by (simp add: contains_point_iff word_le_nat_alt)
  have fit: "unat ?src + n \<le> unat (upper ?sp) + 1" "unat (lower ?sp) \<le> unat ?src"
    using off sp(1,2) r(2) a by linarith+
  have wi: "within ?sp ?src n" using fit r(3,4) by (simp add: within_def)
  have "ivalid ?sp" using fit r(3) by (simp add: ivalid_def word_le_nat_alt)
  then have "n \<le> unat (size_inclusive ?sp)" using fit by (simp add: size_inclusive_unat)
  then have "bus_step b a n d = Inr (dev, n, ?src)" by (simp add: bus_step_def ra dev)
  then show ?thesis using that r m f(1,2) dev(2) wi by blast
qed

lemma one_region_address:
  assumes w: "bus_wired ops good b d" and r: "lookup_region (bu_addrs b) a = Some r" and k: "unat a + k \<le> unat (upper (bn_from r))"
  shows "lookup_region (bu_addrs b) (a + word_of_nat k) = Some r"
    and "unat (offset_map (a + word_of_nat k) (bn_from r) (bn_to r)) = unat (offset_map a (bn_from r) (bn_to r)) + k"
proof -
  have m: "r \<in> set (bu_addrs b)" "contains_point (bn_from r) a" using lookup_Some[OF r] by simp_all
  have lt: "unat a + k < 2 ^ 32" using k unsigned_less[of "upper (bn_from r)", where 'a = nat] by simp
  then have ak: "unat (a + word_of_nat k) = unat a + k" by (simp add: unat_word_ariths(1) unat_of_nat)
  then have c: "contains_point (bn_from r) (a + word_of_nat k)"
    using m(2) k by (simp add: contains_point_iff word_le_nat_alt)
  show "lookup_region (bu_addrs b) (a + word_of_nat k) = Some r"
    by (rule lookup_apart[OF _ m(1) c]) (use w in \<open>simp add: bus_wired_def\<close>)
  have "region_fits (t_span (ops (bn_id r)) d) r" using w m(1) by (simp add: bus_wired_def)
  from offset_in_region(1)[OF this c] offset_in_region(1)[OF this m(2)]
  show "unat (offset_map (a + word_of_nat k) (bn_from r) (bn_to r)) = unat (offset_map a (bn_from r) (bn_to r)) + k"
    using ak m(2) by (simp add: contains_point_iff word_le_nat_alt)
qed

context memory_system
begin

lemma bus_read_one_region:
  assumes w: "bus_wired ops good b d" and o: "one_region b a (length dest)"
  obtains d' where "bus_read b a dest p d = Some (Inr (map (\<lambda>k. bus_byte bytes b d (a + word_of_nat k)) [0..<length dest]), d')"
    "bus_wired ops good b d'" "\<And>v. bus_byte bytes b d' v = bus_byte bytes b d v"
proof (cases rule: one_regionD[OF w o])
  case (1 r dev)
  let ?src = "offset_map a (bn_from r) (bn_to r)" and ?n = "length dest"
  let ?bs = "get_bytes (bytes (bn_id r) d) (unat ?src) ?n"
  obtain d' where d': "t_read (ops (bn_id r)) ?src dest p d = (Inr ?bs, d')"
    "\<And>j. good j d \<Longrightarrow> good j d' \<and> bytes j d' = bytes j d \<and> t_span (ops j) d' = t_span (ops j) d"
    using read_one[OF 1(5,8)] by metis
  have n: "0 < ?n" and ib: "\<not> out_of_bounds (bu_span b) a ?n" using o by (simp_all add: one_region_def)
  have "bus_read_loop b a 0 ?n p dest d = Some (Inr ?bs, d')"
    using n 1(4,9) d'(1)
    by (subst bus_read_loop.simps) (simp add: bus_read_loop.simps[of b a _ 0] patch_def)
  then have run: "bus_read b a dest p d = Some (Inr ?bs, d')" by (simp add: bus_read_def ib)
  have bs: "?bs = map (\<lambda>k. bus_byte bytes b d (a + word_of_nat k)) [0..<?n]"
    unfolding get_bytes_def
  proof (rule map_cong[OF refl])
    fix k
    assume "k \<in> set [0..<?n]"
    then have "unat a + k \<le> unat (upper (bn_from r))" using 1(7) by simp
    from one_region_address[OF w 1(1) this]
    show "bytes (bn_id r) d (unat ?src + k) = bus_byte bytes b d (a + word_of_nat k)" by (simp add: bus_byte_def)
  qed
  have good: "good (bn_id q) d" if "q \<in> set (bu_addrs b)" for q using w that by (simp add: bus_wired_def)
  have "bus_wired ops good b d'" using w d'(2)[OF good] by (simp add: bus_wired_def)
  moreover have "bus_byte bytes b d' v = bus_byte bytes b d v" for v
    using d'(2)[OF good] lookup_Some by (fastforce simp: bus_byte_def split: option.split)
  ultimately show ?thesis using that run bs by metis
qed

lemma bus_write_one_region:
  assumes w: "bus_wired ops good b d" and o: "one_region b a (length src)"
  obtains d' where "bus_write b a src p d = Some (Inr (), d')" "bus_wired ops good b d'"
    "\<And>v. bus_byte bytes b d' v =
        (if unat a \<le> unat v \<and> unat v < unat a + length src then src ! (unat v - unat a) else bus_byte bytes b d v)"
proof (cases rule: one_regionD[OF w o])
  case (1 r dev)
  let ?dst = "offset_map a (bn_from r) (bn_to r)" and ?n = "length src"
  obtain d' where d': "t_write (ops (bn_id r)) ?dst src p d = (Inr (), d')"
    "\<And>j. good j d \<Longrightarrow> good j d' \<and> t_span (ops j) d' = t_span (ops j) d
        \<and> bytes j d' = (if j = bn_id r then put_bytes (bytes (bn_id r) d) (unat ?dst) src else bytes j d)"
    using write_one[OF 1(5,8)] by metis
  have n: "0 < ?n" and ib: "\<not> out_of_bounds (bu_span b) a ?n" using o by (simp_all add: one_region_def)
  have "bus_write_loop b a 0 ?n p src d = Some (Inr (), d')"
    using n 1(4,9) d'(1) by (subst bus_write_loop.simps) (simp add: bus_write_loop.simps[of b a _ 0])
  then have run: "bus_write b a src p d = Some (Inr (), d')" by (simp add: bus_write_def ib)
  have good: "good (bn_id q) d" if "q \<in> set (bu_addrs b)" for q using w that by (simp add: bus_wired_def)
  have wired: "bus_wired ops good b d'" using w d'(2)[OF good] by (simp add: bus_wired_def)
  have "bus_byte bytes b d' v =
      (if unat a \<le> unat v \<and> unat v < unat a + ?n then src ! (unat v - unat a) else bus_byte bytes b d v)" for v
  proof (cases "unat a \<le> unat v \<and> unat v < unat a + ?n")
    case True
    then obtain k where k: "unat v = unat a + k" "k < ?n" by (metis le_Suc_ex nat_add_left_cancel_less)
    have v: "v = a + word_of_nat k" using arg_cong[OF k(1), of "word_of_nat :: nat \<Rightarrow> u32"] by simp
    have "unat a + k \<le> unat (upper (bn_from r))" using k(2) 1(7) by simp
    from one_region_address[OF w 1(1) this, folded v] show ?thesis
      using k d'(2)[OF 1(5)] by (simp add: bus_byte_def put_bytes_def)
  next
    case False
    show ?thesis
    proof (cases "lookup_region (bu_addrs b) v")
      case None
      then have "bus_byte bytes b d' v = bus_byte bytes b d v" by (simp add: bus_byte_def)
      then show ?thesis using False by auto
    next
      case (Some q)
      have q: "q \<in> set (bu_addrs b)" "contains_point (bn_from q) v" using lookup_Some[OF Some] by simp_all
      have "bytes (bn_id q) d' (unat (offset_map v (bn_from q) (bn_to q))) = bytes (bn_id q) d (unat (offset_map v (bn_from q) (bn_to q)))"
        if same: "bn_id q = bn_id r"
      proof -
        have fq: "region_fits (t_span (ops (bn_id q)) d) q" using w q(1) by (simp add: bus_wired_def)
        note oq = offset_in_region[OF fq q(2)] and or = offset_in_region[OF 1(6,3)]
        have "unat (offset_map v (bn_from q) (bn_to q)) < unat ?dst \<or> unat ?dst + ?n \<le> unat (offset_map v (bn_from q) (bn_to q))"
        proof (cases "q = r")
          case True
          then show ?thesis using oq(1) or(1) False q(2) 1(3) by (auto simp: contains_point_iff word_le_nat_alt)
        next
          case False
          then have "\<not> intersects (bn_to q) (bn_to r)" using w q(1) 1(2) same by (auto simp: bus_wired_def)
          then have "unat (upper (bn_to q)) < unat (lower (bn_to r)) \<or> unat (upper (bn_to r)) < unat (lower (bn_to q))"
            using fq 1(6) by (auto simp: intersects_def region_fits_def word_le_nat_alt)
          then show ?thesis using oq or 1(7) by linarith
        qed
        then show ?thesis using d'(2)[OF 1(5)] same by (auto simp: put_bytes_def)
      qed
      then show ?thesis using False Some d'(2)[OF good[OF q(1)]] by (auto simp: bus_byte_def)
    qed
  qed
  then show ?thesis using that[OF run wired] by blast
qed

end

lemma memory_ok_any_log: "memory_ok (dev, tb) \<longleftrightarrow> memory_ok (dev, tb')"
  by (cases dev) (simp_all add: dense_ok_def sparse_ok_def)

lemma memory_store_any_log: "memory_store (dev, tb) = memory_store (dev, tb')"
  by (cases dev) (simp_all add: dense_store_def sparse_store_def)

lemma device_span_any_log: "device_span (dev, tb) = device_span (dev, tb')"
  by (cases dev) (simp_all add: dense_span_def sparse_span_def bank_span_def csr_span_def fifo_span_def)

lemma at_target_elsewhere:
  assumes "at_target i m sys = (r, sys')" and "j \<noteq> i"
  shows "find_by_id j sys' = find_by_id j sys"
  using assms by (auto simp: at_target_def on_device_def find_by_id_def split: option.splits prod.splits)

lemma memory_unchanged:
  assumes "find_by_id j sys' = find_by_id j sys"
  shows "memory_at j sys' = memory_at j sys" "bytes_at j sys' = bytes_at j sys"
    "t_span (system_ops j) sys' = t_span (system_ops j) sys"
  using memory_ok_any_log memory_store_any_log device_span_any_log
  by (auto simp: memory_at_def bytes_at_def system_ops_def assms split: option.splits)

lemma target_elsewhere:
  assumes "at_target i m sys = (r, sys')" and "j \<noteq> i" and "memory_at j sys"
  shows "memory_at j sys' \<and> bytes_at j sys' = bytes_at j sys \<and> t_span (system_ops j) sys' = t_span (system_ops j) sys"
  using memory_unchanged[OF at_target_elsewhere[OF assms(1,2)]] assms(3) by simp

interpretation all: memory_system system_ops memory_at bytes_at
proof (rule memory_system.intro)
  fix i
  show "byte_memory (system_ops i) (memory_at i) (bytes_at i)" by (rule sy.byte_memory_axioms)
next
  fix i j and d d' :: system and a :: u32 and dest :: "u8 list" and p r
  assume A: "memory_at j d" "j \<noteq> i" "t_read (system_ops i) a dest p d = (r, d')"
  have "at_target i (device_read a dest p) d = (r, d')" using A(3) by (simp add: system_ops_def)
  from target_elsewhere[OF this A(2,1)]
  show "memory_at j d' \<and> bytes_at j d' = bytes_at j d \<and> t_span (system_ops j) d' = t_span (system_ops j) d" .
next
  fix i j and d d' :: system and a :: u32 and src :: "u8 list" and p u
  assume A: "memory_at j d" "j \<noteq> i" "t_write (system_ops i) a src p d = (u, d')"
  have "at_target i (device_write a src p) d = (u, d')" using A(3) by (simp add: system_ops_def)
  from target_elsewhere[OF this A(2,1)]
  show "memory_at j d' \<and> bytes_at j d' = bytes_at j d \<and> t_span (system_ops j) d' = t_span (system_ops j) d" .
qed

section \<open>Properties\<close>

text \<open>
  Property C35.  A bus is a memory.  On a bus whose regions are apart, each within a memory of the system and no two
  on the same bytes, an access that stays within one region succeeds: a read returns the bytes that the map and the
  devices give to its addresses and changes none, and a write changes exactly the bytes of its addresses, on the
  whole bus.
\<close>

theorem bus_is_memory:
  assumes "bus_wired system_ops memory_at b sys"
  shows "(one_region b a (length dest) \<longrightarrow>
      (\<exists>sys'. bus_read b a dest p sys = Some (Inr (map (\<lambda>k. bus_byte bytes_at b sys (a + word_of_nat k)) [0..<length dest]), sys')
        \<and> bus_wired system_ops memory_at b sys' \<and> bus_byte bytes_at b sys' = bus_byte bytes_at b sys))
    \<and> (one_region b a (length src) \<longrightarrow>
      (\<exists>sys'. bus_write b a src p sys = Some (Inr (), sys') \<and> bus_wired system_ops memory_at b sys'
        \<and> bus_byte bytes_at b sys' = (\<lambda>v. if unat a \<le> unat v \<and> unat v < unat a + length src
              then src ! (unat v - unat a) else bus_byte bytes_at b sys v)))"
proof (intro conjI impI)
  assume "one_region b a (length dest)"
  from all.bus_read_one_region[OF assms this, of p] show "\<exists>sys'. bus_read b a dest p sys
      = Some (Inr (map (\<lambda>k. bus_byte bytes_at b sys (a + word_of_nat k)) [0..<length dest]), sys')
      \<and> bus_wired system_ops memory_at b sys' \<and> bus_byte bytes_at b sys' = bus_byte bytes_at b sys"
    by (metis ext)
next
  assume "one_region b a (length src)"
  from all.bus_write_one_region[OF assms this, of p] show "\<exists>sys'. bus_write b a src p sys = Some (Inr (), sys')
      \<and> bus_wired system_ops memory_at b sys' \<and> bus_byte bytes_at b sys' = (\<lambda>v. if unat a \<le> unat v \<and> unat v < unat a + length src
              then src ! (unat v - unat a) else bus_byte bytes_at b sys v)"
    by (metis (no_types, lifting) ext)
qed

text \<open>Two memories of 16 bytes side by side on a bus.\<close>

definition two_memories :: system where
  "two_memories =
     \<lparr>sys_devices = [1 \<mapsto> Dev_Dense (make_dense (ival 0 15) 7), 2 \<mapsto> Dev_Dense (make_dense (ival 0 15) 9)],
      sys_tb = fresh_trace_buffer 1, sys_scan = fresh_scan, sys_host = (\<lambda>_. [])\<rparr>"

definition two_names :: "string \<Rightarrow> (u8 \<times> system bus_device option) option" where
  "two_names name =
     (if name = ''a'' then Some (1, Some \<lparr>bt_target = system_ops 1, bt_clear = (\<lambda>_ sys. sys)\<rparr>)
      else if name = ''b'' then Some (2, Some \<lparr>bt_target = system_ops 2, bt_clear = (\<lambda>_ sys. sys)\<rparr>) else None)"

definition two_mappings :: "mapping list" where
  "two_mappings =
     [\<lparr>mp_target = ''b'', mp_access = 7, mp_source = ival 16 31, mp_offset = 0\<rparr>,
      \<lparr>mp_target = ''a'', mp_access = 7, mp_source = ival 0 15, mp_offset = 0\<rparr>]"

theorem bus_is_memory_witness:
  "\<exists>b sys'. bus_initialize two_names (make_bus (ival 0 31) RaiseError two_mappings) = (Inr (), b)
     \<and> bus_write b 18 [1, 2] (mk_op Standard Kind_data 0) two_memories = Some (Inr (), sys')
     \<and> bus_byte bytes_at b sys' 19 = 2 \<and> bus_byte bytes_at b sys' 3 = 7"
proof -
  define b where "b = final (bus_initialize two_names) (make_bus (ival 0 31) RaiseError two_mappings)"
  have ad: "insert_or_overwrite (ival 0 15) (from_point_size 0 (size_exclusive (ival 0 15))) 1 7
      (insert_or_overwrite (ival 16 31) (from_point_size 0 (size_exclusive (ival 16 31))) 2 7 []) =
      [\<lparr>bn_id = 1, bn_from = ival 0 15, bn_to = ival 0 15, bn_data = 7\<rparr>, \<lparr>bn_id = 2, bn_from = ival 16 31, bn_to = ival 0 15, bn_data = 7 :: u8\<rparr>]"
    by code_simp
  have run: "bus_initialize two_names (make_bus (ival 0 31) RaiseError two_mappings) = (Inr (), b)"
    by (simp add: b_def final_def bus_initialize_def make_bus_def two_mappings_def two_names_def)
  have b: "bu_addrs b = [\<lparr>bn_id = 1, bn_from = ival 0 15, bn_to = ival 0 15, bn_data = 7\<rparr>, \<lparr>bn_id = 2, bn_from = ival 16 31, bn_to = ival 0 15, bn_data = 7\<rparr>]"
    "bu_span b = ival 0 31" "map_option bt_target (bus_device_of 1 b) = Some (system_ops 1)"
    "map_option bt_target (bus_device_of 2 b) = Some (system_ops 2)"
    by (simp_all add: b_def final_def bus_initialize_def make_bus_def two_mappings_def two_names_def add_mapping_def Let_def ad bus_device_of_def)
  have iv: "ivalid (ival 0 15)" "ivalid (ival 16 31)" "upper (ival 0 15) < lower (ival 16 31)" by code_simp+
  have m: "memory_at 1 two_memories" "memory_at 2 two_memories" "t_span (system_ops 1) two_memories = ival 0 15"
    "t_span (system_ops 2) two_memories = ival 0 15"
    by (simp_all add: memory_at_def find_by_id_def two_memories_def make_dense_ok system_ops_def dense_span_def)
      (simp_all add: make_dense_def)
  have wired: "bus_wired system_ops memory_at b two_memories"
    using iv m b(3,4) by (simp add: bus_wired_def b(1) regions_apart_def region_fits_def ival_def)
  have one: "one_region b 18 (length [1, 2 :: u8])"
    by (simp add: one_region_def b contains_point_def ivalid_def ival_def out_of_bounds_def max_addr_def)
  obtain sys' where w: "bus_write b 18 [1, 2] (mk_op Standard Kind_data 0) two_memories = Some (Inr (), sys')"
    "bus_byte bytes_at b sys' = (\<lambda>v. if unat (18 :: u32) \<le> unat v \<and> unat v < unat (18 :: u32) + length [1, 2 :: u8]
        then [1, 2] ! (unat v - unat (18 :: u32)) else bus_byte bytes_at b two_memories v)"
    using bus_is_memory[OF wired, of 18 _ _ "[1, 2]"] one by blast
  have "bus_byte bytes_at b two_memories 3 = 7"
    by (simp add: bus_byte_def b contains_point_def ivalid_def ival_def offset_map_def bytes_at_def find_by_id_def two_memories_def
        dense_store_def make_dense_def size_inclusive_unat)
  then show ?thesis using run w by (intro exI[of _ b] exI[of _ sys']) simp
qed

text \<open>
  The access rights of a mapping are read the wrong way round: writing the rights of a mapping out
  and reading them back gives the rights it did not have.
\<close>

theorem access_rights_inverted:
  assumes "a \<le> 7"
  shows "parse_access (Some (serialize_access a)) = 7 - a"
proof -
  have "\<forall>n\<in>{0..<8}. parse_access (Some (serialize_access (word_of_nat n))) = 7 - word_of_nat n" by code_simp
  moreover have "unat a \<in> {0..<8}" using assms by (simp add: word_le_nat_alt)
  ultimately have "parse_access (Some (serialize_access (word_of_nat (unat a)))) = 7 - word_of_nat (unat a)" by blast
  then show ?thesis by simp
qed

theorem access_rights_inverted_witness: "parse_access (Some (serialize_access Access_Read)) = Access_Write OR Access_Execute"
  using access_rights_inverted[of 1] by (simp add: Access_Read_def Access_Write_def Access_Execute_def)

end
