(* ===== verification/Spec2Isabelle.thy ===== *)
theory Spec2Isabelle
  imports Pep10_Isa Pep9_Isa Bits Interval Sparse_Ram Fifo_Register Register_Banks Pep_Execution
    Tvm_Registers Buffer_Chain Tvm_Replay Trace_History
    Simple_Bus
begin

text \<open>
  A verification of the core of Pepp, the simulator of the Pep virtual computers: the C++20 library
  under \<^verbatim>\<open>src/core/core\<close>.  Paths below are relative to that directory.

  \<^bold>\<open>The program.\<close>  A simulated system is a set of devices that talk through \<^verbatim>\<open>Target\<close>
  (\<^verbatim>\<open>sim/api/memory.hpp\<close>): \<^verbatim>\<open>read\<close> and \<^verbatim>\<open>write\<close> of byte spans at 32-bit addresses, tagged with an
  \<^verbatim>\<open>Operation\<close> that says who asks and why, and failing with a thrown \<^verbatim>\<open>Error\<close>.  Memories
  (\<^verbatim>\<open>sim/memory\<close>) implement it; the Pep processor (\<^verbatim>\<open>sim/cores/cpu\<close>) is a client of it, and its
  register and flag banks implement it too, so that a debugger may edit them as memory.  On a clock
  tick the processor decodes one instruction through the dispatch table that the instruction set
  (\<^verbatim>\<open>arch/pep/isa\<close>) builds at compile time, runs its handler and writes the program counter back.
  Every device that changes state describes the change to a write-ahead trace
  (\<^verbatim>\<open>sim/debugger\<close>), in which the packets of one instruction form a recording that is committed or
  aborted as a whole.  A small virtual machine replays such programs, forwards to redo and backwards to
  undo what they describe: its interpreter decodes packets from numbered buffers and a backend applies
  them to the memories, to the FIFO registers and, through the register scan, to the registers.

  \<^bold>\<open>Style.\<close>  A struct or class is a record, an enumeration a datatype, a w-bit integer a word of that
  width (\<open>u8\<close>, \<open>u16\<close>, \<open>u32\<close>, \<open>u64\<close>), a byte span a list.  An operation that may throw is a
  state-and-error computation \<open>'s \<Rightarrow> ('e + 'a) \<times> 's\<close> (theory Prelude): a throw is \<open>Inl\<close> and keeps the
  state reached so far, as in C++.  A member object is a part of the state, reached by \<open>zoom\<close>.  Where
  C++ leaves the outcome undefined, the model returns \<open>UndefinedBehaviour\<close> or \<open>None\<close>, and the
  properties show where that cannot happen.  Assertions that only debug builds check are not part of
  the model; where a proof needs one, it is a hypothesis.

  \<^bold>\<open>Theories.\<close>
  \<^item> Prelude: the integer types, state-and-error computations with their unfolding rules
    (\<open>sm_simps\<close>) and a calculus for invariants of computations (\<open>keeps_intros\<close>), overwriting a
    stretch of a list, bytes of words (\<open>word_bytes\<close>).
  \<^item> Ascii\_Text: \<^verbatim>\<open>ds/string_compare\<close>, \<^verbatim>\<open>ds/hash/fnv\<close>; keyed tables without regard to case.
  \<^item> Isa\_Shared, Pep10\_Isa, Pep9\_Isa: \<^verbatim>\<open>arch/pep/isa\<close>.  Mnemonics, instruction types, the decode
    table \<^verbatim>\<open>opcodeLUT\<close> of the assembler and the table of operations of the simulator, built by the
    same sequence of overwriting steps as in \<^verbatim>\<open>initOpcodes\<close>; printing, parsing, predicates.  An
    instruction card, written from the reference card of each machine, is the specification.
  \<^item> Bits: \<^verbatim>\<open>math/bitmanip\<close>, byte order, reversal, masks, high products, copies.
  \<^item> Interval: \<^verbatim>\<open>math/geom/interval.hpp\<close>.
  \<^item> Sim\_Api: \<^verbatim>\<open>sim/api/memory.hpp\<close> and \<^verbatim>\<open>sim/memory/errors.hpp\<close>; the locale \<open>byte_memory\<close>
    states what a memory promises to its clients.
  \<^item> Trace\_Log: \<^verbatim>\<open>sim/debugger/trace_recorder\<close> and \<^verbatim>\<open>tvm_tracebuffer\<close>; the locale
    \<open>traced_memory\<close> adds to \<open>byte_memory\<close> that accesses only extend an open recording.
  \<^item> Dense\_Ram, Paged\_Pool, Sparse\_Ram: \<^verbatim>\<open>sim/memory/ram\<close> and \<^verbatim>\<open>ds/alloc/paged.hpp\<close>.  Both memories
    interpret both locales.
  \<^item> Fifo\_Register: \<^verbatim>\<open>sim/memory/io/fifo\<close>.
  \<^item> Register\_Banks: \<^verbatim>\<open>sim/cores/cpu/pep_regbank\<close> and \<^verbatim>\<open>pep_csrbank\<close>.
  \<^item> Pep\_Cpu: \<^verbatim>\<open>sim/cores/cpu/pep_isa\<close> and \<^verbatim>\<open>pep_isa_instructions.cpp\<close>, one definition per handler.
  \<^item> Pep\_Machine: the abstract machine the processor promises to be, with registers, flags, 64 KiB
    of bytes and integer arithmetic; Pep\_Alu: word arithmetic against integer arithmetic;
    Pep\_Refinement: every handler, the dispatch and one instruction simulate the machine, over any
    \<open>traced_memory\<close>; Pep\_Execution: clock ticks, whole programs, and the statements on the two
    memories.

  \<^item> Tvm\_Machine: \<^verbatim>\<open>sim/debugger/tvm_opcodes.hpp\<close> and \<^verbatim>\<open>tvm_machine\<close>: the state of the virtual machine;
    its call stack seen as a list of return addresses.
  \<^item> Tvm\_Encoding, Tvm\_Decoder: \<^verbatim>\<open>tvm_encoding.hpp\<close> and \<^verbatim>\<open>tvm_decoder\<close>; Tvm\_Packets: decoding gives
    back what was encoded, for every packet that the recorder emits.
  \<^item> Register\_Scan: \<^verbatim>\<open>register_scanner\<close>, the registry through which registers and their fields are
    read, written, reset and sampled.
  \<^item> Tvm\_Backend, Tvm\_Apply: \<^verbatim>\<open>tvm_backend\<close>, \<^verbatim>\<open>tvm_apply_backend\<close> and \<^verbatim>\<open>tvm_interpreter\<close>; Tvm\_Safety:
    what no program can break; Tvm\_Memory, Tvm\_Registers: applying a change and undoing it.  The
    memories of a system interpret \<open>byte_memory\<close> through their identifier; a register and a field of a
    register interpret \<open>bit_cell\<close>, a value of some width that can be read and set.

  \<^item> Address\_Map, Simple\_Bus: \<^verbatim>\<open>sim/memory/bus/simplebus\<close>.  The map is an abstract partial
    function (\<open>lookup_region\<close>) as long as insertions cut no region in two; the locale \<open>memory_system\<close>
    states what several memories in one state promise, and the bus is proved over it.
  \<^item> Slab, Buffer\_Manager, Buffer\_Chain: \<^verbatim>\<open>ds/alloc/paged.hpp\<close> and \<^verbatim>\<open>pagechain\<close>: blocks filled from
    the front, the manager of the numbered buffers that hold traces, and append-only chains of them.  What is
    stored in a chain stays where it is while memory grows (\<open>stored_grows\<close>), and the trace machine reads it
    through the identifier of the buffer (\<open>stored_code_at\<close>).
  \<^item> Tvm\_Replay: what a packet does to the registers and devices, without bytes or instruction pointer, and the
    interpreter on the bytes of a recorded program.
  \<^item> Trace\_Ring: \<^verbatim>\<open>tvm_tracebuffer\<close> down to its bytes: recordings in scratch buffers, the ring of slots with their
    location, code and data buffers, the promotion of repeated bodies to subroutines, cursors, the release of slots.
  \<^item> Trace\_Store, Trace\_Steps, Trace\_History: what the ring of Trace\_Ring keeps.  \<open>store_ok\<close> says that every live
    buffer belongs to one chain or to the locations of one slot, \<open>shape_ok\<close> that slots, entries and open
    recordings fit together; \<open>ring_ok\<close> is both, and holds of a new ring and after every operation.
    \<open>after E t t'\<close> relates a state to a later one: what lies in a slot that is not released stays where it is,
    and so do the locations of all entries but those of \<open>E\<close>.  A sequence of operations is a list of
    \<open>ring_op\<close>, run by \<open>do_ring_op\<close>; the two properties of the ring quantify over all such lists.

  \<^bold>\<open>Bounds and loops.\<close>  Loops over spans are structural recursion over the list.  The loop of the page
  pool recomputes a 32-bit remainder in every round and is a recursion with a measure, or \<open>None\<close> in
  the round that makes no progress; \<open>paged_pool_is_array\<close> shows that it ends with a result.  Programs
  run for a number of ticks given from outside, as the scheduler does; no fuel is hidden.  The loop of the
  trace machine may run for ever and is a partial function whose result is then \<open>None\<close>.

  \<^bold>\<open>Parameters.\<close>  The processor is given the references of the registers it exposes.  The buffers that
  the trace machine reads are a map from identifiers to bytes; the neighbours of a buffer in its data
  chain are a pair of functions.  The identity of a device and the capacity of the trace ring are fields
  of the state; so are the address and the initial bytes of the storage a buffer gets from the heap.

  \<^bold>\<open>Not modelled.\<close>  Construction of devices from JSON device trees (third-party JSON library) and
  serialisation; raw pointers to variables of the simulator are numbers of variables in the state of the
  scan; the assemblers, the linear IR and the ELF writer; the microcode level; the graphical and
  command-line front ends and the older Qt libraries under \<^verbatim>\<open>src/lib\<close>.  The emitters of the recorder produce
  packets as data (Trace\_Log); their bytes are those of Tvm\_Encoding.  Watermark callbacks of the trace buffer,
  which are functions of the host, are left out.
\<close>

end
